(* ===== verification/KPrelude.thy ===== *)
theory KPrelude
  imports Main "HOL-Library.Word" "HOL-Library.Monad_Syntax"
begin

text \<open>
  The prelude of the development: the machine integer types of the C sources (the RISC-V 64-bit
  target, little endian), the collections of rewrite rules the component theories share, and the
  generic facts on lists, options and words that carry their proofs.
\<close>

unbundle bit_operations_syntax

section \<open>Machine integers\<close>

type_synonym u8 = "8 word"
type_synonym u16 = "16 word"
type_synonym u32 = "32 word"
type_synonym u64 = "64 word"

text \<open>
  An operation of the C code whose behaviour is undefined at some input (a read past the end of an
  object, an array index out of range) has an option type; undefined behaviour is \<open>None\<close>.
\<close>

named_theorems bits \<open>bitwise reading of shifts, masks and casts\<close>
named_theorems flags \<open>reading back what a setter of a packed word stored\<close>

declare bit_simps [bits]

lemma word_eqI_bit: "(\<And>n. n < LENGTH('a) \<Longrightarrow> bit x n = bit y n) \<Longrightarrow> x = y"
  for x y :: "'a::len word"
  by (rule bit_word_eqI)

lemma unat_add_of_nat:
  "unat x + n < 2 ^ LENGTH('a) \<Longrightarrow> unat (x + of_nat n) = unat x + n"
  for x :: "'a::len word"
  by (simp add: unat_word_ariths unat_of_nat mod_add_right_eq)

lemma unat_of_nat_small: "n < 2 ^ LENGTH('a) \<Longrightarrow> unat (of_nat n :: 'a::len word) = n"
  by (simp add: unat_of_nat)

lemma unat_lt_pow2: "unat x < 2 ^ LENGTH('a)" for x :: "'a::len word"
  by (rule unsigned_less)

lemma unat_pow2 [simp]: "k < LENGTH('a) \<Longrightarrow> unat (2 ^ k :: 'a::len word) = 2 ^ k"
  using unat_of_nat_small [of "2 ^ k", where 'a = 'a] by simp

lemma unat_pow2_minus_1 [simp]: "k < LENGTH('a) \<Longrightarrow> unat (2 ^ k - 1 :: 'a::len word) = 2 ^ k - 1"
  by (metis unat_pow2 unat_minus_one power_eq_0_iff unat_eq_zero zero_neq_numeral)

lemma unat_push_bit_small:
  "unat x * 2 ^ s < 2 ^ LENGTH('a) \<Longrightarrow> unat (push_bit s x) = unat x * 2 ^ s" for x :: "'a::len word"
  by (metis push_bit_eq_mult of_nat_mult of_nat_power of_nat_numeral of_nat_unat ucast_id unat_of_nat_small)

lemma unat_drop_bit: "unat (drop_bit n x) = unat x div 2 ^ n" for x :: "'a::len word"
  by (simp add: unsigned_drop_bit_eq take_bit_nat_eq_self flip: drop_bit_eq_div)

lemma unat_and_not_mask: "unat (y AND NOT (mask a)) = unat y div 2 ^ a * 2 ^ a" for y :: "'a::len word"
proof -
  have "y AND NOT (mask a) = push_bit a (drop_bit a y)"
    by (rule bit_word_eqI) (auto simp: bit_simps dest: bit_imp_le_length)
  moreover have "unat y div 2 ^ a * 2 ^ a < 2 ^ LENGTH('a)"
    by (rule le_less_trans [OF div_times_less_eq_dividend unat_lt_pow2])
  ultimately show ?thesis by (simp only: unat_push_bit_small unat_drop_bit)
qed

lemma unat_plus1_less: "i < n \<Longrightarrow> unat (i + 1) = Suc (unat i)" for i n :: "'a::len word"
  using unat_add_of_nat [of i 1] unat_lt_pow2 [of n] by (simp add: word_less_nat_alt)

lemma unat_minus1: "n \<noteq> 0 \<Longrightarrow> Suc (unat (n - 1)) = unat n" for n :: "'a::len word"
  by (simp add: unat_minus_one unat_gt_0)

lemma unat_minus_le: "m \<le> n \<Longrightarrow> unat (n - m) = unat n - unat m" for n :: "'a::len word"
  by (simp add: unat_sub_if' word_le_nat_alt)

lemma unat_and_mask: "unat (x AND mask k) = unat x mod 2 ^ k" for x :: "'a::len word"
  by (simp add: unsigned_take_bit_eq flip: take_bit_eq_mask take_bit_eq_mod)

lemma unat_ucast_mod: "unat (ucast w :: 'a::len word) = unat w mod 2 ^ LENGTH('a)" for w :: "'b::len word"
  by (simp add: unsigned_ucast_eq take_bit_eq_mod)

lemma unat_ucast_up: "LENGTH('b) \<le> LENGTH('a) \<Longrightarrow> unat (ucast w :: 'a::len word) = unat w" for w :: "'b::len word"
proof -
  assume "LENGTH('b) \<le> LENGTH('a)"
  then have "(2 :: nat) ^ LENGTH('b) \<le> 2 ^ LENGTH('a)" by simp
  from order_less_le_trans [OF unat_lt_pow2 [of w] this] show ?thesis by (simp only: unat_ucast_mod mod_less)
qed

section \<open>Lists\<close>

lemma nth_swap_update:
  "i < length xs \<Longrightarrow> j < length xs \<Longrightarrow> k < length xs \<Longrightarrow>
   xs[i := xs ! j, j := xs ! i] ! k = (if k = j then xs ! i else if k = i then xs ! j else xs ! k)"
  by (simp add: nth_list_update)

lemma takeWhile_neq_append [simp]: "takeWhile ((\<noteq>) z) (xs @ z # ys) = takeWhile ((\<noteq>) z) xs"
  by (induction xs) auto

end
