(* ===== verification/Klib_String.thy ===== *)
theory Klib_String
  imports KPrelude
begin

text \<open>
  The string routines of the kernel's C library, src/clib/src/klib/string.c. A C pointer into an
  object is the list of the bytes from that position to the end of the object; reading or writing
  past the end is undefined behaviour, the value \<open>None\<close>. A returned pointer is the offset from the
  argument it points into, and a null pointer is an inner \<open>None\<close>.
\<close>

section \<open>The routines\<close>

fun strcmp :: "u8 list \<Rightarrow> u8 list \<Rightarrow> int option" where
  "strcmp (a # s1) (b # s2) =
     (if a \<noteq> 0 \<and> a = b then strcmp s1 s2 else Some (uint a - uint b))"
| "strcmp s1 s2 = None"

fun strncmp :: "u8 list \<Rightarrow> u8 list \<Rightarrow> nat \<Rightarrow> int option" where
  "strncmp s1 s2 0 = Some 0"
| "strncmp (a # s1) (b # s2) (Suc n) =
     (if a \<noteq> 0 \<and> a = b then strncmp s1 s2 n else Some (uint a - uint b))"
| "strncmp s1 s2 (Suc n) = None"

fun strcpy :: "u8 list \<Rightarrow> u8 list \<Rightarrow> u8 list option" where
  "strcpy (d # dest) (s # src) =
     (if s = 0 then Some (s # dest) else map_option ((#) s) (strcpy dest src))"
| "strcpy dest src = None"

fun strnlen :: "u8 list \<Rightarrow> nat \<Rightarrow> nat option" where
  "strnlen s 0 = Some 0"
| "strnlen (c # s) (Suc maxlen) = (if c \<noteq> 0 then map_option Suc (strnlen s maxlen) else Some 0)"
| "strnlen [] (Suc maxlen) = None"

text \<open>
  The loop of \<open>strrchr\<close> carries the last hit; \<open>i\<close> is the distance of the scanned pointer from the
  argument. The searched character is converted to \<open>char\<close> first, as the C code does.
\<close>

fun strrchr_loop :: "u8 list \<Rightarrow> u8 \<Rightarrow> nat \<Rightarrow> nat option \<Rightarrow> nat option option" where
  "strrchr_loop (x # s) c i ret =
     (let ret' = (if x = c then Some i else ret)
      in if x \<noteq> 0 then strrchr_loop s c (Suc i) ret' else Some ret')"
| "strrchr_loop [] c i ret = None"

definition strrchr :: "u8 list \<Rightarrow> u32 \<Rightarrow> nat option option" where
  "strrchr s ch = strrchr_loop s (ucast ch) 0 None"

fun memchr_loop :: "u8 list \<Rightarrow> u8 \<Rightarrow> nat \<Rightarrow> nat \<Rightarrow> nat option option" where
  "memchr_loop p c 0 i = Some None"
| "memchr_loop (x # p) c (Suc n) i =
     (if x \<noteq> c then memchr_loop p c n (Suc i) else Some (Some i))"
| "memchr_loop [] c (Suc n) i = None"

definition memchr :: "u8 list \<Rightarrow> u32 \<Rightarrow> nat \<Rightarrow> nat option option" where
  "memchr p ch n = memchr_loop p (ucast ch) n 0"

section \<open>C strings\<close>

text \<open>The string a pointer denotes: the bytes before the terminating NUL.\<close>

definition cstr :: "u8 list \<Rightarrow> u8 list" where
  "cstr s = takeWhile ((\<noteq>) 0) s"

definition terminated :: "u8 list \<Rightarrow> bool" where
  "terminated s \<longleftrightarrow> 0 \<in> set s"

lemma terminated_simps [simp]:
  "terminated [] = False" "terminated (a # s) \<longleftrightarrow> a = 0 \<or> terminated s"
  by (auto simp: terminated_def)

lemma cstr_simps [simp]:
  "cstr [] = []" "cstr (a # s) = (if a = 0 then [] else a # cstr s)"
  by (auto simp: cstr_def)

lemma cstr_length: "length (cstr s) \<le> length s"
  by (simp add: cstr_def length_takeWhile_le)

text \<open>The order \<open>strcmp\<close> decides: lexicographic, byte by byte, unsigned.\<close>

definition bytes_less :: "u8 list \<Rightarrow> u8 list \<Rightarrow> bool" where
  "bytes_less s t \<longleftrightarrow> (s, t) \<in> lexord {(a, b). a < b}"

lemma bytes_less_simps [simp]:
  "bytes_less [] [] = False"
  "bytes_less [] (b # t) = True"
  "bytes_less (a # s) [] = False"
  "bytes_less (a # s) (b # t) \<longleftrightarrow> a < b \<or> a = b \<and> bytes_less s t"
  by (auto simp: bytes_less_def)

lemma uint_diff_sign:
  "uint a = uint b \<longleftrightarrow> a = b" "uint a < uint b \<longleftrightarrow> a < b"
  "uint a = 0 \<longleftrightarrow> a = 0" "0 < uint a \<longleftrightarrow> a \<noteq> 0" for a b :: u8
  by (simp_all add: word_less_def word_uint_eq_iff less_le)

lemma zero_less_u8: "0 < b \<longleftrightarrow> b \<noteq> 0" for b :: u8
  by (simp add: word_neq_0_conv)

lemma strcmp_spec:
  assumes "terminated s" and "terminated t"
  shows "\<exists>r. strcmp s t = Some r \<and> (r = 0 \<longleftrightarrow> cstr s = cstr t)
             \<and> (r < 0 \<longleftrightarrow> bytes_less (cstr s) (cstr t))"
  using assms
proof (induction s t rule: strcmp.induct)
  case (1 a s1 b s2)
  show ?case
  proof (cases "a \<noteq> 0 \<and> a = b")
    case True
    with 1 show ?thesis by auto
  next
    case False
    then have "strcmp (a # s1) (b # s2) = Some (uint a - uint b)" by auto
    with False show ?thesis
      by (auto simp: uint_diff_sign zero_less_u8)
  qed
qed auto

lemma strncmp_eq_strcmp:
  "length s < n \<Longrightarrow> length t < n \<Longrightarrow> strncmp s t n = strcmp s t"
  by (induction s t n rule: strncmp.induct) auto

lemma strncmp_spec:
  assumes "terminated s \<or> n \<le> length s" and "terminated t \<or> n \<le> length t"
  shows "\<exists>r. strncmp s t n = Some r \<and> (r = 0 \<longleftrightarrow> take n (cstr s) = take n (cstr t))
             \<and> (r < 0 \<longleftrightarrow> bytes_less (take n (cstr s)) (take n (cstr t)))"
  using assms
proof (induction s t n rule: strncmp.induct)
  case (2 a s1 b s2 n)
  show ?case
  proof (cases "a \<noteq> 0 \<and> a = b")
    case True
    with 2 show ?thesis by auto
  next
    case False
    then have "strncmp (a # s1) (b # s2) (Suc n) = Some (uint a - uint b)" by auto
    with False show ?thesis
      by (auto simp: uint_diff_sign zero_less_u8)
  qed
qed auto

lemma strcpy_spec:
  assumes "terminated src" and "length (cstr src) < length dest"
  shows "strcpy dest src = Some (cstr src @ 0 # drop (Suc (length (cstr src))) dest)"
  using assms by (induction dest src rule: strcpy.induct) auto

lemma strcpy_overflow:
  assumes "length dest \<le> length (cstr src)"
  shows "strcpy dest src = None"
  using assms by (induction dest src rule: strcpy.induct) (auto split: if_splits)

lemma strnlen_spec:
  assumes "terminated s \<or> n \<le> length s"
  shows "strnlen s n = Some (min n (length (cstr s)))"
  using assms by (induction s n rule: strnlen.induct) auto

text \<open>\<open>last_at c bs k\<close>: position \<open>k\<close> holds the last \<open>c\<close> of \<open>bs\<close>.\<close>

definition last_at :: "u8 \<Rightarrow> u8 list \<Rightarrow> nat \<Rightarrow> bool" where
  "last_at c bs k \<longleftrightarrow> k < length bs \<and> bs ! k = c \<and> c \<notin> set (drop (Suc k) bs)"

lemma last_at_Cons [simp]:
  "last_at c (x # bs) 0 \<longleftrightarrow> x = c \<and> c \<notin> set bs"
  "last_at c (x # bs) (Suc k) = last_at c bs k"
  by (auto simp: last_at_def)

lemma strrchr_loop_spec:
  assumes "terminated s"
  shows "if c \<in> set (cstr s @ [0])
         then \<exists>k. strrchr_loop s c i ret = Some (Some (i + k)) \<and> last_at c (cstr s @ [0]) k
         else strrchr_loop s c i ret = Some ret"
  using assms
proof (induction s arbitrary: i ret)
  case Nil
  then show ?case by simp
next
  case (Cons x s)
  show ?case
  proof (cases "x = 0")
    case True
    then show ?thesis by (auto intro!: exI [of _ 0])
  next
    case False
    with Cons.prems have "terminated s" by simp
    note IH = Cons.IH [OF this, of "Suc i" "if x = c then Some i else ret"]
    show ?thesis
    proof (cases "c \<in> set (cstr s @ [0])")
      case True
      with IH False show ?thesis
        by (auto simp: Let_def intro: exI [of _ "Suc _"])
    next
      case c: False
      with IH False show ?thesis
        by (auto simp: Let_def intro!: exI [of _ 0])
    qed
  qed
qed

lemma strrchr_spec:
  assumes "terminated s"
  shows "if ucast ch \<in> set (cstr s @ [0])
         then \<exists>k. strrchr s ch = Some (Some k) \<and> last_at (ucast ch) (cstr s @ [0]) k
         else strrchr s ch = Some None"
  using strrchr_loop_spec [OF assms, of "ucast ch" 0 None] unfolding strrchr_def by (simp only: add_0)

lemma memchr_loop_spec:
  assumes "n \<le> length p"
  shows "memchr_loop p c n i =
     Some (if c \<in> set (take n p) then Some (i + length (takeWhile ((\<noteq>) c) p)) else None)"
  using assms by (induction p c n i rule: memchr_loop.induct) auto

lemma memchr_spec:
  assumes "n \<le> length p"
  shows "memchr p ch n =
     Some (if ucast ch \<in> set (take n p) then Some (length (takeWhile ((\<noteq>) (ucast ch)) p)) else None)"
  using memchr_loop_spec [OF assms] by (simp add: memchr_def)

section \<open>The property\<close>

text \<open>
  C40: the string routines compute, on terminated arguments, what the C standard asks of them, without
  reading or writing outside the arguments. \<open>strcmp\<close> and \<open>strncmp\<close> decide the lexicographic order of the (first
  \<open>n\<close>) unsigned bytes before the NUL; \<open>strnlen\<close> is the length of the string cut to \<open>n\<close>; \<open>strrchr\<close> finds the last
  occurrence of a character, the NUL included; \<open>memchr\<close> the first among \<open>n\<close> bytes; \<open>strcpy\<close> copies the string with
  its NUL and keeps the bytes behind it, and overruns the destination exactly when the string does not fit.
\<close>

theorem string_routines_correct:
  assumes "terminated s" and "terminated t" and "k \<le> length s"
  shows "(\<exists>r. strcmp s t = Some r \<and> (r = 0 \<longleftrightarrow> cstr s = cstr t) \<and> (r < 0 \<longleftrightarrow> bytes_less (cstr s) (cstr t))) \<and>
    (\<exists>r. strncmp s t n = Some r \<and> (r = 0 \<longleftrightarrow> take n (cstr s) = take n (cstr t)) \<and>
       (r < 0 \<longleftrightarrow> bytes_less (take n (cstr s)) (take n (cstr t)))) \<and>
    strnlen s n = Some (min n (length (cstr s))) \<and>
    (if ucast ch \<in> set (cstr s @ [0])
     then \<exists>i. strrchr s ch = Some (Some i) \<and> last_at (ucast ch) (cstr s @ [0]) i
     else strrchr s ch = Some None) \<and>
    memchr s ch k =
      Some (if ucast ch \<in> set (take k s) then Some (length (takeWhile ((\<noteq>) (ucast ch)) s)) else None) \<and>
    strcpy dest s =
      (if length (cstr s) < length dest then Some (cstr s @ 0 # drop (Suc (length (cstr s))) dest) else None)"
  using strcmp_spec [OF assms(1,2)] strncmp_spec [of s n t] strnlen_spec [of s n] strrchr_spec [OF assms(1)]
    memchr_spec [OF assms(3)] strcpy_spec [OF assms(1)] strcpy_overflow [of dest s] assms
  by (intro conjI) (simp_all add: not_less)

theorem string_routines_correct_witness:
  "strcpy [7, 7, 7, 7] [114, 101, 0, 9] = Some [114, 101, 0, 7] \<and> strnlen [114, 101, 0, 9] 8 = Some 2 \<and>
   memchr [114, 101, 0, 9] 101 4 = Some (Some 1)"
  using string_routines_correct [of "[114, 101, 0, 9]" "[0]" 4 8 101 "[7, 7, 7, 7]"] by simp

end
