(* ===== verification/Klib_Qsort.thy ===== *)
theory Klib_Qsort
  imports KPrelude "HOL-Library.Multiset"
begin

text \<open>
  The sorting routine of the kernel's C library, src/clib/src/klib/stdlib.c. The array is the list
  of its bytes; element \<open>i\<close> is the \<open>sz\<close> bytes at \<open>i * sz\<close>. The comparison callback is a parameter
  that sees the bytes of the two elements. An access outside the array is \<open>None\<close>, and so is a loop
  that never ends.
\<close>

section \<open>The routine\<close>

type_synonym elem = "u8 list"
type_synonym compar = "elem \<Rightarrow> elem \<Rightarrow> int"

definition elem_at :: "nat \<Rightarrow> u8 list \<Rightarrow> nat \<Rightarrow> elem" where
  "elem_at sz m i = take sz (drop (i * sz) m)"

fun swap :: "u8 list \<Rightarrow> nat \<Rightarrow> nat \<Rightarrow> nat \<Rightarrow> u8 list option" where
  "swap m a b 0 = Some m"
| "swap m a b (Suc sz) =
     (if a < length m \<and> b < length m
      then let tmp = m ! a in swap (m[a := m ! b, b := tmp]) (Suc a) (Suc b) sz
      else None)"

text \<open>The two inner loops; \<open>pivot\<close> is a position, since the C code keeps a pointer to the pivot.\<close>

partial_function (option) scan_up :: "compar \<Rightarrow> nat \<Rightarrow> u8 list \<Rightarrow> nat \<Rightarrow> nat \<Rightarrow> nat option" where
  "scan_up c sz m pivot i =
     (if length m < (i + 1) * sz then None
      else if c (elem_at sz m i) (elem_at sz m pivot) < 0
      then scan_up c sz m pivot (i + 1) else Some i)"

partial_function (option) scan_down :: "compar \<Rightarrow> nat \<Rightarrow> u8 list \<Rightarrow> nat \<Rightarrow> nat \<Rightarrow> nat option" where
  "scan_down c sz m pivot j =
     (if length m < (j + 1) * sz then None
      else if c (elem_at sz m j) (elem_at sz m pivot) > 0
      then (if j = 0 then None else scan_down c sz m pivot (j - 1)) else Some j)"

partial_function (option) partition_loop ::
    "compar \<Rightarrow> nat \<Rightarrow> nat \<Rightarrow> u8 list \<Rightarrow> nat \<Rightarrow> nat \<Rightarrow> (u8 list \<times> nat \<times> nat) option" where
  "partition_loop c sz pivot m i j =
     (if i \<le> j then
        do {
          i \<leftarrow> scan_up c sz m pivot i;
          j \<leftarrow> scan_down c sz m pivot j;
          if i \<le> j then
            do {
              m \<leftarrow> swap m (i * sz) (j * sz) sz;
              partition_loop c sz pivot m (i + 1) (if j > 0 then j - 1 else j)
            }
          else partition_loop c sz pivot m i j
        }
      else Some (m, i, j))"

partial_function (option) qsort_inner ::
    "compar \<Rightarrow> nat \<Rightarrow> u8 list \<Rightarrow> nat \<Rightarrow> nat \<Rightarrow> u8 list option" where
  "qsort_inner c sz m left right =
     (if left \<ge> right then Some m
      else do {
        (m, i, j) \<leftarrow> partition_loop c sz ((left + right) div 2) m left right;
        m \<leftarrow> (if j > left then qsort_inner c sz m left j else Some m);
        if i < right then qsort_inner c sz m i right else Some m
      })"

definition qsort :: "u8 list \<Rightarrow> nat \<Rightarrow> nat \<Rightarrow> compar \<Rightarrow> u8 list option" where
  "qsort m n sz c = (if n \<le> 1 then Some m else qsort_inner c sz m 0 (n - 1))"

declare scan_up.simps [code] scan_down.simps [code]
declare partition_loop.simps [code] qsort_inner.simps [code]

text \<open>
  The one comparison callback the kernel passes: \<open>ext4_dir_dx_entry_comparator\<close> orders the entries of
  a directory index block by hash. An entry (\<open>struct ext4_dx_sort_entry\<close>) starts with its 32-bit hash,
  stored little endian.
\<close>

definition sort_entry_hash :: "elem \<Rightarrow> u32" where
  "sort_entry_hash e = word_rcat (rev (take 4 e))"

definition ext4_dir_dx_entry_comparator :: compar where
  "ext4_dir_dx_entry_comparator e1 e2 =
     (if sort_entry_hash e1 = sort_entry_hash e2 then 0
      else if sort_entry_hash e1 < sort_entry_hash e2 then -1 else 1)"

section \<open>Byte swaps are element swaps\<close>

lemma swap_spec:
  assumes "a + sz \<le> length m" and "b + sz \<le> length m"
    and "a = b \<or> a + sz \<le> b \<or> b + sz \<le> a"
  shows "\<exists>m'. swap m a b sz = Some m' \<and> length m' = length m \<and>
     (\<forall>k < length m. m' ! k = (if a \<le> k \<and> k < a + sz then m ! (b + (k - a))
                             else if b \<le> k \<and> k < b + sz then m ! (a + (k - b)) else m ! k))"
  using assms
proof (induction sz arbitrary: m a b)
  case 0
  then show ?case by auto
next
  case (Suc sz)
  let ?m = "m[a := m ! b, b := m ! a]"
  from Suc.prems have "Suc a + sz \<le> length ?m" "Suc b + sz \<le> length ?m"
    "Suc a = Suc b \<or> Suc a + sz \<le> Suc b \<or> Suc b + sz \<le> Suc a"
    by auto
  from Suc.IH [OF this] obtain m' where m': "swap ?m (Suc a) (Suc b) sz = Some m'"
    "length m' = length m"
    "\<And>k. k < length m \<Longrightarrow> m' ! k = (if Suc a \<le> k \<and> k < Suc a + sz then ?m ! (Suc b + (k - Suc a))
       else if Suc b \<le> k \<and> k < Suc b + sz then ?m ! (Suc a + (k - Suc b)) else ?m ! k)"
    by auto
  from Suc.prems have "swap m a b (Suc sz) = swap ?m (Suc a) (Suc b) sz" by simp
  moreover have "\<forall>k < length m. m' ! k = (if a \<le> k \<and> k < a + Suc sz then m ! (b + (k - a))
      else if b \<le> k \<and> k < b + Suc sz then m ! (a + (k - b)) else m ! k)"
    using Suc.prems by (auto simp: m'(3) nth_list_update not_less_eq_eq intro: arg_cong [of _ _ "(!) m"])
  ultimately show ?case using m' by auto
qed

definition elems :: "nat \<Rightarrow> nat \<Rightarrow> u8 list \<Rightarrow> elem list" where
  "elems sz n m = map (elem_at sz m) [0..<n]"

lemma length_elems [simp]: "length (elems sz n m) = n"
  by (simp add: elems_def)

lemma elems_nth [simp]: "i < n \<Longrightarrow> elems sz n m ! i = elem_at sz m i"
  by (simp add: elems_def)

lemma chunk_le: "i < n \<Longrightarrow> n * sz \<le> l \<Longrightarrow> i * sz + sz \<le> (l::nat)"
  by (metis Suc_leI add.commute le_trans mult_Suc mult_le_mono1)

lemma chunks_apart: "i \<noteq> j \<Longrightarrow> i * sz + sz \<le> j * sz \<or> j * sz + sz \<le> i * (sz::nat)"
  using chunk_le [of i j sz "j * sz"] chunk_le [of j i sz "i * sz"] by (cases "i < j") auto

lemma elem_at_eqI:
  assumes "length m' = length m" and "i * sz + sz \<le> length m" and "j * sz + sz \<le> length m"
    and "\<And>k. k < sz \<Longrightarrow> m' ! (i * sz + k) = m ! (j * sz + k)"
  shows "elem_at sz m' i = elem_at sz m j"
  using assms by (intro nth_equalityI) (auto simp: elem_at_def)

lemma swap_elems:
  assumes "i < n" and "j < n" and "n * sz \<le> length m"
  shows "\<exists>m'. swap m (i * sz) (j * sz) sz = Some m' \<and> length m' = length m \<and>
     elems sz n m' = (elems sz n m)[i := elem_at sz m j, j := elem_at sz m i] \<and>
     drop (n * sz) m' = drop (n * sz) m"
proof -
  have le: "k < n \<Longrightarrow> k * sz + sz \<le> length m" for k
    using chunk_le assms(3) by blast
  obtain m' where m': "swap m (i * sz) (j * sz) sz = Some m'" "length m' = length m"
    "\<And>k. k < length m \<Longrightarrow> m' ! k = (if i * sz \<le> k \<and> k < i * sz + sz then m ! (j * sz + (k - i * sz))
       else if j * sz \<le> k \<and> k < j * sz + sz then m ! (i * sz + (k - j * sz)) else m ! k)"
    using swap_spec [OF le le, OF assms(1,2)] chunks_apart [of i j sz] by blast
  have nth: "m' ! (k * sz + x) = m ! ((if k = i then j else if k = j then i else k) * sz + x)"
    if "k < n" "x < sz" for k x
  proof -
    have "k * sz + x < length m" using le [OF that(1)] that(2) by linarith
    moreover have "k \<noteq> i \<Longrightarrow> \<not> (i * sz \<le> k * sz + x \<and> k * sz + x < i * sz + sz)"
      using chunks_apart [of k i sz] that(2) by linarith
    moreover have "k \<noteq> j \<Longrightarrow> \<not> (j * sz \<le> k * sz + x \<and> k * sz + x < j * sz + sz)"
      using chunks_apart [of k j sz] that(2) by linarith
    ultimately show ?thesis using that(2) by (auto simp: m'(3))
  qed
  have at: "elem_at sz m' k = elem_at sz m (if k = i then j else if k = j then i else k)"
    if "k < n" for k
    using assms that le by (intro elem_at_eqI m'(2) nth) auto
  have "drop (n * sz) m' = drop (n * sz) m"
    using chunk_le [OF assms(1) order_refl, of sz] chunk_le [OF assms(2) order_refl, of sz]
    by (intro nth_equalityI) (auto simp: m')
  moreover have "elems sz n m' = (elems sz n m)[i := elem_at sz m j, j := elem_at sz m i]"
    using assms by (intro nth_equalityI) (auto simp: at nth_list_update)
  ultimately show ?thesis using m' by blast
qed

text \<open>What a step of the sort keeps of the memory: its length, its elements, all that follows them.\<close>

definition rearranged :: "nat \<Rightarrow> nat \<Rightarrow> u8 list \<Rightarrow> u8 list \<Rightarrow> bool" where
  "rearranged sz n m m' \<longleftrightarrow> length m' = length m \<and> mset (elems sz n m') = mset (elems sz n m) \<and>
     drop (n * sz) m' = drop (n * sz) m"

lemma rearranged_refl [simp]: "rearranged sz n m m"
  by (simp add: rearranged_def)

lemma rearranged_trans: "rearranged sz n a b \<Longrightarrow> rearranged sz n b d \<Longrightarrow> rearranged sz n a d"
  by (simp add: rearranged_def)

lemma swap_rearranged:
  assumes "i < n" and "j < n" and "n * sz \<le> length m"
  obtains m' where "swap m (i * sz) (j * sz) sz = Some m'" "rearranged sz n m m'"
    "elems sz n m' = (elems sz n m)[i := elem_at sz m j, j := elem_at sz m i]"
  using swap_elems [OF assms] mset_swap [of j "elems sz n m" i] assms by (auto simp: rearranged_def)

section \<open>What a comparison callback promises\<close>

text \<open>The C standard's contract of the callback: it is a total preorder on the elements.\<close>

locale comparator =
  fixes c :: compar
  assumes cmp_refl: "c x x = 0"
    and cmp_flip: "c x y < 0 \<longleftrightarrow> 0 < c y x"
    and cmp_trans: "c x y \<le> 0 \<Longrightarrow> c y z \<le> 0 \<Longrightarrow> c x z \<le> 0"
begin

lemma cmp_flip_le: "c x y \<le> 0 \<longleftrightarrow> 0 \<le> c y x"
  using cmp_flip [of y x] by linarith

lemma scan_up_stops:
  assumes "i \<le> k" and "0 \<le> c (elem_at sz m k) (elem_at sz m p)" and "(k + 1) * sz \<le> length m"
  shows "\<exists>i'. scan_up c sz m p i = Some i' \<and> i \<le> i' \<and> i' \<le> k \<and>
     0 \<le> c (elem_at sz m i') (elem_at sz m p)"
  using assms
proof (induction "k - i" arbitrary: i)
  case 0
  then show ?case by (subst scan_up.simps) auto
next
  case (Suc d)
  have len: "\<not> length m < (i + 1) * sz"
    using Suc.prems(1,3) mult_le_mono1 [of "i + 1" "k + 1" sz] by linarith
  show ?case
  proof (cases "c (elem_at sz m i) (elem_at sz m p) < 0")
    case True
    with Suc.prems have "i + 1 \<le> k" using le_eq_less_or_eq by fastforce
    with Suc.hyps Suc.prems obtain i' where "scan_up c sz m p (i + 1) = Some i'" "i + 1 \<le> i'" "i' \<le> k"
      "0 \<le> c (elem_at sz m i') (elem_at sz m p)"
      by (metis Suc_eq_plus1 diff_Suc_1 diff_Suc_eq_diff_pred diff_commute)
    with True len show ?thesis by (subst scan_up.simps) auto
  next
    case False
    with len Suc.prems(1) show ?thesis by (subst scan_up.simps) auto
  qed
qed

lemma scan_down_stops:
  assumes "k \<le> j" and "c (elem_at sz m k) (elem_at sz m p) \<le> 0" and "(j + 1) * sz \<le> length m"
  shows "\<exists>j'. scan_down c sz m p j = Some j' \<and> k \<le> j' \<and> j' \<le> j \<and>
     c (elem_at sz m j') (elem_at sz m p) \<le> 0"
  using assms
proof (induction j)
  case 0
  then show ?case by (subst scan_down.simps) auto
next
  case (Suc j)
  show ?case
  proof (cases "0 < c (elem_at sz m (Suc j)) (elem_at sz m p)")
    case True
    with Suc.prems have "k \<le> j" using le_Suc_eq by fastforce
    with Suc obtain j' where "scan_down c sz m p j = Some j'" "k \<le> j'" "j' \<le> j"
      "c (elem_at sz m j') (elem_at sz m p) \<le> 0"
      by auto
    with True Suc.prems(3) show ?thesis by (subst scan_down.simps) auto
  next
    case False
    with Suc.prems show ?thesis by (subst scan_down.simps) auto
  qed
qed

text \<open>
  One round of the outer loop. The scans stop because some element at or after \<open>i\<close> is not below the
  pivot and some element at or before \<open>j\<close> is not above it; a swap re-establishes this for the next
  round even where it moves the pivot, which the C code addresses by position.
\<close>

definition bracketed :: "nat \<Rightarrow> u8 list \<Rightarrow> nat \<Rightarrow> nat \<Rightarrow> nat \<Rightarrow> nat \<Rightarrow> nat \<Rightarrow> bool" where
  "bracketed sz m p l r i j \<longleftrightarrow>
     (\<exists>k. i \<le> k \<and> k \<le> r \<and> 0 \<le> c (elem_at sz m k) (elem_at sz m p)) \<and>
     (\<exists>k. l \<le> k \<and> k \<le> j \<and> c (elem_at sz m k) (elem_at sz m p) \<le> 0)"

lemma bracketed_swap:
  assumes sw: "elems sz n m' = (elems sz n m)[i := elem_at sz m j, j := elem_at sz m i]"
    and ij: "i < j" "j < n" "p < n" "l \<le> i" "j \<le> r"
    and i: "0 \<le> c (elem_at sz m i) (elem_at sz m p)"
    and j: "c (elem_at sz m j) (elem_at sz m p) \<le> 0"
  shows "bracketed sz m' p l r (i + 1) (j - 1)"
proof -
  have at: "elem_at sz m' k = (if k = j then elem_at sz m i else if k = i then elem_at sz m j
      else elem_at sz m k)" if "k < n" for k
    using arg_cong [OF sw, of "\<lambda>xs. xs ! k"] that ij by (simp add: nth_list_update)
  have "0 \<le> c (elem_at sz m' j) (elem_at sz m' p)"
    using ij i j cmp_refl cmp_flip_le by (auto simp: at)
  moreover have "c (elem_at sz m' i) (elem_at sz m' p) \<le> 0"
    using ij i j cmp_refl cmp_flip_le by (auto simp: at)
  ultimately show ?thesis
    using ij unfolding bracketed_def by (intro conjI exI [of _ j] exI [of _ i]) auto
qed

lemma partition_loop_spec:
  assumes "i \<le> j \<Longrightarrow> bracketed sz m p l r i j"
    and "l \<le> i" "j \<le> r" "r < n" "p < n" "n * sz \<le> length m"
  shows "\<exists>m' i' j'. partition_loop c sz p m i j = Some (m', i', j') \<and> i \<le> i' \<and> j' \<le> j \<and>
     rearranged sz n m m'"
  using assms
proof (induction "Suc j - i" arbitrary: m i j rule: less_induct)
  case less
  show ?case
  proof (cases "i \<le> j")
    case False
    then show ?thesis by (subst partition_loop.simps) auto
  next
    case True
    note le = less.prems
    have len: "k \<le> r \<Longrightarrow> (k + 1) * sz \<le> length m" for k
      using chunk_le [of k n sz "length m"] le by (simp add: add.commute)
    obtain i1 where i1: "scan_up c sz m p i = Some i1" "i \<le> i1" "i1 \<le> r"
      "0 \<le> c (elem_at sz m i1) (elem_at sz m p)"
      using scan_up_stops le(1) [OF True] len unfolding bracketed_def by (meson le_trans)
    obtain j1 where j1: "scan_down c sz m p j = Some j1" "l \<le> j1" "j1 \<le> j"
      "c (elem_at sz m j1) (elem_at sz m p) \<le> 0"
      using scan_down_stops le(1) [OF True] len [OF le(3)] unfolding bracketed_def by (meson le_trans)
    show ?thesis
    proof (cases "i1 \<le> j1")
      case False
      then have "partition_loop c sz p m i1 j1 = Some (m, i1, j1)"
        by (subst partition_loop.simps) simp
      with True False i1 j1 show ?thesis
        by (subst partition_loop.simps) auto
    next
      case ij: True
      let ?j = "if j1 > 0 then j1 - 1 else j1"
      have n: "i1 < n" "j1 < n" using i1 j1 le by auto
      obtain m1 where m1: "swap m (i1 * sz) (j1 * sz) sz = Some m1" "rearranged sz n m m1"
        "elems sz n m1 = (elems sz n m)[i1 := elem_at sz m j1, j1 := elem_at sz m i1]"
        using swap_rearranged [OF n le(6)] by blast
      have "bracketed sz m1 p l r (i1 + 1) ?j" if "i1 + 1 \<le> ?j"
        using bracketed_swap [OF m1(3) _ n(2) le(5) _ _ i1(4) j1(4), of l r] that i1 j1 le
        by (auto split: if_splits)
      moreover have "?j \<le> r" using j1 le by auto
      moreover have "Suc ?j - (i1 + 1) < Suc j - i" using i1 j1 ij by auto
      moreover have "n * sz \<le> length m1" using m1(2) le(6) by (simp add: rearranged_def)
      ultimately obtain m' i' j' where
        "partition_loop c sz p m1 (i1 + 1) ?j = Some (m', i', j')" "i1 + 1 \<le> i'" "j' \<le> ?j"
        "rearranged sz n m1 m'"
        using less.hyps [of ?j "i1 + 1" m1] i1 j1 le by auto
      with True ij i1 j1 m1 show ?thesis
        by (subst partition_loop.simps) (auto intro: rearranged_trans split: if_splits)
    qed
  qed
qed

text \<open>The pivot lies in the range, so the first round swaps and both parts are smaller.\<close>

lemma partition_shrinks:
  assumes "l < r" "r < n" "n * sz \<le> length m"
  shows "\<exists>m' i' j'. partition_loop c sz ((l + r) div 2) m l r = Some (m', i', j') \<and>
     l < i' \<and> j' < r \<and> rearranged sz n m m'"
proof -
  let ?p = "(l + r) div 2"
  have p: "l \<le> ?p" "?p \<le> r" using assms(1) by auto
  have len: "k \<le> r \<Longrightarrow> (k + 1) * sz \<le> length m" for k
    using chunk_le [of k n sz "length m"] assms by (simp add: add.commute)
  obtain i1 where i1: "scan_up c sz m ?p l = Some i1" "l \<le> i1" "i1 \<le> ?p"
    "0 \<le> c (elem_at sz m i1) (elem_at sz m ?p)"
    using scan_up_stops [OF p(1) _ len [OF p(2)], where p = ?p] cmp_refl by force
  obtain j1 where j1: "scan_down c sz m ?p r = Some j1" "?p \<le> j1" "j1 \<le> r"
    "c (elem_at sz m j1) (elem_at sz m ?p) \<le> 0"
    using scan_down_stops [OF p(2) _ len [OF order_refl], where p = ?p] cmp_refl by force
  let ?j = "if j1 > 0 then j1 - 1 else j1"
  have n: "i1 < n" "j1 < n" "?p < n" using i1 j1 p assms by auto
  obtain m1 where m1: "swap m (i1 * sz) (j1 * sz) sz = Some m1" "rearranged sz n m m1"
    "elems sz n m1 = (elems sz n m)[i1 := elem_at sz m j1, j1 := elem_at sz m i1]"
    using swap_rearranged [OF n(1,2) assms(3)] by blast
  have "bracketed sz m1 ?p l r (i1 + 1) ?j" if "i1 + 1 \<le> ?j"
    using bracketed_swap [OF m1(3) _ n(2,3) _ _ i1(4) j1(4), of l r] that i1 j1
    by (auto split: if_splits)
  moreover have "?j \<le> r" using j1 by auto
  moreover have "n * sz \<le> length m1" using m1(2) assms(3) by (simp add: rearranged_def)
  ultimately obtain m' i' j' where
    "partition_loop c sz ?p m1 (i1 + 1) ?j = Some (m', i', j')" "i1 + 1 \<le> i'" "j' \<le> ?j"
    "rearranged sz n m1 m'"
    using partition_loop_spec [of "i1 + 1" ?j sz m1 ?p l r n] i1 j1 n assms by auto
  moreover have "partition_loop c sz ?p m l r = partition_loop c sz ?p m1 (i1 + 1) ?j"
    using assms(1) i1 j1 m1 by (subst partition_loop.simps) auto
  ultimately show ?thesis
    using i1 j1 m1 assms(1) by (auto intro: rearranged_trans split: if_splits)
qed

lemma qsort_inner_spec:
  assumes "r < n" "n * sz \<le> length m"
  shows "\<exists>m'. qsort_inner c sz m l r = Some m' \<and> rearranged sz n m m'"
  using assms
proof (induction "r - l" arbitrary: m l r rule: less_induct)
  case less
  show ?case
  proof (cases "l < r")
    case False
    then show ?thesis by (subst qsort_inner.simps) auto
  next
    case True
    obtain m1 i j where p: "partition_loop c sz ((l + r) div 2) m l r = Some (m1, i, j)"
      "l < i" "j < r" "rearranged sz n m m1"
      using partition_shrinks [OF True less.prems] by blast
    have m1: "n * sz \<le> length m1" using p(4) less.prems by (simp add: rearranged_def)
    have d: "l < j \<Longrightarrow> j - l < r - l" "r - i < r - l" using p True by linarith+
    obtain m2 where m2: "(if j > l then qsort_inner c sz m1 l j else Some m1) = Some m2"
      "rearranged sz n m1 m2"
      using less.hyps [of j l m1] d p m1 less.prems by (cases "j > l") auto
    have "n * sz \<le> length m2" using m1 m2 by (simp add: rearranged_def)
    then obtain m3 where m3: "(if i < r then qsort_inner c sz m2 i r else Some m2) = Some m3"
      "rearranged sz n m2 m3"
      using less.hyps [of r i m2] d p less.prems True by (cases "i < r") auto
    have "qsort_inner c sz m l r = Some m3"
      using True p m2 m3 by (subst qsort_inner.simps) auto
    with p(4) m2(2) m3(2) show ?thesis by (blast intro: rearranged_trans)
  qed
qed

lemma qsort_total:
  assumes "n * sz \<le> length m"
  shows "\<exists>m'. qsort m n sz c = Some m' \<and> rearranged sz n m m'"
  using qsort_inner_spec [OF _ assms, of "n - 1" 0] assms by (auto simp: qsort_def)

end

interpretation dx_cmp: comparator ext4_dir_dx_entry_comparator
  by unfold_locales (auto simp: ext4_dir_dx_entry_comparator_def split: if_splits)

text \<open>
  The result need not be sorted. \<open>pivot\<close> is a pointer into the array that is being rearranged, so a
  swap that moves the pivot element changes what the rest of the round compares with. Four directory
  index entries with the distinct hashes 2, 3, 1, 0 come out in the order 0, 2, 1, 3.
\<close>

lemma qsort_leaves_unsorted:
  "let m = concat (map (\<lambda>h. h # replicate 15 0) [2, 3, 1, 0])
   in map_option (\<lambda>m'. map sort_entry_hash (elems 16 4 m')) (qsort m 4 16 ext4_dir_dx_entry_comparator)
      = Some [0, 2, 1, 3]"
  by code_simp

section \<open>The properties\<close>

text \<open>
  C23: for every callback that is a total preorder, \<open>qsort\<close> terminates without leaving the array, and
  its result has the same elements, the same length and the same bytes after the array.
\<close>

theorem qsort_permutes:
  assumes "comparator c" and "n * sz \<le> length m"
  shows "\<exists>m'. qsort m n sz c = Some m' \<and> length m' = length m \<and>
     mset (elems sz n m') = mset (elems sz n m) \<and> drop (n * sz) m' = drop (n * sz) m"
  using comparator.qsort_total [OF assms] by (simp add: rearranged_def)

theorem qsort_permutes_witness:
  "\<exists>m'. qsort [7, 0, 0, 0, 5, 0, 0, 0] 2 4 ext4_dir_dx_entry_comparator = Some m' \<and>
     mset (elems 4 2 m') = {#[7, 0, 0, 0], [5, 0, 0, 0]#}"
  using qsort_permutes [OF dx_cmp.comparator_axioms, of 2 4 "[7, 0, 0, 0, 5, 0, 0, 0]"]
  by (auto simp: elems_def elem_at_def upt_rec add_mset_commute)

end
