(* ===== verification/Tlsf_Bits.thy ===== *)
theory Tlsf_Bits
  imports KPrelude
begin

text \<open>
  The arithmetic of the kernel's heap allocator, src/clib/lib/tlsf/tlsf.c: the bit searches KernelX
  substitutes for the compiler builtins, alignment, the adjustment of a request and the two-level
  size classes. The build defines \<open>TLSF_64BIT\<close> (\<open>__LP64__\<close> on riscv64), so \<open>size_t\<close> is 64 bits.
\<close>

section \<open>Bit searches\<close>

definition ffs32 :: "u32 \<Rightarrow> int" where
  "ffs32 x =
     (if x = 0 then 0
      else
        let x = x AND - x;
            n = 0;
            (n, x) = (if x > 0xFFFF then (n + 16, drop_bit 16 x) else (n, x));
            (n, x) = (if x > 0xFF then (n + 8, drop_bit 8 x) else (n, x));
            (n, x) = (if x > 0xF then (n + 4, drop_bit 4 x) else (n, x));
            (n, x) = (if x > 0x3 then (n + 2, drop_bit 2 x) else (n, x));
            n = (if x > 0x1 then n + 1 else n)
        in n + 1)"

definition tlsf_ffs :: "u32 \<Rightarrow> int" where
  "tlsf_ffs w = ffs32 w - 1"

definition clz32 :: "u32 \<Rightarrow> nat" where
  "clz32 x =
     (if x = 0 then 32
      else
        let n = 0;
            (n, x) = (if x \<le> 0x0000FFFF then (n + 16, push_bit 16 x) else (n, x));
            (n, x) = (if x \<le> 0x00FFFFFF then (n + 8, push_bit 8 x) else (n, x));
            (n, x) = (if x \<le> 0x0FFFFFFF then (n + 4, push_bit 4 x) else (n, x));
            (n, x) = (if x \<le> 0x3FFFFFFF then (n + 2, push_bit 2 x) else (n, x));
            n = (if x \<le> 0x7FFFFFFF then n + 1 else n)
        in n)"

definition tlsf_fls :: "u32 \<Rightarrow> int" where
  "tlsf_fls w = (let b = (if w \<noteq> 0 then 32 - int (clz32 w) else 0) in b - 1)"

definition tlsf_fls_sizet :: "u64 \<Rightarrow> int" where
  "tlsf_fls_sizet sz =
     (let high = (ucast (drop_bit 32 sz) :: u32)
      in if high \<noteq> 0 then 32 + tlsf_fls high else tlsf_fls (ucast sz AND 0xffffffff))"

section \<open>Constants\<close>

definition SL_INDEX_COUNT_LOG2 :: nat where [simp]: "SL_INDEX_COUNT_LOG2 = 5"
definition ALIGN_SIZE_LOG2 :: nat where [simp]: "ALIGN_SIZE_LOG2 = 3"
definition ALIGN_SIZE :: u64 where [simp]: "ALIGN_SIZE = 8"
definition FL_INDEX_MAX :: nat where [simp]: "FL_INDEX_MAX = 32"
definition SL_INDEX_COUNT :: nat where [simp]: "SL_INDEX_COUNT = 32"
definition FL_INDEX_SHIFT :: nat where [simp]: "FL_INDEX_SHIFT = 8"
definition FL_INDEX_COUNT :: nat where [simp]: "FL_INDEX_COUNT = 25"
definition SMALL_BLOCK_SIZE :: u64 where [simp]: "SMALL_BLOCK_SIZE = 256"

text \<open>
  \<open>block_size_min\<close> is the size of a block header without its \<open>prev_phys_block\<close> field: three words.
\<close>

definition block_header_overhead :: u64 where [simp]: "block_header_overhead = 8"
definition block_start_offset :: u64 where [simp]: "block_start_offset = 16"
definition sizeof_block_header :: u64 where [simp]: "sizeof_block_header = 32"
definition block_size_min :: u64 where [simp]: "block_size_min = 24"
definition block_size_max :: u64 where [simp]: "block_size_max = 0x100000000"

section \<open>Alignment and request sizes\<close>

definition align_up :: "u64 \<Rightarrow> u64 \<Rightarrow> u64" where
  "align_up x align = (x + (align - 1)) AND NOT (align - 1)"

definition align_down :: "u64 \<Rightarrow> u64 \<Rightarrow> u64" where
  "align_down x align = x - (x AND (align - 1))"

definition align_ptr :: "u64 \<Rightarrow> u64 \<Rightarrow> u64" where
  "align_ptr ptr align = (ptr + (align - 1)) AND NOT (align - 1)"

definition adjust_request_size :: "u64 \<Rightarrow> u64 \<Rightarrow> u64" where
  "adjust_request_size sz align =
     (if sz \<noteq> 0 then
        let aligned = align_up sz align
        in if aligned < block_size_max then max aligned block_size_min else 0
      else 0)"

section \<open>Size classes\<close>

definition mapping_insert :: "u64 \<Rightarrow> int \<times> int" where
  "mapping_insert sz =
     (if sz < SMALL_BLOCK_SIZE then (0, uint sz div 8)
      else
        let fl = tlsf_fls_sizet sz;
            sl = sint ((ucast (drop_bit (nat (fl - 5)) sz) :: u32) XOR push_bit 5 1)
        in (fl - 7, sl))"

definition mapping_search :: "u64 \<Rightarrow> int \<times> int" where
  "mapping_search sz =
     (if sz \<ge> SMALL_BLOCK_SIZE then
        let round = scast (push_bit (nat (tlsf_fls_sizet sz - 5)) 1 - 1 :: u32)
        in mapping_insert (sz + round)
      else mapping_insert sz)"

section \<open>The bit searches find the highest and the lowest set bit\<close>

lemma lowest_bit_isolated:
  fixes x :: "'a::len word"
  assumes "bit x k" and low: "\<And>j. j < k \<Longrightarrow> \<not> bit x j"
  shows "x AND - x = 2 ^ k"
proof -
  have k: "k < LENGTH('a)" using assms(1) by (rule bit_imp_le_length)
  define r where "r = x AND NOT (mask (Suc k))"
  have r: "bit r n \<longleftrightarrow> bit x n \<and> k < n" for n
    by (auto simp: r_def bit_simps dest: bit_imp_le_length)
  have "r + 2 ^ k = r OR 2 ^ k"
    by (rule disjunctive_add) (auto simp: r bit_exp_iff)
  also have "\<dots> = x"
    using assms by (intro bit_word_eqI) (auto simp: bit_or_iff r bit_exp_iff, metis nat_neq_iff)
  finally have "x - 1 = r + mask k" by (simp add: mask_eq_decr_exp flip: add_diff_eq)
  also have "\<dots> = r OR mask k"
    by (rule disjunctive_add) (auto simp: r bit_mask_iff)
  finally have x1: "x - 1 = r OR mask k" .
  show ?thesis
    by (rule bit_word_eqI)
      (use assms k in \<open>auto simp: bit_and_iff bit_minus_iff x1 bit_or_iff r bit_mask_iff bit_exp_iff not_less_iff_gr_or_eq\<close>)
qed

lemma ffs32_pow2:
  assumes "k < 32" and "x \<noteq> 0" and "x AND - x = 2 ^ k"
  shows "ffs32 x = int k + 1"
proof -
  have "k \<in> set [0..<32]" using assms(1) by simp
  then show ?thesis
    unfolding ffs32_def assms(3) using assms(2)
    by (simp add: upt_rec numeral_eq_Suc) (elim disjE; simp)
qed

lemma tlsf_ffs_zero [simp]: "tlsf_ffs 0 = -1"
  by (simp add: tlsf_ffs_def ffs32_def)

lemma tlsf_ffs_spec:
  assumes "x \<noteq> 0"
  obtains k where "tlsf_ffs x = int k" "k < 32" "bit x k" "\<And>j. j < k \<Longrightarrow> \<not> bit x j"
proof -
  obtain n where "bit x n" using assms by (auto simp: bit_eq_iff)
  define k where "k = (LEAST n. bit x n)"
  have k: "bit x k" "\<And>j. j < k \<Longrightarrow> \<not> bit x j"
    unfolding k_def using \<open>bit x n\<close> by (auto intro: LeastI dest: not_less_Least)
  have "k < 32" using bit_imp_le_length [OF k(1)] by simp
  with ffs32_pow2 [OF this assms lowest_bit_isolated [OF k]] k that show thesis
    by (simp add: tlsf_ffs_def)
qed

text \<open>One halving step of \<open>clz32\<close>: it shifts the highest set bit into the upper part, without loss.\<close>

lemma clz_step:
  fixes x :: u32
  assumes "unat x = v * 2 ^ n" and "0 < s" and "s \<le> 16" and "2 ^ (32 - 2 * s) \<le> unat x"
    and p: "p = (if x \<le> 2 ^ (32 - s) - 1 then (n + s, push_bit s x) else (n, x))"
  shows "unat (snd p) = v * 2 ^ fst p \<and> 2 ^ (32 - s) \<le> unat (snd p)"
proof (cases "x \<le> 2 ^ (32 - s) - 1")
  have "32 - s < LENGTH(32)" using assms(2) by simp
  then have thr: "unat (2 ^ (32 - s) - 1 :: u32) = 2 ^ (32 - s) - 1" by (rule unat_pow2_minus_1)
  case True
  have "unat x < 2 ^ (32 - s)"
  proof -
    have "unat x \<le> 2 ^ (32 - s) - 1" using True by (simp only: word_le_nat_alt thr)
    moreover have "(0::nat) < 2 ^ (32 - s)" by simp
    ultimately show ?thesis by linarith
  qed
  then have "unat x * 2 ^ s < 2 ^ (32 - s) * 2 ^ s" by (rule mult_less_mono1) simp
  also have "(2::nat) ^ (32 - s) * 2 ^ s = 2 ^ LENGTH(32)" using assms(3) by (simp only: flip: power_add) simp
  finally have "unat (push_bit s x) = unat x * 2 ^ s" by (rule unat_push_bit_small)
  moreover have "(2::nat) ^ (32 - s) = 2 ^ (32 - 2 * s) * 2 ^ s"
    using assms(3) by (simp only: flip: power_add) simp
  moreover have "2 ^ (32 - 2 * s) * 2 ^ s \<le> unat x * 2 ^ s"
    using assms(4) by (rule mult_le_mono1)
  ultimately show ?thesis unfolding p using True assms(1) by (simp only: if_True fst_conv snd_conv power_add mult.assoc)
next
  have "32 - s < LENGTH(32)" using assms(2) by simp
  then have thr: "unat (2 ^ (32 - s) - 1 :: u32) = 2 ^ (32 - s) - 1" by (rule unat_pow2_minus_1)
  case False
  then have "2 ^ (32 - s) - 1 < unat x" by (simp only: word_le_nat_alt thr not_le)
  then have "2 ^ (32 - s) \<le> unat x" by linarith
  with False assms(1) show ?thesis by (simp only: p if_False fst_conv snd_conv simp_thms)
qed

lemma clz32_spec:
  assumes "x \<noteq> 0"
  shows "2 ^ 31 \<le> unat x * 2 ^ clz32 x \<and> unat x * 2 ^ clz32 x < 2 ^ 32"
proof -
  obtain n1 :: nat and x1 where e1: "(if x \<le> 0x0000FFFF then (0 + 16, push_bit 16 x) else (0, x)) = (n1, x1)"
    by (rule prod.exhaust)
  have 1: "unat x1 = unat x * 2 ^ n1 \<and> 2 ^ (32 - 16) \<le> unat x1"
    using clz_step [of x "unat x" 0 16 "(n1, x1)"] assms e1
    by (simp add: unat_gt_0 Suc_le_eq)
  obtain n2 :: nat and x2 where e2: "(if x1 \<le> 0x00FFFFFF then (n1 + 8, push_bit 8 x1) else (n1, x1)) = (n2, x2)"
    by (rule prod.exhaust)
  have 2: "unat x2 = unat x * 2 ^ n2 \<and> 2 ^ (32 - 8) \<le> unat x2"
    using clz_step [of x1 "unat x" n1 8 "(n2, x2)"] 1 e2
    by (simp add: unat_gt_0 Suc_le_eq)
  obtain n3 :: nat and x3 where e3: "(if x2 \<le> 0x0FFFFFFF then (n2 + 4, push_bit 4 x2) else (n2, x2)) = (n3, x3)"
    by (rule prod.exhaust)
  have 3: "unat x3 = unat x * 2 ^ n3 \<and> 2 ^ (32 - 4) \<le> unat x3"
    using clz_step [of x2 "unat x" n2 4 "(n3, x3)"] 2 e3
    by (simp add: unat_gt_0 Suc_le_eq)
  obtain n4 :: nat and x4 where e4: "(if x3 \<le> 0x3FFFFFFF then (n3 + 2, push_bit 2 x3) else (n3, x3)) = (n4, x4)"
    by (rule prod.exhaust)
  have 4: "unat x4 = unat x * 2 ^ n4 \<and> 2 ^ (32 - 2) \<le> unat x4"
    using clz_step [of x3 "unat x" n3 2 "(n4, x4)"] 3 e4
    by (simp add: unat_gt_0 Suc_le_eq)
  define n5 where "n5 = (if x4 \<le> 0x7FFFFFFF then n4 + 1 else n4)"
  have 5: "2 ^ 31 \<le> unat x * 2 ^ n5 \<and> unat x * 2 ^ n5 < 2 ^ 32"
    using clz_step [of x4 "unat x" n4 1, OF _ _ _ _ refl] 4 unat_lt_pow2 [of "push_bit 1 x4"] unat_lt_pow2 [of x4]
    by (cases "x4 \<le> 0x7FFFFFFF") (simp_all add: n5_def)
  have "clz32 x = n5"
    using assms by (simp only: clz32_def Let_def e1 e2 e3 e4 n5_def prod.case if_False)
  with 5 show ?thesis by simp
qed
lemma tlsf_fls_spec:
  assumes "x \<noteq> 0"
  obtains k where "tlsf_fls x = int k" "k < 32" "2 ^ k \<le> unat x" "unat x < 2 ^ Suc k"
proof -
  let ?c = "clz32 x"
  have b: "2 ^ 31 \<le> unat x * 2 ^ ?c" "unat x * 2 ^ ?c < 2 ^ 32"
    using clz32_spec [OF assms] by simp_all
  have "1 * 2 ^ ?c \<le> unat x * 2 ^ ?c"
    using assms by (intro mult_le_mono1) (simp add: unat_gt_0 Suc_le_eq)
  with b(2) have "(2::nat) ^ ?c < 2 ^ 32" by linarith
  then have c: "?c < 32" by (rule power_less_imp_less_exp [rotated]) simp
  then have "(2::nat) ^ 31 = 2 ^ (31 - ?c) * 2 ^ ?c" "(2::nat) ^ 32 = 2 ^ Suc (31 - ?c) * 2 ^ ?c"
    by (simp_all only: flip: power_add) simp_all
  with b have "2 ^ (31 - ?c) \<le> unat x" "unat x < 2 ^ Suc (31 - ?c)"
    by (simp_all only: mult_le_cancel2 mult_less_cancel2)
  moreover have "tlsf_fls x = int (31 - ?c)"
    using assms c by (simp add: tlsf_fls_def Let_def of_nat_diff)
  ultimately show thesis using c that [of "31 - ?c"] by simp
qed

lemma tlsf_fls_sizet_spec:
  assumes "x \<noteq> 0"
  obtains k where "tlsf_fls_sizet x = int k" "k < 64" "2 ^ k \<le> unat x" "unat x < 2 ^ Suc k"
proof (cases "(ucast (drop_bit 32 x) :: u32) = 0")
  have hi: "unat (ucast (drop_bit 32 x) :: u32) = unat x div 2 ^ 32"
    using unat_lt_pow2 [of x] by (simp add: unsigned_ucast_eq unat_drop_bit take_bit_eq_mod)
  case True
  then have small: "unat x < 2 ^ 32" using hi by (simp add: div_eq_0_iff)
  have lo: "unat (ucast x AND 0xffffffff :: u32) = unat x"
  proof -
    have "(ucast x AND 0xffffffff :: u32) = ucast x AND mask 32" by (simp add: mask_eq_decr_exp)
    also have "\<dots> = ucast x" by (simp only: flip: take_bit_eq_mask) (simp add: take_bit_word_eq_self)
    finally have "(ucast x AND 0xffffffff :: u32) = ucast x" .
    then show ?thesis using small by (simp add: unsigned_ucast_eq take_bit_nat_eq_self)
  qed
  then have "(ucast x AND 0xffffffff :: u32) \<noteq> 0" using assms by (metis unat_eq_zero)
  then obtain k where "tlsf_fls (ucast x AND 0xffffffff) = int k" "k < 32"
    "2 ^ k \<le> unat x" "unat x < 2 ^ Suc k"
    using lo by (elim tlsf_fls_spec) metis
  then show thesis using True by (intro that [of k]) (simp_all add: tlsf_fls_sizet_def)
next
  have hi: "unat (ucast (drop_bit 32 x) :: u32) = unat x div 2 ^ 32"
    using unat_lt_pow2 [of x] by (simp add: unsigned_ucast_eq unat_drop_bit take_bit_eq_mod)
  case False
  obtain k where k: "tlsf_fls (ucast (drop_bit 32 x)) = int k" "k < 32"
    "2 ^ k \<le> unat x div 2 ^ 32" "unat x div 2 ^ 32 < 2 ^ Suc k"
    using tlsf_fls_spec [OF False] hi by metis
  have "2 ^ (32 + k) \<le> unat x" "unat x < 2 ^ Suc (32 + k)"
    using k(3,4) by (simp_all add: less_eq_div_iff_mult_less_eq div_less_iff_less_mult power_add mult.commute)
  with False k(1,2) show thesis by (intro that [of "32 + k"]) (simp_all add: tlsf_fls_sizet_def)
qed

section \<open>The size classes\<close>

text \<open>
  Class \<open>(fl, sl)\<close> holds the sizes from \<open>class_lo fl sl\<close> up to its width: the first level \<open>0\<close> is
  cut into steps of 8 bytes, every other level is a power of two cut into 32 equal steps.
\<close>

definition class_width :: "nat \<Rightarrow> nat" where
  "class_width fl = (if fl = 0 then 8 else 2 ^ (fl + 2))"

definition class_lo :: "nat \<Rightarrow> nat \<Rightarrow> nat" where
  "class_lo fl sl = (if fl = 0 then 8 * sl else 2 ^ (fl + 2) * (32 + sl))"

lemma pow2_bracket_unique:
  fixes n :: nat
  assumes "2 ^ k \<le> n" "n < 2 ^ Suc k" "2 ^ j \<le> n" "n < 2 ^ Suc j"
  shows "k = j"
proof -
  have "(2::nat) ^ k < 2 ^ Suc j" "(2::nat) ^ j < 2 ^ Suc k" using assms by linarith+
  then have "k < Suc j" "j < Suc k" by (simp_all only: power_strict_increasing_iff one_less_numeral_iff semiring_norm)
  then show ?thesis by simp
qed

lemma tlsf_fls_sizet_eq:
  assumes "2 ^ k \<le> unat x" "unat x < 2 ^ Suc k"
  shows "tlsf_fls_sizet x = int k"
proof -
  have "x \<noteq> 0" using assms(1) by auto
  then obtain j where "tlsf_fls_sizet x = int j" "2 ^ j \<le> unat x" "unat x < 2 ^ Suc j"
    by (rule tlsf_fls_sizet_spec)
  with pow2_bracket_unique [OF assms] show ?thesis by simp
qed

lemma sl_index:
  assumes "32 \<le> q" "q < 64"
  shows "sint ((of_nat q :: u32) XOR push_bit 5 1) = int q - 32"
proof -
  have "\<forall>q\<in>set [32..<64]. sint ((of_nat q :: u32) XOR push_bit 5 1) = int q - 32" by code_simp
  moreover have "q \<in> set [32..<64]" using assms by (simp only: set_upt atLeastLessThan_iff le0 simp_thms)
  ultimately show ?thesis by blast
qed

lemma level_quotient:
  fixes n :: nat
  assumes "5 \<le> k" "2 ^ k \<le> n" "n < 2 ^ Suc k"
  shows "32 \<le> n div 2 ^ (k - 5)" "n div 2 ^ (k - 5) < 64"
proof -
  have "(2::nat) ^ k = 32 * 2 ^ (k - 5)" "(2::nat) ^ Suc k = 64 * 2 ^ (k - 5)"
    using assms(1) power_add [of "2::nat" 5 "k - 5"] by simp_all
  with assms(2,3) show "32 \<le> n div 2 ^ (k - 5)" "n div 2 ^ (k - 5) < 64"
    by (simp_all add: less_eq_div_iff_mult_less_eq div_less_iff_less_mult)
qed

lemma mapping_insert_large:
  assumes "8 \<le> k" and k: "2 ^ k \<le> unat sz" "unat sz < 2 ^ Suc k"
  shows "mapping_insert sz = (int k - 7, int (unat sz div 2 ^ (k - 5)) - 32)"
proof -
  have q: "32 \<le> unat sz div 2 ^ (k - 5)" "unat sz div 2 ^ (k - 5) < 64"
    using level_quotient [OF _ k] assms(1) by simp_all
  have "(ucast (drop_bit (k - 5) sz) :: u32) = of_nat (unat (drop_bit (k - 5) sz))"
    by (rule of_nat_unat [symmetric])
  then have u: "(ucast (drop_bit (k - 5) sz) :: u32) = of_nat (unat sz div 2 ^ (k - 5))"
    by (simp only: unat_drop_bit)
  have "(2::nat) ^ 8 \<le> 2 ^ k" using assms(1) by (rule power_increasing) simp
  then have "\<not> sz < 256" using k(1) by (simp add: word_less_nat_alt)
  moreover have "nat (int k - 5) = k - 5" "int k - 5 - 2 = int k - 7" by simp_all
  ultimately show ?thesis
    by (simp only: mapping_insert_def Let_def tlsf_fls_sizet_eq [OF k] SMALL_BLOCK_SIZE_def if_False u
        sl_index [OF q])
qed

lemma mapping_insert_class:
  assumes "unat sz < 2 ^ n" and "8 \<le> n"
  obtains fl sl where "mapping_insert sz = (int fl, int sl)" "fl < n - 7" "sl < 32"
    "class_lo fl sl \<le> unat sz" "unat sz < class_lo fl sl + class_width fl"
proof (cases "sz < 256")
  case True
  then have "unat sz < 256" by (simp add: word_less_nat_alt)
  then have "unat sz div 8 < 32" "8 * (unat sz div 8) \<le> unat sz" "unat sz < 8 * (unat sz div 8) + 8"
    by linarith+
  moreover have "mapping_insert sz = (int 0, int (unat sz div 8))"
    using True by (simp add: mapping_insert_def zdiv_int)
  ultimately show thesis using assms(2)
    by (intro that [of 0 "unat sz div 8"]) (simp_all add: class_lo_def class_width_def)
next
  case False
  then have "2 ^ 8 \<le> unat sz" by (simp add: word_less_nat_alt)
  moreover from this have "sz \<noteq> 0" by auto
  then obtain k where k: "2 ^ k \<le> unat sz" "unat sz < 2 ^ Suc k" by (rule tlsf_fls_sizet_spec)
  ultimately have "(2::nat) ^ 8 < 2 ^ Suc k" "(2::nat) ^ k < 2 ^ n"
    using assms(1) by (blast intro: le_less_trans)+
  then have "8 < Suc k" and kn: "k < n" by (simp_all only: power_strict_increasing_iff one_less_numeral_iff semiring_norm)
  then have k8: "8 \<le> k" by simp
  define q where "q = unat sz div 2 ^ (k - 5)"
  have q: "32 \<le> q" "q < 64"
    unfolding q_def using level_quotient [OF _ k] k8 by simp_all
  have "2 ^ (k - 5) * q \<le> unat sz" "unat sz < 2 ^ (k - 5) * q + 2 ^ (k - 5)"
    using dividend_less_times_div [of "2 ^ (k - 5)" "unat sz"] by (simp_all add: q_def add.commute)
  moreover have "k - 7 + 2 = k - 5" "32 + (q - 32) = q" using k8 q by simp_all
  moreover have "mapping_insert sz = (int (k - 7), int (q - 32))"
    using mapping_insert_large [OF k8 k] k8 q by (simp add: of_nat_diff flip: q_def)
  ultimately show thesis using k8 kn q
    by (intro that [of "k - 7" "q - 32"]) (simp_all add: class_lo_def class_width_def)
qed

lemma class_lo_mono:
  assumes "fl < fl' \<or> fl = fl' \<and> sl \<le> sl'" and "sl < 32"
  shows "class_lo fl sl \<le> class_lo fl' sl'"
proof (cases "fl = fl'")
  case True
  with assms show ?thesis by (simp add: class_lo_def)
next
  case False
  with assms(1) have lt: "fl < fl'" by simp
  show ?thesis
  proof (cases "fl = 0")
    case True
    have "(2::nat) ^ 3 \<le> 2 ^ (fl' + 2)" using lt by (intro power_increasing) simp_all
    then have "8 * 32 \<le> 2 ^ (fl' + 2) * (32 + sl')" by (intro mult_le_mono) simp_all
    with True lt assms(2) show ?thesis by (simp add: class_lo_def)
  next
    case False
    have "(2::nat) ^ (fl + 3) \<le> 2 ^ (fl' + 2)" using lt by (intro power_increasing) simp_all
    then have "2 ^ (fl + 3) * 32 \<le> 2 ^ (fl' + 2) * (32 + sl')" by (intro mult_le_mono) simp_all
    moreover have "2 ^ (fl + 2) * (32 + sl) \<le> 2 ^ (fl + 2) * (2 * 32)"
      using assms(2) by (intro mult_le_mono) simp_all
    moreover have "(2::nat) ^ (fl + 3) * 32 = 2 ^ (fl + 2) * (2 * 32)" by (simp add: power_add)
    moreover have "fl' \<noteq> 0" using lt by simp
    ultimately show ?thesis using False unfolding class_lo_def by (simp only: if_False)
  qed
qed

lemma round_up_multiple:
  fixes r d :: nat
  assumes "0 < d"
  shows "r \<le> d * ((r + (d - 1)) div d)"
proof -
  have "r + (d - 1) < d * ((r + (d - 1)) div d) + d" 
    using dividend_less_times_div [OF assms, of "r + (d - 1)"] by (simp add: add.commute)
  with assms show ?thesis by linarith
qed

lemma round_scast: "k < 31 \<Longrightarrow> unat (scast (push_bit k 1 - 1 :: u32) :: u64) = 2 ^ k - 1"
proof -
  assume "k < 31"
  have "\<forall>k\<in>set [0..<31]. uint (scast (push_bit k 1 - 1 :: u32) :: u64) = 2 ^ k - 1" by code_simp
  moreover have "k \<in> set [0..<31]" using \<open>k < 31\<close> by (simp only: set_upt atLeastLessThan_iff le0 simp_thms)
  ultimately have "uint (scast (push_bit k 1 - 1 :: u32) :: u64) = 2 ^ k - 1" by blast
  then have "unat (scast (push_bit k 1 - 1 :: u32) :: u64) = nat (2 ^ k - 1)"
    by (metis unat_eq_nat_uint)
  then show ?thesis by (simp add: nat_diff_distrib nat_power_eq)
qed

text \<open>What \<open>mapping_search\<close> passes to \<open>mapping_insert\<close>, as a number.\<close>

lemma mapping_search_large:
  assumes "8 \<le> k" "k < 36" and k: "2 ^ k \<le> unat r" "unat r < 2 ^ Suc k"
  obtains r' where "mapping_search r = mapping_insert r'" "unat r' = unat r + (2 ^ (k - 5) - 1)"
proof -
  define round where "round = (scast (push_bit (k - 5) 1 - 1 :: u32) :: u64)"
  have "(2::nat) ^ 8 \<le> 2 ^ k" using assms(1) by (rule power_increasing) simp
  then have "256 \<le> r" using k(1) by (simp add: word_le_nat_alt)
  then have "mapping_search r = mapping_insert (r + round)"
    by (simp add: mapping_search_def tlsf_fls_sizet_eq [OF k] round_def nat_diff_distrib')
  moreover have rd: "unat round = 2 ^ (k - 5) - 1"
    unfolding round_def using assms(1,2) by (intro round_scast) simp
  have "(2::nat) ^ Suc k \<le> 2 ^ 36" "(2::nat) ^ (k - 5) \<le> 2 ^ 36"
    using assms(2) by (intro power_increasing; simp)+
  then have "unat r + unat round < 2 ^ LENGTH(64)" using k(2) rd by simp
  then have "unat (r + round) = unat r + unat round" by (simp add: unat_word_ariths)
  ultimately show thesis using that rd by metis
qed

lemma mapping_search_class:
  assumes "unat r < 2 ^ 32" and "8 dvd unat r"
  obtains fl sl where "mapping_search r = (int fl, int sl)" "fl \<le> FL_INDEX_COUNT" "sl < SL_INDEX_COUNT"
    "unat r \<le> class_lo fl sl" "32 * class_lo fl sl \<le> 33 * unat r + 32"
proof (cases "r < 256")
  case True
  then have "unat r < 256" by (simp add: word_less_nat_alt)
  moreover have "mapping_search r = (int 0, int (unat r div 8))"
    using True by (simp add: mapping_search_def mapping_insert_def zdiv_int not_le [symmetric])
  ultimately show thesis using assms(2)
    by (intro that [of 0 "unat r div 8"]) (auto simp: class_lo_def)
next
  case False
  then have ge: "2 ^ 8 \<le> unat r" by (simp add: word_less_nat_alt)
  moreover from this have "r \<noteq> 0" by auto
  then obtain k where k: "2 ^ k \<le> unat r" "unat r < 2 ^ Suc k" by (rule tlsf_fls_sizet_spec)
  ultimately have "(2::nat) ^ 8 < 2 ^ Suc k" "(2::nat) ^ k < 2 ^ 32"
    using assms(1) by (blast intro: le_less_trans)+
  then have "8 < Suc k" and k32: "k < 32"
    by (simp_all only: power_strict_increasing_iff one_less_numeral_iff semiring_norm)
  then have k8: "8 \<le> k" by simp
  define d where "d = (2::nat) ^ (k - 5)"
  have d0: "0 < d" and dk: "2 ^ k = 32 * d" "2 ^ Suc k = 64 * d"
    using k8 power_add [of "2::nat" 5 "k - 5"] by (simp_all add: d_def)
  obtain r' where r': "mapping_search r = mapping_insert r'" "unat r' = unat r + (d - 1)"
    unfolding d_def using mapping_search_large [OF k8 _ k] k32 by force
  have "d \<le> unat r" using k(1) dk(1) by linarith
  then have "unat r' < 2 ^ 33" using r'(2) assms(1) by simp
  then obtain fl sl where c: "mapping_insert r' = (int fl, int sl)" "fl < 33 - 7" "sl < 32"
    "class_lo fl sl \<le> unat r'" "unat r' < class_lo fl sl + class_width fl"
    by (rule mapping_insert_class) simp
  have "unat r \<le> class_lo fl sl"
  proof (cases "unat r' < 2 ^ Suc k")
    case True
    have r'k: "2 ^ k \<le> unat r'" using k r'(2) by linarith
    have "32 \<le> unat r' div d" using level_quotient(1) [OF _ r'k True] k8 by (simp add: d_def)
    moreover have "int fl = int k - 7" "int sl = int (unat r' div d) - 32"
      using mapping_insert_large [OF k8 r'k True] c(1) by (simp_all add: d_def)
    ultimately have "fl \<noteq> 0" "fl + 2 = k - 5" "32 + sl = unat r' div d" using k8 by linarith+
    then have "class_lo fl sl = d * (unat r' div d)"
      by (simp only: class_lo_def d_def if_False)
    then show ?thesis using round_up_multiple [OF d0, of "unat r"] r'(2) by simp
  next
    case False
    then have ge: "2 ^ Suc k \<le> unat r'" by simp
    have lt: "unat r' < 2 ^ Suc (Suc k)" using r'(2) k dk d0 by simp
    have "int fl = int (Suc k) - 7" using mapping_insert_large [OF _ ge lt] k8 c(1) by simp
    then have "fl \<noteq> 0" "fl + 2 = Suc (k - 5)" using k8 by linarith+
    then have "class_lo fl sl = 2 * d * (32 + sl)"
      by (simp only: class_lo_def d_def if_False power_Suc)
    then have "2 ^ Suc k \<le> class_lo fl sl" using dk by simp
    with k(2) show ?thesis by simp
  qed
  moreover have "32 * d \<le> unat r" using k dk by simp
  ultimately show thesis using c r' d0 by (intro that [of fl sl]) simp_all
qed

section \<open>Request sizes\<close>

lemma align_up_pow2:
  assumes "a < 64" and "unat x + (2 ^ a - 1) < 2 ^ 64"
  shows "unat (align_up x (2 ^ a)) = (unat x + (2 ^ a - 1)) div 2 ^ a * 2 ^ a"
proof -
  have "unat (x + (2 ^ a - 1)) = unat x + (2 ^ a - 1)"
    using assms by (simp add: unat_word_ariths(1) del: unat_pow2_minus_1) (simp add: unat_pow2_minus_1)
  moreover have "align_up x (2 ^ a) = (x + (2 ^ a - 1)) AND NOT (mask a)"
    by (simp add: align_up_def mask_eq_decr_exp)
  ultimately show ?thesis by (simp only: unat_and_not_mask)
qed

lemma adjust_request_size_spec:
  assumes "sz \<noteq> 0" and "unat sz \<le> 2 ^ 64 - 8"
  shows "unat (adjust_request_size sz ALIGN_SIZE) =
    (let n = (unat sz + 7) div 8 * 8 in if n < 2 ^ 32 then max n 24 else 0)"
proof -
  have "unat (align_up sz 8) = (unat sz + 7) div 8 * 8"
    using align_up_pow2 [of 3 sz] assms(2) by simp
  then show ?thesis
    using assms(1) by (auto simp: adjust_request_size_def Let_def word_less_nat_alt max_def word_le_nat_alt)
qed

lemma adjust_wrap:
  assumes "2 ^ 64 - 8 < unat sz"
  shows "adjust_request_size sz ALIGN_SIZE = 24"
proof -
  define k where "k = unat sz - 0xfffffffffffffff9"
  have "0xfffffffffffffff8 < unat sz" "unat sz < 2 ^ 64"
    using assms unat_lt_pow2 [of sz] by simp_all
  then have "k < 7" and "unat sz = 0xfffffffffffffff9 + k" by (simp_all add: k_def)
  then have "sz = of_nat (0xfffffffffffffff9 + k)" by (metis of_nat_unat ucast_id)
  then have "sz = 0xfffffffffffffff9 + of_nat k" by simp
  moreover have "k \<in> {0, 1, 2, 3, 4, 5, 6}" using \<open>k < 7\<close> by auto
  ultimately have "sz \<in> {- 7, - 6, - 5, - 4, - 3, - 2, - 1}" by auto
  then show ?thesis by (auto simp: adjust_request_size_def align_up_def Let_def)
qed

section \<open>Properties\<close>

text \<open>
  C24: The search class of a request is a good fit. Every free block whose class is not below the
  class \<open>mapping_search\<close> computes for a request of \<open>r\<close> bytes is at least \<open>r\<close> bytes long, so the
  allocator may take the head of any such list without looking at its size.
\<close>

theorem mapping_search_good_fit:
  assumes "unat r < 2 ^ 32" and "8 dvd unat r" and "unat b < 2 ^ 32"
    and "mapping_search r = (fl, sl)" and "mapping_insert b = (fl', sl')"
    and "fl < fl' \<or> fl = fl' \<and> sl \<le> sl'"
  shows "r \<le> b"
proof -
  obtain f s where fs: "mapping_search r = (int f, int s)" "s < SL_INDEX_COUNT" "unat r \<le> class_lo f s"
    using mapping_search_class [OF assms(1,2)] .
  obtain f' s' where fs': "mapping_insert b = (int f', int s')" "class_lo f' s' \<le> unat b"
    by (rule mapping_insert_class [OF assms(3)]) auto
  have "class_lo f s \<le> class_lo f' s'"
    using assms(4-6) fs fs' by (intro class_lo_mono) auto
  with fs fs' show ?thesis by (simp add: word_le_nat_alt)
qed

theorem mapping_search_good_fit_witness:
  "mapping_search 1000 = (2, 31) \<and> mapping_insert 1008 = (2, 31) \<and> (1000::u64) \<le> 1008"
proof -
  have "mapping_search 1000 = (2, 31)" "mapping_insert 1008 = (2, 31)" by code_simp+
  with mapping_search_good_fit [of 1000 1008 2 31 2 31] show ?thesis by simp
qed

text \<open>
  C25: Request sizes. A request of 0 bytes is refused. Any other request is raised to the next multiple of 8,
  computed modulo \<open>2 ^ 64\<close>, and to the minimum block size 24, or refused (the value 0) when the multiple is not
  below 4 GiB.
\<close>

theorem adjust_request_size_rounds:
  "unat (adjust_request_size sz ALIGN_SIZE) =
    (let n = (unat sz + 7) mod 2 ^ 64 div 8 * 8 in if sz = 0 then 0 else if n < 2 ^ 32 then max n 24 else 0)"
proof (cases "unat sz \<le> 2 ^ 64 - 8")
  case True
  then have "(unat sz + 7) mod 2 ^ 64 = unat sz + 7" by (intro mod_less) simp
  then show ?thesis using True adjust_request_size_spec [of sz] by (cases "sz = 0") (simp_all add: adjust_request_size_def)
next
  case False
  then have w: "adjust_request_size sz ALIGN_SIZE = 24" by (intro adjust_wrap) simp
  have "(unat sz + 7) mod 2 ^ 64 = unat sz + 7 - 2 ^ 64"
    using False unat_lt_pow2 [of sz] by (subst le_mod_geq) simp_all
  then have "(unat sz + 7) mod 2 ^ 64 div 8 = 0" using unat_lt_pow2 [of sz] by simp
  then show ?thesis using w False by (auto simp: Let_def)
qed

text \<open>
  C26: The rounding of a request wraps. For each of the seven sizes above \<open>2 ^ 64 - 8\<close> the addition
  in \<open>align_up\<close> overflows to 0, which passes the test against the maximal size, so that a request
  for \<open>SIZE_MAX\<close> bytes is served as one for 24 bytes instead of being refused.
\<close>

theorem adjust_request_size_wraps:
  assumes "0xfffffffffffffff8 < sz"
  shows "adjust_request_size sz ALIGN_SIZE = 24"
  using assms by (intro adjust_wrap) (simp add: word_less_nat_alt)

theorem adjust_request_size_wraps_witness: "adjust_request_size (- 1) ALIGN_SIZE = 24"
  using adjust_request_size_wraps [of "- 1"] by simp

end
