(* ===== verification/Tlsf_Heap.thy ===== *)
theory Tlsf_Heap
  imports Tlsf_Bits
begin

text \<open>
  The operations of the kernel heap, src/clib/lib/tlsf/tlsf.c and src/clib/src/klib/malloc.c.

  Memory is a function from byte addresses to the 64-bit words stored there; the allocator only
  makes aligned word accesses. A \<open>block_header_t*\<close> is the address of its four consecutive words
  \<open>prev_phys_block\<close>, \<open>size\<close>, \<open>next_free\<close> and \<open>prev_free\<close>. The control structure is a record; only its
  embedded \<open>block_null\<close> is addressed by pointers, and the record holds that address. The debug
  assertions are compiled out (\<open>tlsf_assert\<close> is empty) and do not appear. An array index out of
  range or a shift by an amount outside 0..31 is undefined behaviour, the value \<open>None\<close>.
\<close>

section \<open>Memory and the control structure\<close>

type_synonym mem = "u64 \<Rightarrow> u64"

record control_t =
  block_null :: u64
  fl_bitmap :: u32
  sl_bitmap :: "u32 list"
  blocks :: "u64 list list"

definition prev_phys_block :: "u64 \<Rightarrow> u64" where [simp]: "prev_phys_block block = block"
definition size_field :: "u64 \<Rightarrow> u64" where [simp]: "size_field block = block + 8"
definition next_free :: "u64 \<Rightarrow> u64" where [simp]: "next_free block = block + 16"
definition prev_free :: "u64 \<Rightarrow> u64" where [simp]: "prev_free block = block + 24"

definition block_header_free_bit :: u64 where [simp]: "block_header_free_bit = 1"
definition block_header_prev_free_bit :: u64 where [simp]: "block_header_prev_free_bit = 2"

definition index :: "'a list \<Rightarrow> int \<Rightarrow> 'a option" where
  "index xs i = (if 0 \<le> i \<and> i < int (length xs) then Some (xs ! nat i) else None)"

definition set_index :: "'a list \<Rightarrow> int \<Rightarrow> 'a \<Rightarrow> 'a list option" where
  "set_index xs i v = (if 0 \<le> i \<and> i < int (length xs) then Some (xs[nat i := v]) else None)"

definition shl32 :: "u32 \<Rightarrow> int \<Rightarrow> u32 option" where
  "shl32 w n = (if 0 \<le> n \<and> n < 32 then Some (push_bit (nat n) w) else None)"

section \<open>Block headers\<close>

definition block_size :: "mem \<Rightarrow> u64 \<Rightarrow> u64" where
  "block_size m block = m (size_field block) AND NOT (block_header_free_bit OR block_header_prev_free_bit)"

definition block_set_size :: "mem \<Rightarrow> u64 \<Rightarrow> u64 \<Rightarrow> mem" where
  "block_set_size m block sz =
     (let oldsize = m (size_field block)
      in m(size_field block := sz OR (oldsize AND (block_header_free_bit OR block_header_prev_free_bit))))"

definition block_is_last :: "mem \<Rightarrow> u64 \<Rightarrow> bool" where
  "block_is_last m block = (block_size m block = 0)"

definition block_is_free :: "mem \<Rightarrow> u64 \<Rightarrow> bool" where
  "block_is_free m block = (m (size_field block) AND block_header_free_bit \<noteq> 0)"

definition block_set_free :: "mem \<Rightarrow> u64 \<Rightarrow> mem" where
  "block_set_free m block = m(size_field block := m (size_field block) OR block_header_free_bit)"

definition block_set_used :: "mem \<Rightarrow> u64 \<Rightarrow> mem" where
  "block_set_used m block = m(size_field block := m (size_field block) AND NOT block_header_free_bit)"

definition block_is_prev_free :: "mem \<Rightarrow> u64 \<Rightarrow> bool" where
  "block_is_prev_free m block = (m (size_field block) AND block_header_prev_free_bit \<noteq> 0)"

definition block_set_prev_free :: "mem \<Rightarrow> u64 \<Rightarrow> mem" where
  "block_set_prev_free m block = m(size_field block := m (size_field block) OR block_header_prev_free_bit)"

definition block_set_prev_used :: "mem \<Rightarrow> u64 \<Rightarrow> mem" where
  "block_set_prev_used m block =
     m(size_field block := m (size_field block) AND NOT block_header_prev_free_bit)"

definition block_from_ptr :: "u64 \<Rightarrow> u64" where
  "block_from_ptr ptr = ptr - block_start_offset"

definition block_to_ptr :: "u64 \<Rightarrow> u64" where
  "block_to_ptr block = block + block_start_offset"

definition offset_to_block :: "u64 \<Rightarrow> u64 \<Rightarrow> u64" where
  "offset_to_block ptr sz = ptr + sz"

definition block_prev :: "mem \<Rightarrow> u64 \<Rightarrow> u64" where
  "block_prev m block = m (prev_phys_block block)"

definition block_next :: "mem \<Rightarrow> u64 \<Rightarrow> u64" where
  "block_next m block = offset_to_block (block_to_ptr block) (block_size m block - block_header_overhead)"

definition block_link_next :: "mem \<Rightarrow> u64 \<Rightarrow> mem \<times> u64" where
  "block_link_next m block =
     (let nxt = block_next m block in (m(prev_phys_block nxt := block), nxt))"

definition block_mark_as_free :: "mem \<Rightarrow> u64 \<Rightarrow> mem" where
  "block_mark_as_free m block =
     (let (m, nxt) = block_link_next m block;
          m = block_set_prev_free m nxt
      in block_set_free m block)"

definition block_mark_as_used :: "mem \<Rightarrow> u64 \<Rightarrow> mem" where
  "block_mark_as_used m block =
     (let nxt = block_next m block;
          m = block_set_prev_used m nxt
      in block_set_used m block)"

section \<open>Free lists\<close>

text \<open>
  The result of a search is the block, or the null pointer 0, with the indices the C function
  returns through its pointer arguments.
\<close>

definition search_suitable_block :: "control_t \<Rightarrow> int \<Rightarrow> int \<Rightarrow> (u64 \<times> int \<times> int) option" where
  "search_suitable_block c fl sl =
     do {
       row \<leftarrow> index (sl_bitmap c) fl;
       above \<leftarrow> shl32 (- 1) sl;
       if row AND above = 0
       then do {
         above \<leftarrow> shl32 (- 1) (fl + 1);
         let fl_map = fl_bitmap c AND above;
         if fl_map = 0 then Some (0, fl, sl)
         else do {
           let fl = tlsf_ffs fl_map;
           sl_map \<leftarrow> index (sl_bitmap c) fl;
           let sl = tlsf_ffs sl_map;
           lists \<leftarrow> index (blocks c) fl;
           block \<leftarrow> index lists sl;
           Some (block, fl, sl)
         }
       }
       else do {
         let sl = tlsf_ffs (row AND above);
         lists \<leftarrow> index (blocks c) fl;
         block \<leftarrow> index lists sl;
         Some (block, fl, sl)
       }
     }"

definition set_head :: "control_t \<Rightarrow> int \<Rightarrow> int \<Rightarrow> u64 \<Rightarrow> control_t option" where
  "set_head c fl sl block =
     do {
       lists \<leftarrow> index (blocks c) fl;
       lists \<leftarrow> set_index lists sl block;
       rows \<leftarrow> set_index (blocks c) fl lists;
       Some (c\<lparr>blocks := rows\<rparr>)
     }"

definition remove_free_block :: "control_t \<Rightarrow> mem \<Rightarrow> u64 \<Rightarrow> int \<Rightarrow> int \<Rightarrow> (control_t \<times> mem) option" where
  "remove_free_block c m block fl sl =
     do {
       let prev = m (prev_free block);
       let nxt = m (next_free block);
       let m = m(prev_free nxt := prev);
       let m = m(next_free prev := nxt);
       lists \<leftarrow> index (blocks c) fl;
       head \<leftarrow> index lists sl;
       if head = block
       then do {
         c \<leftarrow> set_head c fl sl nxt;
         if nxt = block_null c
         then do {
           row \<leftarrow> index (sl_bitmap c) fl;
           bit \<leftarrow> shl32 1 sl;
           let row = row AND NOT bit;
           rows \<leftarrow> set_index (sl_bitmap c) fl row;
           let c = c\<lparr>sl_bitmap := rows\<rparr>;
           if row = 0
           then do {
             bit \<leftarrow> shl32 1 fl;
             Some (c\<lparr>fl_bitmap := fl_bitmap c AND NOT bit\<rparr>, m)
           }
           else Some (c, m)
         }
         else Some (c, m)
       }
       else Some (c, m)
     }"

definition insert_free_block :: "control_t \<Rightarrow> mem \<Rightarrow> u64 \<Rightarrow> int \<Rightarrow> int \<Rightarrow> (control_t \<times> mem) option" where
  "insert_free_block c m block fl sl =
     do {
       lists \<leftarrow> index (blocks c) fl;
       current \<leftarrow> index lists sl;
       let m = m(next_free block := current);
       let m = m(prev_free block := block_null c);
       let m = m(prev_free current := block);
       c \<leftarrow> set_head c fl sl block;
       bit \<leftarrow> shl32 1 fl;
       let c = c\<lparr>fl_bitmap := fl_bitmap c OR bit\<rparr>;
       row \<leftarrow> index (sl_bitmap c) fl;
       bit \<leftarrow> shl32 1 sl;
       rows \<leftarrow> set_index (sl_bitmap c) fl (row OR bit);
       Some (c\<lparr>sl_bitmap := rows\<rparr>, m)
     }"

definition block_remove :: "control_t \<Rightarrow> mem \<Rightarrow> u64 \<Rightarrow> (control_t \<times> mem) option" where
  "block_remove c m block =
     (let (fl, sl) = mapping_insert (block_size m block) in remove_free_block c m block fl sl)"

definition block_insert :: "control_t \<Rightarrow> mem \<Rightarrow> u64 \<Rightarrow> (control_t \<times> mem) option" where
  "block_insert c m block =
     (let (fl, sl) = mapping_insert (block_size m block) in insert_free_block c m block fl sl)"

section \<open>Splitting and merging\<close>

definition block_can_split :: "mem \<Rightarrow> u64 \<Rightarrow> u64 \<Rightarrow> bool" where
  "block_can_split m block sz = (block_size m block \<ge> sizeof_block_header + sz)"

definition block_split :: "mem \<Rightarrow> u64 \<Rightarrow> u64 \<Rightarrow> mem \<times> u64" where
  "block_split m block sz =
     (let remaining = offset_to_block (block_to_ptr block) (sz - block_header_overhead);
          remain_size = block_size m block - (sz + block_header_overhead);
          m = block_set_size m remaining remain_size;
          m = block_set_size m block sz;
          m = block_mark_as_free m remaining
      in (m, remaining))"

definition block_absorb :: "mem \<Rightarrow> u64 \<Rightarrow> u64 \<Rightarrow> mem \<times> u64" where
  "block_absorb m prev block =
     (let m = m(size_field prev := m (size_field prev) + (block_size m block + block_header_overhead));
          (m, _) = block_link_next m prev
      in (m, prev))"

definition block_merge_prev :: "control_t \<Rightarrow> mem \<Rightarrow> u64 \<Rightarrow> (control_t \<times> mem \<times> u64) option" where
  "block_merge_prev c m block =
     (if block_is_prev_free m block
      then do {
        let prev = block_prev m block;
        (c, m) \<leftarrow> block_remove c m prev;
        let (m, block) = block_absorb m prev block;
        Some (c, m, block)
      }
      else Some (c, m, block))"

definition block_merge_next :: "control_t \<Rightarrow> mem \<Rightarrow> u64 \<Rightarrow> (control_t \<times> mem \<times> u64) option" where
  "block_merge_next c m block =
     (let nxt = block_next m block
      in if block_is_free m nxt
         then do {
           (c, m) \<leftarrow> block_remove c m nxt;
           let (m, block) = block_absorb m block nxt;
           Some (c, m, block)
         }
         else Some (c, m, block))"

definition block_trim_free :: "control_t \<Rightarrow> mem \<Rightarrow> u64 \<Rightarrow> u64 \<Rightarrow> (control_t \<times> mem) option" where
  "block_trim_free c m block sz =
     (if block_can_split m block sz
      then
        let (m, remaining_block) = block_split m block sz;
            (m, _) = block_link_next m block;
            m = block_set_prev_free m remaining_block
        in block_insert c m remaining_block
      else Some (c, m))"

definition block_trim_used :: "control_t \<Rightarrow> mem \<Rightarrow> u64 \<Rightarrow> u64 \<Rightarrow> (control_t \<times> mem) option" where
  "block_trim_used c m block sz =
     (if block_can_split m block sz
      then do {
        let (m, remaining_block) = block_split m block sz;
        let m = block_set_prev_used m remaining_block;
        (c, m, remaining_block) \<leftarrow> block_merge_next c m remaining_block;
        block_insert c m remaining_block
      }
      else Some (c, m))"

definition block_trim_free_leading ::
  "control_t \<Rightarrow> mem \<Rightarrow> u64 \<Rightarrow> u64 \<Rightarrow> (control_t \<times> mem \<times> u64) option" where
  "block_trim_free_leading c m block sz =
     (if block_can_split m block sz
      then do {
        let (m, remaining_block) = block_split m block (sz - block_header_overhead);
        let m = block_set_prev_free m remaining_block;
        let (m, _) = block_link_next m block;
        (c, m) \<leftarrow> block_insert c m block;
        Some (c, m, remaining_block)
      }
      else Some (c, m, block))"

definition block_locate_free :: "control_t \<Rightarrow> mem \<Rightarrow> u64 \<Rightarrow> (control_t \<times> mem \<times> u64) option" where
  "block_locate_free c m sz =
     do {
       (block, fl, sl) \<leftarrow>
         (if sz \<noteq> 0
          then let (fl, sl) = mapping_search sz
               in if fl < int FL_INDEX_COUNT then search_suitable_block c fl sl else Some (0, fl, sl)
          else Some (0, 0, 0));
       if block \<noteq> 0
       then do {
         (c, m) \<leftarrow> remove_free_block c m block fl sl;
         Some (c, m, block)
       }
       else Some (c, m, block)
     }"

definition block_prepare_used :: "control_t \<Rightarrow> mem \<Rightarrow> u64 \<Rightarrow> u64 \<Rightarrow> (control_t \<times> mem \<times> u64) option" where
  "block_prepare_used c m block sz =
     (if block \<noteq> 0
      then do {
        (c, m) \<leftarrow> block_trim_free c m block sz;
        let m = block_mark_as_used m block;
        Some (c, m, block_to_ptr block)
      }
      else Some (c, m, 0))"

end
