(* ===== verification/Tlsf_Api.thy ===== *)
theory Tlsf_Api
  imports Tlsf_Heap
begin

text \<open>
  The interface of the kernel heap: the \<open>tlsf_\<close> functions of src/clib/lib/tlsf/tlsf.c and the
  \<open>malloc\<close> family of src/clib/src/klib/malloc.c. Loops whose exit depends on memory are
  \<open>partial_function (option)\<close>: not returning is the value \<open>None\<close>.
\<close>

section \<open>Construction and pools\<close>

text \<open>\<open>sizeof (control_t)\<close>: 32 bytes of \<open>block_null\<close>, 26 words of 4 bytes, 25 * 32 pointers.\<close>

definition tlsf_size :: u64 where "tlsf_size = 6536"
definition tlsf_align_size :: u64 where "tlsf_align_size = ALIGN_SIZE"
definition tlsf_block_size_min :: u64 where "tlsf_block_size_min = block_size_min"
definition tlsf_block_size_max :: u64 where "tlsf_block_size_max = block_size_max"
definition tlsf_pool_overhead :: u64 where "tlsf_pool_overhead = 2 * block_header_overhead"
definition tlsf_alloc_overhead :: u64 where "tlsf_alloc_overhead = block_header_overhead"

definition control_construct :: "u64 \<Rightarrow> mem \<Rightarrow> control_t \<times> mem" where
  "control_construct control m =
     (let m = m(next_free control := control);
          m = m(prev_free control := control)
      in (\<lparr>block_null = control, fl_bitmap = 0, sl_bitmap = replicate FL_INDEX_COUNT 0,
           blocks = replicate FL_INDEX_COUNT (replicate SL_INDEX_COUNT control)\<rparr>, m))"

definition tlsf_add_pool :: "control_t \<Rightarrow> mem \<Rightarrow> u64 \<Rightarrow> u64 \<Rightarrow> (control_t \<times> mem \<times> u64) option" where
  "tlsf_add_pool c m pool bytes =
     (let pool_bytes = align_down (bytes - tlsf_pool_overhead) ALIGN_SIZE
      in if sint pool mod 8 \<noteq> 0 then Some (c, m, 0)
         else if pool_bytes < block_size_min \<or> pool_bytes > block_size_max then Some (c, m, 0)
         else do {
           let block = offset_to_block pool (- block_header_overhead);
           let m = block_set_size m block pool_bytes;
           let m = block_set_free m block;
           let m = block_set_prev_used m block;
           (c, m) \<leftarrow> block_insert c m block;
           let (m, nxt) = block_link_next m block;
           let m = block_set_size m nxt 0;
           let m = block_set_used m nxt;
           let m = block_set_prev_free m nxt;
           Some (c, m, pool)
         })"

definition tlsf_remove_pool :: "control_t \<Rightarrow> mem \<Rightarrow> u64 \<Rightarrow> (control_t \<times> mem) option" where
  "tlsf_remove_pool c m pool =
     (let block = offset_to_block pool (- block_header_overhead);
          (fl, sl) = mapping_insert (block_size m block)
      in remove_free_block c m block fl sl)"

text \<open>
  \<open>tlsf_create\<close> leaves the memory untouched when it refuses a misaligned address; the control
  structure is then whatever was there before, the argument \<open>c\<close>.
\<close>

definition tlsf_create :: "control_t \<Rightarrow> mem \<Rightarrow> u64 \<Rightarrow> control_t \<times> mem \<times> u64" where
  "tlsf_create c m start =
     (if sint start mod 8 \<noteq> 0 then (c, m, 0)
      else let (c, m) = control_construct start m in (c, m, start))"

definition tlsf_create_with_pool :: "control_t \<Rightarrow> mem \<Rightarrow> u64 \<Rightarrow> u64 \<Rightarrow> (control_t \<times> mem \<times> u64) option" where
  "tlsf_create_with_pool c m start bytes =
     do {
       let (c, m, tlsf) = tlsf_create c m start;
       (c, m, _) \<leftarrow> tlsf_add_pool c m (start + tlsf_size) (bytes - tlsf_size);
       Some (c, m, tlsf)
     }"

definition tlsf_get_pool :: "u64 \<Rightarrow> u64" where
  "tlsf_get_pool tlsf = tlsf + tlsf_size"

section \<open>Allocation\<close>

definition tlsf_malloc :: "control_t \<Rightarrow> mem \<Rightarrow> u64 \<Rightarrow> (control_t \<times> mem \<times> u64) option" where
  "tlsf_malloc c m sz =
     do {
       let adjust = adjust_request_size sz ALIGN_SIZE;
       (c, m, block) \<leftarrow> block_locate_free c m adjust;
       block_prepare_used c m block adjust
     }"

definition tlsf_memalign :: "control_t \<Rightarrow> mem \<Rightarrow> u64 \<Rightarrow> u64 \<Rightarrow> (control_t \<times> mem \<times> u64) option" where
  "tlsf_memalign c m align sz =
     do {
       let adjust = adjust_request_size sz ALIGN_SIZE;
       let gap_minimum = sizeof_block_header;
       let size_with_gap = adjust_request_size (adjust + align + gap_minimum) align;
       let aligned_size = (if adjust \<noteq> 0 \<and> align > ALIGN_SIZE then size_with_gap else adjust);
       (c, m, block) \<leftarrow> block_locate_free c m aligned_size;
       (c, m, block) \<leftarrow>
         (if block \<noteq> 0
          then
            let ptr = block_to_ptr block;
                aligned = align_ptr ptr align;
                gap = aligned - ptr;
                gap =
                  (if gap \<noteq> 0 \<and> gap < gap_minimum
                   then
                     let gap_remain = gap_minimum - gap;
                         offset = (if gap_remain > align then gap_remain else align);
                         next_aligned = aligned + offset;
                         aligned = align_ptr next_aligned align
                     in aligned - ptr
                   else gap)
            in if gap \<noteq> 0 then block_trim_free_leading c m block gap else Some (c, m, block)
          else Some (c, m, block));
       block_prepare_used c m block adjust
     }"

definition tlsf_free :: "control_t \<Rightarrow> mem \<Rightarrow> u64 \<Rightarrow> (control_t \<times> mem) option" where
  "tlsf_free c m ptr =
     (if ptr \<noteq> 0
      then do {
        let block = block_from_ptr ptr;
        let m = block_mark_as_free m block;
        (c, m, block) \<leftarrow> block_merge_prev c m block;
        (c, m, block) \<leftarrow> block_merge_next c m block;
        block_insert c m block
      }
      else Some (c, m))"

text \<open>
  Copying and clearing bytes in the word-addressed memory: whole words, then the low bytes of the
  last word (the target is little endian).
\<close>

fun memcpy_words :: "mem \<Rightarrow> u64 \<Rightarrow> u64 \<Rightarrow> nat \<Rightarrow> mem" where
  "memcpy_words m dst src 0 = m"
| "memcpy_words m dst src (Suc n) = memcpy_words (m(dst := m src)) (dst + 8) (src + 8) n"

definition merge_low_bytes :: "nat \<Rightarrow> u64 \<Rightarrow> u64 \<Rightarrow> u64" where
  "merge_low_bytes r new old = (new AND mask (8 * r)) OR (old AND NOT (mask (8 * r)))"

definition memcpy :: "mem \<Rightarrow> u64 \<Rightarrow> u64 \<Rightarrow> u64 \<Rightarrow> mem" where
  "memcpy m dst src n =
     (let w = unat n div 8; r = unat n mod 8;
          m = memcpy_words m dst src w;
          d = dst + of_nat (8 * w); s = src + of_nat (8 * w)
      in if r = 0 then m else m(d := merge_low_bytes r (m s) (m d)))"

fun memset_words :: "mem \<Rightarrow> u64 \<Rightarrow> nat \<Rightarrow> mem" where
  "memset_words m dst 0 = m"
| "memset_words m dst (Suc n) = memset_words (m(dst := 0)) (dst + 8) n"

definition memset0 :: "mem \<Rightarrow> u64 \<Rightarrow> u64 \<Rightarrow> mem" where
  "memset0 m dst n =
     (let w = unat n div 8; r = unat n mod 8;
          m = memset_words m dst w;
          d = dst + of_nat (8 * w)
      in if r = 0 then m else m(d := merge_low_bytes r 0 (m d)))"

definition tlsf_realloc :: "control_t \<Rightarrow> mem \<Rightarrow> u64 \<Rightarrow> u64 \<Rightarrow> (control_t \<times> mem \<times> u64) option" where
  "tlsf_realloc c m ptr sz =
     (if ptr \<noteq> 0 \<and> sz = 0 then do { (c, m) \<leftarrow> tlsf_free c m ptr; Some (c, m, 0) }
      else if ptr = 0 then tlsf_malloc c m sz
      else
        let block = block_from_ptr ptr;
            nxt = block_next m block;
            cursize = block_size m block;
            combined = cursize + block_size m nxt + block_header_overhead;
            adjust = adjust_request_size sz ALIGN_SIZE
        in if adjust > cursize \<and> (\<not> block_is_free m nxt \<or> adjust > combined)
           then do {
             (c, m, p) \<leftarrow> tlsf_malloc c m sz;
             if p \<noteq> 0
             then do {
               let minsize = (if cursize < sz then cursize else sz);
               let m = memcpy m p ptr minsize;
               (c, m) \<leftarrow> tlsf_free c m ptr;
               Some (c, m, p)
             }
             else Some (c, m, p)
           }
           else do {
             (c, m) \<leftarrow>
               (if adjust > cursize
                then do {
                  (c, m, _) \<leftarrow> block_merge_next c m block;
                  let m = block_mark_as_used m block;
                  Some (c, m)
                }
                else Some (c, m));
             (c, m) \<leftarrow> block_trim_used c m block adjust;
             Some (c, m, ptr)
           })"

definition tlsf_block_size :: "mem \<Rightarrow> u64 \<Rightarrow> u64" where
  "tlsf_block_size m ptr = (if ptr \<noteq> 0 then block_size m (block_from_ptr ptr) else 0)"

section \<open>Integrity checks\<close>

text \<open>A walker is a function from its accumulator, the user argument, to the updated accumulator.\<close>

partial_function (option) walk_blocks ::
  "(u64 \<Rightarrow> u64 \<Rightarrow> bool \<Rightarrow> 'u \<Rightarrow> 'u) \<Rightarrow> mem \<Rightarrow> u64 \<Rightarrow> 'u \<Rightarrow> 'u option" where
  "walk_blocks walker m block user =
     (if block \<noteq> 0 \<and> \<not> block_is_last m block
      then walk_blocks walker m (block_next m block)
             (walker (block_to_ptr block) (block_size m block) (\<not> block_is_free m block) user)
      else Some user)"

declare walk_blocks.simps [code]

definition tlsf_walk_pool ::
  "mem \<Rightarrow> u64 \<Rightarrow> (u64 \<Rightarrow> u64 \<Rightarrow> bool \<Rightarrow> 'u \<Rightarrow> 'u) \<Rightarrow> 'u \<Rightarrow> 'u option" where
  "tlsf_walk_pool m pool walker user =
     walk_blocks walker m (offset_to_block pool (- block_header_overhead)) user"

record integrity_t =
  prev_status :: int
  status :: int

definition insist :: "bool \<Rightarrow> int \<Rightarrow> int" where
  "insist x st = (if \<not> x then st - 1 else st)"

definition integrity_walker :: "mem \<Rightarrow> u64 \<Rightarrow> u64 \<Rightarrow> bool \<Rightarrow> integrity_t \<Rightarrow> integrity_t" where
  "integrity_walker m ptr sz used integ =
     (let block = block_from_ptr ptr;
          this_prev_status = (if block_is_prev_free m block then 1 else 0);
          this_status = (if block_is_free m block then 1 else 0);
          this_block_size = block_size m block;
          st = 0;
          st = insist (prev_status integ = this_prev_status) st;
          st = insist (sz = this_block_size) st
      in integ\<lparr>prev_status := this_status, status := status integ + st\<rparr>)"

definition tlsf_check_pool :: "mem \<Rightarrow> u64 \<Rightarrow> int option" where
  "tlsf_check_pool m pool =
     map_option status
       (tlsf_walk_pool m pool (integrity_walker m) \<lparr>prev_status = 0, status = 0\<rparr>)"

partial_function (option) check_list :: "control_t \<Rightarrow> mem \<Rightarrow> int \<Rightarrow> int \<Rightarrow> u64 \<Rightarrow> int \<Rightarrow> int option" where
  "check_list c m i j block st =
     (if block \<noteq> block_null c
      then
        let st = insist (block_is_free m block) st;
            st = insist (\<not> block_is_prev_free m block) st;
            st = insist (\<not> block_is_free m (block_next m block)) st;
            st = insist (block_is_prev_free m (block_next m block)) st;
            st = insist (block_size m block \<ge> block_size_min) st;
            (fli, sli) = mapping_insert (block_size m block);
            st = insist (fli = i \<and> sli = j) st
        in check_list c m i j (m (next_free block)) st
      else Some st)"

declare check_list.simps [code]

definition check_class :: "control_t \<Rightarrow> mem \<Rightarrow> int \<Rightarrow> int \<Rightarrow> int \<Rightarrow> int option" where
  "check_class c m i j st =
     do {
       fbit \<leftarrow> shl32 1 i;
       sl_list \<leftarrow> index (sl_bitmap c) i;
       sbit \<leftarrow> shl32 1 j;
       lists \<leftarrow> index (blocks c) i;
       block \<leftarrow> index lists j;
       let fl_map = fl_bitmap c AND fbit;
       let sl_map = sl_list AND sbit;
       let st = (if fl_map = 0 then insist (sl_map = 0) st else st);
       if sl_map = 0 then Some (insist (block = block_null c) st)
       else do {
         let st = insist (sl_list \<noteq> 0) st;
         let st = insist (block \<noteq> block_null c) st;
         check_list c m i j block st
       }
     }"

fun check_row :: "control_t \<Rightarrow> mem \<Rightarrow> int \<Rightarrow> nat list \<Rightarrow> int \<Rightarrow> int option" where
  "check_row c m i [] st = Some st"
| "check_row c m i (j # js) st = do { st \<leftarrow> check_class c m i (int j) st; check_row c m i js st }"

fun check_rows :: "control_t \<Rightarrow> mem \<Rightarrow> nat list \<Rightarrow> int \<Rightarrow> int option" where
  "check_rows c m [] st = Some st"
| "check_rows c m (i # is) st =
     do { st \<leftarrow> check_row c m (int i) [0..<SL_INDEX_COUNT] st; check_rows c m is st }"

definition tlsf_check :: "control_t \<Rightarrow> mem \<Rightarrow> int option" where
  "tlsf_check c m = check_rows c m [0..<FL_INDEX_COUNT] 0"

section \<open>The kernel's allocation functions\<close>

text \<open>The global \<open>tlsf\<close> is \<open>None\<close> while it is the null pointer; allocating then is undefined.\<close>

record kheap =
  tlsf :: "control_t option"
  kmem :: mem

definition init_heap :: "kheap \<Rightarrow> control_t \<Rightarrow> u64 \<Rightarrow> u64 \<Rightarrow> kheap option" where
  "init_heap h c start sz =
     do {
       (c, m, t) \<leftarrow> tlsf_create_with_pool c (kmem h) start sz;
       Some (h\<lparr>tlsf := (if t = 0 then None else Some c), kmem := m\<rparr>)
     }"

definition malloc :: "kheap \<Rightarrow> u64 \<Rightarrow> (kheap \<times> u64) option" where
  "malloc h sz =
     do {
       c \<leftarrow> tlsf h;
       (c, m, p) \<leftarrow> tlsf_malloc c (kmem h) sz;
       Some (h\<lparr>tlsf := Some c, kmem := m\<rparr>, p)
     }"

definition malloc_aligned :: "kheap \<Rightarrow> u64 \<Rightarrow> u64 \<Rightarrow> (kheap \<times> u64) option" where
  "malloc_aligned h align sz =
     do {
       c \<leftarrow> tlsf h;
       (c, m, p) \<leftarrow> (if align \<le> 8 then tlsf_malloc c (kmem h) sz else tlsf_memalign c (kmem h) align sz);
       Some (h\<lparr>tlsf := Some c, kmem := m\<rparr>, p)
     }"

definition calloc :: "kheap \<Rightarrow> u64 \<Rightarrow> u64 \<Rightarrow> (kheap \<times> u64) option" where
  "calloc h count sz =
     do {
       c \<leftarrow> tlsf h;
       (c, m, p) \<leftarrow> tlsf_malloc c (kmem h) (count * sz);
       let m = (if p \<noteq> 0 then memset0 m p (count * sz) else m);
       Some (h\<lparr>tlsf := Some c, kmem := m\<rparr>, p)
     }"

definition free :: "kheap \<Rightarrow> u64 \<Rightarrow> kheap option" where
  "free h ptr =
     (case tlsf h of
        None \<Rightarrow> if ptr \<noteq> 0 then None else Some h
      | Some c \<Rightarrow> do { (c, m) \<leftarrow> tlsf_free c (kmem h) ptr; Some (h\<lparr>tlsf := Some c, kmem := m\<rparr>) })"

end
