(* ===== verification/Tlsf_Layout.thy ===== *)
theory Tlsf_Layout
  imports Tlsf_Api
begin

text \<open>
  The physical side of the kernel heap's invariant: headers, their effect on memory, and the layout
  of a pool as a list of block sizes and states.

  Addresses are counted in words from the control structure: \<open>adr b k\<close> is word \<open>k\<close> of an arena that
  starts at \<open>b\<close>, and \<open>view b n m\<close> is the content of its first \<open>n\<close> words. A block at word \<open>k\<close> of size
  \<open>s\<close> (in words) keeps its size and flags in word \<open>k + 1\<close>, owns the words up to \<open>k + s + 1\<close>, and its
  physical successor is the block at word \<open>k + s + 1\<close>.
\<close>

section \<open>Words of the arena\<close>

definition adr :: "u64 \<Rightarrow> nat \<Rightarrow> u64" where
  "adr b k = b + 8 * of_nat k"

definition arena :: "u64 \<Rightarrow> nat \<Rightarrow> bool" where
  "arena b n \<longleftrightarrow> 8 dvd unat b \<and> b \<noteq> 0 \<and> unat b + 8 * n < 2 ^ 64"

definition view :: "u64 \<Rightarrow> nat \<Rightarrow> mem \<Rightarrow> nat \<Rightarrow> u64" where
  "view b n m k = (if k < n then m (adr b k) else 0)"

lemma adr_add [simp]:
  "adr b k + 8 = adr b (k + 1)" "adr b k + 16 = adr b (k + 2)" "adr b k + 24 = adr b (k + 3)"
  by (simp_all add: adr_def algebra_simps)

lemma adr_0 [simp]: "adr b 0 = b" by (simp add: adr_def)

lemma unat_adr:
  assumes "arena b n" and "k \<le> n"
  shows "unat (adr b k) = unat b + 8 * k"
proof -
  have "unat b + 8 * k < 2 ^ LENGTH(64)" using assms by (simp add: arena_def)
  then show ?thesis using unat_add_of_nat [of b "8 * k"] by (simp add: adr_def)
qed

lemma adr_inj [simp]:
  assumes "arena b n" and "i \<le> n" and "j \<le> n"
  shows "adr b i = adr b j \<longleftrightarrow> i = j"
proof
  assume "adr b i = adr b j"
  then have "unat (adr b i) = unat (adr b j)" by simp
  then show "i = j" using assms by (simp add: unat_adr)
qed simp

lemma adr_neq_0:
  assumes "arena b n" and "k \<le> n"
  shows "adr b k \<noteq> 0"
proof -
  have "0 < unat b" using assms by (simp add: arena_def unat_gt_0)
  then have "unat (adr b k) \<noteq> 0" using unat_adr [OF assms] by simp
  then show ?thesis by auto
qed

lemma view_upd:
  assumes "arena b n" and "i < n"
  shows "view b n (m(adr b i := v)) = (view b n m)(i := v)"
  using assms by (auto simp: view_def fun_eq_iff)

lemma view_read: "i < n \<Longrightarrow> m (adr b i) = view b n m i"
  by (simp add: view_def)

section \<open>Size words\<close>

definition szw :: "nat \<Rightarrow> bool \<Rightarrow> bool \<Rightarrow> u64" where
  "szw s f p = 8 * of_nat s OR of_bool f OR push_bit 1 (of_bool p)"

lemma bit_times_8 [bits]: "bit (8 * x :: u64) i \<longleftrightarrow> 3 \<le> i \<and> i < 64 \<and> bit x (i - 3)"
proof -
  have "8 * x = push_bit 3 x" by (simp add: push_bit_eq_mult)
  then show ?thesis by (simp only: bit_push_bit_iff) simp
qed

lemma bit_szw [bits]:
  "bit (szw s f p) i \<longleftrightarrow>
     (if i = 0 then f else if i = 1 then p else bit (8 * of_nat s :: u64) i)"
  by (auto simp: szw_def bits)

lemma three_mask: "(3 :: u64) = mask 2" by (simp add: mask_eq_decr_exp)

lemma bit_two [bits]: "bit (2 :: u64) i \<longleftrightarrow> i = 1"
proof -
  have "(2 :: u64) = push_bit 1 1" by simp
  then show ?thesis by (simp only: bit_push_bit_iff bit_1_iff) auto
qed

lemma szw_size: "szw s f p AND - 4 = 8 * of_nat s"
proof -
  have "szw s f p AND NOT (mask 2) = 8 * of_nat s" by (rule bit_word_eqI) (auto simp: bits)
  then show ?thesis by (simp add: mask_eq_decr_exp)
qed

lemma szw_set_size: "8 * of_nat s OR (w AND 3) = szw s (bit w 0) (bit w 1)"
  unfolding three_mask by (rule bit_word_eqI) (auto simp: bits)

lemma szw_set_flags:
  "szw s f p OR 1 = szw s True p"
  "szw s f p AND - 2 = szw s False p"
  "szw s f p OR 2 = szw s f True"
  "szw s f p AND - 3 = szw s f False"
proof -
  have "szw s f p AND NOT 1 = szw s False p" "szw s f p AND NOT 2 = szw s f False"
    by (rule bit_word_eqI, auto simp: bits)+
  then show "szw s f p AND - 2 = szw s False p" "szw s f p AND - 3 = szw s f False" by simp_all
qed (rule bit_word_eqI, auto simp: bits)+

lemma szw_test_flags:
  "szw s f p AND 1 = of_bool f"
  "szw s f p AND 2 = push_bit 1 (of_bool p)"
  "bit (szw s f p) 0 = f"
  "bit (szw s f p) (Suc 0) = p"
proof -
  show "szw s f p AND 1 = of_bool f" "szw s f p AND 2 = push_bit 1 (of_bool p)"
    by (rule bit_word_eqI, auto simp: bits simp del: and_one_eq)+
qed (auto simp: bits)

lemma szw_grow: "szw s f p + 8 * of_nat t = szw (s + t) f p"
proof -
  have sum: "szw s f p = 8 * of_nat s + (of_bool f OR push_bit 1 (of_bool p))" for s
    unfolding szw_def or.assoc
    by (rule disjunctive_add [symmetric]) (auto simp: bits)
  show ?thesis by (simp add: sum distrib_left)
qed

section \<open>Block headers in the view\<close>

named_theorems hdr_reads \<open>what the accessors of a header return\<close>
named_theorems hdr_writes \<open>the view after a header was written\<close>

lemma block_reads [hdr_reads]:
  assumes "view b n m (k + 1) = szw s f p" and "k + 1 < n"
  shows "block_size m (adr b k) = 8 * of_nat s"
    and "block_is_free m (adr b k) \<longleftrightarrow> f"
    and "block_is_prev_free m (adr b k) \<longleftrightarrow> p"
    and "block_next m (adr b k) = adr b (k + s + 1)"
proof -
  have w: "m (adr b (k + 1)) = szw s f p" using assms by (simp add: view_def)
  show sz: "block_size m (adr b k) = 8 * of_nat s"
    using w by (simp add: block_size_def szw_size)
  show "block_is_free m (adr b k) \<longleftrightarrow> f"
    using w by (simp add: block_is_free_def szw_test_flags del: and_one_eq)
  show "block_is_prev_free m (adr b k) \<longleftrightarrow> p"
    using w by (simp add: block_is_prev_free_def szw_test_flags)
  show "block_next m (adr b k) = adr b (k + s + 1)"
    unfolding block_next_def sz by (simp add: offset_to_block_def block_to_ptr_def adr_def algebra_simps)
qed

lemma view_set_size [hdr_writes]:
  assumes "arena b n" and "k + 1 < n"
  shows "view b n (block_set_size m (adr b k) (8 * of_nat s)) =
    (view b n m)(k + 1 := szw s (bit (view b n m (k + 1)) 0) (bit (view b n m (k + 1)) 1))"
  using assms by (simp add: block_set_size_def Let_def view_upd view_read [of _ n] szw_set_size)

lemma view_set_flags [hdr_writes]:
  assumes "arena b n" and "k + 1 < n" and "view b n m (k + 1) = szw s f p"
  shows "view b n (block_set_free m (adr b k)) = (view b n m)(k + 1 := szw s True p)"
    and "view b n (block_set_used m (adr b k)) = (view b n m)(k + 1 := szw s False p)"
    and "view b n (block_set_prev_free m (adr b k)) = (view b n m)(k + 1 := szw s f True)"
    and "view b n (block_set_prev_used m (adr b k)) = (view b n m)(k + 1 := szw s f False)"
  using assms
  by (simp_all add: block_set_free_def block_set_used_def block_set_prev_free_def block_set_prev_used_def
      view_upd view_read [of _ n] szw_set_flags)

lemma link_next:
  assumes "arena b n" and "k + s + 1 < n" and "view b n m (k + 1) = szw s f p" and "k + 1 < n"
  shows "view b n (fst (block_link_next m (adr b k))) = (view b n m)(k + s + 1 := adr b k)"
    and "snd (block_link_next m (adr b k)) = adr b (k + s + 1)"
  using assms by (simp_all add: block_link_next_def Let_def hdr_reads view_upd)

lemma view_mark_as_free [hdr_writes]:
  assumes "arena b n" and "k + s + 2 < n" and "0 < s"
    and "view b n m (k + 1) = szw s f p" and "view b n m (k + s + 2) = szw s2 f2 p2"
  shows "view b n (block_mark_as_free m (adr b k)) =
    (view b n m)(k + s + 1 := adr b k, k + s + 2 := szw s2 f2 True, k + 1 := szw s True p)"
proof -
  define m1 where "m1 = fst (block_link_next m (adr b k))"
  have m1: "block_link_next m (adr b k) = (m1, adr b (k + s + 1))"
    "view b n m1 = (view b n m)(k + s + 1 := adr b k)"
    using link_next [of b n k s m f p] assms by (simp_all add: m1_def prod_eq_iff)
  define m2 where "m2 = block_set_prev_free m1 (adr b (k + s + 1))"
  have m2: "view b n m2 = (view b n m)(k + s + 1 := adr b k, k + s + 2 := szw s2 f2 True)"
    using view_set_flags(3) [of b n "k + s + 1" m1 s2 f2 p2] assms m1 by (simp add: m2_def)
  show ?thesis
    using view_set_flags(1) [of b n k m2 s f p] assms m2
    by (simp add: block_mark_as_free_def m1 m2_def)
qed

lemma view_mark_as_used [hdr_writes]:
  assumes "arena b n" and "k + s + 2 < n"
    and "view b n m (k + 1) = szw s f p" and "view b n m (k + s + 2) = szw s2 f2 p2"
  shows "view b n (block_mark_as_used m (adr b k)) =
    (view b n m)(k + s + 2 := szw s2 f2 False, k + 1 := szw s False p)"
proof -
  define m1 where "m1 = block_set_prev_used m (adr b (k + s + 1))"
  have m1: "view b n m1 = (view b n m)(k + s + 2 := szw s2 f2 False)"
    using view_set_flags(4) [of b n "k + s + 1" m s2 f2 p2] assms by (simp add: m1_def)
  show ?thesis
    using view_set_flags(2) [of b n k m1 s f p] assms m1
    by (simp add: block_mark_as_used_def hdr_reads m1_def)
qed

lemma split_block:
  assumes "arena b n" and "k + s + 2 < n" and "s = r + t + 1" and "0 < r" and "0 < t"
    and "view b n m (k + 1) = szw s f p" and "view b n m (k + s + 2) = szw s2 f2 p2"
  shows "\<exists>g. view b n (fst (block_split m (adr b k) (8 * of_nat r))) =
    (view b n m)(k + r + 2 := szw t True g, k + 1 := szw r f p,
      k + s + 1 := adr b (k + r + 1), k + s + 2 := szw s2 f2 True)"
    and "snd (block_split m (adr b k) (8 * of_nat r)) = adr b (k + r + 1)"
proof -
  have rem: "offset_to_block (block_to_ptr (adr b k)) (8 * of_nat r - 8) = adr b (k + r + 1)"
    by (simp add: offset_to_block_def block_to_ptr_def adr_def algebra_simps)
  have sz: "block_size m (adr b k) - (8 * of_nat r + 8) = 8 * of_nat t"
    using assms(2,3,6) by (simp add: hdr_reads algebra_simps)
  define m1 where "m1 = block_set_size m (adr b (k + r + 1)) (8 * of_nat t)"
  define g where "g = bit (view b n m (k + r + 2)) 1"
  obtain f1 where m1: "view b n m1 = (view b n m)(k + r + 2 := szw t f1 g)"
    using view_set_size [of b n "k + r + 1" m t] assms(1-3) by (simp add: m1_def g_def)
  define m2 where "m2 = block_set_size m1 (adr b k) (8 * of_nat r)"
  have m2: "view b n m2 = (view b n m)(k + r + 2 := szw t f1 g, k + 1 := szw r f p)"
    using view_set_size [of b n k m1 r] assms m1 by (simp add: m2_def szw_test_flags)
  have m3: "view b n (block_mark_as_free m2 (adr b (k + r + 1))) =
    (view b n m)(k + r + 2 := szw t f1 g, k + 1 := szw r f p,
      k + s + 1 := adr b (k + r + 1), k + s + 2 := szw s2 f2 True, k + r + 2 := szw t True g)"
    using view_mark_as_free [of b n "k + r + 1" t m2 f1 g s2 f2 p2] assms m2
    by (simp add: add.commute add.left_commute)
  have sp: "block_split m (adr b k) (8 * of_nat r) =
    (block_mark_as_free m2 (adr b (k + r + 1)), adr b (k + r + 1))"
    using rem sz by (simp add: block_split_def m1_def m2_def Let_def)
  show "\<exists>g. view b n (fst (block_split m (adr b k) (8 * of_nat r))) =
    (view b n m)(k + r + 2 := szw t True g, k + 1 := szw r f p,
      k + s + 1 := adr b (k + r + 1), k + s + 2 := szw s2 f2 True)"
    using sp m3 assms(3-5) by (intro exI [of _ g]) (simp add: fun_upd_twist)
  show "snd (block_split m (adr b k) (8 * of_nat r)) = adr b (k + r + 1)"
    using sp by simp
qed

lemma absorb:
  assumes "arena b n" and "k + s + s2 + 2 < n"
    and "view b n m (k + 1) = szw s f p" and "view b n m (k + s + 2) = szw s2 f2 p2"
  shows "view b n (fst (block_absorb m (adr b k) (adr b (k + s + 1)))) =
    (view b n m)(k + 1 := szw (s + s2 + 1) f p, k + s + s2 + 2 := adr b k)"
    and "snd (block_absorb m (adr b k) (adr b (k + s + 1))) = adr b k"
proof -
  define m1 where "m1 = m(adr b (k + 1) :=
    m (adr b (k + 1)) + (block_size m (adr b (k + s + 1)) + 8))"
  have "block_size m (adr b (k + s + 1)) + 8 = 8 * of_nat (s2 + 1)"
    using block_reads(1) [of b n m "k + s + 1" s2 f2 p2] assms by simp
  then have m1: "view b n m1 = (view b n m)(k + 1 := szw (s + s2 + 1) f p)"
    using assms szw_grow [of s f p "s2 + 1"]
    by (simp add: m1_def view_upd view_read [of _ n] del: of_nat_add of_nat_Suc)
  have ab: "block_absorb m (adr b k) (adr b (k + s + 1)) = (fst (block_link_next m1 (adr b k)), adr b k)"
    by (simp add: block_absorb_def m1_def split_def Let_def)
  show "view b n (fst (block_absorb m (adr b k) (adr b (k + s + 1)))) =
    (view b n m)(k + 1 := szw (s + s2 + 1) f p, k + s + s2 + 2 := adr b k)"
    unfolding ab using link_next [of b n k "s + s2 + 1" m1 f p] assms m1
    by (simp add: add.commute add.left_commute)
  show "snd (block_absorb m (adr b k) (adr b (k + s + 1))) = adr b k"
    using ab by simp
qed

section \<open>Physical layout of a pool\<close>

text \<open>
  A pool is described by the sizes and states of its blocks in address order. Each header records
  its own size and state and the state of its predecessor; a free block is also recorded in its
  successor's \<open>prev_phys_block\<close>. The pool ends in a used block of size 0.
\<close>

type_synonym layout = "(nat \<times> bool) list"

fun span :: "layout \<Rightarrow> nat" where
  "span [] = 0"
| "span ((s, f) # bs) = s + 1 + span bs"

fun last_free :: "bool \<Rightarrow> layout \<Rightarrow> bool" where
  "last_free p [] = p"
| "last_free p ((s, f) # bs) = last_free f bs"

fun seg :: "u64 \<Rightarrow> (nat \<Rightarrow> u64) \<Rightarrow> nat \<Rightarrow> bool \<Rightarrow> layout \<Rightarrow> bool" where
  "seg b h k p [] = True"
| "seg b h k p ((s, f) # bs) =
     (h (k + 1) = szw s f p \<and> (f \<longrightarrow> h (k + s + 1) = adr b k) \<and> seg b h (k + s + 1) f bs)"

definition pool :: "u64 \<Rightarrow> (nat \<Rightarrow> u64) \<Rightarrow> nat \<Rightarrow> bool \<Rightarrow> layout \<Rightarrow> bool" where
  "pool b h k p bs \<longleftrightarrow> seg b h k p bs \<and> h (k + span bs + 1) = szw 0 False (last_free p bs)"

fun no_adj :: "bool \<Rightarrow> layout \<Rightarrow> bool" where
  "no_adj p [] = True"
| "no_adj p ((s, f) # bs) = (\<not> (p \<and> f) \<and> no_adj f bs)"

definition sizes_ok :: "layout \<Rightarrow> bool" where
  "sizes_ok bs \<longleftrightarrow> (\<forall>(s, f)\<in>set bs. 3 \<le> s \<and> s < 2 ^ 29)"

text \<open>The blocks of one state, by their word index.\<close>

fun bmap :: "bool \<Rightarrow> nat \<Rightarrow> layout \<Rightarrow> nat \<rightharpoonup> nat" where
  "bmap g k [] = Map.empty"
| "bmap g k ((s, f) # bs) = (bmap g (k + s + 1) bs)(k := if f = g then Some s else None)"

lemma span_append [simp]: "span (xs @ ys) = span xs + span ys"
  by (induction xs rule: span.induct) auto

lemma last_free_append [simp]: "last_free p (xs @ ys) = last_free (last_free p xs) ys"
  by (induction xs arbitrary: p rule: span.induct) auto

lemma seg_append [simp]:
  "seg b h k p (xs @ ys) \<longleftrightarrow> seg b h k p xs \<and> seg b h (k + span xs) (last_free p xs) ys"
  by (induction xs arbitrary: k p rule: span.induct) (auto simp: algebra_simps)

lemma no_adj_append [simp]: "no_adj p (xs @ ys) \<longleftrightarrow> no_adj p xs \<and> no_adj (last_free p xs) ys"
  by (induction xs arbitrary: p rule: span.induct) auto

lemma sizes_ok_simps [simp]:
  "sizes_ok []"
  "sizes_ok ((s, f) # bs) \<longleftrightarrow> 3 \<le> s \<and> s < 2 ^ 29 \<and> sizes_ok bs"
  "sizes_ok (xs @ ys) \<longleftrightarrow> sizes_ok xs \<and> sizes_ok ys"
  by (auto simp: sizes_ok_def)

lemma seg_frame:
  assumes "\<And>j. k < j \<Longrightarrow> j \<le> k + span bs \<Longrightarrow> h' j = h j"
  shows "seg b h' k p bs \<longleftrightarrow> seg b h k p bs"
  using assms
proof (induction bs arbitrary: k p rule: span.induct)
  case (2 s f bs)
  have "seg b h' (k + s + 1) f bs \<longleftrightarrow> seg b h (k + s + 1) f bs"
    by (rule "2.IH") (use "2.prems" in auto)
  then show ?case using "2.prems" by simp
qed simp

lemma pool_append:
  "pool b h k p (xs @ ys) \<longleftrightarrow> seg b h k p xs \<and> pool b h (k + span xs) (last_free p xs) ys"
  by (auto simp: pool_def algebra_simps)

lemma pool_Cons:
  "pool b h k p ((s, f) # bs) \<longleftrightarrow>
     h (k + 1) = szw s f p \<and> (f \<longrightarrow> h (k + s + 1) = adr b k) \<and> pool b h (k + s + 1) f bs"
  by (auto simp: pool_def algebra_simps)

lemma pool_frame:
  assumes "\<And>j. k < j \<Longrightarrow> j \<le> k + span bs + 1 \<Longrightarrow> h' j = h j"
  shows "pool b h' k p bs \<longleftrightarrow> pool b h k p bs"
  unfolding pool_def using seg_frame [of k bs h' h] assms by simp

text \<open>The header of the block after a given one, which may be the sentinel.\<close>

fun head_of :: "layout \<Rightarrow> nat \<times> bool" where
  "head_of [] = (0, False)"
| "head_of (a # bs) = a"

lemma pool_head: "pool b h k p bs \<Longrightarrow> h (k + 1) = szw (fst (head_of bs)) (snd (head_of bs)) p"
  by (cases "(b, h, k, p, bs)" rule: seg.cases) (auto simp: pool_def)

lemma pool_headE:
  assumes "pool b h k p bs"
  obtains s f where "head_of bs = (s, f)" "h (k + 1) = szw s f p"
  using pool_head [OF assms] by (metis prod.collapse)

lemma bmap_bounds: "bmap g k bs i = Some s \<Longrightarrow> k \<le> i \<and> i + s + 1 \<le> k + span bs"
  by (induction bs arbitrary: k rule: span.induct) (force split: if_splits)+

lemma bmap_outside: "i < k \<or> k + span bs \<le> i \<Longrightarrow> bmap g k bs i = None"
  using bmap_bounds [of g k bs i] by (cases "bmap g k bs i") auto

lemma bmap_size: "bmap g k bs i = Some s \<Longrightarrow> sizes_ok bs \<Longrightarrow> 3 \<le> s \<and> s < 2 ^ 29"
  by (induction bs arbitrary: k rule: span.induct) (auto split: if_splits)

lemma bmap_excl: "bmap g k bs i = Some s \<Longrightarrow> bmap (\<not> g) k bs i = None"
  by (induction bs arbitrary: k rule: span.induct) (auto split: if_splits)

lemma bmap_append: "bmap g k (xs @ ys) i = (if i < k + span xs then bmap g k xs i else bmap g (k + span xs) ys i)"
proof (induction xs arbitrary: k rule: span.induct)
  case 1
  show ?case by (simp add: bmap_outside)
next
  case (2 s f bs)
  then show ?case by (auto simp: algebra_simps)
qed

lemma bmap_spaced:
  "bmap g k bs i = Some s \<Longrightarrow> bmap g' k bs j = Some t \<Longrightarrow> i < j \<Longrightarrow> i + s + 1 \<le> j"
proof (induction bs arbitrary: k rule: span.induct)
  case (2 s' f bs)
  show ?case
  proof (cases "i = k")
    case True
    then show ?thesis using 2 bmap_bounds [of g' "k + s' + 1" bs j t] by (auto split: if_splits)
  next
    case False
    then show ?thesis using 2 bmap_bounds [of g "k + s' + 1" bs i s] by (auto split: if_splits)
  qed
qed simp

lemma bmap_split:
  assumes "bmap g k bs i = Some s"
  obtains xs ys where "bs = xs @ (s, g) # ys" "i = k + span xs"
  using assms
proof (induction bs arbitrary: k thesis rule: span.induct)
  case (2 s' f bs)
  show ?case
  proof (cases "i = k")
    case True
    with "2.prems"(2) have "s' = s" "f = g" by (auto split: if_splits)
    with True show ?thesis by (intro "2.prems"(1) [of "[]" bs]) auto
  next
    case False
    with "2.prems"(2) have "bmap g (k + s' + 1) bs i = Some s" by simp
    then obtain xs ys where "bs = xs @ (s, g) # ys" "i = k + s' + 1 + span xs"
      using "2.IH" by blast
    then show ?thesis by (intro "2.prems"(1) [of "(s', f) # xs" ys]) auto
  qed
qed simp

lemma bmap_mid:
  "bmap g k (xs @ (s, f) # ys) =
     (\<lambda>i. if i < k + span xs then bmap g k xs i
          else if i = k + span xs then (if f = g then Some s else None)
          else bmap g (k + span xs + s + 1) ys i)"
  by (rule ext) (simp add: bmap_append)

text \<open>
  Writing the words in which a free block keeps its free list links (\<open>next_free\<close>, \<open>prev_free\<close>)
  does not change the physical layout.
\<close>

definition link_word :: "(nat \<rightharpoonup> nat) \<Rightarrow> nat \<Rightarrow> bool" where
  "link_word F j \<longleftrightarrow> (\<exists>y. (y = 0 \<or> y \<in> dom F) \<and> (j = y + 2 \<or> j = y + 3))"

lemma bmap_Cons_cases:
  assumes "bmap g k ((s, f) # bs) y = Some t"
  obtains "y = k" "f = g" "t = s" | "k + s + 1 \<le> y" "bmap g (k + s + 1) bs y = Some t"
proof (cases "y = k")
  case True
  with assms that(1) show ?thesis by (simp split: if_splits)
next
  case False
  with assms have "bmap g (k + s + 1) bs y = Some t" by simp
  with that(2) bmap_bounds show ?thesis by blast
qed

lemma seg_links:
  assumes "sizes_ok bs"
    and "\<And>j. k < j \<Longrightarrow> j \<le> k + span bs \<Longrightarrow> h' j \<noteq> h j \<Longrightarrow>
          \<exists>y t. bmap True k bs y = Some t \<and> (j = y + 2 \<or> j = y + 3)"
  shows "seg b h' k p bs \<longleftrightarrow> seg b h k p bs"
  using assms
proof (induction bs arbitrary: k p rule: span.induct)
  case (2 s f bs)
  have s: "3 \<le> s" using "2.prems"(1) by simp
  have away: "h' j = h j" if "j = k + 1 \<or> j = k + s + 1" for j
  proof (rule ccontr)
    assume "h' j \<noteq> h j"
    moreover have "k < j" "j \<le> k + span ((s, f) # bs)" using that by auto
    ultimately obtain y t where y: "bmap True k ((s, f) # bs) y = Some t" "j = y + 2 \<or> j = y + 3"
      using "2.prems"(2) [of j] by blast
    from y(1) show False by (rule bmap_Cons_cases) (use y(2) that s in auto)
  qed
  have "seg b h' (k + s + 1) f bs \<longleftrightarrow> seg b h (k + s + 1) f bs"
  proof (rule "2.IH")
    show "sizes_ok bs" using "2.prems"(1) by simp
    fix j assume j: "k + s + 1 < j" "j \<le> k + s + 1 + span bs" "h' j \<noteq> h j"
    then have "k < j" "j \<le> k + span ((s, f) # bs)" by auto
    with j(3) obtain y t where y: "bmap True k ((s, f) # bs) y = Some t" "j = y + 2 \<or> j = y + 3"
      using "2.prems"(2) [of j] by blast
    from y(1) have "bmap True (k + s + 1) bs y = Some t"
      by (rule bmap_Cons_cases) (use y(2) j(1) s in auto)
    with y(2) show "\<exists>y t. bmap True (k + s + 1) bs y = Some t \<and> (j = y + 2 \<or> j = y + 3)" by blast
  qed
  with away [of "k + 1"] away [of "k + s + 1"] show ?case by (simp only: seg.simps) simp
qed simp

lemma pool_links:
  assumes "pool b h k p bs" and "sizes_ok bs" and "4 \<le> k"
    and "\<And>j. h' j \<noteq> h j \<Longrightarrow> link_word (bmap True k bs) j"
  shows "pool b h' k p bs"
proof -
  have in_range: "\<exists>y t. bmap True k bs y = Some t \<and> (j = y + 2 \<or> j = y + 3)"
    if j: "k < j" "h' j \<noteq> h j" for j
  proof -
    obtain y where "y = 0 \<or> y \<in> dom (bmap True k bs)" "j = y + 2 \<or> j = y + 3"
      using assms(4) [OF j(2)] unfolding link_word_def by blast
    with j(1) assms(3) show ?thesis by auto
  qed
  have "h' (k + span bs + 1) = h (k + span bs + 1)"
  proof (rule ccontr)
    assume "\<not> ?thesis"
    then obtain y s where "bmap True k bs y = Some s" "k + span bs + 1 = y + 2 \<or> k + span bs + 1 = y + 3"
      using in_range [of "k + span bs + 1"] by auto
    then show False using bmap_bounds [of True k bs y s] bmap_size [of True k bs y s] assms(2) by auto
  qed
  moreover have "seg b h' k p bs \<longleftrightarrow> seg b h k p bs"
    by (rule seg_links [OF assms(2)]) (use in_range in blast)
  ultimately show ?thesis using assms(1) by (simp add: pool_def)
qed

lemma payload_not_link:
  assumes "bmap False k bs i = Some s" and "sizes_ok bs" and "4 \<le> k" and "i + 2 \<le> j" and "j \<le> i + s + 1"
  shows "\<not> link_word (bmap True k bs) j"
proof
  assume "link_word (bmap True k bs) j"
  then obtain y where y: "y = 0 \<or> y \<in> dom (bmap True k bs)" "j = y + 2 \<or> j = y + 3"
    unfolding link_word_def by blast
  have i: "k \<le> i" using bmap_bounds [OF assms(1)] by simp
  with y assms(3,4) have "y \<noteq> 0" by auto
  with y obtain t where t: "bmap True k bs y = Some t" by auto
  have "y \<noteq> i" using bmap_excl [OF t] assms(1) by auto
  moreover have "3 \<le> t" using bmap_size [OF t assms(2)] by simp
  ultimately show False
    using bmap_spaced [OF assms(1) t] bmap_spaced [OF t assms(1)] y(2) assms(4,5) by (cases "i < y") auto
qed

end
