(* ===== verification/Tlsf_Lists.thy ===== *)
theory Tlsf_Lists
  imports Tlsf_Layout
begin

text \<open>
  The logical side of the kernel heap's invariant: the free lists of the size classes, doubly
  linked through the blocks, and the two levels of bitmaps that say which of them are not empty.
\<close>

section \<open>Doubly linked lists\<close>

text \<open>
  \<open>nx\<close> and \<open>pv\<close> give the \<open>next_free\<close> and \<open>prev_free\<close> words of the blocks. A list runs from its head,
  whose predecessor is \<open>p\<close>, to its last element, whose successor is \<open>q\<close>.
\<close>

fun hd0 :: "nat list \<Rightarrow> nat \<Rightarrow> nat" where
  "hd0 [] q = q"
| "hd0 (x # xs) q = x"

fun last0 :: "nat \<Rightarrow> nat list \<Rightarrow> nat" where
  "last0 p [] = p"
| "last0 p (x # xs) = last0 x xs"

fun dll :: "u64 \<Rightarrow> (nat \<Rightarrow> u64) \<Rightarrow> (nat \<Rightarrow> u64) \<Rightarrow> nat \<Rightarrow> nat list \<Rightarrow> nat \<Rightarrow> bool" where
  "dll b nx pv p [] q = True"
| "dll b nx pv p (x # xs) q = (pv x = adr b p \<and> nx x = adr b (hd0 xs q) \<and> dll b nx pv x xs q)"

lemma hd0_append [simp]: "hd0 (xs @ ys) q = hd0 xs (hd0 ys q)"
  by (cases xs) auto

lemma last0_append [simp]: "last0 p (xs @ ys) = last0 (last0 p xs) ys"
  by (induction xs arbitrary: p) auto

lemma hd0_in: "hd0 xs q \<in> insert q (set xs)" by (cases xs) auto

lemma last0_in: "last0 p xs \<in> insert p (set xs)" by (induction xs arbitrary: p) auto

lemma dll_append [simp]:
  "dll b nx pv p (xs @ ys) q \<longleftrightarrow> dll b nx pv p xs (hd0 ys q) \<and> dll b nx pv (last0 p xs) ys q"
  by (induction xs arbitrary: p) auto

lemma dll_cong:
  assumes "\<And>x. x \<in> set xs \<Longrightarrow> nx' x = nx x \<and> pv' x = pv x"
  shows "dll b nx' pv' p xs q \<longleftrightarrow> dll b nx pv p xs q"
  using assms by (induction xs arbitrary: p) auto

lemma dll_set_next:
  assumes "dll b nx pv p xs q" and "distinct xs" and "p \<notin> set xs"
  shows "dll b (nx(last0 p xs := adr b q')) pv p xs q'"
  using assms
proof (induction xs arbitrary: p)
  case (Cons x xs)
  have IH: "dll b (nx(last0 x xs := adr b q')) pv x xs q'"
    by (rule Cons.IH) (use Cons.prems in auto)
  show ?case
  proof (cases xs)
    case Nil
    with Cons.prems show ?thesis by simp
  next
    case (Cons y ys)
    then have "last0 x xs \<noteq> x" using last0_in [of y ys] \<open>distinct (x # xs)\<close> by auto
    then have "(nx(last0 x xs := adr b q')) x = adr b (hd0 xs q')"
      using Cons \<open>dll b nx pv p (x # xs) q\<close> by simp
    with IH \<open>dll b nx pv p (x # xs) q\<close> show ?thesis
      by (simp only: dll.simps last0.simps simp_thms)
  qed
qed simp

lemma dll_remove:
  assumes "dll b nx pv 0 (us @ k # vs) 0" and "distinct (us @ k # vs)" and "0 \<notin> set (us @ k # vs)"
  shows "dll b (nx(last0 0 us := adr b (hd0 vs 0))) (pv(hd0 vs 0 := adr b (last0 0 us))) 0 (us @ vs) 0"
proof -
  let ?nx = "nx(last0 0 us := adr b (hd0 vs 0))" and ?pv = "pv(hd0 vs 0 := adr b (last0 0 us))"
  have "hd0 vs 0 \<notin> set us" using hd0_in [of vs 0] assms(2,3) by auto
  then have "dll b ?nx ?pv 0 us (hd0 vs 0) \<longleftrightarrow> dll b ?nx pv 0 us (hd0 vs 0)"
    by (intro dll_cong) auto
  moreover have "dll b ?nx pv 0 us (hd0 vs 0)"
    using assms by (intro dll_set_next [of b nx pv 0 us k]) auto
  moreover have "dll b ?nx ?pv (last0 0 us) vs 0"
  proof (cases vs)
    case (Cons v vs')
    have "last0 0 us \<notin> set vs" using last0_in [of 0 us] assms(2,3) by auto
    then have "dll b ?nx ?pv v vs' 0 \<longleftrightarrow> dll b nx pv v vs' 0"
      using assms(2) Cons by (intro dll_cong) auto
    then show ?thesis using assms(1) Cons \<open>last0 0 us \<notin> set vs\<close> by simp
  qed simp
  ultimately show ?thesis by simp
qed

lemma dll_insert:
  assumes "dll b nx pv 0 xs 0" and "distinct xs" and "k \<notin> set xs" and "k \<noteq> 0" and "0 \<notin> set xs"
  shows "dll b (nx(k := adr b (hd0 xs 0))) (pv(k := b, hd0 xs 0 := adr b k)) 0 (k # xs) 0"
proof (cases xs)
  case Nil
  with assms(4) show ?thesis by simp
next
  case (Cons x xs')
  have "dll b (nx(k := adr b (hd0 xs 0))) (pv(k := b, hd0 xs 0 := adr b k)) x xs' 0 \<longleftrightarrow>
    dll b nx pv x xs' 0"
    using assms(2,3) Cons by (intro dll_cong) auto
  with assms Cons show ?thesis by auto
qed

section \<open>Size classes of blocks\<close>

definition cls :: "nat \<Rightarrow> nat \<times> nat" where
  "cls s = (case mapping_insert (8 * of_nat s) of (fl, sl) \<Rightarrow> (nat fl, nat sl))"

lemma cls_spec:
  assumes "s < 2 ^ 29" and "cls s = (i, j)"
  shows "mapping_insert (8 * of_nat s) = (int i, int j)" "i < 25" "j < 32"
    "class_lo i j \<le> 8 * s" "8 * s < class_lo i j + class_width i"
proof -
  have u: "unat (8 * of_nat s :: u64) = 8 * s"
    using assms(1) unat_of_nat_small [of "8 * s", where 'a = 64] by simp
  then have "unat (8 * of_nat s :: u64) < 2 ^ 32" using assms(1) by simp
  then obtain fl sl where "mapping_insert (8 * of_nat s) = (int fl, int sl)" "fl < 32 - 7" "sl < 32"
    "class_lo fl sl \<le> unat (8 * of_nat s :: u64)"
    "unat (8 * of_nat s :: u64) < class_lo fl sl + class_width fl"
    by (rule mapping_insert_class) simp
  with assms(2) u show "mapping_insert (8 * of_nat s) = (int i, int j)" "i < 25" "j < 32"
    "class_lo i j \<le> 8 * s" "8 * s < class_lo i j + class_width i"
    by (simp_all add: cls_def)
qed

section \<open>The free list invariant\<close>

text \<open>
  \<open>F\<close> maps the free blocks in the lists to their sizes; \<open>L\<close> gives the list of each class. Block 0 is
  \<open>block_null\<close>, the end of every list.
\<close>

definition free_dom :: "nat \<Rightarrow> (nat \<rightharpoonup> nat) \<Rightarrow> bool" where
  "free_dom n F \<longleftrightarrow>
     (\<forall>x s. F x = Some s \<longrightarrow> 4 \<le> x \<and> x + s + 1 < n \<and> 3 \<le> s \<and> s < 2 ^ 29) \<and>
     (\<forall>x y. x \<in> dom F \<longrightarrow> y \<in> dom F \<longrightarrow> x < y \<longrightarrow> x + 4 \<le> y)"

definition nexts :: "(nat \<Rightarrow> u64) \<Rightarrow> nat \<Rightarrow> u64" where
  "nexts h x = h (x + 2)"

definition prevs :: "(nat \<Rightarrow> u64) \<Rightarrow> nat \<Rightarrow> u64" where
  "prevs h x = h (x + 3)"

definition links_ok :: "u64 \<Rightarrow> (nat \<Rightarrow> u64) \<Rightarrow> (nat \<rightharpoonup> nat) \<Rightarrow> (nat \<times> nat \<Rightarrow> nat list) \<Rightarrow> bool" where
  "links_ok b h F L \<longleftrightarrow>
     (\<forall>ij. dll b (nexts h) (prevs h) 0 (L ij) 0 \<and> distinct (L ij) \<and>
           (\<forall>k. k \<in> set (L ij) \<longleftrightarrow> (\<exists>s. F k = Some s \<and> cls s = ij)))"

definition ctl_ok :: "u64 \<Rightarrow> control_t \<Rightarrow> (nat \<times> nat \<Rightarrow> nat list) \<Rightarrow> bool" where
  "ctl_ok b c L \<longleftrightarrow>
     block_null c = b \<and> length (sl_bitmap c) = 25 \<and> length (blocks c) = 25 \<and>
     (\<forall>i<25. length (blocks c ! i) = 32) \<and>
     (\<forall>i<25. \<forall>j<32. blocks c ! i ! j = adr b (hd0 (L (i, j)) 0)) \<and>
     (\<forall>i<25. \<forall>j<32. bit (sl_bitmap c ! i) j \<longleftrightarrow> L (i, j) \<noteq> []) \<and>
     (\<forall>i. bit (fl_bitmap c) i \<longleftrightarrow> i < 25 \<and> (\<exists>j<32. L (i, j) \<noteq> []))"

definition lists :: "u64 \<Rightarrow> nat \<Rightarrow> control_t \<Rightarrow> (nat \<Rightarrow> u64) \<Rightarrow> (nat \<rightharpoonup> nat) \<Rightarrow> bool" where
  "lists b n c h F \<longleftrightarrow> free_dom n F \<and> (\<exists>L. links_ok b h F L \<and> ctl_ok b c L)"

text \<open>The link words of different blocks do not overlap.\<close>

definition keys :: "(nat \<rightharpoonup> nat) \<Rightarrow> nat set" where
  "keys F = insert 0 (dom F)"

lemma free_domD:
  assumes "free_dom n F"
  shows "F x = Some s \<Longrightarrow> 4 \<le> x \<and> x + s + 1 < n \<and> 3 \<le> s \<and> s < 2 ^ 29"
    and "F x = Some s \<Longrightarrow> F y = Some t \<Longrightarrow> x < y \<Longrightarrow> x + 4 \<le> y"
  using assms unfolding free_dom_def by blast+

lemma keys_cases:
  assumes "x \<in> keys F"
  obtains "x = 0" | s where "F x = Some s"
  using assms unfolding keys_def by blast

lemma keys_apart:
  assumes "free_dom n F" and "x \<in> keys F" and "y \<in> keys F"
  shows "x + 3 \<noteq> y + 2"
proof
  assume xy: "x + 3 = y + 2"
  from assms(3) show False
  proof (cases rule: keys_cases)
    case (2 t)
    from assms(2) show False
    proof (cases rule: keys_cases)
      case 1
      with xy 2 free_domD(1) [OF assms(1)] show False by fastforce
    next
      case (2 s)
      with xy \<open>F y = Some t\<close> free_domD(2) [OF assms(1)] show False by fastforce
    qed
  qed (use xy in simp)
qed

lemma links_upd:
  assumes "free_dom n F" and "a \<in> keys F" and "c \<in> keys F" and "set xs \<subseteq> dom F"
    and "h' = h(a + 3 := v, c + 2 := w)"
  shows "dll b (nexts h') (prevs h') p xs q \<longleftrightarrow> dll b ((nexts h)(c := w)) ((prevs h)(a := v)) p xs q"
proof (rule dll_cong)
  fix x assume "x \<in> set xs"
  then have "x \<in> keys F" using assms(4) by (auto simp: keys_def)
  then have "x + 2 \<noteq> a + 3" "x + 3 \<noteq> c + 2"
    using keys_apart [OF assms(1)] assms(2,3) by metis+
  then show "nexts h' x = ((nexts h)(c := w)) x \<and> prevs h' x = ((prevs h)(a := v)) x"
    using assms(5) by (auto simp: nexts_def prevs_def)
qed

lemma links_okD:
  assumes "links_ok b h F L"
  shows "dll b (nexts h) (prevs h) 0 (L ij) 0" "distinct (L ij)"
    "k \<in> set (L ij) \<longleftrightarrow> (\<exists>s. F k = Some s \<and> cls s = ij)" "set (L ij) \<subseteq> dom F"
  using assms unfolding links_ok_def by blast+

lemma links_okI:
  assumes "\<And>ij. dll b (nexts h) (prevs h) 0 (L ij) 0" and "\<And>ij. distinct (L ij)"
    and "\<And>ij k. k \<in> set (L ij) \<longleftrightarrow> (\<exists>s. F k = Some s \<and> cls s = ij)"
  shows "links_ok b h F L"
  unfolding links_ok_def using assms by blast

lemma free_dom_0: "free_dom n F \<Longrightarrow> F 0 = None"
  unfolding free_dom_def by (metis not_None_eq not_numeral_le_zero)

lemma links_disjoint:
  assumes "links_ok b h F L" and "free_dom n F" and "x \<in> insert 0 (set (L ij))" and "ij' \<noteq> ij"
  shows "x \<notin> set (L ij')"
proof
  assume "x \<in> set (L ij')"
  then obtain s where s: "F x = Some s" "cls s = ij'" using links_okD(3) [OF assms(1)] by blast
  then have "x \<noteq> 0" using free_dom_0 [OF assms(2)] by (intro notI) simp
  then have "x \<in> set (L ij)" using assms(3) by blast
  then obtain s' where "F x = Some s'" "cls s' = ij" using links_okD(3) [OF assms(1)] by blast
  with s assms(4) show False by simp
qed

lemma links_remove:
  assumes "free_dom n F" and "links_ok b h F L" and L: "L ij = us @ k # vs"
    and h': "h' = h(hd0 vs 0 + 3 := adr b (last0 0 us), last0 0 us + 2 := adr b (hd0 vs 0))"
  shows "links_ok b h' (F(k := None)) (L(ij := us @ vs))"
proof (rule links_okI)
  let ?a = "hd0 vs 0" and ?c = "last0 0 us"
  have ac: "?a \<in> insert 0 (set (L ij))" "?c \<in> insert 0 (set (L ij))"
    using hd0_in [of vs 0] last0_in [of 0 us] L by auto
  have keys: "?a \<in> keys F" "?c \<in> keys F"
    using ac links_okD(4) [OF assms(2), of ij] unfolding keys_def by blast+
  note upd = links_upd [OF assms(1) keys _ h']
  have "0 \<notin> set (L ij)"
    using links_okD(4) [OF assms(2), of ij] free_dom_0 [OF assms(1)] by blast
  then have no0: "0 \<notin> set (us @ k # vs)" unfolding L .
  have sub: "set (us @ vs) \<subseteq> dom F" using links_okD(4) [OF assms(2), of ij] unfolding L by auto
  have k: "\<exists>s. F k = Some s \<and> cls s = ij"
    using links_okD(3) [OF assms(2), of k ij] L by simp
  fix ij'
  show "dll b (nexts h') (prevs h') 0 ((L(ij := us @ vs)) ij') 0"
  proof (cases "ij' = ij")
    case True
    have "dll b (nexts h) (prevs h) 0 (us @ k # vs) 0" "distinct (us @ k # vs)"
      using links_okD(1,2) [OF assms(2), of ij] unfolding L .
    from dll_remove [OF this no0] True upd [OF sub] show ?thesis by simp
  next
    case False
    then have "?a \<notin> set (L ij')" "?c \<notin> set (L ij')"
      using links_disjoint [OF assms(2,1)] ac by blast+
    then have "dll b ((nexts h)(?c := adr b ?a)) ((prevs h)(?a := adr b ?c)) 0 (L ij') 0 \<longleftrightarrow>
      dll b (nexts h) (prevs h) 0 (L ij') 0"
      by (intro dll_cong) auto
    with False upd [OF links_okD(4) [OF assms(2)]] links_okD(1) [OF assms(2)] show ?thesis by simp
  qed
  show "distinct ((L(ij := us @ vs)) ij')"
    using links_okD(2) [OF assms(2), of ij] links_okD(2) [OF assms(2), of ij'] L by simp
  fix x
  show "x \<in> set ((L(ij := us @ vs)) ij') \<longleftrightarrow> (\<exists>s. (F(k := None)) x = Some s \<and> cls s = ij')"
    using links_okD(3) [OF assms(2), of x ij'] links_okD(2) [OF assms(2), of ij] L k
    by (cases "x = k"; cases "ij' = ij") auto
qed

lemma links_insert:
  assumes "free_dom n (F(k \<mapsto> s))" and "links_ok b h F L" and "F k = None" and ij: "cls s = ij"
    and h': "h' = h(k + 2 := adr b (hd0 (L ij) 0), k + 3 := b, hd0 (L ij) 0 + 3 := adr b k)"
  shows "links_ok b h' (F(k \<mapsto> s)) (L(ij := k # L ij))"
proof (rule links_okI)
  let ?F = "F(k \<mapsto> s)" and ?a = "hd0 (L ij) 0"
  have k0: "k \<noteq> 0" using free_dom_0 [OF assms(1)] by (intro notI) simp
  have sub: "set (L ij') \<subseteq> dom F" for ij' using links_okD(4) [OF assms(2)] .
  have "F 0 = None" using free_dom_0 [OF assms(1)] k0 by simp
  then have no0: "0 \<notin> set (L ij')" for ij' using sub [of ij'] by blast
  have kn: "k \<notin> set (L ij')" for ij' using sub [of ij'] assms(3) by blast
  have a: "?a \<in> insert 0 (set (L ij))" by (rule hd0_in)
  have keys: "?a \<in> keys ?F" "k \<in> keys ?F" "x \<in> set (L ij') \<Longrightarrow> x \<in> keys ?F" for x ij'
    using a sub [of ij] sub [of ij'] by (auto simp: keys_def)
  have read: "nexts h' x = ((nexts h)(k := adr b ?a)) x \<and> prevs h' x = ((prevs h)(k := b, ?a := adr b k)) x"
    if "x \<in> keys ?F" for x
  proof -
    have "x + 2 \<noteq> ?a + 3" "x + 2 \<noteq> k + 3" "x + 3 \<noteq> k + 2"
      using keys_apart [OF assms(1)] keys(1,2) that by metis+
    then show ?thesis by (simp add: h' nexts_def prevs_def)
  qed
  fix ij'
  show "dll b (nexts h') (prevs h') 0 ((L(ij := k # L ij)) ij') 0"
  proof (cases "ij' = ij")
    case True
    have "dll b (nexts h') (prevs h') 0 (k # L ij) 0 \<longleftrightarrow>
      dll b ((nexts h)(k := adr b ?a)) ((prevs h)(k := b, ?a := adr b k)) 0 (k # L ij) 0"
      by (rule dll_cong, rule read) (use keys(2) keys(3) [of _ ij] in auto)
    with True dll_insert [OF links_okD(1,2) [OF assms(2)] kn k0 no0] show ?thesis by simp
  next
    case False
    have "x \<noteq> k \<and> x \<noteq> ?a" if "x \<in> set (L ij')" for x
    proof -
      have "?a \<notin> set (L ij')"
      proof
        assume "?a \<in> set (L ij')"
        moreover from this a no0 have "?a \<in> set (L ij)" by (metis insertE)
        ultimately show False using False links_okD(3) [OF assms(2)] by (metis option.inject)
      qed
      with that kn show ?thesis by blast
    qed
    then have "dll b (nexts h') (prevs h') 0 (L ij') 0 \<longleftrightarrow> dll b (nexts h) (prevs h) 0 (L ij') 0"
      using read keys(3) by (intro dll_cong) simp
    with False links_okD(1) [OF assms(2)] show ?thesis by simp
  qed
  show "distinct ((L(ij := k # L ij)) ij')"
    using links_okD(2) [OF assms(2)] kn by simp
  fix x
  show "x \<in> set ((L(ij := k # L ij)) ij') \<longleftrightarrow> (\<exists>t. ?F x = Some t \<and> cls t = ij')"
    using links_okD(3) [OF assms(2), of x ij'] kn [of ij'] ij by (cases "x = k"; cases "ij' = ij") auto
qed

section \<open>The bitmaps\<close>

lemma index_int [simp]: "i < length xs \<Longrightarrow> index xs (int i) = Some (xs ! i)"
  by (simp add: index_def)

lemma set_index_int [simp]: "i < length xs \<Longrightarrow> set_index xs (int i) v = Some (xs[i := v])"
  by (simp add: set_index_def)

lemma shl32_int [simp]: "i < 32 \<Longrightarrow> shl32 w (int i) = Some (push_bit i w)"
  by (simp add: shl32_def)

lemma bit_clear: "bit (w AND NOT (2 ^ j)) i \<longleftrightarrow> bit w i \<and> i \<noteq> j" for w :: u32
  by (auto simp: bits dest: bit_imp_le_length)

lemma bit_set: "j < 32 \<Longrightarrow> bit (w OR 2 ^ j) i \<longleftrightarrow> bit w i \<or> i = j" for w :: u32
  by (auto simp: bits)

lemma word32_eq_0: "w = 0 \<longleftrightarrow> (\<forall>j<32. \<not> bit w j)" for w :: u32
  by (auto intro!: bit_word_eqI)

lemma ctl_okD:
  assumes "ctl_ok b c L"
  shows "block_null c = b" "length (sl_bitmap c) = 25" "length (blocks c) = 25"
    "i < 25 \<Longrightarrow> length (blocks c ! i) = 32"
    "i < 25 \<Longrightarrow> j < 32 \<Longrightarrow> blocks c ! i ! j = adr b (hd0 (L (i, j)) 0)"
    "i < 25 \<Longrightarrow> j < 32 \<Longrightarrow> bit (sl_bitmap c ! i) j \<longleftrightarrow> L (i, j) \<noteq> []"
    "bit (fl_bitmap c) i \<longleftrightarrow> i < 25 \<and> (\<exists>j<32. L (i, j) \<noteq> [])"
  using assms unfolding ctl_ok_def by blast+

text \<open>Replacing the list of one class: what the head, the row and the column bit must become.\<close>

lemma ctl_ok_set:
  assumes c: "ctl_ok b c L" and ij: "i < 25" "j < 32"
    and c': "block_null c' = b" "length (sl_bitmap c') = 25"
      "blocks c' = (blocks c)[i := (blocks c ! i)[j := adr b (hd0 xs 0)]]"
      "\<And>i'. i' < 25 \<Longrightarrow> i' \<noteq> i \<Longrightarrow> sl_bitmap c' ! i' = sl_bitmap c ! i'"
      "\<And>j'. j' < 32 \<Longrightarrow> bit (sl_bitmap c' ! i) j' \<longleftrightarrow> (if j' = j then xs \<noteq> [] else bit (sl_bitmap c ! i) j')"
      "\<And>i'. bit (fl_bitmap c') i' \<longleftrightarrow>
         (if i' = i then \<exists>j'<32. bit (sl_bitmap c' ! i) j' else bit (fl_bitmap c) i')"
  shows "ctl_ok b c' (L((i, j) := xs))"
proof -
  note D = ctl_okD [OF c]
  let ?L = "L((i, j) := xs)"
  have sl: "bit (sl_bitmap c' ! i') j' \<longleftrightarrow> ?L (i', j') \<noteq> []" if "i' < 25" "j' < 32" for i' j'
    using c'(4) [of i'] c'(5) [of j'] D(6) that ij by (cases "i' = i") auto
  have "length (blocks c') = 25" "\<forall>i'<25. length (blocks c' ! i') = 32"
    using D(3,4) c'(3) ij by (auto simp: nth_list_update)
  moreover have "\<forall>i'<25. \<forall>j'<32. blocks c' ! i' ! j' = adr b (hd0 (?L (i', j')) 0)"
    using D(3-5) c'(3) ij by (auto simp: nth_list_update)
  moreover have "bit (fl_bitmap c') i' \<longleftrightarrow> i' < 25 \<and> (\<exists>j'<32. ?L (i', j') \<noteq> [])" for i'
  proof (cases "i' = i")
    case True
    have "(\<exists>j'<32. bit (sl_bitmap c' ! i) j') \<longleftrightarrow> (\<exists>j'<32. ?L (i, j') \<noteq> [])"
      using sl [OF ij(1)] by blast
    with c'(6) [of i] ij(1) show ?thesis unfolding True by (simp only: if_True simp_thms)
  next
    case False
    then show ?thesis using c'(6) [of i'] D(7) [of i'] by auto
  qed
  ultimately show ?thesis using c'(1,2) sl unfolding ctl_ok_def by blast
qed

lemma set_head_int:
  assumes "ctl_ok b c L" and "i < 25" "j < 32"
  shows "set_head c (int i) (int j) v = Some (c\<lparr>blocks := (blocks c)[i := (blocks c ! i)[j := v]]\<rparr>)"
  using assms ctl_okD(3,4) [OF assms(1)] by (simp add: set_head_def)

section \<open>Removing and inserting a block\<close>

lemma free_dom_remove: "free_dom n F \<Longrightarrow> free_dom n (F(k := None))"
  unfolding free_dom_def by simp

lemma link_wordI: "y \<in> keys F \<Longrightarrow> j = y + 2 \<or> j = y + 3 \<Longrightarrow> link_word F j"
  unfolding link_word_def keys_def by blast

lemma keys_bound: "free_dom n F \<Longrightarrow> x \<in> keys F \<Longrightarrow> 6 < n \<Longrightarrow> x + 4 < n"
  by (erule keys_cases) (use free_domD(1) [of n F x] in fastforce)+

lemma remove_free_block_ok:
  assumes ar: "arena b n" and ls: "lists b n c (view b n m) F"
    and k: "F k = Some s" "cls s = (i, j)"
  obtains c' m' where "remove_free_block c m (adr b k) (int i) (int j) = Some (c', m')"
    "lists b n c' (view b n m') (F(k := None))" "block_null c' = block_null c"
    "\<And>x. view b n m' x \<noteq> view b n m x \<Longrightarrow> link_word F x"
proof -
  obtain L where fd: "free_dom n F" and lk: "links_ok b (view b n m) F L" and ct: "ctl_ok b c L"
    using ls unfolding lists_def by blast
  have n: "6 < n" "k + 4 < n" and ij: "i < 25" "j < 32"
    using free_domD(1) [OF fd k(1)] cls_spec(2,3) [OF _ k(2)] by auto
  have "k \<in> set (L (i, j))" using links_okD(3) [OF lk] k by blast
  then obtain us vs where L: "L (i, j) = us @ k # vs" by (meson split_list)
  define a where "a = hd0 vs 0" define p where "p = last0 0 us"
  have "a \<in> insert 0 (set (L (i, j)))" "p \<in> insert 0 (set (L (i, j)))"
    using hd0_in [of vs 0] last0_in [of 0 us] L by (auto simp: a_def p_def)
  then have keys: "a \<in> keys F" "p \<in> keys F"
    using links_okD(4) [OF lk, of "(i, j)"] unfolding keys_def by blast+
  then have bnd: "a + 4 < n" "p + 4 < n" using keys_bound [OF fd] n by auto
  have rd: "m (adr b (k + 3)) = adr b p" "m (adr b (k + 2)) = adr b a"
    using links_okD(1) [OF lk, of "(i, j)"] n
    by (simp_all add: L a_def p_def nexts_def prevs_def view_def)
  define m' where "m' = m(adr b (a + 3) := adr b p, adr b (p + 2) := adr b a)"
  have vw: "view b n m' = (view b n m)(a + 3 := adr b p, p + 2 := adr b a)"
    using ar bnd by (simp add: m'_def view_upd)
  have lk': "links_ok b (view b n m') (F(k := None)) (L((i, j) := us @ vs))"
    using links_remove [OF fd lk L] vw by (simp add: a_def p_def)
  have fr: "link_word F x" if "view b n m' x \<noteq> view b n m x" for x
    using that vw keys by (auto intro: link_wordI split: if_splits)
  have dist: "distinct (us @ k # vs)" "0 \<notin> set (us @ k # vs)"
    using links_okD(2,4) [OF lk, of "(i, j)"] free_dom_0 [OF fd] unfolding L by (blast, blast)
  show thesis
  proof (cases "us = []")
    case False
    then have hd: "hd0 us k \<noteq> k" using dist(1) hd0_in [of us k] by (cases us) auto
    have "hd0 us k \<in> keys F"
      using hd0_in [of us k] links_okD(4) [OF lk, of "(i, j)"] unfolding L keys_def by auto
    then have "hd0 us k + 4 < n" using keys_bound [OF fd _ n(1)] by blast
    then have "adr b (hd0 us k) \<noteq> adr b k" using hd n adr_inj [OF ar] by simp
    then have "remove_free_block c m (adr b k) (int i) (int j) = Some (c, m')"
      using ctl_okD(3-5) [OF ct] ij rd by (simp add: remove_free_block_def Let_def L m'_def)
    moreover have "ctl_ok b c (L((i, j) := us @ vs))"
    proof (rule ctl_ok_set [OF ct ij])
      have "adr b (hd0 (us @ vs) 0) = blocks c ! i ! j"
        using ctl_okD(5) [OF ct ij] L False by (cases us) auto
      then show "blocks c = (blocks c)[i := (blocks c ! i)[j := adr b (hd0 (us @ vs) 0)]]"
        by (simp only: list_update_id)
      show "bit (fl_bitmap c) i' \<longleftrightarrow> (if i' = i then \<exists>j'<32. bit (sl_bitmap c ! i) j' else bit (fl_bitmap c) i')" for i'
        using ctl_okD(6,7) [OF ct] ij by auto
    qed (use ctl_okD [OF ct] ij L False in \<open>auto split: if_splits\<close>)
    ultimately show thesis
      using that lk' fr free_dom_remove [OF fd] unfolding lists_def by blast
  next
    case True
    define c1 where "c1 = c\<lparr>blocks := (blocks c)[i := (blocks c ! i)[j := adr b a]]\<rparr>"
    have null: "adr b a = block_null c1 \<longleftrightarrow> vs = []"
    proof -
      have "adr b a = adr b 0 \<longleftrightarrow> a = 0" using bnd by (intro adr_inj [OF ar]) auto
      also have "\<dots> \<longleftrightarrow> vs = []" using dist(2) by (cases vs) (auto simp: a_def)
      finally show ?thesis using ctl_okD(1) [OF ct] by (simp add: c1_def)
    qed
    have c1_sel [simp]: "fl_bitmap c1 = fl_bitmap c" "sl_bitmap c1 = sl_bitmap c" "block_null c1 = b"
      using ctl_okD(1) [OF ct] by (simp_all add: c1_def)
    show thesis
    proof (cases "vs = []")
      case False
      then have "remove_free_block c m (adr b k) (int i) (int j) = Some (c1, m')"
        using ctl_okD(3-5) [OF ct] ij rd True null set_head_int [OF ct ij]
        by (simp add: remove_free_block_def Let_def L m'_def c1_def)
      moreover have "ctl_ok b c1 (L((i, j) := us @ vs))"
        using ctl_okD [OF ct] ij L False True
        by (intro ctl_ok_set [OF ct ij]) (auto split: if_splits simp: c1_def a_def)
      ultimately show thesis
        using that lk' fr free_dom_remove [OF fd] ctl_okD(1) [OF ct] unfolding lists_def by (metis c1_sel(3))
    next
      case vs: True
      define row where "row = sl_bitmap c ! i AND NOT (push_bit j 1)"
      define c2 where "c2 = c1\<lparr>sl_bitmap := (sl_bitmap c)[i := row]\<rparr>"
      define c3 where "c3 = (if row = 0 then c2\<lparr>fl_bitmap := fl_bitmap c AND NOT (push_bit i 1)\<rparr> else c2)"
      have "a = 0" "adr b 3 = b + 24" using vs by (simp_all add: a_def adr_def)
      then have "remove_free_block c m (adr b k) (int i) (int j) = Some (c3, m')"
        using ctl_okD(1-5) [OF ct] ij rd True null vs set_head_int [OF ct ij]
        by (simp add: remove_free_block_def Let_def L m'_def c1_def c2_def c3_def row_def)
      moreover have "ctl_ok b c3 (L((i, j) := us @ vs))"
      proof (rule ctl_ok_set [OF ct ij])
        have sel: "sl_bitmap c3 = (sl_bitmap c)[i := row]" "block_null c3 = b"
          "blocks c3 = (blocks c)[i := (blocks c ! i)[j := adr b a]]"
          using ctl_okD(1) [OF ct] by (simp_all add: c3_def c2_def c1_def)
        show "block_null c3 = b" "length (sl_bitmap c3) = 25"
          "blocks c3 = (blocks c)[i := (blocks c ! i)[j := adr b (hd0 (us @ vs) 0)]]"
          using sel ctl_okD(2) [OF ct] True by (simp_all add: a_def)
        show "sl_bitmap c3 ! i' = sl_bitmap c ! i'" if "i' < 25" "i' \<noteq> i" for i'
          using sel that by simp
        show "bit (sl_bitmap c3 ! i) j' \<longleftrightarrow> (if j' = j then us @ vs \<noteq> [] else bit (sl_bitmap c ! i) j')" for j'
          using sel ctl_okD(2) [OF ct] ij True vs by (simp add: row_def bit_clear)
        have "bit (fl_bitmap c) i" using ctl_okD(7) [OF ct, of i] ij L by auto
        then show "bit (fl_bitmap c3) i' \<longleftrightarrow>
          (if i' = i then \<exists>j'<32. bit (sl_bitmap c3 ! i) j' else bit (fl_bitmap c) i')" for i'
          using sel(1) ctl_okD(2) [OF ct] ij word32_eq_0 [of row]
          by (simp add: c3_def c2_def bit_clear)
      qed
      ultimately show thesis
        using that lk' fr free_dom_remove [OF fd] ctl_okD(1) [OF ct] unfolding lists_def by (metis ctl_okD(1))
    qed
  qed
qed

lemma insert_free_block_ok:
  assumes ar: "arena b n" and ls: "lists b n c (view b n m) F"
    and k: "F k = None" "cls s = (i, j)" and fd': "free_dom n (F(k \<mapsto> s))"
  obtains c' m' where "insert_free_block c m (adr b k) (int i) (int j) = Some (c', m')"
    "lists b n c' (view b n m') (F(k \<mapsto> s))" "block_null c' = block_null c"
    "\<And>x. view b n m' x \<noteq> view b n m x \<Longrightarrow> link_word (F(k \<mapsto> s)) x"
proof -
  obtain L where lk: "links_ok b (view b n m) F L" and ct: "ctl_ok b c L"
    using ls unfolding lists_def by blast
  have n: "6 < n" "k + 4 < n" and ij: "i < 25" "j < 32"
    using free_domD(1) [OF fd', of k s] cls_spec(2,3) [OF _ k(2)] by auto
  define a where "a = hd0 (L (i, j)) 0"
  have a: "a \<in> keys (F(k \<mapsto> s))"
    using hd0_in [of "L (i, j)" 0] links_okD(4) [OF lk, of "(i, j)"] unfolding keys_def a_def by auto
  then have bnd: "a + 4 < n" using keys_bound [OF fd' _ n(1)] by blast
  define m' where "m' = m(adr b (k + 2) := adr b a, adr b (k + 3) := b, adr b (a + 3) := adr b k)"
  have vw: "view b n m' = (view b n m)(k + 2 := adr b a, k + 3 := b, a + 3 := adr b k)"
    using ar bnd n by (simp add: m'_def view_upd)
  have lk': "links_ok b (view b n m') (F(k \<mapsto> s)) (L((i, j) := k # L (i, j)))"
    using links_insert [OF fd' lk k] vw by (simp add: a_def)
  define c' where "c' = c\<lparr>blocks := (blocks c)[i := (blocks c ! i)[j := adr b k]],
    fl_bitmap := fl_bitmap c OR push_bit i 1, sl_bitmap := (sl_bitmap c)[i := sl_bitmap c ! i OR push_bit j 1]\<rparr>"
  have "insert_free_block c m (adr b k) (int i) (int j) = Some (c', m')"
    using ctl_okD(1-5) [OF ct] ij set_head_int [OF ct ij]
    by (simp add: insert_free_block_def Let_def m'_def c'_def a_def)
  moreover have "ctl_ok b c' (L((i, j) := k # L (i, j)))"
  proof (rule ctl_ok_set [OF ct ij])
    show "bit (fl_bitmap c') i' \<longleftrightarrow>
      (if i' = i then \<exists>j'<32. bit (sl_bitmap c' ! i) j' else bit (fl_bitmap c) i')" for i'
      using ctl_okD(2) [OF ct] ij by (auto simp: c'_def bit_set)
  qed (use ctl_okD(1,2) [OF ct] ij in \<open>simp_all add: c'_def bit_set\<close>)
  moreover have "link_word (F(k \<mapsto> s)) x" if "view b n m' x \<noteq> view b n m x" for x
  proof -
    have "k \<in> keys (F(k \<mapsto> s))" by (simp add: keys_def)
    moreover have "x = k + 2 \<or> x = k + 3 \<or> x = a + 3" using that vw by (auto split: if_splits)
    ultimately show ?thesis using a link_wordI by blast
  qed
  moreover have "block_null c' = block_null c" by (simp add: c'_def)
  ultimately show thesis
    using that lk' fd' unfolding lists_def by blast
qed

section \<open>Searching\<close>

definition class_le :: "nat \<times> nat \<Rightarrow> nat \<times> nat \<Rightarrow> bool" where
  "class_le ij ij' \<longleftrightarrow> fst ij < fst ij' \<or> fst ij = fst ij' \<and> snd ij \<le> snd ij'"

lemma shl32_ones:
  assumes "j < 32"
  obtains above where "shl32 (- 1) (int j) = Some above" "\<And>w x. bit (w AND above) x \<longleftrightarrow> bit w x \<and> j \<le> x"
proof
  show "shl32 (- 1) (int j) = Some (push_bit j (- 1))" using assms by (rule shl32_int)
  show "bit (w AND push_bit j (- 1)) x \<longleftrightarrow> bit w x \<and> j \<le> x" for w :: u32 and x
    by (auto simp: bit_and_iff bit_push_bit_iff bit_not_iff bit_mask_iff dest: bit_imp_le_length)
qed

lemma search_suitable_block_ok:
  assumes ct: "ctl_ok b c L" and ij: "i < 25" "j < 32"
  obtains
    (found) i' j' where "search_suitable_block c (int i) (int j) =
        Some (adr b (hd0 (L (i', j')) 0), int i', int j')"
      "i' < 25" "j' < 32" "L (i', j') \<noteq> []" "class_le (i, j) (i', j')"
  | (none) "search_suitable_block c (int i) (int j) = Some (0, int i, int j)"
      "\<And>i' j'. i' < 25 \<Longrightarrow> j' < 32 \<Longrightarrow> class_le (i, j) (i', j') \<Longrightarrow> L (i', j') = []"
proof -
  note D = ctl_okD [OF ct]
  obtain hi where hi: "shl32 (- 1) (int j) = Some hi" "\<And>w x. bit (w AND hi) x \<longleftrightarrow> bit w x \<and> j \<le> x"
    using shl32_ones [OF ij(2)] by blast
  have i1: "i + 1 < 32" "int (i + 1) = int i + 1" using ij(1) by simp_all
  obtain fhi where fhi: "shl32 (- 1) (int i + 1) = Some fhi" "\<And>w x. bit (w AND fhi) x \<longleftrightarrow> bit w x \<and> i + 1 \<le> x"
    using shl32_ones [OF i1(1)] unfolding i1(2) by blast
  let ?row = "sl_bitmap c ! i AND hi" and ?fl = "fl_bitmap c AND fhi"
  show thesis
  proof (cases "?row = 0")
    case False
    then obtain j' where j': "tlsf_ffs ?row = int j'" "j' < 32" "bit ?row j'" by (rule tlsf_ffs_spec)
    then have "L (i, j') \<noteq> []" "j \<le> j'" using hi(2) D(6) ij by auto
    with j' False hi(1) D ij show thesis
      by (intro found [of i j']) (simp_all add: search_suitable_block_def class_le_def)
  next
    case True
    then have row: "L (i, j') = []" if "j \<le> j'" "j' < 32" for j'
      using hi(2) [of "sl_bitmap c ! i" j'] D(6) that ij by auto
    show thesis
    proof (cases "?fl = 0")
      case fl: True
      have "L (i', j') = []" if "i < i'" "i' < 25" "j' < 32" for i' j'
        using fhi(2) [of "fl_bitmap c" i'] D(7) [of i'] that fl by auto
      with row True fl hi(1) fhi(1) D(2) ij show thesis
        by (intro none) (auto simp: search_suitable_block_def class_le_def)
    next
      case fl: False
      then obtain i' where i': "tlsf_ffs ?fl = int i'" "bit ?fl i'" by (rule tlsf_ffs_spec)
      then have "i < i'" "bit (fl_bitmap c) i'" using fhi(2) by auto
      then obtain "i' < 25" and "\<exists>j'<32. L (i', j') \<noteq> []" using D(7) by blast
      then have "sl_bitmap c ! i' \<noteq> 0" using D(6) [of i'] by auto
      then obtain j' where j': "tlsf_ffs (sl_bitmap c ! i') = int j'" "j' < 32" "bit (sl_bitmap c ! i') j'"
        by (rule tlsf_ffs_spec)
      then have "L (i', j') \<noteq> []" using D(6) \<open>i' < 25\<close> by blast
      with True fl i'(1) j' hi(1) fhi(1) D \<open>i' < 25\<close> \<open>i < i'\<close> ij show thesis
        by (intro found [of i' j']) (simp_all add: search_suitable_block_def class_le_def)
    qed
  qed
qed

text \<open>
  What \<open>block_locate_free\<close> does for a request of \<open>r\<close> words: it takes a block of at least that size
  out of the lists, or it fails because every class from the search class on is empty.
\<close>

lemma unat_words: "r < 2 ^ 61 \<Longrightarrow> unat (8 * of_nat r :: u64) = 8 * r"
  using unat_of_nat_small [of "8 * r", where 'a = 64] by simp

lemma class_lo_next:
  assumes "\<not> class_le (i, j) (i', j')" and "j < 32" and "j' < 32"
  shows "class_lo i' j' + class_width i' \<le> class_lo i j"
proof -
  have "class_lo i' j' + class_width i' = (if j' = 31 then class_lo (i' + 1) 0 else class_lo i' (j' + 1))"
    by (auto simp: class_lo_def class_width_def algebra_simps)
  also have "\<dots> \<le> class_lo i j"
    using assms by (auto simp: class_le_def intro!: class_lo_mono)
  finally show ?thesis .
qed

lemma block_locate_free_ok:
  assumes ar: "arena b n" and ls: "lists b n c (view b n m) F" and r: "0 < r" "r < 2 ^ 29"
  obtains
    (found) k s c' m' where "block_locate_free c m (8 * of_nat r) = Some (c', m', adr b k)"
      "F k = Some s" "r \<le> s" "lists b n c' (view b n m') (F(k := None))" "block_null c' = block_null c"
      "\<And>x. view b n m' x \<noteq> view b n m x \<Longrightarrow> link_word F x"
  | (none) "block_locate_free c m (8 * of_nat r) = Some (c, m, 0)"
      "\<And>k s. F k = Some s \<Longrightarrow> 32 * s < 33 * r + 4"
proof -
  obtain L where fd: "free_dom n F" and lk: "links_ok b (view b n m) F L" and ct: "ctl_ok b c L"
    using ls unfolding lists_def by blast
  let ?sz = "8 * of_nat r :: u64"
  have u: "unat ?sz = 8 * r" using r(2) by (intro unat_words) simp
  then have nz: "?sz \<noteq> 0" using r(1) by (intro notI) simp
  have "unat ?sz < 2 ^ 32" "8 dvd unat ?sz" using u r(2) by simp_all
  then obtain i j where ms: "mapping_search ?sz = (int i, int j)" "j < 32"
    "8 * r \<le> class_lo i j" "32 * class_lo i j \<le> 33 * (8 * r) + 32"
    using u mapping_search_class [of ?sz] by (metis SL_INDEX_COUNT_def)
  have small: "32 * s < 33 * r + 4" if "F k = Some s" and "\<not> class_le (i, j) (cls s)" for k s
  proof -
    obtain i' j' where c: "cls s = (i', j')" by force
    have "s < 2 ^ 29" using free_domD(1) [OF fd that(1)] by simp
    with class_lo_next [of i j i' j'] cls_spec(3,5) [OF _ c] that(2) ms(2,4) c show ?thesis by simp
  qed
  show thesis
  proof (cases "i < 25")
    case False
    then have "block_locate_free c m ?sz = Some (c, m, 0)"
      using ms nz by (simp add: block_locate_free_def)
    moreover have "32 * s < 33 * r + 4" if "F k = Some s" for k s
    proof (rule small [OF that])
      obtain i' j' where c: "cls s = (i', j')" by force
      then show "\<not> class_le (i, j) (cls s)"
        using cls_spec(2) [OF _ c] free_domD(1) [OF fd that] False by (simp add: class_le_def)
    qed
    ultimately show thesis by (rule none)
  next
    case True
    from ct True ms(2) show thesis
    proof (cases rule: search_suitable_block_ok)
      case (found i' j')
      define k where "k = hd0 (L (i', j')) 0"
      have "k \<in> set (L (i', j'))" using found(4) by (cases "L (i', j')") (auto simp: k_def)
      then obtain s where s: "F k = Some s" "cls s = (i', j')" using links_okD(3) [OF lk] by blast
      have sb: "s < 2 ^ 29" "k < n" using free_domD(1) [OF fd s(1)] by auto
      have "class_lo i j \<le> class_lo i' j'"
        using found(5) ms(2) by (intro class_lo_mono) (auto simp: class_le_def)
      then have "r \<le> s" using cls_spec(4) [OF sb(1) s(2)] ms(3) by simp
      moreover have nz': "adr b k \<noteq> 0" using adr_neq_0 [OF ar] sb(2) by simp
      moreover obtain c' m' where rm: "remove_free_block c m (adr b k) (int i') (int j') = Some (c', m')"
        "lists b n c' (view b n m') (F(k := None))" "block_null c' = block_null c"
        "\<And>x. view b n m' x \<noteq> view b n m x \<Longrightarrow> link_word F x"
        using remove_free_block_ok [OF ar ls s] by blast
      moreover have "block_locate_free c m ?sz = Some (c', m', adr b k)"
        using found(1) rm(1) ms(1) nz nz' True by (simp add: block_locate_free_def k_def)
      ultimately show thesis using s(1) that(1) by blast
    next
      case none
      then have "block_locate_free c m ?sz = Some (c, m, 0)"
        using ms(1) nz True by (simp add: block_locate_free_def)
      moreover have "32 * s < 33 * r + 4" if s: "F k = Some s" for k s
      proof (rule small [OF s])
        obtain i' j' where c: "cls s = (i', j')" by force
        have "s < 2 ^ 29" using free_domD(1) [OF fd s] by simp
        then have "i' < 25" "j' < 32" using cls_spec(2,3) [OF _ c] by simp_all
        moreover have "L (i', j') \<noteq> []" using links_okD(3) [OF lk, of k "(i', j')"] s c by auto
        ultimately show "\<not> class_le (i, j) (cls s)" using none(2) c by auto
      qed
      ultimately show thesis by (rule that(2))
    qed
  qed
qed

text \<open>The forms of removal and insertion that compute the class from the header.\<close>

lemma block_remove_ok:
  assumes "arena b n" and "lists b n c (view b n m) F" and "F k = Some s"
    and "view b n m (k + 1) = szw s f p"
  obtains c' m' where "block_remove c m (adr b k) = Some (c', m')"
    "lists b n c' (view b n m') (F(k := None))" "block_null c' = block_null c"
    "\<And>x. view b n m' x \<noteq> view b n m x \<Longrightarrow> link_word F x"
proof -
  obtain i j where c: "cls s = (i, j)" by force
  have fd: "free_dom n F" using assms(2) unfolding lists_def by blast
  then have s: "s < 2 ^ 29" "k + 1 < n" using free_domD(1) [OF fd assms(3)] by auto
  have "block_remove c m (adr b k) = remove_free_block c m (adr b k) (int i) (int j)"
    using block_reads(1) [OF assms(4) s(2)] cls_spec(1) [OF s(1) c] by (simp add: block_remove_def)
  with remove_free_block_ok [OF assms(1-3) c] that show thesis by metis
qed

lemma block_insert_ok:
  assumes "arena b n" and "lists b n c (view b n m) F" and "F k = None" and "free_dom n (F(k \<mapsto> s))"
    and "view b n m (k + 1) = szw s f p"
  obtains c' m' where "block_insert c m (adr b k) = Some (c', m')"
    "lists b n c' (view b n m') (F(k \<mapsto> s))" "block_null c' = block_null c"
    "\<And>x. view b n m' x \<noteq> view b n m x \<Longrightarrow> link_word (F(k \<mapsto> s)) x"
proof -
  obtain i j where c: "cls s = (i, j)" by force
  have s: "s < 2 ^ 29" "k + 1 < n" using free_domD(1) [OF assms(4), of k s] by auto
  have "block_insert c m (adr b k) = insert_free_block c m (adr b k) (int i) (int j)"
    using block_reads(1) [OF assms(5) s(2)] cls_spec(1) [OF s(1) c] by (simp add: block_insert_def)
  with insert_free_block_ok [OF assms(1-3) c assms(4)] that show thesis by metis
qed

text \<open>Memory changes outside the link words do not touch the free lists.\<close>

lemma lists_frame:
  assumes "lists b n c h F" and "\<And>x. link_word F x \<Longrightarrow> 4 \<le> x \<Longrightarrow> h' x = h x"
  shows "lists b n c h' F"
proof -
  obtain L where fd: "free_dom n F" and lk: "links_ok b h F L" and ct: "ctl_ok b c L"
    using assms(1) unfolding lists_def by blast
  have "nexts h' x = nexts h x \<and> prevs h' x = prevs h x" if x: "x \<in> set (L ij)" for x ij
  proof -
    obtain s where "F x = Some s" using x links_okD(4) [OF lk] by blast
    then have "x \<in> keys F" "4 \<le> x" using free_domD(1) [OF fd] by (auto simp: keys_def)
    then show ?thesis using assms(2) link_wordI by (simp add: nexts_def prevs_def)
  qed
  then have "dll b (nexts h') (prevs h') 0 (L ij) 0 \<longleftrightarrow> dll b (nexts h) (prevs h) 0 (L ij) 0" for ij
    by (intro dll_cong) blast
  then have "links_ok b h' F L" using links_okD(1-3) [OF lk] by (intro links_okI) blast+
  with fd ct show ?thesis unfolding lists_def by blast
qed

end
