(* ===== verification/Tlsf_Inv.thy ===== *)
theory Tlsf_Inv
  imports Tlsf_Lists
begin

text \<open>
  The invariant of the kernel heap and that allocation and release preserve it.
\<close>

section \<open>Writing headers of a pool\<close>

lemma seg_upd_high [simp]: "k + span xs < x \<Longrightarrow> seg b (h(x := v)) k p xs \<longleftrightarrow> seg b h k p xs"
  by (rule seg_frame) auto

lemma pool_upd_low [simp]: "x \<le> k \<Longrightarrow> pool b (h(x := v)) k p ys \<longleftrightarrow> pool b h k p ys"
  by (rule pool_frame) auto

lemma pool_set_prev:
  assumes "pool b h k p ys" and "head_of ys = (s, f)" and "sizes_ok ys"
  shows "pool b (h(k + 1 := szw s f p')) k p' ys"
proof (cases ys)
  case Nil
  with assms show ?thesis by (simp add: pool_def)
next
  case (Cons a zs)
  with assms(2) have "ys = (s, f) # zs" by simp
  with assms(1,3) show ?thesis by (simp add: pool_Cons)
qed

lemma pool_at:
  assumes "pool b h k0 p bs" and "bmap g k0 bs k = Some s"
  obtains q where "h (k + 1) = szw s g q"
proof -
  obtain xs ys where "bs = xs @ (s, g) # ys" "k = k0 + span xs" using bmap_split [OF assms(2)] .
  with assms(1) that show thesis by (simp add: pool_append pool_Cons)
qed

lemma pool_mark_free:
  assumes ar: "arena b n" and pl: "pool b (view b n m) k0 q (xs @ (s, f) # ys)"
    and k: "k = k0 + span xs" "k + s + 2 < n" and ok: "sizes_ok ((s, f) # ys)"
  shows "pool b (view b n (block_mark_as_free m (adr b k))) k0 q (xs @ (s, True) # ys)"
    and "view b n (block_mark_as_free m (adr b k)) x \<noteq> view b n m x \<Longrightarrow> x \<in> {k + 1, k + s + 1, k + s + 2}"
proof -
  obtain s2 f2 where y: "head_of ys = (s2, f2)" by force
  have p: "seg b (view b n m) k0 q xs" "view b n m (k + 1) = szw s f (last_free q xs)"
    "pool b (view b n m) (k + s + 1) f ys"
    using pl k(1) by (simp_all add: pool_append pool_Cons)
  have y2: "view b n m (k + s + 2) = szw s2 f2 f" using pool_head [OF p(3)] y by simp
  have v: "view b n (block_mark_as_free m (adr b k)) = (view b n m)(k + s + 1 := adr b k,
      k + s + 2 := szw s2 f2 True, k + 1 := szw s True (last_free q xs))"
    using ok by (intro view_mark_as_free [OF ar k(2) _ p(2) y2]) simp
  have "pool b ((view b n m)(k + s + 1 := adr b k)) (k + s + 1) f ys" using p(3) by simp
  from pool_set_prev [OF this y, of True] ok
  have "pool b ((view b n m)(k + s + 1 := adr b k, k + s + 2 := szw s2 f2 True)) (k + s + 1) True ys"
    by simp
  then show "pool b (view b n (block_mark_as_free m (adr b k))) k0 q (xs @ (s, True) # ys)"
    unfolding v using p(1) k(1) ok by (simp add: pool_append pool_Cons)
  show "view b n (block_mark_as_free m (adr b k)) x \<noteq> view b n m x \<Longrightarrow> x \<in> {k + 1, k + s + 1, k + s + 2}"
    unfolding v by (auto split: if_splits)
qed

lemma pool_mark_used:
  assumes ar: "arena b n" and pl: "pool b (view b n m) k0 q (xs @ (s, f) # ys)"
    and k: "k = k0 + span xs" "k + s + 2 < n" and ok: "sizes_ok ((s, f) # ys)"
  shows "pool b (view b n (block_mark_as_used m (adr b k))) k0 q (xs @ (s, False) # ys)"
    and "view b n (block_mark_as_used m (adr b k)) x \<noteq> view b n m x \<Longrightarrow> x \<in> {k + 1, k + s + 2}"
proof -
  obtain s2 f2 where y: "head_of ys = (s2, f2)" by force
  have p: "seg b (view b n m) k0 q xs" "view b n m (k + 1) = szw s f (last_free q xs)"
    "pool b (view b n m) (k + s + 1) f ys"
    using pl k(1) by (simp_all add: pool_append pool_Cons)
  have y2: "view b n m (k + s + 2) = szw s2 f2 f" using pool_head [OF p(3)] y by simp
  have v: "view b n (block_mark_as_used m (adr b k)) =
      (view b n m)(k + s + 2 := szw s2 f2 False, k + 1 := szw s False (last_free q xs))"
    by (rule view_mark_as_used [OF ar k(2) p(2) y2])
  from pool_set_prev [OF p(3) y, of False] ok
  have "pool b ((view b n m)(k + s + 2 := szw s2 f2 False)) (k + s + 1) False ys" by simp
  then show "pool b (view b n (block_mark_as_used m (adr b k))) k0 q (xs @ (s, False) # ys)"
    unfolding v using p(1) k(1) ok by (simp add: pool_append pool_Cons)
  show "view b n (block_mark_as_used m (adr b k)) x \<noteq> view b n m x \<Longrightarrow> x \<in> {k + 1, k + s + 2}"
    unfolding v by (auto split: if_splits)
qed

lemma pool_absorb:
  assumes ar: "arena b n" and pl: "pool b (view b n m) k0 q (xs @ (s, True) # (s2, True) # ys)"
    and k: "k = k0 + span xs" "k + s + s2 + 2 < n" and ok: "sizes_ok ((s, True) # (s2, True) # ys)"
  obtains m' where "block_absorb m (adr b k) (adr b (k + s + 1)) = (m', adr b k)"
    "pool b (view b n m') k0 q (xs @ (s + s2 + 1, True) # ys)"
    "\<And>x. view b n m' x \<noteq> view b n m x \<Longrightarrow> x \<in> {k + 1, k + s + s2 + 2}"
proof -
  have p: "seg b (view b n m) k0 q xs" "view b n m (k + 1) = szw s True (last_free q xs)"
    "view b n m (k + s + 2) = szw s2 True True" "pool b (view b n m) (k + s + s2 + 2) True ys"
    using pl k(1) by (simp_all add: pool_append pool_Cons)
  define m' where "m' = fst (block_absorb m (adr b k) (adr b (k + s + 1)))"
  have v: "view b n m' = (view b n m)(k + 1 := szw (s + s2 + 1) True (last_free q xs), k + s + s2 + 2 := adr b k)"
    and e: "block_absorb m (adr b k) (adr b (k + s + 1)) = (m', adr b k)"
    using absorb [OF ar k(2) p(2,3)] by (simp_all add: m'_def prod_eq_iff)
  have "pool b (view b n m') k0 q (xs @ (s + s2 + 1, True) # ys)"
    unfolding v using p(1,4) k(1) by (simp add: pool_append pool_Cons add.assoc)
  moreover have "x \<in> {k + 1, k + s + s2 + 2}" if "view b n m' x \<noteq> view b n m x" for x
    using that unfolding v by (auto split: if_splits)
  ultimately show thesis using e that by blast
qed

text \<open>
  Splitting: what \<open>block_trim_free\<close> does to memory before it inserts the remaining block. The block
  itself is still free then.
\<close>

lemma pool_split_free:
  assumes ar: "arena b n" and pl: "pool b (view b n m) k0 q (xs @ (s, True) # ys)"
    and k: "k = k0 + span xs" "k + s + 2 < n" and ok: "sizes_ok ((s, True) # ys)"
    and rt: "s = r + t + 1" "3 \<le> r" "3 \<le> t"
  obtains m1 m2 m' where
    "block_split m (adr b k) (8 * of_nat r) = (m1, adr b (k + r + 1))"
    "block_link_next m1 (adr b k) = (m2, adr b (k + r + 1))"
    "block_set_prev_free m2 (adr b (k + r + 1)) = m'"
    "pool b (view b n m') k0 q (xs @ (r, True) # (t, True) # ys)"
    "\<And>x. view b n m' x \<noteq> view b n m x \<Longrightarrow> x \<in> {k + 1, k + r + 1, k + r + 2, k + s + 1, k + s + 2}"
proof -
  obtain s2 f2 where y: "head_of ys = (s2, f2)" by force
  define p where "p = last_free q xs"
  have p: "seg b (view b n m) k0 q xs" "view b n m (k + 1) = szw s True p"
    "pool b (view b n m) (k + s + 1) True ys"
    using pl k(1) by (simp_all add: pool_append pool_Cons p_def)
  have y2: "view b n m (k + s + 2) = szw s2 f2 True" using pool_head [OF p(3)] y by simp
  define m1 where "m1 = fst (block_split m (adr b k) (8 * of_nat r))"
  have rt0: "0 < r" "0 < t" using rt(2,3) by simp_all
  note sb = split_block [OF ar k(2) rt(1) rt0 p(2) y2]
  obtain g where v1: "view b n m1 = (view b n m)(k + r + 2 := szw t True g, k + 1 := szw r True p,
      k + s + 1 := adr b (k + r + 1), k + s + 2 := szw s2 f2 True)"
    using sb(1) unfolding m1_def by blast
  have sp: "block_split m (adr b k) (8 * of_nat r) = (m1, adr b (k + r + 1))"
    using sb(2) by (simp add: m1_def prod_eq_iff)
  define m2 where "m2 = fst (block_link_next m1 (adr b k))"
  have "k + r + 1 < n" "k + 1 < n" using k(2) rt(1) by simp_all
  moreover have h1: "view b n m1 (k + 1) = szw r True p" using v1 rt by simp
  ultimately have v2: "view b n m2 = (view b n m1)(k + r + 1 := adr b k)"
    and ln: "block_link_next m1 (adr b k) = (m2, adr b (k + r + 1))"
    using link_next [OF ar _ h1] by (simp_all add: m2_def prod_eq_iff)
  define m' where "m' = block_set_prev_free m2 (adr b (k + r + 1))"
  have "view b n m2 (k + r + 1 + 1) = szw t True g" using v2 v1 rt by simp
  moreover have "k + r + 1 + 1 < n" using k(2) rt(1) by simp
  ultimately have v3: "view b n m' = (view b n m2)(k + r + 2 := szw t True True)"
    using view_set_flags(3) [OF ar, of "k + r + 1" m2 t True g] by (simp add: m'_def)
  have ne: "k + 1 < k + r + 1" "k + r + 2 < k + s + 1" using rt by simp_all
  have v: "view b n m' = (view b n m)(k + s + 2 := szw s2 f2 True, k + s + 1 := adr b (k + r + 1),
      k + r + 2 := szw t True True, k + r + 1 := adr b k, k + 1 := szw r True p)"
    unfolding v3 v2 v1 by (rule ext) (use ne in simp)
  from pool_set_prev [OF p(3) y, of True] ok
  have "pool b ((view b n m)(k + s + 2 := szw s2 f2 True)) (k + s + 1) True ys" by simp
  then have "pool b (view b n m') k0 q (xs @ (r, True) # (t, True) # ys)"
    unfolding v using p(1) k(1) rt by (simp add: pool_append pool_Cons p_def add.assoc)
  moreover have "x \<in> {k + 1, k + r + 1, k + r + 2, k + s + 1, k + s + 2}"
    if "view b n m' x \<noteq> view b n m x" for x
    using that unfolding v by (auto split: if_splits)
  ultimately show thesis using sp ln m'_def that by blast
qed

section \<open>The invariant\<close>

text \<open>
  \<open>heap\<close> allows for free blocks that are in no list, and for neighbouring free blocks, as the
  operations produce them on their way; \<open>F\<close> maps the blocks that are in the lists. \<open>tlsf_inv\<close> is the
  state between operations: every free block is in the list of its class, and none has a free
  neighbour.
\<close>

definition heap :: "u64 \<Rightarrow> nat \<Rightarrow> control_t \<Rightarrow> mem \<Rightarrow> nat \<Rightarrow> layout \<Rightarrow> (nat \<rightharpoonup> nat) \<Rightarrow> bool" where
  "heap b n c m k0 bs F \<longleftrightarrow>
     arena b n \<and> 4 \<le> k0 \<and> k0 + span bs + 1 < n \<and> sizes_ok bs \<and>
     pool b (view b n m) k0 False bs \<and> lists b n c (view b n m) F \<and> F \<subseteq>\<^sub>m bmap True k0 bs \<and>
     span bs \<le> 2 ^ 29"

definition tlsf_inv :: "u64 \<Rightarrow> nat \<Rightarrow> control_t \<Rightarrow> mem \<Rightarrow> nat \<Rightarrow> layout \<Rightarrow> bool" where
  "tlsf_inv b n c m k0 bs \<longleftrightarrow> heap b n c m k0 bs (bmap True k0 bs) \<and> no_adj False bs"

text \<open>The contents of allocated blocks: \<open>U\<close> maps them to their sizes.\<close>

definition keeps :: "(nat \<rightharpoonup> nat) \<Rightarrow> (nat \<Rightarrow> u64) \<Rightarrow> (nat \<Rightarrow> u64) \<Rightarrow> bool" where
  "keeps U h h' \<longleftrightarrow> (\<forall>i s j. U i = Some s \<longrightarrow> i + 2 \<le> j \<longrightarrow> j \<le> i + s + 1 \<longrightarrow> h' j = h j)"

lemma keeps_refl [simp]: "keeps U h h" by (simp add: keeps_def)

lemma keeps_trans: "keeps U h h' \<Longrightarrow> keeps U h' h'' \<Longrightarrow> keeps U h h''"
  unfolding keeps_def by metis

lemma heapD:
  assumes "heap b n c m k0 bs F"
  shows "arena b n" "4 \<le> k0" "k0 + span bs + 1 < n" "sizes_ok bs"
    "pool b (view b n m) k0 False bs" "lists b n c (view b n m) F" "F \<subseteq>\<^sub>m bmap True k0 bs"
    "span bs \<le> 2 ^ 29"
  using assms unfolding heap_def by blast+

lemma free_dom_bmap:
  assumes "4 \<le> k0" and "k0 + span bs + 1 < n" and "sizes_ok bs"
  shows "free_dom n (bmap True k0 bs)"
proof -
  have "4 \<le> x \<and> x + s + 1 < n \<and> 3 \<le> s \<and> s < 2 ^ 29" if "bmap True k0 bs x = Some s" for x s
    using bmap_bounds [OF that] bmap_size [OF that assms(3)] assms(1,2) by simp
  moreover have "x + 4 \<le> y" if "bmap True k0 bs x = Some s" "bmap True k0 bs y = Some t" "x < y" for x y s t
    using bmap_spaced [OF that] bmap_size [OF that(1) assms(3)] by simp
  ultimately show ?thesis unfolding free_dom_def by blast
qed

lemma map_leD: "F \<subseteq>\<^sub>m F' \<Longrightarrow> F x = Some s \<Longrightarrow> F' x = Some s"
  unfolding map_le_def by (metis domI)

lemma free_dom_sub:
  assumes "free_dom n F'" and "F \<subseteq>\<^sub>m F'"
  shows "free_dom n F"
proof -
  have "4 \<le> x \<and> x + s + 1 < n \<and> 3 \<le> s \<and> s < 2 ^ 29" if "F x = Some s" for x s
    using free_domD(1) [OF assms(1) map_leD [OF assms(2) that]] .
  moreover have "x + 4 \<le> y" if "F x = Some s" "F y = Some t" "x < y" for x y s t
    using free_domD(2) [OF assms(1)] map_leD [OF assms(2)] that by blast
  ultimately show ?thesis unfolding free_dom_def by blast
qed

lemma link_word_sub: "link_word F x \<Longrightarrow> F \<subseteq>\<^sub>m F' \<Longrightarrow> link_word F' x"
  unfolding link_word_def using map_le_implies_dom_le by blast

lemma keeps_links:
  assumes "\<And>x. h' x \<noteq> h x \<Longrightarrow> link_word F x" and "F \<subseteq>\<^sub>m bmap True k0 bs"
    and "sizes_ok bs" and "4 \<le> k0"
  shows "keeps (bmap False k0 bs) h h'"
  unfolding keeps_def using payload_not_link [OF _ assms(3,4)] link_word_sub [OF _ assms(2)] assms(1) by blast

lemma region_links:
  assumes "bmap g k0 bs k = Some s" and "F \<subseteq>\<^sub>m bmap True k0 bs" and "F k = None" and "sizes_ok bs"
    and "4 \<le> k0" and "k + 1 \<le> x" and "x \<le> k + s + 2"
  shows "\<not> link_word F x"
proof
  assume "link_word F x"
  then obtain y where y: "y = 0 \<or> y \<in> dom F" "x = y + 2 \<or> x = y + 3" unfolding link_word_def by blast
  have "4 \<le> k" using bmap_bounds [OF assms(1)] assms(5) by simp
  with y(2) assms(6) have "y \<noteq> 0" by linarith
  with y(1) obtain t' where "F y = Some t'" by blast
  then have "y \<noteq> k" and t: "bmap True k0 bs y = Some t'" using assms(3) map_leD [OF assms(2)] by auto
  have "3 \<le> t'" using bmap_size [OF t assms(4)] by simp
  consider "k < y" | "y < k" using \<open>y \<noteq> k\<close> by linarith
  then show False
  proof cases
    case 1
    with bmap_spaced [OF assms(1) t] y(2) assms(7) show False by linarith
  next
    case 2
    with bmap_spaced [OF t assms(1)] y(2) assms(6) \<open>3 \<le> t'\<close> show False by linarith
  qed
qed

lemma region_keeps:
  assumes "bmap g k0 bs k = Some s" and "U \<subseteq>\<^sub>m bmap False k0 bs" and "U k = None"
    and "\<And>x. h' x \<noteq> h x \<Longrightarrow> k + 1 \<le> x \<and> x \<le> k + s + 2"
  shows "keeps U h h'"
  unfolding keeps_def
proof (intro allI impI)
  fix i t j assume i: "U i = Some t" "i + 2 \<le> j" "j \<le> i + t + 1"
  then have t: "bmap False k0 bs i = Some t" and "i \<noteq> k"
    using map_leD [OF assms(2)] assms(3) by auto
  then have "\<not> (k + 1 \<le> j \<and> j \<le> k + s + 2)"
    using bmap_spaced [OF assms(1) t] bmap_spaced [OF t assms(1)] i(2,3) by linarith
  then show "h' j = h j" using assms(4) by blast
qed

lemma heap_region:
  assumes "heap b n c m k0 bs F" and "bmap g k0 bs k = Some s" and "F k = None"
    and "\<And>x. view b n m' x \<noteq> view b n m x \<Longrightarrow> k + 1 \<le> x \<and> x \<le> k + s + 2"
  shows "lists b n c (view b n m') F"
proof -
  note D = heapD [OF assms(1)]
  show ?thesis
    using region_links [OF assms(2) D(7) assms(3) D(4,2)] assms(4) by (intro lists_frame [OF D(6)]) blast
qed

text \<open>Removing and inserting a block under the invariant.\<close>

lemma heap_remove:
  assumes hp: "heap b n c m k0 bs F" and k: "F k = Some s"
  obtains c' m' where "block_remove c m (adr b k) = Some (c', m')" "heap b n c' m' k0 bs (F(k := None))"
    "keeps (bmap False k0 bs) (view b n m) (view b n m')" "block_null c' = block_null c"
proof -
  note D = heapD [OF hp]
  have ks: "bmap True k0 bs k = Some s" using map_leD [OF D(7) k] .
  obtain q where q: "view b n m (k + 1) = szw s True q" using pool_at [OF D(5) ks] .
  obtain c' m' where r: "block_remove c m (adr b k) = Some (c', m')"
    "lists b n c' (view b n m') (F(k := None))" "block_null c' = block_null c"
    "\<And>x. view b n m' x \<noteq> view b n m x \<Longrightarrow> link_word F x"
    using block_remove_ok [OF D(1,6) k q] by blast
  have "pool b (view b n m') k0 False bs"
    using r(4) link_word_sub [OF _ D(7)] by (intro pool_links [OF D(5,4,2)]) blast
  moreover have "F(k := None) \<subseteq>\<^sub>m bmap True k0 bs" using D(7) unfolding map_le_def by auto
  ultimately have "heap b n c' m' k0 bs (F(k := None))" unfolding heap_def using D r(2) by blast
  moreover have "keeps (bmap False k0 bs) (view b n m) (view b n m')"
    using keeps_links [OF r(4) D(7,4,2)] .
  ultimately show thesis using r that by blast
qed

lemma heap_insert:
  assumes hp: "heap b n c m k0 bs F" and k: "F k = None" "bmap True k0 bs k = Some s"
  obtains c' m' where "block_insert c m (adr b k) = Some (c', m')" "heap b n c' m' k0 bs (F(k \<mapsto> s))"
    "keeps (bmap False k0 bs) (view b n m) (view b n m')" "block_null c' = block_null c"
proof -
  note D = heapD [OF hp]
  obtain q where q: "view b n m (k + 1) = szw s True q" using pool_at [OF D(5) k(2)] .
  have sub: "F(k \<mapsto> s) \<subseteq>\<^sub>m bmap True k0 bs" using D(7) k(2) unfolding map_le_def by simp
  have fd: "free_dom n (F(k \<mapsto> s))" using free_dom_sub [OF free_dom_bmap [OF D(2-4)] sub] .
  obtain c' m' where r: "block_insert c m (adr b k) = Some (c', m')"
    "lists b n c' (view b n m') (F(k \<mapsto> s))" "block_null c' = block_null c"
    "\<And>x. view b n m' x \<noteq> view b n m x \<Longrightarrow> link_word (F(k \<mapsto> s)) x"
    using block_insert_ok [OF D(1,6) k(1) fd q] by blast
  have "pool b (view b n m') k0 False bs"
    using r(4) link_word_sub [OF _ sub] by (intro pool_links [OF D(5,4,2)]) blast
  then have "heap b n c' m' k0 bs (F(k \<mapsto> s))" unfolding heap_def using D r(2) sub by blast
  moreover have "keeps (bmap False k0 bs) (view b n m) (view b n m')"
    using keeps_links [OF r(4) sub D(4,2)] .
  ultimately show thesis using r that by blast
qed

section \<open>Marking, trimming and merging under the invariant\<close>

lemma bmap_upd:
  "bmap g k0 (xs @ (s, f') # ys) =
     (bmap g k0 (xs @ (s, f) # ys))(k0 + span xs := if f' = g then Some s else None)"
  by (rule ext) (simp add: bmap_mid)

lemma bmap_here [simp]: "bmap g k0 (xs @ (s, g) # ys) (k0 + span xs) = Some s"
  by (simp add: bmap_mid)

lemma heap_mark_used:
  assumes hp: "heap b n c m k0 (xs @ (s, f) # ys) F" and k: "k = k0 + span xs" "F k = None"
  defines "m' \<equiv> block_mark_as_used m (adr b k)"
  shows "heap b n c m' k0 (xs @ (s, False) # ys) F"
    and "U \<subseteq>\<^sub>m bmap False k0 (xs @ (s, f) # ys) \<Longrightarrow> U k = None \<Longrightarrow> keeps U (view b n m) (view b n m')"
proof -
  note D = heapD [OF hp]
  have kn: "k + s + 2 < n" and ok: "sizes_ok ((s, f) # ys)" using D(3,4) k(1) by simp_all
  have here: "bmap f k0 (xs @ (s, f) # ys) k = Some s" using k(1) by simp
  note P = pool_mark_used [OF D(1,5) k(1) kn ok]
  have ch: "k + 1 \<le> x \<and> x \<le> k + s + 2" if "view b n m' x \<noteq> view b n m x" for x
    using P(2) [of x] that by (auto simp: m'_def)
  have "F \<subseteq>\<^sub>m bmap True k0 (xs @ (s, False) # ys)"
    using D(7) k unfolding bmap_upd [of True k0 xs s False ys f] map_le_def by auto
  then show "heap b n c m' k0 (xs @ (s, False) # ys) F"
    unfolding heap_def using D P(1) heap_region [OF hp here k(2) ch] by (simp add: m'_def)
  show "U \<subseteq>\<^sub>m bmap False k0 (xs @ (s, f) # ys) \<Longrightarrow> U k = None \<Longrightarrow> keeps U (view b n m) (view b n m')"
    using region_keeps [OF here _ _ ch] by blast
qed

lemma heap_mark_free:
  assumes hp: "heap b n c m k0 (xs @ (s, f) # ys) F" and k: "k = k0 + span xs" "F k = None"
  defines "m' \<equiv> block_mark_as_free m (adr b k)"
  shows "heap b n c m' k0 (xs @ (s, True) # ys) F"
    and "U \<subseteq>\<^sub>m bmap False k0 (xs @ (s, f) # ys) \<Longrightarrow> U k = None \<Longrightarrow> keeps U (view b n m) (view b n m')"
proof -
  note D = heapD [OF hp]
  have kn: "k + s + 2 < n" and ok: "sizes_ok ((s, f) # ys)" using D(3,4) k(1) by simp_all
  have here: "bmap f k0 (xs @ (s, f) # ys) k = Some s" using k(1) by simp
  note P = pool_mark_free [OF D(1,5) k(1) kn ok]
  have ch: "k + 1 \<le> x \<and> x \<le> k + s + 2" if "view b n m' x \<noteq> view b n m x" for x
    using P(2) [of x] that by (auto simp: m'_def)
  have "F \<subseteq>\<^sub>m bmap True k0 (xs @ (s, True) # ys)"
    using D(7) k unfolding bmap_upd [of True k0 xs s True ys f] map_le_def by auto
  then show "heap b n c m' k0 (xs @ (s, True) # ys) F"
    unfolding heap_def using D P(1) heap_region [OF hp here k(2) ch] by (simp add: m'_def)
  show "U \<subseteq>\<^sub>m bmap False k0 (xs @ (s, f) # ys) \<Longrightarrow> U k = None \<Longrightarrow> keeps U (view b n m) (view b n m')"
    using region_keeps [OF here _ _ ch] by blast
qed

text \<open>How a block of \<open>s\<close> words is cut for a request of \<open>r\<close>: a remainder of less than 4 words stays.\<close>

definition cut :: "nat \<Rightarrow> nat \<Rightarrow> nat \<times> layout" where
  "cut s r = (if r + 4 \<le> s then (r, [(s - r - 1, True)]) else (s, []))"

lemma bmap_split_block:
  "bmap g k0 (xs @ (r, f) # (t, f') # ys) =
     (bmap g k0 (xs @ (r + t + 1, f) # ys))(k0 + span xs := if f = g then Some r else None,
       k0 + span xs + r + 1 := if f' = g then Some t else None)"
  by (rule ext) (auto simp: bmap_mid bmap_outside add.assoc)

lemma block_can_split_words:
  assumes "view b n m (k + 1) = szw s f p" and "k + 1 < n" and "s < 2 ^ 29" and "r < 2 ^ 29"
  shows "block_can_split m (adr b k) (8 * of_nat r) \<longleftrightarrow> r + 4 \<le> s"
proof -
  have "unat (32 + 8 * of_nat r :: u64) = 8 * (4 + r)"
    using unat_words [of "4 + r"] assms(4) by (simp add: distrib_left)
  moreover have "unat (8 * of_nat s :: u64) = 8 * s" using assms(3) by (intro unat_words) simp
  ultimately show ?thesis
    using block_reads(1) [OF assms(1,2)] by (simp add: block_can_split_def word_le_nat_alt) linarith
qed

lemma bmap_inside:
  "k0 + span xs < i \<Longrightarrow> i < k0 + span xs + s + 1 \<Longrightarrow> bmap g k0 (xs @ (s, f) # ys) i = None"
  by (simp add: bmap_mid bmap_outside)

lemma bmap_not_here: "f \<noteq> g \<Longrightarrow> bmap g k0 (xs @ (s, f) # ys) (k0 + span xs) = None"
  by (simp add: bmap_mid)

lemma bmap_split_same:
  assumes "f \<noteq> g" and "f' \<noteq> g" and "s = r + t + 1" and "0 < t"
  shows "bmap g k0 (xs @ (r, f) # (t, f') # ys) = bmap g k0 (xs @ (s, f) # ys)"
  unfolding bmap_split_block using assms by (intro ext) (simp add: bmap_not_here bmap_inside)

lemma bmap_split_new:
  assumes "f \<noteq> g" and "s = r + t + 1"
  shows "bmap g k0 (xs @ (r, f) # (t, g) # ys) = (bmap g k0 (xs @ (s, f) # ys))(k0 + span xs + r + 1 \<mapsto> t)"
  unfolding bmap_split_block using assms by (simp add: fun_upd_idem bmap_not_here)

lemma heap_trim_free:
  assumes hp: "heap b n c m k0 (xs @ (s, True) # ys) (bmap True k0 (xs @ (s, False) # ys))"
    and k: "k = k0 + span xs" and r: "3 \<le> r" "r \<le> s" and ct: "cut s r = (r', zs)"
  obtains c' m' where "block_trim_free c m (adr b k) (8 * of_nat r) = Some (c', m')"
    "heap b n c' m' k0 (xs @ (r', True) # zs @ ys) (bmap True k0 (xs @ (r', False) # zs @ ys))"
    "keeps (bmap False k0 (xs @ (s, True) # ys)) (view b n m) (view b n m')" "block_null c' = block_null c"
proof -
  note D = heapD [OF hp]
  have kn: "k + s + 2 < n" and ok: "sizes_ok ((s, True) # ys)" and s29: "s < 2 ^ 29" using D(3,4) k by simp_all
  have hd: "view b n m (k + 1) = szw s True (last_free False xs)"
    using D(5) k by (simp add: pool_append pool_Cons)
  have can: "block_can_split m (adr b k) (8 * of_nat r) \<longleftrightarrow> r + 4 \<le> s"
    using block_can_split_words [OF hd] kn s29 r(2) by simp
  show thesis
  proof (cases "r + 4 \<le> s")
    case False
    with can hp ct that [of c m] show thesis by (simp add: block_trim_free_def cut_def)
  next
    case True
    define t where "t = s - r - 1"
    have rt: "s = r + t + 1" "3 \<le> t" using True by (simp_all add: t_def)
    have rz: "r' = r" "zs = [(t, True)]" using True ct by (auto simp: cut_def t_def)
    let ?F = "bmap True k0 (xs @ (s, False) # ys)" and ?bs = "xs @ (r, True) # (t, True) # ys"
    let ?U = "bmap False k0 (xs @ (s, True) # ys)"
    obtain m1 m2 m3 where sp: "block_split m (adr b k) (8 * of_nat r) = (m1, adr b (k + r + 1))"
      "block_link_next m1 (adr b k) = (m2, adr b (k + r + 1))"
      "block_set_prev_free m2 (adr b (k + r + 1)) = m3" "pool b (view b n m3) k0 False ?bs"
      "\<And>x. view b n m3 x \<noteq> view b n m x \<Longrightarrow> x \<in> {k + 1, k + r + 1, k + r + 2, k + s + 1, k + s + 2}"
      using pool_split_free [OF D(1,5) k kn ok rt(1) r(1) rt(2)] by blast
    have ch: "k + 1 \<le> x \<and> x \<le> k + s + 2" if "view b n m3 x \<noteq> view b n m x" for x
      using sp(5) [OF that] rt by auto
    have here: "bmap True k0 (xs @ (s, True) # ys) k = Some s" using k by simp
    have Fk: "?F k = None" "?F (k + r + 1) = None" using k rt by (simp_all add: bmap_not_here bmap_inside)
    have nw: "bmap True k0 ?bs = (bmap True k0 (xs @ (s, True) # ys))(k \<mapsto> r, k + r + 1 \<mapsto> t)"
      using rt(1) k by (simp add: bmap_split_block)
    then have "?F \<subseteq>\<^sub>m bmap True k0 ?bs" using D(7) Fk unfolding map_le_def by auto
    then have h3: "heap b n c m3 k0 ?bs ?F"
      unfolding heap_def using D sp(4) heap_region [OF hp here Fk(1) ch] r(1) rt by simp
    have "bmap True k0 ?bs (k + r + 1) = Some t" using nw by simp
    then obtain c' m' where ins: "block_insert c m3 (adr b (k + r + 1)) = Some (c', m')"
      "heap b n c' m' k0 ?bs (?F(k + r + 1 \<mapsto> t))"
      "keeps (bmap False k0 ?bs) (view b n m3) (view b n m')" "block_null c' = block_null c"
      using heap_insert [OF h3 Fk(2)] by blast
    have "keeps ?U (view b n m) (view b n m3)"
      using region_keeps [OF here _ _ ch, of ?U] k by (simp add: bmap_not_here)
    moreover have "bmap False k0 ?bs = ?U" using rt by (intro bmap_split_same) auto
    ultimately have "keeps ?U (view b n m) (view b n m')" using ins(3) keeps_trans by metis
    moreover have "?F(k + r + 1 \<mapsto> t) = bmap True k0 (xs @ (r, False) # (t, True) # ys)"
      using rt k bmap_split_new [of False True s r t k0 xs ys] by simp
    moreover have "block_trim_free c m (adr b k) (8 * of_nat r) = Some (c', m')"
      using can True sp(1-3) ins(1) by (simp add: block_trim_free_def)
    ultimately show thesis using that ins rz by simp
  qed
qed

section \<open>Allocation\<close>

lemma adjust_cases:
  obtains (zero) "adjust_request_size sz ALIGN_SIZE = 0" "sz = 0 \<or> 2 ^ 32 - 8 < unat sz"
  | (words) r where "adjust_request_size sz ALIGN_SIZE = 8 * of_nat r" "3 \<le> r" "r < 2 ^ 29"
      "unat sz \<le> 2 ^ 64 - 8 \<Longrightarrow> unat sz \<le> 8 * r" "8 * r < unat sz + 8 \<or> r = 3"
proof -
  let ?a = "adjust_request_size sz ALIGN_SIZE"
  consider "sz = 0" | "sz \<noteq> 0" "unat sz \<le> 2 ^ 64 - 8" | "2 ^ 64 - 8 < unat sz" by linarith
  then show thesis
  proof cases
    case 1
    then show thesis by (intro zero) (simp_all add: adjust_request_size_def)
  next
    case 2
    define q where "q = (unat sz + 7) div 8"
    have q: "unat sz \<le> 8 * q" "8 * q < unat sz + 8" "1 \<le> q"
      using 2(1) unat_gt_0 [of sz] unfolding q_def by linarith+
    have a: "unat ?a = (if q * 8 < 2 ^ 32 then max (q * 8) 24 else 0)"
      using adjust_request_size_spec [OF 2] by (simp add: q_def Let_def)
    show thesis
    proof (cases "q * 8 < 2 ^ 32")
      case True
      have "?a = of_nat (max (q * 8) 24)" using a True by (metis of_nat_unat ucast_id)
      also have "max (q * 8) 24 = 8 * max q 3" by simp
      finally have "?a = 8 * of_nat (max q 3)" by simp
      with True q show thesis by (intro words [of "max q 3"]) (auto simp: max_def)
    next
      case False
      then have "?a = 0" using a by (simp add: unat_eq_zero)
      with False q show thesis by (intro zero) auto
    qed
  next
    case 3
    then have "?a = 24" by (intro adjust_wrap) simp
    with 3 show thesis by (intro words [of 3]) simp_all
  qed
qed

lemma no_adj_weaken: "no_adj p bs \<Longrightarrow> no_adj False bs"
  by (cases "(p, bs)" rule: no_adj.cases) auto

lemma tlsf_malloc_ok:
  assumes inv: "tlsf_inv b n c m k0 bs"
  obtains
    (found) xs s ys r r' zs c' m' where "bs = xs @ (s, True) # ys"
      "adjust_request_size sz ALIGN_SIZE = 8 * of_nat r" "3 \<le> r" "r < 2 ^ 29" "r \<le> s" "cut s r = (r', zs)"
      "tlsf_malloc c m sz = Some (c', m', adr b (k0 + span xs + 2))"
      "tlsf_inv b n c' m' k0 (xs @ (r', False) # zs @ ys)"
      "keeps (bmap False k0 bs) (view b n m) (view b n m')" "block_null c' = block_null c"
  | (none) "tlsf_malloc c m sz = Some (c, m, 0)"
      "adjust_request_size sz ALIGN_SIZE = 0 \<or>
       (\<exists>r. adjust_request_size sz ALIGN_SIZE = 8 * of_nat r \<and> r < 2 ^ 29 \<and>
            (\<forall>k s. bmap True k0 bs k = Some s \<longrightarrow> 32 * s < 33 * r + 4))"
proof -
  have hp: "heap b n c m k0 bs (bmap True k0 bs)" and na: "no_adj False bs"
    using inv unfolding tlsf_inv_def by blast+
  note D = heapD [OF hp]
  show thesis
  proof (cases rule: adjust_cases [of sz])
    case zero
    then have "tlsf_malloc c m sz = Some (c, m, 0)"
      by (simp add: tlsf_malloc_def block_locate_free_def block_prepare_used_def)
    with zero show thesis by (intro none) auto
  next
    case (words r)
    have r0: "0 < r" using words(2) by simp
    from D(1,6) r0 words(3) show thesis
    proof (cases rule: block_locate_free_ok)
      case (found k s c1 m1)
      obtain xs ys where bs: "bs = xs @ (s, True) # ys" and k: "k = k0 + span xs"
        using bmap_split [OF found(2)] .
      have kn: "k < n" using bmap_bounds [OF found(2)] D(3) by simp
      have F1: "(bmap True k0 bs)(k := None) = bmap True k0 (xs @ (s, False) # ys)"
        using bs k bmap_upd [of True k0 xs s False ys True] by simp
      have "(bmap True k0 bs)(k := None) \<subseteq>\<^sub>m bmap True k0 bs" unfolding map_le_def by auto
      then have "heap b n c1 m1 k0 bs ((bmap True k0 bs)(k := None))"
        using D(1-4,8) found(4) pool_links [OF D(5,4,2) found(6)] unfolding heap_def by blast
      then have h1: "heap b n c1 m1 k0 (xs @ (s, True) # ys) (bmap True k0 (xs @ (s, False) # ys))"
        unfolding F1 by (simp only: bs)
      obtain r' zs where ct: "cut s r = (r', zs)" by force
      obtain c2 m2 where tr: "block_trim_free c1 m1 (adr b k) (8 * of_nat r) = Some (c2, m2)"
        "heap b n c2 m2 k0 (xs @ (r', True) # zs @ ys) (bmap True k0 (xs @ (r', False) # zs @ ys))"
        "keeps (bmap False k0 bs) (view b n m1) (view b n m2)" "block_null c2 = block_null c1"
        using heap_trim_free [OF h1 k words(2) found(3) ct] bs by metis
      define m3 where "m3 = block_mark_as_used m2 (adr b k)"
      have Fk: "bmap True k0 (xs @ (r', False) # zs @ ys) k = None" using k by (simp add: bmap_not_here)
      note mu = heap_mark_used [OF tr(2) k Fk]
      have U: "bmap False k0 (xs @ (r', True) # zs @ ys) = bmap False k0 bs"
        using ct bs bmap_split_same [of True False True s r "s - r - 1" k0 xs ys] by (auto simp: cut_def split: if_splits)
      have "keeps (bmap False k0 bs) (view b n m2) (view b n m3)"
        using mu(2) [of "bmap False k0 bs"] U k bs by (simp add: m3_def bmap_not_here)
      then have kp: "keeps (bmap False k0 bs) (view b n m) (view b n m3)"
        using keeps_links [OF found(6) _ D(4,2)] tr(3) keeps_trans by (metis map_le_refl)
      have "no_adj False (xs @ (r', False) # zs @ ys)"
        using na ct no_adj_weaken [of True ys] by (auto simp: bs cut_def split: if_splits)
      then have "tlsf_inv b n c2 m3 k0 (xs @ (r', False) # zs @ ys)"
        using mu(1) unfolding tlsf_inv_def m3_def by simp
      moreover have "tlsf_malloc c m sz = Some (c2, m3, adr b (k + 2))"
        using found(1) tr(1) words(1) adr_neq_0 [OF D(1), of k] kn
        by (simp add: tlsf_malloc_def block_prepare_used_def m3_def block_to_ptr_def)
      ultimately show thesis
        using that(1) [OF bs words(1-3) found(3) ct] kp tr(4) found(5) k by simp
    next
      case none
      then have "tlsf_malloc c m sz = Some (c, m, 0)"
        using words(1) by (simp add: tlsf_malloc_def block_prepare_used_def)
      with none words that(2) show thesis by blast
    qed
  qed
qed

section \<open>Release\<close>

lemma heap_absorb:
  assumes hp: "heap b n c m k0 (xs @ (s, True) # (s2, True) # ys) F" and k: "k = k0 + span xs"
    and F: "F k = None" "F (k + s + 1) = None"
  obtains m' where "block_absorb m (adr b k) (adr b (k + s + 1)) = (m', adr b k)"
    "heap b n c m' k0 (xs @ (s + s2 + 1, True) # ys) F"
    "keeps (bmap False k0 (xs @ (s, True) # (s2, True) # ys)) (view b n m) (view b n m')"
proof -
  note D = heapD [OF hp]
  let ?bs = "xs @ (s, True) # (s2, True) # ys"
  have kn: "k + s + s2 + 2 < n" and ok: "sizes_ok ((s, True) # (s2, True) # ys)" using D(3,4) k by simp_all
  obtain m' where ab: "block_absorb m (adr b k) (adr b (k + s + 1)) = (m', adr b k)"
    "pool b (view b n m') k0 False (xs @ (s + s2 + 1, True) # ys)"
    "\<And>x. view b n m' x \<noteq> view b n m x \<Longrightarrow> x \<in> {k + 1, k + s + s2 + 2}"
    using pool_absorb [OF D(1,5) k kn ok] by blast
  have here: "bmap True k0 ?bs k = Some s" "bmap True k0 ?bs (k + s + 1) = Some s2"
    using k by (simp_all add: bmap_mid)
  have ls: "lists b n c (view b n m') F"
  proof (rule lists_frame [OF D(6)])
    fix x assume "link_word F x"
    then have "x \<noteq> k + 1" "x \<noteq> k + s + s2 + 2"
      using region_links [OF here(1) D(7) F(1) D(4,2), of x] region_links [OF here(2) D(7) F(2) D(4,2), of x] by auto
    then show "view b n m' x = view b n m x" using ab(3) by blast
  qed
  have "F \<subseteq>\<^sub>m bmap True k0 (xs @ (s + s2 + 1, True) # ys)"
    using D(7) F k unfolding bmap_split_block map_le_def by (auto split: if_splits)
  then have "heap b n c m' k0 (xs @ (s + s2 + 1, True) # ys) F"
    unfolding heap_def using D ls ab(2) by simp
  moreover have "keeps (bmap False k0 ?bs) (view b n m) (view b n m')"
    unfolding keeps_def
  proof (intro allI impI)
    fix i t j assume i: "bmap False k0 ?bs i = Some t" "i + 2 \<le> j" "j \<le> i + t + 1"
    have "j \<noteq> k + 1" "j \<noteq> k + s + s2 + 2"
      using bmap_spaced [OF here(1) i(1)] bmap_spaced [OF i(1) here(1)] bmap_spaced [OF here(2) i(1)]
        bmap_spaced [OF i(1) here(2)] i(2,3) bmap_excl [OF here(1)] bmap_excl [OF here(2)] i(1)
      by (cases "i = k"; cases "i = k + s + 1"; force)+
    then show "view b n m' j = view b n m j" using ab(3) by blast
  qed
  ultimately show thesis using ab(1) that by blast
qed

definition merge_left :: "layout \<Rightarrow> nat \<Rightarrow> layout \<times> nat" where
  "merge_left xs s = (case rev xs of (s0, True) # us \<Rightarrow> (rev us, s0 + s + 1) | _ \<Rightarrow> (xs, s))"

definition merge_right :: "nat \<Rightarrow> layout \<Rightarrow> nat \<times> layout" where
  "merge_right s ys = (case ys of (s2, True) # zs \<Rightarrow> (s + s2 + 1, zs) | _ \<Rightarrow> (s, ys))"

lemma merge_left_cases:
  obtains (free) us s0 where "xs = us @ [(s0, True)]" "merge_left xs s = (us, s0 + s + 1)" "last_free False xs"
  | (used) "merge_left xs s = (xs, s)" "\<not> last_free False xs"
proof (cases xs rule: rev_cases)
  case Nil
  then show thesis by (intro used) (simp_all add: merge_left_def)
next
  case (snoc us a)
  obtain s0 f where "a = (s0, f)" by force
  with snoc free used show thesis by (cases f) (simp_all add: merge_left_def)
qed

lemma merge_right_cases:
  obtains (free) s2 zs where "ys = (s2, True) # zs" "merge_right s ys = (s + s2 + 1, zs)"
  | (used) s2 where "merge_right s ys = (s, ys)" "head_of ys = (s2, False)"
proof (cases ys)
  case Nil
  then show thesis by (intro used) (simp_all add: merge_right_def)
next
  case (Cons a zs)
  obtain s2 f where "a = (s2, f)" by force
  with Cons free used show thesis by (cases f) (simp_all add: merge_right_def)
qed

lemma heap_merge_prev:
  assumes hp: "heap b n c m k0 (xs @ (s, True) # ys) (bmap True k0 (xs @ (s, False) # ys))"
    and k: "k = k0 + span xs" and ml: "merge_left xs s = (xs1, s1)"
  obtains c' m' where "block_merge_prev c m (adr b k) = Some (c', m', adr b (k0 + span xs1))"
    "heap b n c' m' k0 (xs1 @ (s1, True) # ys) (bmap True k0 (xs1 @ (s1, False) # ys))"
    "keeps (bmap False k0 (xs @ (s, True) # ys)) (view b n m) (view b n m')"
    "bmap False k0 (xs1 @ (s1, True) # ys) = bmap False k0 (xs @ (s, True) # ys)"
    "block_null c' = block_null c"
proof -
  note D = heapD [OF hp]
  have kn: "k + 1 < n" using D(3) k by simp
  have "view b n m (k + 1) = szw s True (last_free False xs)"
    using D(5) k by (simp add: pool_append pool_Cons)
  note rd = block_reads(3) [OF this kn]
  show thesis
  proof (cases rule: merge_left_cases [of xs s])
    case used
    then have e: "xs1 = xs" "s1 = s" using ml by simp_all
    have "block_merge_prev c m (adr b k) = Some (c, m, adr b k)"
      using rd used(2) by (simp only: block_merge_prev_def if_False)
    with that [of c m] hp k show thesis by (simp only: e keeps_refl)
  next
    case (free us s0)
    then have x1: "xs1 = us" "s1 = s0 + s + 1" using ml by simp_all
    define kp where "kp = k0 + span us"
    have kp: "k = kp + s0 + 1" using free(1) k by (simp add: kp_def)
    let ?bs = "us @ (s0, True) # (s, True) # ys" and ?F = "bmap True k0 (us @ (s0, True) # (s, False) # ys)"
    have hp': "heap b n c m k0 ?bs ?F" using hp free(1) by simp
    have "view b n m k = adr b kp"
      using heapD(5) [OF hp'] kp by (simp add: pool_append pool_Cons kp_def)
    then have pv: "block_prev m (adr b k) = adr b kp" using kn by (simp add: block_prev_def view_def)
    have "?F kp = Some s0" by (simp add: kp_def)
    then obtain c1 m1 where rm: "block_remove c m (adr b kp) = Some (c1, m1)"
      "heap b n c1 m1 k0 ?bs (?F(kp := None))"
      "keeps (bmap False k0 ?bs) (view b n m) (view b n m1)" "block_null c1 = block_null c"
      using heap_remove [OF hp'] by blast
    have F1: "?F(kp := None) = bmap True k0 (us @ (s1, False) # ys)"
    proof -
      have "?F(kp := None) = bmap True k0 (us @ (s0, False) # (s, False) # ys)"
        using bmap_upd [of True k0 us s0 False "(s, False) # ys" True] by (simp add: kp_def)
      also have "\<dots> = bmap True k0 (us @ (s1, False) # ys)"
        using D(4) x1 by (intro bmap_split_same) auto
      finally show ?thesis .
    qed
    have "(?F(kp := None)) kp = None" "(?F(kp := None)) (kp + s0 + 1) = None"
      by (simp_all add: bmap_mid kp_def)
    then obtain m2 where ab: "block_absorb m1 (adr b kp) (adr b (kp + s0 + 1)) = (m2, adr b kp)"
      "heap b n c1 m2 k0 (us @ (s1, True) # ys) (?F(kp := None))"
      "keeps (bmap False k0 ?bs) (view b n m1) (view b n m2)"
      using heap_absorb [OF rm(2) kp_def] x1 by metis
    have "block_merge_prev c m (adr b k) = Some (c1, m2, adr b (k0 + span xs1))"
      using rd free(3) pv rm(1) ab(1) kp x1 by (simp add: block_merge_prev_def kp_def)
    moreover have "bmap False k0 (us @ (s1, True) # ys) = bmap False k0 ?bs"
      using D(4) x1 by (intro bmap_split_same [symmetric]) auto
    moreover have "?bs = xs @ (s, True) # ys" using free(1) by simp
    ultimately show thesis
      using that ab(2) keeps_trans [OF rm(3) ab(3)] rm(4) x1 unfolding F1 by metis
  qed
qed

lemma heap_merge_next:
  assumes hp: "heap b n c m k0 (xs @ (s, True) # ys) (bmap True k0 (xs @ (s, False) # ys))"
    and k: "k = k0 + span xs" and mr: "merge_right s ys = (s1, zs)"
  obtains c' m' where "block_merge_next c m (adr b k) = Some (c', m', adr b k)"
    "heap b n c' m' k0 (xs @ (s1, True) # zs) (bmap True k0 (xs @ (s1, False) # zs))"
    "keeps (bmap False k0 (xs @ (s, True) # ys)) (view b n m) (view b n m')"
    "bmap False k0 (xs @ (s1, True) # zs) = bmap False k0 (xs @ (s, True) # ys)"
    "block_null c' = block_null c"
proof -
  note D = heapD [OF hp]
  have kn: "k + 1 < n" "k + s + 1 + 1 < n" using D(3) k by simp_all
  have p: "view b n m (k + 1) = szw s True (last_free False xs)"
    "pool b (view b n m) (k + s + 1) True ys"
    using D(5) k by (simp_all add: pool_append pool_Cons)
  have nx: "block_next m (adr b k) = adr b (k + s + 1)" using block_reads(4) [OF p(1) kn(1)] .
  obtain s2 f2 where hd: "head_of ys = (s2, f2)" "view b n m (k + s + 1 + 1) = szw s2 f2 True"
    using pool_headE [OF p(2)] .
  have fr: "block_is_free m (adr b (k + s + 1)) = f2" using block_reads(2) [OF hd(2) kn(2)] .
  show thesis
  proof (cases rule: merge_right_cases [of ys s])
    case (used s2')
    then have e: "zs = ys" "s1 = s" "\<not> f2" using mr hd by simp_all
    have "block_merge_next c m (adr b k) = Some (c, m, adr b k)"
      using fr nx e(3) by (simp only: block_merge_next_def Let_def if_False)
    with that [of c m] hp show thesis by (simp only: e keeps_refl)
  next
    case (free t us)
    then have x1: "zs = us" "s1 = s + t + 1" and f2 using mr hd by simp_all
    let ?bs = "xs @ (s, True) # (t, True) # us" and ?F = "bmap True k0 (xs @ (s, False) # (t, True) # us)"
    define kn' where "kn' = k + s + 1"
    have hp': "heap b n c m k0 ?bs ?F" using hp free(1) by simp
    have "?F kn' = Some t" by (simp add: kn'_def k bmap_mid)
    then obtain c1 m1 where rm: "block_remove c m (adr b kn') = Some (c1, m1)"
      "heap b n c1 m1 k0 ?bs (?F(kn' := None))"
      "keeps (bmap False k0 ?bs) (view b n m) (view b n m1)" "block_null c1 = block_null c"
      using heap_remove [OF hp'] by blast
    have F1: "?F(kn' := None) = bmap True k0 (xs @ (s1, False) # us)"
    proof -
      have "?F(kn' := None) = bmap True k0 (xs @ (s, False) # (t, False) # us)"
        unfolding bmap_split_block kn'_def k by simp
      also have "\<dots> = bmap True k0 (xs @ (s1, False) # us)"
        using heapD(4) [OF hp'] x1 by (intro bmap_split_same) auto
      finally show ?thesis .
    qed
    have "(?F(kn' := None)) k = None" "(?F(kn' := None)) (k + s + 1) = None"
      by (simp_all add: bmap_mid kn'_def k)
    then obtain m2 where ab: "block_absorb m1 (adr b k) (adr b (k + s + 1)) = (m2, adr b k)"
      "heap b n c1 m2 k0 (xs @ (s1, True) # us) (?F(kn' := None))"
      "keeps (bmap False k0 ?bs) (view b n m1) (view b n m2)"
      using heap_absorb [OF rm(2) k] x1 by metis
    have "block_merge_next c m (adr b k) = Some (c1, m2, adr b k)"
      using fr \<open>f2\<close> nx rm(1) ab(1) by (simp add: block_merge_next_def kn'_def)
    moreover have "bmap False k0 (xs @ (s1, True) # us) = bmap False k0 ?bs"
      using heapD(4) [OF hp'] x1 by (intro bmap_split_same [symmetric]) auto
    moreover have "?bs = xs @ (s, True) # ys" using free(1) by simp
    ultimately show thesis
      using that ab(2) keeps_trans [OF rm(3) ab(3)] rm(4) x1 unfolding F1 by metis
  qed
qed

lemma merge_left_no_adj:
  assumes "no_adj False xs" and "merge_left xs s = (xs1, s1)"
  shows "no_adj False xs1" "\<not> last_free False xs1"
  using assms by (cases rule: merge_left_cases [of xs s]; auto)+

lemma merge_right_no_adj:
  assumes "no_adj False ys" and "merge_right s ys = (s1, zs)"
  shows "no_adj True zs"
proof (cases rule: merge_right_cases [of ys s])
  case (free t us)
  then show ?thesis using assms by simp
next
  case (used t)
  then show ?thesis using assms by (cases "(False, ys)" rule: no_adj.cases) auto
qed

lemma tlsf_free_ok:
  assumes inv: "tlsf_inv b n c m k0 (xs @ (s, False) # ys)" and k: "k = k0 + span xs"
    and ml: "merge_left xs s = (xs1, s1)" and mr: "merge_right s1 ys = (s2, zs)"
  obtains c' m' where "tlsf_free c m (adr b (k + 2)) = Some (c', m')"
    "tlsf_inv b n c' m' k0 (xs1 @ (s2, True) # zs)"
    "bmap False k0 (xs1 @ (s2, True) # zs) = (bmap False k0 (xs @ (s, False) # ys))(k := None)"
    "keeps ((bmap False k0 (xs @ (s, False) # ys))(k := None)) (view b n m) (view b n m')"
    "block_null c' = block_null c"
proof -
  let ?U = "(bmap False k0 (xs @ (s, False) # ys))(k := None)"
  have hp: "heap b n c m k0 (xs @ (s, False) # ys) (bmap True k0 (xs @ (s, False) # ys))"
    and na: "no_adj False (xs @ (s, False) # ys)" using inv unfolding tlsf_inv_def by blast+
  note D = heapD [OF hp]
  have blk: "block_from_ptr (adr b (k + 2)) = adr b k" by (simp add: block_from_ptr_def adr_def algebra_simps)
  have "k + 2 \<le> n" using D(3) k by simp
  then have nz: "adr b (k + 2) \<noteq> 0" using adr_neq_0 [OF D(1)] by blast
  define m1 where "m1 = block_mark_as_free m (adr b k)"
  have Fk: "bmap True k0 (xs @ (s, False) # ys) k = None" using k by (simp add: bmap_not_here)
  note mf = heap_mark_free [OF hp k Fk]
  have U: "?U = bmap False k0 (xs @ (s, True) # ys)"
    using bmap_upd [of False k0 xs s True ys False] k by simp
  have k1: "keeps ?U (view b n m) (view b n m1)"
    unfolding m1_def by (rule mf(2)) (auto simp: map_le_def)
  obtain c2 m2 where mp: "block_merge_prev c m1 (adr b k) = Some (c2, m2, adr b (k0 + span xs1))"
    "heap b n c2 m2 k0 (xs1 @ (s1, True) # ys) (bmap True k0 (xs1 @ (s1, False) # ys))"
    "keeps ?U (view b n m1) (view b n m2)" "bmap False k0 (xs1 @ (s1, True) # ys) = ?U"
    "block_null c2 = block_null c"
    using heap_merge_prev [OF mf(1) k ml] unfolding U m1_def by metis
  obtain c3 m3 where mn: "block_merge_next c2 m2 (adr b (k0 + span xs1)) = Some (c3, m3, adr b (k0 + span xs1))"
    "heap b n c3 m3 k0 (xs1 @ (s2, True) # zs) (bmap True k0 (xs1 @ (s2, False) # zs))"
    "keeps ?U (view b n m2) (view b n m3)" "bmap False k0 (xs1 @ (s2, True) # zs) = ?U"
    "block_null c3 = block_null c2"
    using heap_merge_next [OF mp(2) refl mr] mp(4) by metis
  have "bmap True k0 (xs1 @ (s2, False) # zs) (k0 + span xs1) = None" by (simp add: bmap_not_here)
  then obtain c4 m4 where ins: "block_insert c3 m3 (adr b (k0 + span xs1)) = Some (c4, m4)"
    "heap b n c4 m4 k0 (xs1 @ (s2, True) # zs) ((bmap True k0 (xs1 @ (s2, False) # zs))(k0 + span xs1 \<mapsto> s2))"
    "keeps ?U (view b n m3) (view b n m4)" "block_null c4 = block_null c3"
    using heap_insert [OF mn(2) _ bmap_here] mn(4) by metis
  have F4: "(bmap True k0 (xs1 @ (s2, False) # zs))(k0 + span xs1 \<mapsto> s2) = bmap True k0 (xs1 @ (s2, True) # zs)"
    using bmap_upd [of True k0 xs1 s2 True zs False] by simp
  have "no_adj False (xs1 @ (s2, True) # zs)"
    using merge_left_no_adj [OF _ ml] merge_right_no_adj [OF _ mr] na by simp
  then have "tlsf_inv b n c4 m4 k0 (xs1 @ (s2, True) # zs)"
    using ins(2) unfolding tlsf_inv_def F4 by blast
  moreover have "tlsf_free c m (adr b (k + 2)) = Some (c4, m4)"
    using nz blk mp(1) mn(1) ins(1) by (simp add: tlsf_free_def m1_def)
  ultimately show thesis
    using that mn(4,5) mp(5) ins(4) keeps_trans [OF keeps_trans [OF k1 mp(3)] keeps_trans [OF mn(3) ins(3)]]
    by metis
qed

end
