(* ===== verification/Tlsf_Correct.thy ===== *)
theory Tlsf_Correct
  imports Tlsf_Inv
begin

text \<open>
  Correctness of the kernel heap: \<open>init_heap\<close> establishes the invariant, \<open>malloc\<close> and \<open>free\<close> implement
  an abstract allocator, and the allocator's own integrity checks succeed in every state.
\<close>

section \<open>Construction\<close>

lemma sint_mod_8: "sint x mod 8 = 0 \<longleftrightarrow> 8 dvd unat x" for x :: u64
proof -
  have "uint x = sint x mod 2 ^ 64" by (simp add: uint_sint take_bit_eq_mod)
  moreover have "sint x mod 2 ^ 64 mod 8 = sint x mod 8" by (rule mod_mod_cancel) simp
  ultimately have "sint x mod 8 = uint x mod 8" by simp
  also have "\<dots> = int (unat x mod 8)" by (simp add: zmod_int)
  finally show ?thesis by (simp add: dvd_eq_mod_eq_0)
qed

lemma align_down_words: "align_down x 8 = 8 * of_nat (unat x div 8)" for x :: u64
proof -
  have "(x AND mask 3) + (x AND NOT (mask 3)) = (x AND mask 3) OR (x AND NOT (mask 3))"
    by (rule disjunctive_add) (simp add: bits)
  also have "\<dots> = x" by (rule bit_word_eqI) (auto simp: bits)
  finally have "(x AND mask 3) + (x AND NOT (mask 3)) = x" .
  then have "align_down x 8 = x AND NOT (mask 3)"
    by (simp add: align_down_def mask_eq_decr_exp diff_eq_eq add.commute)
  then have "unat (align_down x 8) = 8 * (unat x div 8)" by (simp only: unat_and_not_mask) simp
  then have "of_nat (unat (align_down x 8)) = (of_nat (8 * (unat x div 8)) :: u64)" by (simp only:)
  then show ?thesis by simp
qed

lemma control_construct_lists:
  assumes "control_construct b m = (c, m')" and "arena b n" and "6 < n"
  shows "lists b n c h Map.empty" "block_null c = b"
    "view b n m' = (view b n m)(2 := b, 3 := b)"
proof -
  have c: "c = \<lparr>block_null = b, fl_bitmap = 0, sl_bitmap = replicate 25 0,
      blocks = replicate 25 (replicate 32 b)\<rparr>" and m': "m' = m(b + 16 := b, b + 24 := b)"
    using assms(1) by (simp_all add: control_construct_def)
  have "free_dom n Map.empty" by (simp add: free_dom_def)
  moreover have "links_ok b h Map.empty (\<lambda>_. [])" by (simp add: links_ok_def)
  moreover have "ctl_ok b c (\<lambda>_. [])" by (simp add: ctl_ok_def c)
  ultimately show "lists b n c h Map.empty" unfolding lists_def by blast
  show "block_null c = b" by (simp add: c)
  have "b + 16 = adr b 2" "b + 24 = adr b 3" by (simp_all add: adr_def)
  then show "view b n m' = (view b n m)(2 := b, 3 := b)"
    using assms(2,3) by (simp add: m' view_upd)
qed

text \<open>
  The words of the kernel heap: 816 words of control structure precede the first block, whose
  \<open>prev_phys_block\<close> word is the last of them, and two words end the pool.
\<close>

definition heap_words :: "u64 \<Rightarrow> nat" where
  "heap_words bytes = (unat bytes - 6552) div 8"

definition heap_range :: "u64 \<Rightarrow> u64 \<Rightarrow> bool" where
  "heap_range start bytes \<longleftrightarrow>
     8 dvd unat start \<and> start \<noteq> 0 \<and> unat start + unat bytes < 2 ^ 64 \<and>
     6576 \<le> unat bytes \<and> unat bytes < 2 ^ 32 + 6552"

lemma tlsf_add_pool_first:
  assumes ar: "arena b n" and n: "n = s + 819" and s: "3 \<le> s" "s < 2 ^ 29"
    and ls: "lists b n c (view b n m) Map.empty"
    and pb: "align_down (bytes - 16) 8 = 8 * of_nat s"
  obtains c' m' where "tlsf_add_pool c m (adr b 817) bytes = Some (c', m', adr b 817)"
    "tlsf_inv b n c' m' 816 [(s, True)]" "block_null c' = block_null c"
proof -
  define h where "h = view b n m"
  have al: "sint (adr b 817) mod 8 = 0"
    using ar n unat_adr [OF ar, of 817] by (simp add: sint_mod_8 arena_def)
  have us: "unat (8 * of_nat s :: u64) = 8 * s" using s(2) by (intro unat_words) simp
  have sz: "\<not> (8 * of_nat s < block_size_min \<or> 8 * of_nat s > block_size_max)"
    using us s by (simp add: word_less_nat_alt)
  have blk: "offset_to_block (adr b 817) (- 8) = adr b 816"
    by (simp add: offset_to_block_def adr_def)
  define m1 where "m1 = block_set_size m (adr b 816) (8 * of_nat s)"
  obtain f1 p1 where v1: "view b n m1 = h(817 := szw s f1 p1)"
    using view_set_size [OF ar, of 816 m s] n by (simp add: m1_def h_def)
  define m2 where "m2 = block_set_free m1 (adr b 816)"
  have v2: "view b n m2 = h(817 := szw s True p1)"
    using view_set_flags(1) [OF ar, of 816 m1 s f1 p1] v1 n by (simp add: m2_def)
  define m3 where "m3 = block_set_prev_used m2 (adr b 816)"
  have v3: "view b n m3 = h(817 := szw s True False)"
    using view_set_flags(4) [OF ar, of 816 m2 s True p1] v2 n by (simp add: m3_def)
  have ls3: "lists b n c (view b n m3) Map.empty"
    using ls by (rule lists_frame) (auto simp: link_word_def)
  have fd: "free_dom n [816 \<mapsto> s]" using n s by (simp add: free_dom_def)
  have h3: "view b n m3 (816 + 1) = szw s True False" using v3 by simp
  obtain c4 m4 where ins: "block_insert c m3 (adr b 816) = Some (c4, m4)"
    "lists b n c4 (view b n m4) [816 \<mapsto> s]" "block_null c4 = block_null c"
    "\<And>x. view b n m4 x \<noteq> view b n m3 x \<Longrightarrow> link_word [816 \<mapsto> s] x"
    using block_insert_ok [OF ar ls3 _ fd h3] by blast
  have "\<not> link_word [816 \<mapsto> s] (816 + 1)" by (auto simp: link_word_def)
  then have h4: "view b n m4 (816 + 1) = szw s True False" using ins(4) [of "816 + 1"] h3 by metis
  define m5 where "m5 = fst (block_link_next m4 (adr b 816))"
  have ln: "view b n m5 = (view b n m4)(816 + s + 1 := adr b 816)"
    "block_link_next m4 (adr b 816) = (m5, adr b (816 + s + 1))"
    using link_next [OF ar _ h4] n by (simp_all add: m5_def prod_eq_iff)
  define m6 where "m6 = block_set_size m5 (adr b (816 + s + 1)) 0"
  obtain f6 p6 where v6: "view b n m6 = (view b n m5)(816 + s + 2 := szw 0 f6 p6)"
    using view_set_size [OF ar, of "816 + s + 1" m5 0] n by (simp add: m6_def)
  define m7 where "m7 = block_set_used m6 (adr b (816 + s + 1))"
  have v7: "view b n m7 = (view b n m5)(816 + s + 2 := szw 0 False p6)"
    using view_set_flags(2) [OF ar, of "816 + s + 1" m6 0 f6 p6] v6 n by (simp add: m7_def)
  define m8 where "m8 = block_set_prev_free m7 (adr b (816 + s + 1))"
  have v8: "view b n m8 = (view b n m4)(816 + s + 1 := adr b 816, 816 + s + 2 := szw 0 False True)"
    using view_set_flags(3) [OF ar, of "816 + s + 1" m7 0 False p6] v7 ln(1) n by (simp add: m8_def)
  have "pool b (view b n m8) 816 False [(s, True)]"
    using v8 h4 s(1) by (simp add: pool_def)
  moreover have "lists b n c4 (view b n m8) [816 \<mapsto> s]"
    using ins(2) by (rule lists_frame) (use v8 s(1) in \<open>auto simp: link_word_def\<close>)
  ultimately have "tlsf_inv b n c4 m8 816 [(s, True)]"
    using ar n s by (simp add: tlsf_inv_def heap_def)
  moreover have "tlsf_add_pool c m (adr b 817) bytes = Some (c4, m8, adr b 817)"
    using al sz blk ins(1) ln(2) pb
    by (simp add: tlsf_add_pool_def tlsf_pool_overhead_def m1_def m2_def m3_def m6_def m7_def m8_def)
  ultimately show thesis using that ins(3) by blast
qed

lemma tlsf_create_with_pool_ok:
  assumes hr: "heap_range start bytes"
  obtains c m' where "tlsf_create_with_pool c0 m start bytes = Some (c, m', start)"
    "tlsf_inv start (heap_words bytes + 819) c m' 816 [(heap_words bytes, True)]" "block_null c = start"
proof -
  define s where "s = heap_words bytes"
  define n where "n = s + 819"
  have hr': "8 dvd unat start" "start \<noteq> 0" "unat start + unat bytes < 2 ^ 64" "6576 \<le> unat bytes"
    "unat bytes < 2 ^ 32 + 6552" using hr by (simp_all add: heap_range_def)
  have s: "3 \<le> s" "s < 2 ^ 29" and "8 * s + 6552 \<le> unat bytes"
    using hr'(4,5) unfolding s_def heap_words_def by (linarith, simp add: div_less_iff_less_mult, linarith)
  then have ar: "arena start n" using hr' by (simp add: arena_def n_def)
  obtain c1 m1 where cc: "control_construct start m = (c1, m1)" by force
  have cr: "tlsf_create c0 m start = (c1, m1, start)"
    using hr'(1) cc by (simp add: tlsf_create_def sint_mod_8)
  have c1: "lists start n c1 (view start n m1) Map.empty" "block_null c1 = start"
    using control_construct_lists(1,2) [OF cc ar] n_def by simp_all
  have "unat (bytes - 6536 - 16) = unat bytes - 6552"
    using hr'(4) unat_sub [of "6552" bytes] by (simp add: word_le_nat_alt diff_diff_eq)
  then have "align_down (bytes - tlsf_size - 16) 8 = 8 * of_nat s"
    by (simp add: align_down_words tlsf_size_def s_def heap_words_def)
  then obtain c2 m2 where "tlsf_add_pool c1 m1 (adr start 817) (bytes - tlsf_size) = Some (c2, m2, adr start 817)"
    "tlsf_inv start n c2 m2 816 [(s, True)]" "block_null c2 = block_null c1"
    using tlsf_add_pool_first [OF ar n_def s c1(1)] by blast
  moreover have "adr start 817 = start + tlsf_size" by (simp add: adr_def tlsf_size_def)
  ultimately show thesis
    using that cr c1(2) by (simp add: tlsf_create_with_pool_def n_def s_def)
qed

section \<open>Walking the pool\<close>

fun walk_list :: "(u64 \<Rightarrow> u64 \<Rightarrow> bool \<Rightarrow> 'u \<Rightarrow> 'u) \<Rightarrow> u64 \<Rightarrow> nat \<Rightarrow> layout \<Rightarrow> 'u \<Rightarrow> 'u" where
  "walk_list w b k [] u = u"
| "walk_list w b k ((s, f) # bs) u = walk_list w b (k + s + 1) bs (w (adr b (k + 2)) (8 * of_nat s) (\<not> f) u)"

lemma walk_blocks_pool:
  assumes "arena b n" and "pool b (view b n m) k p bs" and "k + span bs + 1 < n" and "sizes_ok bs"
  shows "walk_blocks w m (adr b k) u = Some (walk_list w b k bs u)"
  using assms(2-)
proof (induction bs arbitrary: k p u rule: span.induct)
  case 1
  have "view b n m (k + 1) = szw 0 False p" using "1.prems"(1) by (simp add: pool_def)
  then have "block_size m (adr b k) = 8 * of_nat 0"
    using "1.prems"(2) by (intro block_reads(1)) auto
  then show ?case by (subst walk_blocks.simps) (simp add: block_is_last_def)
next
  case (2 s f bs)
  have p: "view b n m (k + 1) = szw s f p" "pool b (view b n m) (k + s + 1) f bs"
    using "2.prems"(1) by (simp_all add: pool_Cons)
  have kn: "k + 1 < n" "k \<le> n" and s: "3 \<le> s" "s < 2 ^ 61" using "2.prems"(2,3) by simp_all
  note rd = block_reads [OF p(1) kn(1)]
  have "8 * of_nat s \<noteq> (0 :: u64)" using unat_words [OF s(2)] s(1) by (intro notI) simp
  then have "walk_blocks w m (adr b k) u = walk_blocks w m (adr b (k + s + 1))
      (w (adr b (k + 2)) (8 * of_nat s) (\<not> f) u)"
    using adr_neq_0 [OF assms(1) kn(2)] rd
    by (subst walk_blocks.simps) (simp add: block_is_last_def block_to_ptr_def)
  also have "\<dots> = Some (walk_list w b k ((s, f) # bs) u)"
    using "2.IH" [OF p(2)] "2.prems"(2,3) by simp
  finally show ?case .
qed

lemma walk_integrity:
  assumes "arena b n" and "pool b (view b n m) k p bs" and "k + span bs + 1 < n"
    and "prev_status ig = of_bool p"
  shows "status (walk_list (integrity_walker m) b k bs ig) = status ig"
  using assms(2-)
proof (induction bs arbitrary: k p ig rule: span.induct)
  case (2 s f bs)
  have p: "view b n m (k + 1) = szw s f p" "pool b (view b n m) (k + s + 1) f bs"
    using "2.prems"(1) by (simp_all add: pool_Cons)
  have kn: "k + 1 < n" using "2.prems"(2) by simp
  note rd = block_reads [OF p(1) kn]
  have "block_from_ptr (adr b (k + 2)) = adr b k" by (simp add: block_from_ptr_def adr_def algebra_simps)
  then have "integrity_walker m (adr b (k + 2)) (8 * of_nat s) (\<not> f) ig = ig\<lparr>prev_status := of_bool f\<rparr>"
    using rd "2.prems"(3) by (simp add: integrity_walker_def insist_def)
  then show ?case using "2.IH" [OF p(2), of "ig\<lparr>prev_status := of_bool f\<rparr>"] "2.prems"(2) by simp
qed simp

text \<open>The state of the kernel heap between operations.\<close>

definition heap_ok :: "control_t \<Rightarrow> mem \<Rightarrow> bool" where
  "heap_ok c m \<longleftrightarrow> (\<exists>n bs. tlsf_inv (block_null c) n c m 816 bs)"

lemma pool_address: "offset_to_block (tlsf_get_pool b) (- 8) = adr b 816"
  by (simp add: offset_to_block_def tlsf_get_pool_def tlsf_size_def adr_def)

lemma tlsf_walk_pool_ok:
  assumes "tlsf_inv b n c m 816 bs"
  shows "tlsf_walk_pool m (tlsf_get_pool b) w u = Some (walk_list w b 816 bs u)"
proof -
  have "heap b n c m 816 bs (bmap True 816 bs)" using assms by (simp add: tlsf_inv_def)
  note D = heapD [OF this]
  show ?thesis
    using walk_blocks_pool [OF D(1,5,3,4)] pool_address by (simp add: tlsf_walk_pool_def)
qed

section \<open>The free lists as the integrity check reads them\<close>

lemma free_block_facts:
  assumes "tlsf_inv b n c m k0 bs" and k: "bmap True k0 bs k = Some s"
  obtains s2 where "view b n m (k + 1) = szw s True False" "view b n m (k + s + 1 + 1) = szw s2 False True"
    "k + s + 2 < n" "4 \<le> k" "3 \<le> s" "s < 2 ^ 29"
proof -
  have hp: "heap b n c m k0 bs (bmap True k0 bs)" and na: "no_adj False bs"
    using assms(1) by (simp_all add: tlsf_inv_def)
  note D = heapD [OF hp]
  obtain xs ys where bs: "bs = xs @ (s, True) # ys" "k = k0 + span xs" using bmap_split [OF k] .
  have lf: "\<not> last_free False xs" and ny: "no_adj True ys" using na bs(1) by simp_all
  obtain s2 f2 where y: "head_of ys = (s2, f2)" by force
  then have "\<not> f2" using ny by (cases "(True, ys)" rule: no_adj.cases) auto
  have "pool b (view b n m) (k + s + 1) True ys" "view b n m (k + 1) = szw s True False"
    using D(5) bs lf by (simp_all add: pool_append pool_Cons)
  with pool_head [OF this(1)] y \<open>\<not> f2\<close> that [of s2] D(2,3) bmap_bounds [OF k] bmap_size [OF k D(4)]
  show thesis by simp
qed

lemma check_list_ok:
  assumes inv: "tlsf_inv b n c m k0 bs" and "block_null c = b"
    and "dll b (nexts (view b n m)) (prevs (view b n m)) p xs 0"
    and "\<And>x. x \<in> set xs \<Longrightarrow> \<exists>s. bmap True k0 bs x = Some s \<and> cls s = (i, j)"
  shows "check_list c m (int i) (int j) (adr b (hd0 xs 0)) st = Some st"
  using assms(3-)
proof (induction xs arbitrary: p)
  case Nil
  show ?case using assms(2) by (subst check_list.simps) simp
next
  case (Cons x xs)
  have ar: "arena b n" using inv by (simp add: tlsf_inv_def heap_def)
  obtain s where s: "bmap True k0 bs x = Some s" "cls s = (i, j)" using Cons.prems(2) [of x] by auto
  obtain s2 where f: "view b n m (x + 1) = szw s True False" "view b n m (x + s + 1 + 1) = szw s2 False True"
    "x + s + 2 < n" "4 \<le> x" "3 \<le> s" "s < 2 ^ 29" using free_block_facts [OF inv s(1)] .
  have kn: "x + 1 < n" "x + s + 1 + 1 < n" "x \<le> n" "x + 2 < n" using f(3) by simp_all
  note r1 = block_reads [OF f(1) kn(1)] and r2 = block_reads [OF f(2) kn(2)]
  have "adr b x \<noteq> adr b 0" using adr_inj [OF ar kn(3), of 0] f(4) by simp
  moreover have "24 \<le> (8 * of_nat s :: u64)"
    using unat_words [of s] f(5,6) by (simp add: word_le_nat_alt)
  moreover have "m (adr b x + 16) = adr b (hd0 xs 0)"
    using Cons.prems(1) kn(4) by (simp add: nexts_def view_def)
  ultimately have "check_list c m (int i) (int j) (adr b x) st =
      check_list c m (int i) (int j) (adr b (hd0 xs 0)) st"
    using assms(2) r1 r2 cls_spec(1) [OF f(6) s(2)]
    by (subst check_list.simps) (simp add: insist_def)
  also have "\<dots> = Some st" using Cons.IH [of x] Cons.prems by simp
  finally show ?case by simp
qed

lemma check_class_ok:
  assumes inv: "tlsf_inv b n c m k0 bs" and ij: "i < 25" "j < 32"
  shows "check_class c m (int i) (int j) st = Some st"
proof -
  have "lists b n c (view b n m) (bmap True k0 bs)" using inv by (simp add: tlsf_inv_def heap_def)
  then obtain L where fd: "free_dom n (bmap True k0 bs)" and lk: "links_ok b (view b n m) (bmap True k0 bs) L"
    and ct: "ctl_ok b c L" unfolding lists_def by blast
  have ar: "arena b n" using inv by (simp add: tlsf_inv_def heap_def)
  note D = ctl_okD [OF ct]
  have sl: "sl_bitmap c ! i AND 2 ^ j = 0 \<longleftrightarrow> L (i, j) = []"
    using D(6) [OF ij] by (simp add: and_exp_eq_0_iff_not_bit)
  have fl: "fl_bitmap c AND 2 ^ i = 0 \<longleftrightarrow> (\<forall>j<32. L (i, j) = [])"
    using D(7) [of i] ij(1) by (simp add: and_exp_eq_0_iff_not_bit)
  have red: "check_class c m (int i) (int j) st =
    (if L (i, j) = [] then Some st
     else check_list c m (int i) (int j) (adr b (hd0 (L (i, j)) 0)) st)"
  proof (cases "L (i, j) = []")
    case True
    then show ?thesis using D(1-5) ij sl by (simp add: check_class_def insist_def)
  next
    case False
    define k where "k = hd0 (L (i, j)) 0"
    have "k \<in> set (L (i, j))" using False by (cases "L (i, j)") (auto simp: k_def)
    then obtain s where "bmap True k0 bs k = Some s" using links_okD(3) [OF lk] by blast
    then have "4 \<le> k" "k \<le> n" using free_domD(1) [OF fd] by fastforce+
    then have "adr b k \<noteq> b" using adr_inj [OF ar, of k 0] by simp
    moreover have "sl_bitmap c ! i \<noteq> 0" using sl False by auto
    moreover have "fl_bitmap c AND 2 ^ i \<noteq> 0" using fl False ij(2) by blast
    ultimately show ?thesis
      using D(1-5) ij sl False by (simp add: check_class_def insist_def k_def)
  qed
  have "check_list c m (int i) (int j) (adr b (hd0 (L (i, j)) 0)) st = Some st"
    using links_okD(1,3) [OF lk] by (intro check_list_ok [OF inv D(1)]) blast+
  with red show ?thesis by simp
qed

lemma tlsf_check_ok:
  assumes inv: "tlsf_inv b n c m k0 bs"
  shows "tlsf_check c m = Some 0"
proof -
  have row: "check_row c m (int i) js st = Some st" if "i < 25" "set js \<subseteq> {..<32}" for i js st
    using that(2) by (induction js) (auto simp: check_class_ok [OF inv that(1)])
  have "set [0..<32] \<subseteq> {..<32::nat}" by auto
  note row' = row [OF _ this]
  have "check_rows c m is st = Some st" if "set is \<subseteq> {..<25}" for "is" st
    using that by (induction "is") (auto simp: row' simp del: upt.simps)
  then show ?thesis unfolding tlsf_check_def by (metis FL_INDEX_COUNT_def atLeast_upt set_eq_subset)
qed

lemma tlsf_check_pool_ok:
  assumes inv: "tlsf_inv b n c m 816 bs"
  shows "tlsf_check_pool m (tlsf_get_pool b) = Some 0"
proof -
  have "heap b n c m 816 bs (bmap True 816 bs)" using inv by (simp add: tlsf_inv_def)
  note D = heapD [OF this]
  show ?thesis
    using walk_integrity [OF D(1,5,3), of "\<lparr>prev_status = 0, status = 0\<rparr>"]
    by (simp add: tlsf_check_pool_def tlsf_walk_pool_ok [OF inv])
qed

end
