(* ===== verification/Kheap.thy ===== *)
theory Kheap
  imports Tlsf_Correct
begin

text \<open>
  The kernel's \<open>malloc\<close> family, src/clib/src/klib/malloc.c, as an implementation of an abstract
  allocator. The locale \<open>allocator\<close> states what a client relies on: which blocks are allocated, that a
  new block is fresh, and that nobody else's block changes. It is interpreted on \<open>malloc\<close> and \<open>free\<close>.
\<close>

section \<open>The allocator interface\<close>

text \<open>
  A client program allocates blocks, and releases blocks it holds by their position in the list of
  those it holds; a failed allocation adds nothing to the list.
\<close>

datatype client_op = Alloc u64 | Release nat

fun client_run ::
  "('s \<Rightarrow> u64 \<Rightarrow> ('s \<times> u64) option) \<Rightarrow> ('s \<Rightarrow> u64 \<Rightarrow> 's option) \<Rightarrow> client_op list \<Rightarrow>
   's \<Rightarrow> u64 list \<Rightarrow> ('s \<times> u64 list) option" where
  "client_run alloc release [] st held = Some (st, held)"
| "client_run alloc release (Alloc sz # ops) st held =
     do {
       (st, p) \<leftarrow> alloc st sz;
       client_run alloc release ops st (if p = 0 then held else p # held)
     }"
| "client_run alloc release (Release i # ops) st held =
     (if i < length held
      then do {
        st \<leftarrow> release st (held ! i);
        client_run alloc release ops st (take i held @ drop (Suc i) held)
      }
      else client_run alloc release ops st held)"

locale allocator =
  fixes ok :: "'s \<Rightarrow> bool" and owned :: "'s \<Rightarrow> u64 \<rightharpoonup> u64" and data :: "'s \<Rightarrow> u64 \<Rightarrow> u64 list"
    and alloc :: "'s \<Rightarrow> u64 \<Rightarrow> ('s \<times> u64) option" and release :: "'s \<Rightarrow> u64 \<Rightarrow> 's option"
  assumes null_free: "ok st \<Longrightarrow> owned st 0 = None"
    and alloc_total: "ok st \<Longrightarrow> \<exists>st' p. alloc st sz = Some (st', p)"
    and alloc_ok: "ok st \<Longrightarrow> alloc st sz = Some (st', p) \<Longrightarrow> ok st'"
    and alloc_null: "ok st \<Longrightarrow> alloc st sz = Some (st', 0) \<Longrightarrow> st' = st"
    and alloc_fresh: "ok st \<Longrightarrow> alloc st sz = Some (st', p) \<Longrightarrow> p \<noteq> 0 \<Longrightarrow>
      owned st p = None \<and> (\<exists>t. owned st' = (owned st)(p \<mapsto> t))"
    and alloc_data: "ok st \<Longrightarrow> alloc st sz = Some (st', p) \<Longrightarrow> q \<in> dom (owned st) \<Longrightarrow> data st' q = data st q"
    and release_total: "ok st \<Longrightarrow> p \<in> dom (owned st) \<Longrightarrow> \<exists>st'. release st p = Some st'"
    and release_ok: "ok st \<Longrightarrow> p \<in> dom (owned st) \<Longrightarrow> release st p = Some st' \<Longrightarrow> ok st'"
    and release_owned: "ok st \<Longrightarrow> p \<in> dom (owned st) \<Longrightarrow> release st p = Some st' \<Longrightarrow>
      owned st' = (owned st)(p := None)"
    and release_data: "ok st \<Longrightarrow> p \<in> dom (owned st) \<Longrightarrow> release st p = Some st' \<Longrightarrow>
      q \<in> dom (owned st) \<Longrightarrow> q \<noteq> p \<Longrightarrow> data st' q = data st q"
begin

text \<open>
  Whatever a client does with its own blocks, it never fails, and every block it does not hold
  stays allocated at its size with its contents.
\<close>

lemma client_run_isolated:
  assumes "ok st" and "distinct held" and "set held \<subseteq> dom (owned st)"
  shows "\<exists>st' held'. client_run alloc release ops st held = Some (st', held') \<and> ok st' \<and>
    distinct held' \<and> set held' \<subseteq> dom (owned st') \<and>
    (\<forall>q\<in>dom (owned st) - set held. owned st' q = owned st q \<and> data st' q = data st q)"
  using assms
proof (induction ops arbitrary: st held)
  case Nil
  then show ?case by simp
next
  case (Cons op ops)
  show ?case
  proof (cases op)
    case (Alloc sz)
    obtain st1 p where al: "alloc st sz = Some (st1, p)" using alloc_total Cons.prems(1) by blast
    define held1 where "held1 = (if p = 0 then held else p # held)"
    have ok1: "ok st1" using alloc_ok Cons.prems(1) al by blast
    have ow: "if p = 0 then owned st1 = owned st else owned st p = None \<and> (\<exists>t. owned st1 = (owned st)(p \<mapsto> t))"
      using alloc_null alloc_fresh Cons.prems(1) al by auto
    have "distinct held1" "set held1 \<subseteq> dom (owned st1)"
      using Cons.prems(2,3) ow by (auto simp: held1_def split: if_splits)
    from Cons.IH [OF ok1 this] obtain st' held' where
      r: "client_run alloc release ops st1 held1 = Some (st', held')" "ok st'" "distinct held'"
        "set held' \<subseteq> dom (owned st')"
        "\<forall>q\<in>dom (owned st1) - set held1. owned st' q = owned st1 q \<and> data st' q = data st1 q" by blast
    have "owned st' q = owned st q \<and> data st' q = data st q" if "q \<in> dom (owned st) - set held" for q
    proof -
      have "q \<in> dom (owned st1) - set held1" "owned st1 q = owned st q"
        using that ow by (auto simp: held1_def split: if_splits)
      moreover have "data st1 q = data st q" using alloc_data [OF Cons.prems(1) al] that by blast
      ultimately show ?thesis using r(5) by simp
    qed
    with r Alloc al show ?thesis by (auto simp: held1_def)
  next
    case (Release i)
    show ?thesis
    proof (cases "i < length held")
      case False
      with Release Cons show ?thesis by simp
    next
      case True
      define p where "p = held ! i"
      define held1 where "held1 = take i held @ drop (Suc i) held"
      have split: "held = take i held @ p # drop (Suc i) held" using True by (simp add: p_def id_take_nth_drop)
      have "p \<in> set held" using True by (simp add: p_def)
      then have p: "p \<in> dom (owned st)" using Cons.prems(3) by blast
      have h1: "distinct held1" "p \<notin> set held1" "set held = insert p (set held1)"
      proof -
        have "distinct (take i held @ p # drop (Suc i) held)" using split Cons.prems(2) by simp
        then show "distinct held1" "p \<notin> set held1" by (simp_all add: held1_def)
        have "set held = set (take i held @ p # drop (Suc i) held)" using split by simp
        then show "set held = insert p (set held1)" by (simp add: held1_def)
      qed
      obtain st1 where rl: "release st p = Some st1" using release_total Cons.prems(1) p by blast
      have ok1: "ok st1" and ow: "owned st1 = (owned st)(p := None)"
        using release_ok release_owned Cons.prems(1) p rl by blast+
      have "set held1 \<subseteq> dom (owned st1)" using h1 ow Cons.prems(3) by auto
      from Cons.IH [OF ok1 h1(1) this] obtain st' held' where
        r: "client_run alloc release ops st1 held1 = Some (st', held')" "ok st'" "distinct held'"
          "set held' \<subseteq> dom (owned st')"
          "\<forall>q\<in>dom (owned st1) - set held1. owned st' q = owned st1 q \<and> data st' q = data st1 q" by blast
      have "owned st' q = owned st q \<and> data st' q = data st q" if "q \<in> dom (owned st) - set held" for q
        using r(5) that h1 ow release_data [OF Cons.prems(1) p rl, of q] by auto
      with r Release rl True show ?thesis by (auto simp: held1_def p_def)
    qed
  qed
qed

end

section \<open>The allocated blocks\<close>

text \<open>
  The allocated and the free blocks and their sizes in bytes, read off the heap by the allocator's
  own pool walker, and the words of a block.
\<close>

definition state_blocks :: "bool \<Rightarrow> control_t \<Rightarrow> mem \<Rightarrow> u64 \<rightharpoonup> u64" where
  "state_blocks g c m =
     (case tlsf_walk_pool m (tlsf_get_pool (block_null c))
             (\<lambda>ptr sz used acc. if used = g then acc(ptr \<mapsto> sz) else acc) Map.empty of
        Some u \<Rightarrow> u | None \<Rightarrow> Map.empty)"

definition used_blocks :: "control_t \<Rightarrow> mem \<Rightarrow> u64 \<rightharpoonup> u64" where
  "used_blocks = state_blocks True"

definition free_blocks :: "control_t \<Rightarrow> mem \<Rightarrow> u64 \<rightharpoonup> u64" where
  "free_blocks = state_blocks False"

definition contents :: "mem \<Rightarrow> u64 \<Rightarrow> u64 \<Rightarrow> u64 list" where
  "contents m p t = map (\<lambda>j. m (p + 8 * of_nat j)) [0..<unat t div 8]"

text \<open>The map from word indices to sizes in words, as a map from addresses to sizes in bytes.\<close>

definition amap :: "u64 \<Rightarrow> (nat \<rightharpoonup> nat) \<Rightarrow> u64 \<rightharpoonup> u64" where
  "amap b B p =
     (let i = unat (p - b) div 8 - 2
      in if p = adr b (i + 2) then map_option (\<lambda>s. 8 * of_nat s) (B i) else None)"

lemma amap_adr:
  assumes "arena b n" and "i + 2 \<le> n"
  shows "amap b B (adr b (i + 2)) = map_option (\<lambda>s. 8 * of_nat s) (B i)"
proof -
  have "adr b (i + 2) - b = 8 * of_nat (i + 2)" by (simp add: adr_def)
  moreover have "i + 2 < 2 ^ 61" using assms by (simp add: arena_def)
  ultimately have "unat (adr b (i + 2) - b) = 8 * (i + 2)" by (simp only: unat_words)
  then show ?thesis by (simp add: amap_def)
qed

lemma amap_cases:
  assumes "amap b B p = Some t"
  obtains i s where "p = adr b (i + 2)" "B i = Some s" "t = 8 * of_nat s"
  using assms by (auto simp: amap_def Let_def split: if_splits)

lemma amap_upd:
  assumes "arena b n" and "k + 2 \<le> n"
  shows "amap b (B(k := v)) = (amap b B)(adr b (k + 2) := map_option (\<lambda>s. 8 * of_nat s) v)"
proof
  fix p
  define i where "i = unat (p - b) div 8 - 2"
  show "amap b (B(k := v)) p = ((amap b B)(adr b (k + 2) := map_option (\<lambda>s. 8 * of_nat s) v)) p"
  proof (cases "p = adr b (k + 2)")
    case True
    with amap_adr [OF assms] show ?thesis by simp
  next
    case False
    then show ?thesis by (auto simp: amap_def Let_def)
  qed
qed

lemma walk_state:
  assumes "arena b n" and "k + span bs + 1 < n" and "sizes_ok bs"
  shows "walk_list (\<lambda>ptr sz used acc. if used = g then acc(ptr \<mapsto> sz) else acc) b k bs U =
    U ++ amap b (bmap (\<not> g) k bs)"
  using assms(2,3)
proof (induction bs arbitrary: k U rule: span.induct)
  case 1
  have "amap b Map.empty = Map.empty" by (rule ext) (simp add: amap_def)
  then show ?case by simp
next
  case (2 s f bs)
  have kn: "k + 2 \<le> n" using "2.prems"(1) by simp
  let ?T = "bmap (\<not> g) (k + s + 1) bs"
  have T: "?T k = None" by (simp add: bmap_outside)
  then have nk: "amap b ?T (adr b (k + 2)) = None" using amap_adr [OF assms(1) kn] by simp
  have IH: "walk_list (\<lambda>ptr sz used acc. if used = g then acc(ptr \<mapsto> sz) else acc) b (k + s + 1) bs V = V ++ amap b ?T" for V
    using "2.IH" "2.prems" by simp
  show ?case
  proof (cases "f = g")
    case True
    then have "bmap (\<not> g) k ((s, f) # bs) = ?T" using T by (simp add: fun_upd_idem)
    with True IH show ?thesis by simp
  next
    case False
    then have "f = (\<not> g)" "((\<not> f) = g) = True" by auto
    then have "amap b (bmap (\<not> g) k ((s, f) # bs)) = (amap b ?T)(adr b (k + 2) \<mapsto> 8 * of_nat s)"
      using amap_upd [OF assms(1) kn] by simp
    moreover have "U(adr b (k + 2) \<mapsto> 8 * of_nat s) ++ amap b ?T = U ++ (amap b ?T)(adr b (k + 2) \<mapsto> 8 * of_nat s)"
      using nk by (intro ext) (simp add: map_add_def split: option.split)
    ultimately show ?thesis using \<open>((\<not> f) = g) = True\<close> by (simp only: walk_list.simps IH if_True)
  qed
qed

lemma state_blocks_inv:
  assumes inv: "tlsf_inv b n c m 816 bs" and "block_null c = b"
  shows "state_blocks g c m = amap b (bmap (\<not> g) 816 bs)"
proof -
  have hp: "heap b n c m 816 bs (bmap True 816 bs)" using inv by (simp add: tlsf_inv_def)
  note D = heapD [OF hp]
  show ?thesis
    using walk_state [OF D(1,3,4), of g Map.empty] assms(2)
    by (simp add: state_blocks_def tlsf_walk_pool_ok [OF inv])
qed

lemma used_blocks_inv:
  assumes "tlsf_inv b n c m 816 bs" and "block_null c = b"
  shows "used_blocks c m = amap b (bmap False 816 bs)"
  using state_blocks_inv [OF assms, of True] by (simp add: used_blocks_def)

lemma contents_keeps:
  assumes "arena b n" and "U k = Some s" and "keeps U (view b n m) (view b n m')"
    and "k + s + 1 < n" and "s < 2 ^ 29"
  shows "contents m' (adr b (k + 2)) (8 * of_nat s) = contents m (adr b (k + 2)) (8 * of_nat s)"
proof -
  have "m' (adr b (k + 2) + 8 * of_nat j) = m (adr b (k + 2) + 8 * of_nat j)" if "j < s" for j
  proof -
    have "adr b (k + 2) + 8 * of_nat j = adr b (k + 2 + j)" by (simp add: adr_def algebra_simps)
    moreover have "view b n m' (k + 2 + j) = view b n m (k + 2 + j)"
      using assms(2,3) that unfolding keeps_def by force
    ultimately show ?thesis using that assms(4) by (simp add: view_def)
  qed
  moreover have "unat (8 * of_nat s :: u64) = 8 * s" using assms(5) by (intro unat_words) simp
  ultimately show ?thesis by (simp add: contents_def)
qed

section \<open>Allocation and release of blocks\<close>

definition disjoint_blocks :: "u64 \<Rightarrow> u64 \<Rightarrow> u64 \<Rightarrow> u64 \<Rightarrow> bool" where
  "disjoint_blocks p t q u \<longleftrightarrow> unat p + unat t \<le> unat q \<or> unat q + unat u \<le> unat p"

lemma heap_okE:
  assumes "heap_ok c m"
  obtains n bs where "tlsf_inv (block_null c) n c m 816 bs" "arena (block_null c) n" "818 + span bs \<le> n"
    "sizes_ok bs" "used_blocks c m = amap (block_null c) (bmap False 816 bs)"
proof -
  obtain n bs where inv: "tlsf_inv (block_null c) n c m 816 bs" using assms unfolding heap_ok_def by blast
  then have "heap (block_null c) n c m 816 bs (bmap True 816 bs)" by (simp add: tlsf_inv_def)
  note D = heapD [OF this]
  have "818 + span bs \<le> n" using D(3) by simp
  then show thesis using that inv D(1,4) used_blocks_inv [OF inv refl] by blast
qed

lemma used_blocks_cases:
  assumes "heap_ok c m" and "used_blocks c m p = Some t"
  obtains n bs k s where "tlsf_inv (block_null c) n c m 816 bs" "arena (block_null c) n"
    "bmap False 816 bs k = Some s" "p = adr (block_null c) (k + 2)" "t = 8 * of_nat s"
    "816 \<le> k" "k + s + 2 \<le> n" "3 \<le> s" "s < 2 ^ 29"
proof -
  obtain n bs where h: "tlsf_inv (block_null c) n c m 816 bs" "arena (block_null c) n" "818 + span bs \<le> n"
    "sizes_ok bs" "used_blocks c m = amap (block_null c) (bmap False 816 bs)"
    using heap_okE [OF assms(1)] .
  obtain k s where k: "p = adr (block_null c) (k + 2)" "bmap False 816 bs k = Some s" "t = 8 * of_nat s"
    using amap_cases assms(2) h(5) by metis
  show thesis
    using that [OF h(1,2) k(2,1,3)] bmap_bounds [OF k(2)] bmap_size [OF k(2) h(4)] h(3) by simp
qed

lemma used_blocks_disjoint:
  assumes ok: "heap_ok c m" and "used_blocks c m p = Some t" and "used_blocks c m q = Some u" and "p \<noteq> q"
  shows "disjoint_blocks p t q u"
proof -
  obtain n bs where h: "tlsf_inv (block_null c) n c m 816 bs" "arena (block_null c) n" "818 + span bs \<le> n"
    "sizes_ok bs" "used_blocks c m = amap (block_null c) (bmap False 816 bs)"
    using heap_okE [OF ok] .
  obtain k s where k: "p = adr (block_null c) (k + 2)" "bmap False 816 bs k = Some s" "t = 8 * of_nat s"
    using amap_cases assms(2) h(5) by metis
  obtain k' s' where k': "q = adr (block_null c) (k' + 2)" "bmap False 816 bs k' = Some s'" "u = 8 * of_nat s'"
    using amap_cases assms(3) h(5) by metis
  have b: "k + 2 \<le> n" "k' + 2 \<le> n" using bmap_bounds [OF k(2)] bmap_bounds [OF k'(2)] h(3) by simp_all
  have "unat p = unat (block_null c) + 8 * (k + 2)" "unat q = unat (block_null c) + 8 * (k' + 2)"
    using unat_adr [OF h(2) b(1)] unat_adr [OF h(2) b(2)] k(1) k'(1) by simp_all
  moreover have "unat t = 8 * s" "unat u = 8 * s'"
    using bmap_size [OF k(2) h(4)] bmap_size [OF k'(2) h(4)] k(3) k'(3) unat_words by simp_all
  moreover have "k \<noteq> k'" using assms(4) k(1) k'(1) by auto
  ultimately show ?thesis
    using bmap_spaced [OF k(2) k'(2)] bmap_spaced [OF k'(2) k(2)]
    unfolding disjoint_blocks_def by (cases "k < k'") auto
qed

lemma malloc_spec:
  assumes ok: "heap_ok c m"
  obtains c' m' p where "tlsf_malloc c m sz = Some (c', m', p)" "heap_ok c' m'" "block_null c' = block_null c"
    "p = 0 \<Longrightarrow> c' = c \<and> m' = m"
    "p \<noteq> 0 \<Longrightarrow> used_blocks c m p = None \<and> (\<exists>t. used_blocks c' m' = (used_blocks c m)(p \<mapsto> t) \<and>
       (sz \<le> 0xfffffffffffffff8 \<longrightarrow> sz \<le> t)) \<and> 8 dvd unat p"
    "\<And>q u. used_blocks c m q = Some u \<Longrightarrow> contents m' q u = contents m q u"
proof -
  define b where "b = block_null c"
  obtain n bs where h: "tlsf_inv b n c m 816 bs" "arena b n" "818 + span bs \<le> n"
    "sizes_ok bs" "used_blocks c m = amap b (bmap False 816 bs)"
    using heap_okE [OF ok] unfolding b_def by blast
  from h(1) show thesis
  proof (cases rule: tlsf_malloc_ok [of _ _ _ _ _ _ sz])
    case none
    with that [of c m 0] ok show thesis by simp
  next
    case (found xs s ys r r' zs c' m')
    have nul: "block_null c' = b" using found(10) by (simp add: b_def)
    define k where "k = 816 + span xs"
    have bs': "bmap False 816 (xs @ (r', False) # zs @ ys) = (bmap False 816 bs)(k \<mapsto> r')"
    proof -
      have "bmap False 816 (xs @ (r', True) # zs @ ys) = bmap False 816 bs"
        using found(1,6) bmap_split_same [of True False True s r "s - r - 1" 816 xs ys]
        by (auto simp: cut_def split: if_splits)
      then show ?thesis
        using bmap_upd [of False 816 xs r' False "zs @ ys" True] by (simp add: k_def)
    qed
    have kn: "k + 2 \<le> n" using h(3) found(1) by (simp add: k_def)
    have "used_blocks c' m' = amap b (bmap False 816 (xs @ (r', False) # zs @ ys))"
      using used_blocks_inv [OF found(8)] nul by simp
    also have "\<dots> = (used_blocks c m)(adr b (k + 2) \<mapsto> 8 * of_nat r')"
      using amap_upd [OF h(2) kn] h(5) by (simp only: bs' option.map)
    finally have ub: "used_blocks c' m' = (used_blocks c m)(adr b (k + 2) \<mapsto> 8 * of_nat r')" .
    have fresh: "used_blocks c m (adr b (k + 2)) = None"
      using amap_adr [OF h(2) kn] h(5) found(1) by (simp add: k_def bmap_not_here)
    have "r \<le> r'" "r' < 2 ^ 29" using found(5,6) h(4) found(1) by (auto simp: cut_def split: if_splits)
    have big: "sz \<le> 8 * of_nat r'" if "sz \<le> 0xfffffffffffffff8"
    proof (cases rule: adjust_cases [of sz])
      case zero
      have "unat (8 * of_nat r :: u64) = 8 * r" using found(4) by (intro unat_words) simp
      then show ?thesis using zero(1) found(2,3) by (metis unat_0 mult_eq_0_iff not_numeral_le_zero zero_neq_numeral)
    next
      case (words q)
      have "unat (8 * of_nat r :: u64) = 8 * r" using found(4) by (intro unat_words) simp
      moreover have "unat (8 * of_nat q :: u64) = 8 * q" using words(3) by (intro unat_words) simp
      ultimately have "8 * r = 8 * q" using words(1) found(2) by (simp only:)
      moreover have r': "unat (8 * of_nat r' :: u64) = 8 * r'" using \<open>r' < _\<close> by (intro unat_words) simp
      moreover have "unat sz \<le> 8 * q" using words(4) that by (simp add: word_le_nat_alt)
      ultimately have "unat sz \<le> 8 * r'" using \<open>r \<le> r'\<close> by linarith
      then show ?thesis by (simp only: word_le_nat_alt r')
    qed
    have "8 dvd unat b" using h(2) by (simp add: arena_def)
    then obtain z where "unat b = 8 * z" by (rule dvdE)
    then have "unat (adr b (k + 2)) = 8 * (z + (k + 2))" using unat_adr [OF h(2) kn] by simp
    then have al: "8 dvd unat (adr b (k + 2))" by (rule dvdI)
    have ct: "contents m' q u = contents m q u" if q: "used_blocks c m q = Some u" for q u
    proof -
      have "amap b (bmap False 816 bs) q = Some u" using q h(5) by simp
      then obtain i v where i: "q = adr b (i + 2)" "bmap False 816 bs i = Some v" "u = 8 * of_nat v"
        by (rule amap_cases)
      have "i + v + 1 < n" "v < 2 ^ 29"
        using bmap_bounds [OF i(2)] bmap_size [OF i(2) h(4)] h(3) by simp_all
      then show ?thesis using contents_keeps [OF h(2) i(2) found(9)] i by simp
    qed
    have ok': "heap_ok c' m'" using found(8) nul unfolding heap_ok_def by blast
    have "adr b (816 + span xs + 2) \<noteq> 0" using adr_neq_0 [OF h(2)] kn by (simp add: k_def)
    moreover have "\<exists>t. used_blocks c' m' = (used_blocks c m)(adr b (k + 2) \<mapsto> t) \<and>
        (sz \<le> 0xfffffffffffffff8 \<longrightarrow> sz \<le> t)" using ub big by blast
    ultimately show thesis
      using that [OF found(7) ok' found(10) _ _ ct] fresh al by (simp add: k_def)
  qed
qed

lemma free_spec:
  assumes ok: "heap_ok c m" and p: "used_blocks c m p = Some t"
  obtains c' m' where "tlsf_free c m p = Some (c', m')" "heap_ok c' m'" "block_null c' = block_null c"
    "used_blocks c' m' = (used_blocks c m)(p := None)"
    "\<And>q u. used_blocks c m q = Some u \<Longrightarrow> q \<noteq> p \<Longrightarrow> contents m' q u = contents m q u"
proof -
  define b where "b = block_null c"
  obtain n bs where h: "tlsf_inv b n c m 816 bs" "arena b n" "818 + span bs \<le> n"
    "sizes_ok bs" "used_blocks c m = amap b (bmap False 816 bs)"
    using heap_okE [OF ok] unfolding b_def by blast
  have "amap b (bmap False 816 bs) p = Some t" using p h(5) by simp
  then obtain k s where k: "p = adr b (k + 2)" "bmap False 816 bs k = Some s" "t = 8 * of_nat s"
    by (rule amap_cases)
  obtain xs ys where bs: "bs = xs @ (s, False) # ys" and kx: "k = 816 + span xs" using bmap_split [OF k(2)] .
  have kn: "k + 2 \<le> n" using bmap_bounds [OF k(2)] h(3) by simp
  obtain xs1 s1 s2 zs where mg: "merge_left xs s = (xs1, s1)" "merge_right s1 ys = (s2, zs)" by fastforce
  obtain c' m' where fr: "tlsf_free c m (adr b (k + 2)) = Some (c', m')"
    "tlsf_inv b n c' m' 816 (xs1 @ (s2, True) # zs)"
    "bmap False 816 (xs1 @ (s2, True) # zs) = (bmap False 816 bs)(k := None)"
    "keeps ((bmap False 816 bs)(k := None)) (view b n m) (view b n m')" "block_null c' = block_null c"
    using tlsf_free_ok [OF _ kx mg] h(1) unfolding bs by metis
  have nul: "block_null c' = b" using fr(5) by (simp add: b_def)
  have ub: "used_blocks c' m' = (used_blocks c m)(p := None)"
    using used_blocks_inv [OF fr(2) nul] amap_upd [OF h(2) kn] h(5) fr(3) k(1) by simp
  have ct: "contents m' q u = contents m q u" if q: "used_blocks c m q = Some u" "q \<noteq> p" for q u
  proof -
    have "amap b (bmap False 816 bs) q = Some u" using q h(5) by simp
    then obtain i v where i: "q = adr b (i + 2)" "bmap False 816 bs i = Some v" "u = 8 * of_nat v"
      by (rule amap_cases)
    have "i + v + 1 < n" "v < 2 ^ 29"
      using bmap_bounds [OF i(2)] bmap_size [OF i(2) h(4)] h(3) by simp_all
    moreover have "((bmap False 816 bs)(k := None)) i = Some v" using i(1,2) q(2) k(1) by auto
    ultimately show ?thesis using contents_keeps [OF h(2) _ fr(4)] i by blast
  qed
  have "heap_ok c' m'" using fr(2) nul unfolding heap_ok_def by blast
  with that fr(1,5) ub ct k(1) show thesis by blast
qed

section \<open>The kernel's functions implement the interface\<close>

definition kheap_ok :: "kheap \<Rightarrow> bool" where
  "kheap_ok h = (case tlsf h of None \<Rightarrow> False | Some c \<Rightarrow> heap_ok c (kmem h))"

definition kowned :: "kheap \<Rightarrow> u64 \<rightharpoonup> u64" where
  "kowned h = (case tlsf h of None \<Rightarrow> Map.empty | Some c \<Rightarrow> used_blocks c (kmem h))"

definition kdata :: "kheap \<Rightarrow> u64 \<Rightarrow> u64 list" where
  "kdata h p = (case kowned h p of None \<Rightarrow> [] | Some t \<Rightarrow> contents (kmem h) p t)"

lemma kheap_okE:
  assumes "kheap_ok h"
  obtains c where "tlsf h = Some c" "heap_ok c (kmem h)" "kowned h = used_blocks c (kmem h)"
  using assms by (auto simp: kheap_ok_def kowned_def split: option.splits)

lemma kowned_null: "kheap_ok h \<Longrightarrow> kowned h 0 = None"
proof (rule ccontr)
  assume ok: "kheap_ok h" and "kowned h 0 \<noteq> None"
  then obtain c t where "heap_ok c (kmem h)" "used_blocks c (kmem h) 0 = Some t" by (elim kheap_okE) auto
  then obtain n k s where "arena (block_null c) n" "0 = adr (block_null c) (k + 2)" "k + s + 2 \<le> n"
    by (rule used_blocks_cases)
  with adr_neq_0 [of "block_null c" n "k + 2"] show False by simp
qed

lemma kmalloc_spec:
  assumes ok: "kheap_ok h"
  obtains h' p where "malloc h sz = Some (h', p)" "kheap_ok h'" "p = 0 \<Longrightarrow> h' = h"
    "p \<noteq> 0 \<Longrightarrow> kowned h p = None \<and> 8 dvd unat p \<and>
       (\<exists>t. kowned h' = (kowned h)(p \<mapsto> t) \<and> (sz \<le> 0xfffffffffffffff8 \<longrightarrow> sz \<le> t))"
    "\<And>q. q \<in> dom (kowned h) \<Longrightarrow> kdata h' q = kdata h q"
proof -
  obtain c where c: "tlsf h = Some c" "heap_ok c (kmem h)" "kowned h = used_blocks c (kmem h)"
    using kheap_okE [OF ok] .
  from c(2) obtain c' m' p where a: "tlsf_malloc c (kmem h) sz = Some (c', m', p)" "heap_ok c' m'"
    "p = 0 \<Longrightarrow> c' = c \<and> m' = kmem h"
    "p \<noteq> 0 \<Longrightarrow> used_blocks c (kmem h) p = None \<and> (\<exists>t. used_blocks c' m' = (used_blocks c (kmem h))(p \<mapsto> t) \<and>
       (sz \<le> 0xfffffffffffffff8 \<longrightarrow> sz \<le> t)) \<and> 8 dvd unat p"
    "\<And>q u. used_blocks c (kmem h) q = Some u \<Longrightarrow> contents m' q u = contents (kmem h) q u"
    by (rule malloc_spec [where sz = sz]) blast
  define h' where "h' = h\<lparr>tlsf := Some c', kmem := m'\<rparr>"
  have h': "kheap_ok h'" "kowned h' = used_blocks c' m'" "kmem h' = m'"
    using a(2) by (simp_all add: h'_def kheap_ok_def kowned_def)
  have "malloc h sz = Some (h', p)" using c(1) a(1) by (simp add: malloc_def h'_def)
  moreover have "h' = h" if "p = 0" using a(3) [OF that] c(1) by (simp add: h'_def)
  moreover have "kdata h' q = kdata h q" if q: "q \<in> dom (kowned h)" for q
  proof -
    obtain u where u: "kowned h q = Some u" using q by blast
    then have "kowned h' q = Some u"
      using a(3,4) c(3) h'(2) by (cases "p = 0") auto
    with u a(5) c(3) h'(3) show ?thesis by (simp add: kdata_def)
  qed
  ultimately show thesis using that h' a(4) c(3) by metis
qed

lemma kfree_spec:
  assumes ok: "kheap_ok h" and p: "p \<in> dom (kowned h)"
  obtains h' where "free h p = Some h'" "kheap_ok h'" "kowned h' = (kowned h)(p := None)"
    "\<And>q. q \<in> dom (kowned h) \<Longrightarrow> q \<noteq> p \<Longrightarrow> kdata h' q = kdata h q"
proof -
  obtain c where c: "tlsf h = Some c" "heap_ok c (kmem h)" "kowned h = used_blocks c (kmem h)"
    using kheap_okE [OF ok] .
  obtain t where "used_blocks c (kmem h) p = Some t" using p c(3) by auto
  from c(2) this obtain c' m' where a: "tlsf_free c (kmem h) p = Some (c', m')" "heap_ok c' m'"
    "used_blocks c' m' = (used_blocks c (kmem h))(p := None)"
    "\<And>q u. used_blocks c (kmem h) q = Some u \<Longrightarrow> q \<noteq> p \<Longrightarrow> contents m' q u = contents (kmem h) q u"
    by (rule free_spec) blast
  define h' where "h' = h\<lparr>tlsf := Some c', kmem := m'\<rparr>"
  have h': "kheap_ok h'" "kowned h' = used_blocks c' m'" "kmem h' = m'"
    using a(2) by (simp_all add: h'_def kheap_ok_def kowned_def)
  have "free h p = Some h'" using c(1) a(1) by (simp add: free_def h'_def)
  moreover have "kdata h' q = kdata h q" if "q \<in> dom (kowned h)" "q \<noteq> p" for q
    using that a(3,4) c(3) h'(2,3) by (auto simp: kdata_def)
  ultimately show thesis using that h' a(3) c(3) by metis
qed

interpretation kalloc: allocator kheap_ok kowned kdata malloc free
proof
  fix st :: kheap and sz st' p
  assume ok: "kheap_ok st"
  show "kowned st 0 = None" using kowned_null ok .
  show "\<exists>st' p. malloc st sz = Some (st', p)" using kmalloc_spec [OF ok] by metis
  show "kheap_ok st'" if "malloc st sz = Some (st', p)"
    using kmalloc_spec [OF ok, of sz] that by (metis option.inject prod.inject)
  show "st' = st" if "malloc st sz = Some (st', 0)"
    using kmalloc_spec [OF ok, of sz] that by (metis option.inject prod.inject)
  show "kowned st p = None \<and> (\<exists>t. kowned st' = (kowned st)(p \<mapsto> t))"
    if "malloc st sz = Some (st', p)" "p \<noteq> 0"
    using kmalloc_spec [OF ok, of sz] that by (metis option.inject prod.inject)
  show "kdata st' q = kdata st q" if "malloc st sz = Some (st', p)" "q \<in> dom (kowned st)" for q
    using kmalloc_spec [OF ok, of sz] that by (metis option.inject prod.inject)
  assume p: "p \<in> dom (kowned st)"
  show "\<exists>st'. free st p = Some st'" using kfree_spec [OF ok p] by metis
  show "kheap_ok st'" if "free st p = Some st'"
    using kfree_spec [OF ok p] that by (metis option.inject)
  show "kowned st' = (kowned st)(p := None)" if "free st p = Some st'"
    using kfree_spec [OF ok p] that by (metis option.inject)
  show "kdata st' q = kdata st q" if "free st p = Some st'" "q \<in> dom (kowned st)" "q \<noteq> p" for q
    using kfree_spec [OF ok p] that by (metis option.inject)
qed

lemma kheap_disjoint:
  assumes "kheap_ok h" and "kowned h p = Some t" and "kowned h q = Some u" and "p \<noteq> q"
  shows "disjoint_blocks p t q u"
  using assms by (elim kheap_okE) (auto intro: used_blocks_disjoint)

lemma init_heap_spec:
  assumes "heap_range start sz"
  obtains h' c' where "init_heap h c start sz = Some h'" "kheap_ok h'" "kowned h' = Map.empty"
    "tlsf h' = Some c'" "tlsf_inv start (heap_words sz + 819) c' (kmem h') 816 [(heap_words sz, True)]"
proof -
  obtain c' m' where cr: "tlsf_create_with_pool c (kmem h) start sz = Some (c', m', start)"
    "tlsf_inv start (heap_words sz + 819) c' m' 816 [(heap_words sz, True)]" "block_null c' = start"
    using tlsf_create_with_pool_ok [OF assms] .
  have "start \<noteq> 0" using assms by (simp add: heap_range_def)
  define h' where "h' = h\<lparr>tlsf := Some c', kmem := m'\<rparr>"
  have "amap start (bmap False 816 [(heap_words sz, True)]) = Map.empty"
    by (rule ext) (simp add: amap_def Let_def)
  then have "used_blocks c' m' = Map.empty" using used_blocks_inv [OF cr(2,3)] by simp
  moreover have "heap_ok c' m'" using cr(2,3) unfolding heap_ok_def by blast
  ultimately have "kheap_ok h'" "kowned h' = Map.empty" by (simp_all add: h'_def kheap_ok_def kowned_def)
  with that [of h' c'] cr \<open>start \<noteq> 0\<close> show thesis by (simp add: init_heap_def h'_def)
qed

text \<open>A concrete heap for the witnesses: 64 KiB at \<open>0x80400000\<close>, memory initially zero.\<close>

definition demo_range :: "u64 \<times> u64" where
  "demo_range = (0x80400000, 0x10000)"

definition demo_heap :: kheap where
  "demo_heap = the (init_heap \<lparr>tlsf = None, kmem = (\<lambda>_. 0)\<rparr>
     \<lparr>block_null = 0, fl_bitmap = 0, sl_bitmap = [], blocks = []\<rparr> (fst demo_range) (snd demo_range))"

lemma demo_in_range: "heap_range (fst demo_range) (snd demo_range)"
  by (simp add: heap_range_def demo_range_def)

lemma demo_heap_ok: "kheap_ok demo_heap" "kowned demo_heap = Map.empty"
  using init_heap_spec [OF demo_in_range] unfolding demo_heap_def by (metis option.sel)+

text \<open>A request fails only when no free block exceeds it by more than a thirty-second part.\<close>

lemma kmalloc_full:
  assumes ok: "kheap_ok h" and c: "tlsf h = Some c" and f: "malloc h sz = Some (h', 0)"
    and sz: "sz \<noteq> 0" "unat sz \<le> 2 ^ 32 - 8" and q: "free_blocks c (kmem h) q = Some u"
  shows "32 * unat u < 33 * unat (adjust_request_size sz ALIGN_SIZE) + 32"
proof -
  have "heap_ok c (kmem h)" using ok c by (simp add: kheap_ok_def)
  then obtain n bs where i: "tlsf_inv (block_null c) n c (kmem h) 816 bs" "arena (block_null c) n"
    "818 + span bs \<le> n" "sizes_ok bs" by (rule heap_okE)
  have "amap (block_null c) (bmap True 816 bs) q = Some u"
    using q state_blocks_inv [OF i(1) refl, of False] by (simp add: free_blocks_def)
  then obtain k s where k: "bmap True 816 bs k = Some s" "u = 8 * of_nat s" by (rule amap_cases)
  from i(1) show ?thesis
  proof (cases rule: tlsf_malloc_ok [where sz = sz])
    case (found xs s' ys r r' zs c' m')
    have "816 + span xs + 2 \<le> n" using i(3) found(1) by simp
    then have "adr (block_null c) (816 + span xs + 2) \<noteq> 0" by (rule adr_neq_0 [OF i(2)])
    with found(7) f c show ?thesis by (simp add: malloc_def)
  next
    case none
    have "adjust_request_size sz ALIGN_SIZE \<noteq> 0"
    proof (cases rule: adjust_cases [of sz])
      case zero
      with sz show ?thesis by simp
    next
      case (words r)
      then have "unat (adjust_request_size sz ALIGN_SIZE) = 8 * r" by (simp only: words(1)) (simp add: unat_words)
      with words(2) show ?thesis by (metis mult_eq_0_iff not_numeral_le_zero unat_0 zero_neq_numeral)
    qed
    with none(2) obtain r where r: "adjust_request_size sz ALIGN_SIZE = 8 * of_nat r" "r < 2 ^ 29"
      "\<forall>k s. bmap True 816 bs k = Some s \<longrightarrow> 32 * s < 33 * r + 4" by blast
    have "unat (8 * of_nat r :: u64) = 8 * r" using r(2) by (intro unat_words) simp
    moreover have "unat u = 8 * s" using k bmap_size [OF k(1) i(4)] by (simp add: unat_words)
    ultimately show ?thesis using r(3) k(1) unfolding r(1) by fastforce
  qed
qed

lemma kmalloc_kfree:
  assumes ok: "kheap_ok h" and c: "tlsf h = Some c" and al: "malloc h sz = Some (h1, p)" "p \<noteq> 0"
  obtains h2 c2 where "free h1 p = Some h2" "kheap_ok h2" "tlsf h2 = Some c2"
    "state_blocks g c2 (kmem h2) = state_blocks g c (kmem h)"
proof -
  define b where "b = block_null c"
  have "heap_ok c (kmem h)" using ok c by (simp add: kheap_ok_def)
  then obtain n bs where i: "tlsf_inv b n c (kmem h) 816 bs" "arena b n" unfolding b_def by (rule heap_okE)
  from i(1) show thesis
  proof (cases rule: tlsf_malloc_ok [where sz = sz])
    case none
    with al c show thesis by (simp add: malloc_def)
  next
    case (found xs s ys r r' zs c1 m1)
    have h1: "h1 = h\<lparr>tlsf := Some c1, kmem := m1\<rparr>" and p: "p = adr b (816 + span xs + 2)"
      using al(1) c found(7) by (simp_all add: malloc_def)
    have na: "no_adj False bs" using i(1) by (simp add: tlsf_inv_def)
    have lf: "merge_left xs r' = (xs, r')"
      using na found(1) by (cases rule: merge_left_cases [of xs r']) auto
    have rt: "merge_right r' (zs @ ys) = (s, ys)"
    proof (cases "r + 4 \<le> s")
      case True
      then show ?thesis using found(6) by (auto simp: cut_def merge_right_def)
    next
      case False
      then have e: "zs = []" "r' = s" using found(6) by (auto simp: cut_def)
      have "no_adj True ys" using na found(1) by simp
      then show ?thesis
        using e by (cases rule: merge_right_cases [of ys s]) auto
    qed
    obtain c2 m2 where fr: "tlsf_free c1 m1 p = Some (c2, m2)" "tlsf_inv b n c2 m2 816 bs"
      "block_null c2 = block_null c1"
      using tlsf_free_ok [OF found(8) refl lf rt] found(1) p by metis
    have nul: "block_null c2 = b" using fr(3) found(10) by (simp add: b_def)
    define h2 where "h2 = h1\<lparr>tlsf := Some c2, kmem := m2\<rparr>"
    have "free h1 p = Some h2" using fr(1) by (simp add: free_def h1 h2_def)
    moreover have "kheap_ok h2" using fr(2) nul by (auto simp: kheap_ok_def h2_def heap_ok_def)
    moreover have "state_blocks g c2 m2 = state_blocks g c (kmem h)"
      using state_blocks_inv [OF fr(2) nul] state_blocks_inv [OF i(1)] by (simp add: b_def)
    ultimately show thesis using that by (simp add: h2_def)
  qed
qed

lemma demo_words: "heap_words (snd demo_range) = 7373"
  by (simp add: heap_words_def demo_range_def)

lemma demo_layout:
  obtains c where "tlsf demo_heap = Some c" "block_null c = fst demo_range" "arena (fst demo_range) 8192"
    "tlsf_inv (fst demo_range) 8192 c (kmem demo_heap) 816 [(7373, True)]"
proof -
  let ?h = "\<lparr>tlsf = None, kmem = (\<lambda>_. 0)\<rparr> :: kheap"
    and ?c = "\<lparr>block_null = 0, fl_bitmap = 0, sl_bitmap = [], blocks = []\<rparr> :: control_t"
  obtain h' c where c: "init_heap ?h ?c (fst demo_range) (snd demo_range) = Some h'" "tlsf h' = Some c"
    "tlsf_inv (fst demo_range) (heap_words (snd demo_range) + 819) c (kmem h') 816 [(heap_words (snd demo_range), True)]"
    by (rule init_heap_spec [OF demo_in_range])
  have h': "demo_heap = h'" using c(1) by (simp add: demo_heap_def)
  have inv: "tlsf_inv (fst demo_range) 8192 c (kmem demo_heap) 816 [(7373, True)]"
    using c(3) by (simp add: demo_words h')
  then have "lists (fst demo_range) 8192 c (view (fst demo_range) 8192 (kmem demo_heap)) (bmap True 816 [(7373, True)])"
    and ar: "arena (fst demo_range) 8192"
    unfolding tlsf_inv_def heap_def by blast+
  then have "block_null c = fst demo_range" unfolding lists_def ctl_ok_def by blast
  with that inv ar c(2) h' show thesis by blast
qed

lemma demo_free: "tlsf demo_heap = Some c \<Longrightarrow> free_blocks c (kmem demo_heap) (adr (fst demo_range) 818) = Some 58984"
proof -
  assume "tlsf demo_heap = Some c"
  then have c: "block_null c = fst demo_range" "arena (fst demo_range) 8192"
    "tlsf_inv (fst demo_range) 8192 c (kmem demo_heap) 816 [(7373, True)]"
    by (metis demo_layout option.inject)+
  show ?thesis
    using state_blocks_inv [OF c(3,1), of False] amap_adr [OF c(2), of 816] by (simp add: free_blocks_def)
qed

lemma demo_malloc: obtains h p t where "malloc demo_heap 100 = Some (h, p)" "p \<noteq> 0" "kheap_ok h" "kowned h p = Some t"
proof -
  obtain h p where a: "malloc demo_heap 100 = Some (h, p)" "kheap_ok h"
    "p \<noteq> 0 \<Longrightarrow> kowned demo_heap p = None \<and> 8 dvd unat p \<and>
       (\<exists>t. kowned h = (kowned demo_heap)(p \<mapsto> t) \<and> (100 \<le> (0xfffffffffffffff8 :: u64) \<longrightarrow> 100 \<le> t))"
    by (rule kmalloc_spec [OF demo_heap_ok(1), where sz = 100]) blast
  obtain c where c: "tlsf demo_heap = Some c" by (rule demo_layout)
  have "p \<noteq> 0"
  proof
    assume "p = 0"
    have "adjust_request_size 100 ALIGN_SIZE = 104" by code_simp
    with kmalloc_full [OF demo_heap_ok(1) c _ _ _ demo_free [OF c], where sz = 100 and h' = h] a(1) \<open>p = 0\<close>
    show False by simp
  qed
  with a that show thesis by auto
qed

lemma demo_malloc_fails: "malloc demo_heap 0x100000 = Some (demo_heap, 0)"
proof -
  obtain c where c: "tlsf demo_heap = Some c" "tlsf_inv (fst demo_range) 8192 c (kmem demo_heap) 816 [(7373, True)]"
    by (rule demo_layout)
  from c(2) show ?thesis
  proof (cases rule: tlsf_malloc_ok [where sz = "0x100000"])
    case (found xs s ys r r' zs c' m')
    have "adjust_request_size 0x100000 ALIGN_SIZE = 0x100000" by code_simp
    then have "(8 * of_nat r :: u64) = 0x100000" using found(2) by simp
    moreover have "unat (8 * of_nat r :: u64) = 8 * r" using found(4) by (intro unat_words) simp
    ultimately have "8 * r = 0x100000" by simp
    moreover have "s = 7373" using found(1) by (cases xs) auto
    ultimately show ?thesis using found(5) by simp
  next
    case none
    then show ?thesis using c(1) by (simp add: malloc_def)
  qed
qed

section \<open>A pool of the maximal block size\<close>

lemma bit_max: "bit (0x100000000 :: u64) n \<longleftrightarrow> n = 32"
proof -
  have "bit (2 ^ 32 :: u64) n \<longleftrightarrow> n = 32" by (simp only: bit_exp_iff) auto
  then show ?thesis by simp
qed
lemma size_bits: "(((0x100000000 OR (x AND mask 2)) OR 2 ^ 0) AND NOT (2 ^ 1)) AND NOT (mask 2) = (0x100000000 :: u64)"
  by (rule bit_word_eqI) (auto simp only: bit_and_iff bit_or_iff bit_not_iff bit_mask_iff bit_exp_iff bit_max possible_bit_word)

lemma mapping_insert_max: "mapping_insert 0x100000000 = (25, 0)"
  by code_simp

lemma add_pool_max:
  assumes "align_down (bytes - 16) 8 = 0x100000000" "8 dvd unat q" "length (blocks c) = 25"
  shows "tlsf_add_pool c m q bytes = None"
proof -
  define b where "b = offset_to_block q (- 8)"
  define m' where "m' = block_set_prev_used (block_set_free (block_set_size m b 0x100000000) b) b"
  have "(1 OR 2 :: u64) = mask 2" by (simp add: mask_eq_exp_minus_1)
  then have "block_size m' b = 0x100000000"
    by (simp only: m'_def block_set_prev_used_def block_set_free_def block_set_size_def block_size_def Let_def fun_upd_same
        block_header_free_bit_def block_header_prev_free_bit_def size_bits [unfolded power_0 power_one_right])
  then have "block_insert c m' b = None"
    using assms(3) by (simp add: block_insert_def mapping_insert_max insert_free_block_def index_def)
  then show ?thesis
    using assms(1,2) by (simp add: tlsf_add_pool_def Let_def sint_mod_8 b_def m'_def tlsf_pool_overhead_def)
qed

section \<open>Properties\<close>

text \<open>
  C6: \<open>init_heap\<close> on an aligned range of at least 6576 and fewer than \<open>2 ^ 32 + 6552\<close> bytes, that is with
  a pool below the maximal block size, establishes the heap invariant, with no block allocated.
\<close>

theorem init_heap_establishes:
  assumes "heap_range start sz"
  shows "\<exists>h'. init_heap h c start sz = Some h' \<and> kheap_ok h' \<and> kowned h' = Map.empty"
  using init_heap_spec [OF assms] by metis

theorem init_heap_establishes_witness:
  "heap_range (fst demo_range) (snd demo_range) \<and>
   (\<exists>h'. init_heap \<lparr>tlsf = None, kmem = (\<lambda>_. 0)\<rparr>
      \<lparr>block_null = 0, fl_bitmap = 0, sl_bitmap = [], blocks = []\<rparr> (fst demo_range) (snd demo_range) = Some h' \<and>
    kheap_ok h' \<and> kowned h' = Map.empty)"
  using demo_in_range init_heap_establishes [OF demo_in_range] by blast

text \<open>
  C27: a pool whose usable size is exactly the maximal block size of 4 GiB passes the size check of
  \<open>tlsf_add_pool\<close>, which refuses larger ones only, but its class is one past the last row of the table of free
  lists. For each of the eight sizes of the kernel heap that give such a pool, at every aligned address and in every
  memory, \<open>init_heap\<close> accesses the control structure outside its bounds.
\<close>

theorem init_heap_overflows:
  assumes "8 dvd unat start" "2 ^ 32 + 6552 \<le> unat sz" "unat sz < 2 ^ 32 + 6560"
  shows "init_heap h c start sz = None"
proof -
  have "8 dvd unat (start + 6536)" using assms(1) by (simp add: unat_word_ariths dvd_mod dvd_add)
  moreover have "align_down (sz - 6536 - 16) 8 = 0x100000000"
  proof -
    define x where "x = sz - 6552"
    have "unat x = unat sz - 6552" unfolding x_def using assms(2) by (subst unat_sub) (simp_all add: word_le_nat_alt)
    then have "unat x div 8 = 2 ^ 29" using assms(2,3) by (intro div_nat_eqI) simp_all
    moreover have "sz - 6536 - 16 = x" by (simp add: x_def)
    ultimately show ?thesis by (simp only: align_down_words) simp
  qed
  moreover have "sint start mod 8 = 0" using assms(1) by (simp add: sint_mod_8)
  ultimately show ?thesis
    by (simp add: init_heap_def tlsf_create_with_pool_def tlsf_create_def control_construct_def tlsf_size_def Let_def
        add_pool_max FL_INDEX_COUNT_def)
qed

theorem init_heap_overflows_witness:
  "init_heap \<lparr>tlsf = None, kmem = (\<lambda>_. 0)\<rparr> \<lparr>block_null = 0, fl_bitmap = 0, sl_bitmap = [], blocks = []\<rparr> 0x80400000 0x100001998 = None"
  using init_heap_overflows [of "0x80400000" "0x100001998"] by simp

text \<open>
  C1: \<open>malloc\<close> refines abstract allocation. On a heap that satisfies the invariant it returns, keeps
  the invariant, and either returns the null pointer and changes nothing, or returns an aligned
  block that was not allocated before, is at least as long as requested (sizes above \<open>2 ^ 64 - 8\<close>
  apart), and overlaps no other allocated block. The contents of all blocks are kept.
\<close>

theorem malloc_refines:
  assumes "kheap_ok h"
  shows "\<exists>h' p. malloc h sz = Some (h', p) \<and> kheap_ok h' \<and> (p = 0 \<longrightarrow> h' = h) \<and>
    (p \<noteq> 0 \<longrightarrow> kowned h p = None \<and> 8 dvd unat p \<and>
      (\<exists>t. kowned h' = (kowned h)(p \<mapsto> t) \<and> (sz \<le> 0xfffffffffffffff8 \<longrightarrow> sz \<le> t) \<and>
           (\<forall>q u. kowned h q = Some u \<longrightarrow> disjoint_blocks p t q u))) \<and>
    (\<forall>q\<in>dom (kowned h). kdata h' q = kdata h q)"
proof -
  obtain h' p where m: "malloc h sz = Some (h', p)" "kheap_ok h'" "p = 0 \<Longrightarrow> h' = h"
    "p \<noteq> 0 \<Longrightarrow> kowned h p = None \<and> 8 dvd unat p \<and>
       (\<exists>t. kowned h' = (kowned h)(p \<mapsto> t) \<and> (sz \<le> 0xfffffffffffffff8 \<longrightarrow> sz \<le> t))"
    "\<And>q. q \<in> dom (kowned h) \<Longrightarrow> kdata h' q = kdata h q"
    using kmalloc_spec [OF assms, where sz = sz] by blast
  have "disjoint_blocks p t q u"
    if "kowned h p = None" "kowned h' = (kowned h)(p \<mapsto> t)" "kowned h q = Some u" for q u t
    using that by (intro kheap_disjoint [OF m(2)]) auto
  with m show ?thesis by metis
qed

theorem malloc_refines_witness:
  "kheap_ok demo_heap \<and> (\<exists>h' p. malloc demo_heap 100 = Some (h', p) \<and> kheap_ok h')"
  using demo_heap_ok(1) malloc_refines [OF demo_heap_ok(1), of 100] by blast

text \<open>
  C2: \<open>free\<close> refines abstract release. Releasing an allocated block returns, keeps the invariant,
  removes exactly this block, and keeps the contents of all others.
\<close>

theorem free_refines:
  assumes "kheap_ok h" and "kowned h p = Some t"
  shows "\<exists>h'. free h p = Some h' \<and> kheap_ok h' \<and> kowned h' = (kowned h)(p := None) \<and>
    (\<forall>q\<in>dom (kowned h) - {p}. kdata h' q = kdata h q)"
  using kfree_spec [OF assms(1), of p] assms(2) by (metis DiffE domI singletonI)

text \<open>
  C3: Isolation of the heap's clients. A client that allocates and releases blocks in any order, and
  releases only blocks it holds, never runs into undefined behaviour; every block it does not hold
  stays allocated at its size with its contents.
\<close>

theorem heap_clients_isolated:
  assumes "kheap_ok h" and "distinct held" and "set held \<subseteq> dom (kowned h)"
  shows "\<exists>h' held'. client_run malloc free ops h held = Some (h', held') \<and> kheap_ok h' \<and>
    distinct held' \<and> set held' \<subseteq> dom (kowned h') \<and>
    (\<forall>q\<in>dom (kowned h) - set held. kowned h' q = kowned h q \<and> kdata h' q = kdata h q)"
  using assms by (rule kalloc.client_run_isolated)

theorem heap_clients_isolated_witness:
  "kheap_ok demo_heap \<and>
   (\<exists>h' held'. client_run malloc free [Alloc 100, Alloc 2000, Release 1, Alloc 40] demo_heap [] = Some (h', held') \<and>
      kheap_ok h' \<and> distinct held' \<and> set held' \<subseteq> dom (kowned h'))"
  using demo_heap_ok(1)
    heap_clients_isolated [OF demo_heap_ok(1), of "[]" "[Alloc 100, Alloc 2000, Release 1, Alloc 40]"] by auto

text \<open>
  C7: The allocator's own integrity checks, \<open>tlsf_check\<close> of the free lists and bitmaps and
  \<open>tlsf_check_pool\<close> of the block headers, terminate and report no violation in every state that
  satisfies the invariant.
\<close>

theorem integrity_checks_pass:
  assumes "kheap_ok h" and "tlsf h = Some c"
  shows "tlsf_check c (kmem h) = Some 0 \<and> tlsf_check_pool (kmem h) (tlsf_get_pool (block_null c)) = Some 0"
proof -
  have "heap_ok c (kmem h)" using assms by (simp add: kheap_ok_def)
  then obtain n bs where "tlsf_inv (block_null c) n c (kmem h) 816 bs" unfolding heap_ok_def by blast
  then show ?thesis using tlsf_check_ok tlsf_check_pool_ok by blast
qed

theorem integrity_checks_pass_witness:
  "\<exists>c. tlsf demo_heap = Some c \<and> tlsf_check c (kmem demo_heap) = Some 0"
  using demo_heap_ok(1) integrity_checks_pass [OF demo_heap_ok(1)] by (metis kheap_okE)

theorem free_refines_witness:
  "\<exists>h p t. malloc demo_heap 100 = Some (h, p) \<and> kowned h p = Some t \<and>
     (\<exists>h'. free h p = Some h' \<and> kheap_ok h' \<and> kowned h' = (kowned h)(p := None))"
proof -
  obtain h p t where "malloc demo_heap 100 = Some (h, p)" "kheap_ok h" "kowned h p = Some t"
    by (rule demo_malloc)
  with free_refines [of h p t] show ?thesis by blast
qed

text \<open>
  C4: Allocation fails only when memory is short. When \<open>malloc\<close> returns the null pointer for a request
  between 1 byte and \<open>2 ^ 32 - 8\<close> bytes, every free block is smaller than the rounded request plus a
  thirty-second of it.
\<close>

theorem malloc_fails_only_when_full:
  assumes "kheap_ok h" and "tlsf h = Some c" and "malloc h sz = Some (h', 0)" and "sz \<noteq> 0"
    and "sz \<le> 0xfffffff8" and "free_blocks c (kmem h) q = Some u"
  shows "32 * unat u < 33 * unat (adjust_request_size sz ALIGN_SIZE) + 32"
  using assms by (intro kmalloc_full [OF assms(1-4)]) (simp_all add: word_le_nat_alt)

theorem malloc_fails_only_when_full_witness:
  "\<exists>c. tlsf demo_heap = Some c \<and> malloc demo_heap 0x100000 = Some (demo_heap, 0) \<and>
     free_blocks c (kmem demo_heap) (adr (fst demo_range) 818) = Some 58984 \<and>
     32 * unat (58984 :: u64) < 33 * unat (adjust_request_size 0x100000 ALIGN_SIZE) + 32"
proof -
  obtain c where c: "tlsf demo_heap = Some c" by (rule demo_layout)
  show ?thesis
    using malloc_fails_only_when_full [OF demo_heap_ok(1) c demo_malloc_fails _ _ demo_free [OF c]]
      c demo_malloc_fails demo_free [OF c] by simp
qed

text \<open>
  C5: Releasing the block just allocated restores the heap: the same blocks are allocated and the
  same blocks are free as before the allocation, the split block having coalesced again.
\<close>

theorem malloc_free_roundtrip:
  assumes "kheap_ok h" and "tlsf h = Some c" and "malloc h sz = Some (h1, p)" and "p \<noteq> 0"
  shows "\<exists>h2 c2. free h1 p = Some h2 \<and> kheap_ok h2 \<and> tlsf h2 = Some c2 \<and>
    used_blocks c2 (kmem h2) = used_blocks c (kmem h) \<and> free_blocks c2 (kmem h2) = free_blocks c (kmem h)"
proof -
  obtain h2 c2 where r: "free h1 p = Some h2" "kheap_ok h2" "tlsf h2 = Some c2"
    "state_blocks True c2 (kmem h2) = state_blocks True c (kmem h)"
    by (rule kmalloc_kfree [OF assms, where g = True])
  obtain h3 c3 where "free h1 p = Some h3" "tlsf h3 = Some c3"
    "state_blocks False c3 (kmem h3) = state_blocks False c (kmem h)"
    by (rule kmalloc_kfree [OF assms, where g = False])
  with r show ?thesis by (auto simp: used_blocks_def free_blocks_def)
qed

theorem malloc_free_roundtrip_witness:
  "\<exists>h1 p h2. malloc demo_heap 100 = Some (h1, p) \<and> p \<noteq> 0 \<and> free h1 p = Some h2 \<and> kheap_ok h2"
proof -
  obtain h1 p where "malloc demo_heap 100 = Some (h1, p)" "p \<noteq> 0" by (rule demo_malloc)
  moreover obtain c where "tlsf demo_heap = Some c" by (rule kheap_okE [OF demo_heap_ok(1)])
  ultimately show ?thesis using malloc_free_roundtrip [OF demo_heap_ok(1)] by blast
qed

end
