(* ===== verification/Ext4_Types.thy ===== *)
theory Ext4_Types
  imports KPrelude
begin

text \<open>
  On-disk structures of lwext4 (\<open>ext4_types.h\<close>) and the macros that read and write them
  (\<open>ext4_misc.h\<close>). A structure in memory or in a block is a byte image, and a packed C structure is
  its layout: the fields in declaration order with their sizes in bytes. A field is read and written
  at its offset, little endian for the file system and big endian for the journal.
\<close>

section \<open>Byte images\<close>

type_synonym image = "u8 list"
type_synonym layout = "(string \<times> nat) list"

named_theorems layout \<open>offsets of the fields of the on-disk structures\<close>
named_theorems field \<open>reading a field after a write\<close>

fun le_word :: "u8 list \<Rightarrow> 'a::len word" where
  "le_word [] = 0"
| "le_word (b # bs) = ucast b OR push_bit 8 (le_word bs)"

fun le_bytes :: "nat \<Rightarrow> 'a::len word \<Rightarrow> u8 list" where
  "le_bytes 0 w = []"
| "le_bytes (Suc n) w = ucast w # le_bytes n (drop_bit 8 w)"

fun store :: "image \<Rightarrow> nat \<Rightarrow> u8 list \<Rightarrow> image" where
  "store s off [] = s"
| "store s off (b # bs) = store (s[off := b]) (Suc off) bs"

definition load :: "image \<Rightarrow> nat \<Rightarrow> nat \<Rightarrow> u8 list" where
  "load s off n = map (\<lambda>i. s ! (off + i)) [0..<n]"

definition ld16 :: "image \<Rightarrow> nat \<Rightarrow> u16" where
  "ld16 s off = le_word (load s off 2)"

definition ld32 :: "image \<Rightarrow> nat \<Rightarrow> u32" where
  "ld32 s off = le_word (load s off 4)"

definition ld64 :: "image \<Rightarrow> nat \<Rightarrow> u64" where
  "ld64 s off = le_word (load s off 8)"

definition st16 :: "image \<Rightarrow> nat \<Rightarrow> u16 \<Rightarrow> image" where
  "st16 s off v = store s off (le_bytes 2 v)"

definition st32 :: "image \<Rightarrow> nat \<Rightarrow> u32 \<Rightarrow> image" where
  "st32 s off v = store s off (le_bytes 4 v)"

definition st64 :: "image \<Rightarrow> nat \<Rightarrow> u64 \<Rightarrow> image" where
  "st64 s off v = store s off (le_bytes 8 v)"

fun offsetof :: "layout \<Rightarrow> string \<Rightarrow> nat" where
  "offsetof [] f = 0"
| "offsetof ((g, n) # l) f = (if f = g then 0 else n + offsetof l f)"

definition sizeof :: "layout \<Rightarrow> nat" where
  "sizeof l = sum_list (map snd l)"

section \<open>Byte order\<close>

definition reorder64 :: "u64 \<Rightarrow> u64" where
  "reorder64 n = push_bit 56 (n AND 0xff) OR push_bit 40 (n AND 0xff00) OR
     push_bit 24 (n AND 0xff0000) OR push_bit 8 (n AND 0xff000000) OR
     drop_bit 8 (n AND 0xff00000000) OR drop_bit 24 (n AND 0xff0000000000) OR
     drop_bit 40 (n AND 0xff000000000000) OR drop_bit 56 (n AND 0xff00000000000000)"

definition reorder32 :: "u32 \<Rightarrow> u32" where
  "reorder32 n = push_bit 24 (n AND 0xff) OR push_bit 8 (n AND 0xff00) OR
     drop_bit 8 (n AND 0xff0000) OR drop_bit 24 (n AND 0xff000000)"

definition reorder16 :: "u16 \<Rightarrow> u16" where
  "reorder16 n = push_bit 8 (n AND 0xff) OR drop_bit 8 (n AND 0xff00)"

section \<open>Access macros\<close>

definition ext4_get32 :: "layout \<Rightarrow> image \<Rightarrow> string \<Rightarrow> u32" where
  "ext4_get32 l s f = ld32 s (offsetof l f)"

definition ext4_get16 :: "layout \<Rightarrow> image \<Rightarrow> string \<Rightarrow> u16" where
  "ext4_get16 l s f = ld16 s (offsetof l f)"

definition ext4_get8 :: "layout \<Rightarrow> image \<Rightarrow> string \<Rightarrow> u8" where
  "ext4_get8 l s f = s ! offsetof l f"

definition ext4_set32 :: "layout \<Rightarrow> image \<Rightarrow> string \<Rightarrow> u32 \<Rightarrow> image" where
  "ext4_set32 l s f v = st32 s (offsetof l f) v"

definition ext4_set16 :: "layout \<Rightarrow> image \<Rightarrow> string \<Rightarrow> u16 \<Rightarrow> image" where
  "ext4_set16 l s f v = st16 s (offsetof l f) v"

definition ext4_set8 :: "layout \<Rightarrow> image \<Rightarrow> string \<Rightarrow> u8 \<Rightarrow> image" where
  "ext4_set8 l s f v = s[offsetof l f := v]"

definition jbd_get32 :: "layout \<Rightarrow> image \<Rightarrow> string \<Rightarrow> u32" where
  "jbd_get32 l s f = reorder32 (ld32 s (offsetof l f))"

definition jbd_get16 :: "layout \<Rightarrow> image \<Rightarrow> string \<Rightarrow> u16" where
  "jbd_get16 l s f = reorder16 (ld16 s (offsetof l f))"

definition jbd_set32 :: "layout \<Rightarrow> image \<Rightarrow> string \<Rightarrow> u32 \<Rightarrow> image" where
  "jbd_set32 l s f v = st32 s (offsetof l f) (reorder32 v)"

definition jbd_set16 :: "layout \<Rightarrow> image \<Rightarrow> string \<Rightarrow> u16 \<Rightarrow> image" where
  "jbd_set16 l s f v = st16 s (offsetof l f) (reorder16 v)"

lemmas access_defs = ext4_get32_def ext4_get16_def ext4_get8_def ext4_set32_def ext4_set16_def
  ext4_set8_def jbd_get32_def jbd_get16_def jbd_set32_def jbd_set16_def

section \<open>The structures\<close>

definition ext4_sblock :: layout where
  "ext4_sblock = [
    (''inodes_count'', 4), (''blocks_count_lo'', 4), (''reserved_blocks_count_lo'', 4),
    (''free_blocks_count_lo'', 4), (''free_inodes_count'', 4), (''first_data_block'', 4),
    (''log_block_size'', 4), (''log_cluster_size'', 4), (''blocks_per_group'', 4),
    (''frags_per_group'', 4), (''inodes_per_group'', 4), (''mount_time'', 4), (''write_time'', 4),
    (''mount_count'', 2), (''max_mount_count'', 2), (''magic'', 2), (''state'', 2),
    (''errors'', 2), (''minor_rev_level'', 2), (''last_check_time'', 4), (''check_interval'', 4),
    (''creator_os'', 4), (''rev_level'', 4), (''def_resuid'', 2), (''def_resgid'', 2),
    (''first_inode'', 4), (''inode_size'', 2), (''block_group_index'', 2),
    (''features_compatible'', 4), (''features_incompatible'', 4), (''features_read_only'', 4),
    (''uuid'', 16), (''volume_name'', 16), (''last_mounted'', 64),
    (''algorithm_usage_bitmap'', 4), (''s_prealloc_blocks'', 1), (''s_prealloc_dir_blocks'', 1),
    (''s_reserved_gdt_blocks'', 2), (''journal_uuid'', 16), (''journal_inode_number'', 4),
    (''journal_dev'', 4), (''last_orphan'', 4), (''hash_seed'', 16),
    (''default_hash_version'', 1), (''journal_backup_type'', 1), (''desc_size'', 2),
    (''default_mount_opts'', 4), (''first_meta_bg'', 4), (''mkfs_time'', 4),
    (''journal_blocks'', 68), (''blocks_count_hi'', 4), (''reserved_blocks_count_hi'', 4),
    (''free_blocks_count_hi'', 4), (''min_extra_isize'', 2), (''want_extra_isize'', 2),
    (''flags'', 4), (''raid_stride'', 2), (''mmp_interval'', 2), (''mmp_block'', 8),
    (''raid_stripe_width'', 4), (''log_groups_per_flex'', 1), (''checksum_type'', 1),
    (''reserved_pad'', 2), (''kbytes_written'', 8), (''snapshot_inum'', 4), (''snapshot_id'', 4),
    (''snapshot_r_blocks_count'', 8), (''snapshot_list'', 4), (''error_count'', 4),
    (''first_error_time'', 4), (''first_error_ino'', 4), (''first_error_block'', 8),
    (''first_error_func'', 32), (''first_error_line'', 4), (''last_error_time'', 4),
    (''last_error_ino'', 4), (''last_error_line'', 4), (''last_error_block'', 8),
    (''last_error_func'', 32), (''mount_opts'', 64), (''usr_quota_inum'', 4),
    (''grp_quota_inum'', 4), (''overhead_clusters'', 4), (''backup_bgs'', 8),
    (''encrypt_algos'', 4), (''encrypt_pw_salt'', 16), (''lpf_ino'', 4), (''padding'', 400),
    (''checksum'', 4)]"

definition ext4_bgroup :: layout where
  "ext4_bgroup = [
    (''block_bitmap_lo'', 4), (''inode_bitmap_lo'', 4), (''inode_table_first_block_lo'', 4),
    (''free_blocks_count_lo'', 2), (''free_inodes_count_lo'', 2), (''used_dirs_count_lo'', 2),
    (''flags'', 2), (''exclude_bitmap_lo'', 4), (''block_bitmap_csum_lo'', 2),
    (''inode_bitmap_csum_lo'', 2), (''itable_unused_lo'', 2), (''checksum'', 2),
    (''block_bitmap_hi'', 4), (''inode_bitmap_hi'', 4), (''inode_table_first_block_hi'', 4),
    (''free_blocks_count_hi'', 2), (''free_inodes_count_hi'', 2), (''used_dirs_count_hi'', 2),
    (''itable_unused_hi'', 2), (''exclude_bitmap_hi'', 4), (''block_bitmap_csum_hi'', 2),
    (''inode_bitmap_csum_hi'', 2), (''reserved'', 4)]"

definition ext4_inode :: layout where
  "ext4_inode = [
    (''mode'', 2), (''uid'', 2), (''size_lo'', 4), (''access_time'', 4),
    (''change_inode_time'', 4), (''modification_time'', 4), (''deletion_time'', 4), (''gid'', 2),
    (''links_count'', 2), (''blocks_count_lo'', 4), (''flags'', 4), (''unused_osd1'', 4),
    (''blocks'', 60), (''generation'', 4), (''file_acl_lo'', 4), (''size_hi'', 4),
    (''obso_faddr'', 4), (''osd2.linux2.blocks_high'', 2), (''osd2.linux2.file_acl_high'', 2),
    (''osd2.linux2.uid_high'', 2), (''osd2.linux2.gid_high'', 2),
    (''osd2.linux2.checksum_lo'', 2), (''osd2.linux2.reserved2'', 2), (''extra_isize'', 2),
    (''checksum_hi'', 2), (''ctime_extra'', 4), (''mtime_extra'', 4), (''atime_extra'', 4),
    (''crtime'', 4), (''crtime_extra'', 4), (''version_hi'', 4)]"

definition ext4_dir_en :: layout where
  "ext4_dir_en = [
    (''inode'', 4), (''entry_len'', 2), (''name_len'', 1), (''in'', 1), (''name'', 0)]"

definition ext4_dir_idx_climit :: layout where
  "ext4_dir_idx_climit = [
    (''limit'', 2), (''count'', 2)]"

definition ext4_dir_idx_dot_en :: layout where
  "ext4_dir_idx_dot_en = [
    (''inode'', 4), (''entry_length'', 2), (''name_length'', 1), (''inode_type'', 1),
    (''name'', 4)]"

definition ext4_dir_idx_rinfo :: layout where
  "ext4_dir_idx_rinfo = [
    (''reserved_zero'', 4), (''hash_version'', 1), (''info_length'', 1), (''indirect_levels'', 1),
    (''unused_flags'', 1)]"

definition ext4_dir_idx_entry :: layout where
  "ext4_dir_idx_entry = [
    (''hash'', 4), (''block'', 4)]"

definition ext4_fake_dir_entry :: layout where
  "ext4_fake_dir_entry = [
    (''inode'', 4), (''entry_length'', 2), (''name_length'', 1), (''inode_type'', 1)]"

definition ext4_dir_idx_tail :: layout where
  "ext4_dir_idx_tail = [
    (''reserved'', 4), (''checksum'', 4)]"

definition ext4_dir_entry_tail :: layout where
  "ext4_dir_entry_tail = [
    (''reserved_zero1'', 4), (''rec_len'', 2), (''reserved_zero2'', 1), (''reserved_ft'', 1),
    (''checksum'', 4)]"

definition jbd_bhdr :: layout where
  "jbd_bhdr = [
    (''magic'', 4), (''blocktype'', 4), (''sequence'', 4)]"

definition jbd_commit_header :: layout where
  "jbd_commit_header = [
    (''header'', 12), (''chksum_type'', 1), (''chksum_size'', 1), (''padding'', 2),
    (''chksum'', 32), (''commit_sec'', 8), (''commit_nsec'', 4)]"

definition jbd_block_tag3 :: layout where
  "jbd_block_tag3 = [
    (''blocknr'', 4), (''flags'', 4), (''blocknr_high'', 4), (''checksum'', 4)]"

definition jbd_block_tag :: layout where
  "jbd_block_tag = [
    (''blocknr'', 4), (''checksum'', 2), (''flags'', 2), (''blocknr_high'', 4)]"

definition jbd_revoke_header :: layout where
  "jbd_revoke_header = [
    (''header'', 12), (''count'', 4)]"

definition jbd_sb :: layout where
  "jbd_sb = [
    (''header'', 12), (''blocksize'', 4), (''maxlen'', 4), (''first'', 4), (''sequence'', 4),
    (''start'', 4), (''error_val'', 4), (''feature_compat'', 4), (''feature_incompat'', 4),
    (''feature_ro_compat'', 4), (''uuid'', 16), (''nr_users'', 4), (''dynsuper'', 4),
    (''max_transaction'', 4), (''max_trandata'', 4), (''checksum_type'', 1), (''padding2'', 3),
    (''padding'', 168), (''checksum'', 4), (''users'', 768)]"

section \<open>Reading and writing bytes\<close>

lemma length_le_bytes [simp]: "length (le_bytes n w) = n"
  by (induction n w rule: le_bytes.induct) auto

lemma bit_le_word:
  "bit (le_word bs :: 'a::len word) i \<longleftrightarrow> i < LENGTH('a) \<and> i div 8 < length bs \<and> bit (bs ! (i div 8)) (i mod 8)"
proof (induction bs arbitrary: i)
  case (Cons b bs)
  show ?case
  proof (cases "i < 8")
    case True
    then show ?thesis by (auto simp: bit_simps dest: bit_imp_le_length)
  next
    case False
    then obtain j where j: "i = j + 8" by (metis add.commute le_Suc_ex not_less)
    then have "\<not> bit b i" by (auto dest: bit_imp_le_length)
    moreover have "(j + 8) div 8 = Suc (j div 8)" by simp
    ultimately show ?thesis using Cons [of j] by (auto simp: j bit_simps)
  qed
qed simp

lemma le_word_le_bytes: "le_word (le_bytes n w) = take_bit (8 * n) w"
proof (induction n w rule: le_bytes.induct)
  case (2 n w)
  show ?case
    by (rule bit_word_eqI) (auto simp: 2 bit_simps le_less_Suc_eq not_le dest: bit_imp_le_length)
qed simp

lemma length_store [simp]: "length (store s off bs) = length s"
  by (induction s off bs rule: store.induct) auto

lemma nth_store:
  "store s off bs ! i = (if off \<le> i \<and> i < off + length bs \<and> i < length s then bs ! (i - off) else s ! i)"
  by (induction s off bs rule: store.induct) (auto simp: nth_Cons' nth_list_update list_update_beyond)

lemma length_load [simp]: "length (load s off n) = n"
  by (simp add: load_def)

lemma nth_load [simp]: "i < n \<Longrightarrow> load s off n ! i = s ! (off + i)"
  by (simp add: load_def)

lemma load_store_same: "n = length bs \<Longrightarrow> off + n \<le> length s \<Longrightarrow> load (store s off bs) off n = bs"
  by (rule nth_equalityI) (auto simp: nth_store)

lemma load_store_other:
  "off + length bs \<le> off' \<or> off' + n \<le> off \<Longrightarrow> load (store s off bs) off' n = load s off' n"
  by (rule nth_equalityI) (auto simp: nth_store)

lemma load_update_other: "a < b \<or> b + n \<le> a \<Longrightarrow> load (s[a := w]) b n = load s b n"
  by (rule nth_equalityI) auto

lemma length_st [simp]: "length (st16 s off v) = length s" "length (st32 s off w) = length s"
  "length (st64 s off x) = length s"
  by (simp_all add: st16_def st32_def st64_def)

lemma take_bit_all: "LENGTH('a) \<le> n \<Longrightarrow> take_bit n w = w" for w :: "'a::len word"
  by (rule bit_word_eqI) (auto simp: bit_simps)

lemma ld_st_same [field]:
  "off + 2 \<le> length s \<Longrightarrow> ld16 (st16 s off v) off = v"
  "off + 4 \<le> length s \<Longrightarrow> ld32 (st32 s off w) off = w"
  "off + 8 \<le> length s \<Longrightarrow> ld64 (st64 s off x) off = x"
  by (simp_all add: ld16_def ld32_def ld64_def st16_def st32_def st64_def load_store_same
        le_word_le_bytes take_bit_all)

lemma ld16_other [field]:
  "a + 2 \<le> b \<or> b + 2 \<le> a \<Longrightarrow> ld16 (st16 s a u) b = ld16 s b"
  "a + 4 \<le> b \<or> b + 2 \<le> a \<Longrightarrow> ld16 (st32 s a v) b = ld16 s b"
  "a < b \<or> b + 2 \<le> a \<Longrightarrow> ld16 (s[a := w]) b = ld16 s b"
  by (simp_all add: ld16_def st16_def st32_def load_store_other load_update_other)

lemma ld32_other [field]:
  "a + 2 \<le> b \<or> b + 4 \<le> a \<Longrightarrow> ld32 (st16 s a u) b = ld32 s b"
  "a + 4 \<le> b \<or> b + 4 \<le> a \<Longrightarrow> ld32 (st32 s a v) b = ld32 s b"
  "a < b \<or> b + 4 \<le> a \<Longrightarrow> ld32 (s[a := w]) b = ld32 s b"
  by (simp_all add: ld32_def st16_def st32_def load_store_other load_update_other)

lemma nth_st_other [field]:
  "i < a \<or> a + 2 \<le> i \<Longrightarrow> st16 s a u ! i = s ! i"
  "i < a \<or> a + 4 \<le> i \<Longrightarrow> st32 s a v ! i = s ! i"
  by (auto simp: st16_def st32_def nth_store)

section \<open>Big endian fields\<close>

lemma bit_byte_mask:
  "bit ((w :: 'a::len word) AND push_bit k (mask 8)) n \<longleftrightarrow> bit w n \<and> k \<le> n \<and> n - k < 8"
  by (auto simp: bit_simps dest: bit_imp_le_length)

lemma le_bytes_4: "le_bytes 4 w = [ucast w, ucast (drop_bit 8 w), ucast (drop_bit 16 w), ucast (drop_bit 24 w)]"
proof -
  have "(4 :: nat) = Suc (Suc (Suc (Suc 0)))" by simp
  then show ?thesis by (simp only: le_bytes.simps drop_bit_drop_bit) simp
qed

lemma byte_masks32:
  "(0xff :: u32) = push_bit 0 (mask 8)" "(0xff00 :: u32) = push_bit 8 (mask 8)"
  "(0xff0000 :: u32) = push_bit 16 (mask 8)" "(0xff000000 :: u32) = push_bit 24 (mask 8)"
  by (simp_all add: mask_eq_exp_minus_1 push_bit_eq_mult)

lemma bit_reorder32:
  "bit (reorder32 n) i \<longleftrightarrow>
     (if i < 8 then bit n (i + 24) else if i < 16 then bit n (i + 8)
      else if i < 24 then bit n (i - 8) else i < 32 \<and> bit n (i - 24))"
proof -
  note r = reorder32_def byte_masks32 bit_or_iff bit_push_bit_iff bit_drop_bit_eq o_def bit_and_iff bit_mask_iff possible_bit_word
  consider "i < 8" | "8 \<le> i" "i < 16" | "16 \<le> i" "i < 24" | "24 \<le> i" "i < 32" | "32 \<le> i" by linarith
  then show ?thesis
    by cases (auto simp: r add.commute impossible_bit)
qed

lemma reorder32_reorder32 [simp]: "reorder32 (reorder32 n) = n"
  by (rule bit_word_eqI) (auto simp: bit_reorder32)

lemma reorder32_bytes: "le_bytes 4 (reorder32 n) = rev (le_bytes 4 n)"
  unfolding le_bytes_4
  by (simp, intro conjI; rule bit_word_eqI) (simp_all add: bit_ucast_iff bit_drop_bit_eq bit_reorder32 add.commute)

end
