(* ===== verification/Ext4_Bitmap.thy ===== *)
theory Ext4_Bitmap
  imports Ext4_Types
begin

text \<open>
  Block and inode bitmaps of lwext4 (\<open>ext4_bitmap.h\<close>, \<open>ext4_bitmap.c\<close>, built without
  \<open>CONFIG_UNALIGNED_ACCESS\<close>). A bitmap is the byte image of its block; the pointer the C code moves
  over it is a byte position, and an access outside the image is the value \<open>None\<close>. The lemmas show
  which bits the range operation clears and which bit the search returns.
\<close>

section \<open>Single bits\<close>

definition ext4_bmap_bit_set :: "image \<Rightarrow> nat \<Rightarrow> u32 \<Rightarrow> image option" where
  "ext4_bmap_bit_set bmap p i = (let q = p + unat (drop_bit 3 i) in
     if q < length bmap then Some (bmap[q := bmap ! q OR push_bit (unat (i AND 7)) 1]) else None)"

definition ext4_bmap_bit_clr :: "image \<Rightarrow> nat \<Rightarrow> u32 \<Rightarrow> image option" where
  "ext4_bmap_bit_clr bmap p i = (let q = p + unat (drop_bit 3 i) in
     if q < length bmap then Some (bmap[q := bmap ! q AND NOT (push_bit (unat (i AND 7)) 1)]) else None)"

definition ext4_bmap_is_bit_set :: "image \<Rightarrow> nat \<Rightarrow> u32 \<Rightarrow> bool option" where
  "ext4_bmap_is_bit_set bmap p i = (let q = p + unat (drop_bit 3 i) in
     if q < length bmap then Some (bmap ! q AND push_bit (unat (i AND 7)) 1 \<noteq> 0) else None)"

definition ext4_bmap_is_bit_clr :: "image \<Rightarrow> nat \<Rightarrow> u32 \<Rightarrow> bool option" where
  "ext4_bmap_is_bit_clr bmap p i = map_option Not (ext4_bmap_is_bit_set bmap p i)"

section \<open>Clearing a range\<close>

text \<open>The three loops of \<open>ext4_bmap_bits_free\<close>; the first one returns early when no bit is left.\<close>

function bits_free_prefix :: "image \<Rightarrow> u32 \<Rightarrow> u32 \<Rightarrow> (image \<times> u32 \<times> u32) option" where
  "bits_free_prefix bmap i bcnt =
    (if i AND 7 = 0 then Some (bmap, i, bcnt)
     else if bcnt = 0 then Some (bmap, i, bcnt)
     else do { bmap \<leftarrow> ext4_bmap_bit_clr bmap 0 i; bits_free_prefix bmap (i + 1) (bcnt - 1) })"
  by auto
termination
  by (relation "measure (\<lambda>(_, _, bcnt). unat bcnt)") (auto simp: unat_minus_one unat_gt_0)

function bits_free_bytes :: "image \<Rightarrow> nat \<Rightarrow> u32 \<Rightarrow> (image \<times> nat \<times> u32) option" where
  "bits_free_bytes bmap p bcnt =
    (if 8 \<le> bcnt then
       if p < length bmap then bits_free_bytes (bmap[p := 0]) (p + 1) (bcnt - 8) else None
     else Some (bmap, p, bcnt))"
  by auto
termination
  by (relation "measure (\<lambda>(_, _, bcnt). unat bcnt)") (auto simp: unat_sub_if' word_le_nat_alt)

function bits_free_tail :: "image \<Rightarrow> nat \<Rightarrow> u32 \<Rightarrow> u32 \<Rightarrow> image option" where
  "bits_free_tail bmap p i bcnt =
    (if i < bcnt then do { bmap \<leftarrow> ext4_bmap_bit_clr bmap p i; bits_free_tail bmap p (i + 1) bcnt }
     else Some bmap)"
  by auto
termination
  by (relation "measure (\<lambda>(_, _, i, bcnt). unat bcnt - unat i)")
     (auto simp: unat_plus1_less word_less_nat_alt)

declare bits_free_prefix.simps [simp del] bits_free_bytes.simps [simp del] bits_free_tail.simps [simp del]

definition ext4_bmap_bits_free :: "image \<Rightarrow> u32 \<Rightarrow> u32 \<Rightarrow> image option" where
  "ext4_bmap_bits_free bmap sbit bcnt = do {
     (bmap, i, bcnt) \<leftarrow> bits_free_prefix bmap sbit bcnt;
     if i AND 7 \<noteq> 0 then Some bmap
     else do {
       (bmap, p, bcnt) \<leftarrow> bits_free_bytes bmap (unat (drop_bit 3 i)) bcnt;
       bits_free_tail bmap p 0 bcnt } }"

section \<open>Searching a clear bit\<close>

text \<open>The search answers with an error code and, on success, the bit it stored through \<open>bit_id\<close>.\<close>

datatype find_res = Found u32 | Enospc

function find_clr_prefix :: "image \<Rightarrow> u32 \<Rightarrow> u32 \<Rightarrow> u32 \<Rightarrow> (find_res + u32 \<times> u32) option" where
  "find_clr_prefix bmap sbit i bcnt =
    (if i AND 7 = 0 then Some (Inr (i, bcnt))
     else if bcnt = 0 then Some (Inl Enospc)
     else do {
       clr \<leftarrow> ext4_bmap_is_bit_clr bmap 0 i;
       if clr then Some (Inl (Found sbit)) else find_clr_prefix bmap sbit (i + 1) (bcnt - 1) })"
  by auto
termination
  by (relation "measure (\<lambda>(_, _, _, bcnt). unat bcnt)") (auto simp: unat_minus_one unat_gt_0)

function find_clr_bits :: "image \<Rightarrow> nat \<Rightarrow> u32 \<Rightarrow> u32 \<Rightarrow> u32 \<Rightarrow> u32 option option" where
  "find_clr_bits bmap p sbit i n =
    (if i < n then do {
       clr \<leftarrow> ext4_bmap_is_bit_clr bmap p i;
       if clr then Some (Some (sbit + i)) else find_clr_bits bmap p sbit (i + 1) n }
     else Some None)"
  by auto
termination
  by (relation "measure (\<lambda>(_, _, _, i, n). unat n - unat i)")
     (auto simp: unat_plus1_less word_less_nat_alt)

function find_clr_bytes :: "image \<Rightarrow> nat \<Rightarrow> u32 \<Rightarrow> u32 \<Rightarrow> (find_res + nat \<times> u32 \<times> u32) option" where
  "find_clr_bytes bmap p sbit bcnt =
    (if 8 \<le> bcnt then
       if p < length bmap then do {
         r \<leftarrow> (if bmap ! p \<noteq> 0xFF then find_clr_bits bmap p sbit 0 8 else Some None);
         (case r of Some b \<Rightarrow> Some (Inl (Found b))
          | None \<Rightarrow> find_clr_bytes bmap (p + 1) (sbit + 8) (bcnt - 8)) }
       else None
     else Some (Inr (p, sbit, bcnt)))"
  by auto
termination
  by (relation "measure (\<lambda>(_, _, _, bcnt). unat bcnt)") (auto simp: unat_sub_if' word_le_nat_alt)

declare find_clr_prefix.simps [simp del] find_clr_bits.simps [simp del] find_clr_bytes.simps [simp del]

definition ext4_bmap_bit_find_clr :: "image \<Rightarrow> u32 \<Rightarrow> u32 \<Rightarrow> find_res option" where
  "ext4_bmap_bit_find_clr bmap sbit ebit = do {
     r \<leftarrow> find_clr_prefix bmap sbit sbit (ebit - sbit);
     (case r of
        Inl res \<Rightarrow> Some res
      | Inr (sbit, bcnt) \<Rightarrow> do {
          r \<leftarrow> find_clr_bytes bmap (unat (drop_bit 3 sbit)) sbit bcnt;
          (case r of
             Inl res \<Rightarrow> Some res
           | Inr (p, sbit, bcnt) \<Rightarrow> do {
               b \<leftarrow> find_clr_bits bmap p sbit 0 bcnt;
               Some (case b of Some b \<Rightarrow> Found b | None \<Rightarrow> Enospc) }) }) }"

section \<open>Bitmaps as sets\<close>

text \<open>The set of the bits that are set, numbered from the start of the image.\<close>

definition bset :: "image \<Rightarrow> nat set" where
  "bset bmap = {k. k < 8 * length bmap \<and> bit (bmap ! (k div 8)) (k mod 8)}"

definition clears :: "image \<Rightarrow> image \<Rightarrow> nat set \<Rightarrow> bool" where
  "clears bmap bmap' S \<longleftrightarrow> length bmap' = length bmap \<and> bset bmap' = bset bmap - S"

lemma clears_refl [simp]: "clears b b {}"
  by (simp add: clears_def)

lemma clears_trans: "clears a b S \<Longrightarrow> clears b c T \<Longrightarrow> clears a c (S \<union> T)"
  by (auto simp: clears_def)

lemma image_eqI_bset: "length a = length b \<Longrightarrow> bset a = bset b \<Longrightarrow> a = b"
proof (rule nth_equalityI)
  fix i assume l: "length a = length b" and e: "bset a = bset b" and i: "i < length a"
  show "a ! i = b ! i"
  proof (rule bit_word_eqI)
    fix j assume j: "j < LENGTH(8)"
    then have "8 * i + j \<in> bset a \<longleftrightarrow> bit (a ! i) j" "8 * i + j \<in> bset b \<longleftrightarrow> bit (b ! i) j"
      using i l by (auto simp: bset_def)
    then show "bit (a ! i) j = bit (b ! i) j" using e by simp
  qed
qed

lemma seven_mask: "(7 :: u32) = mask 3"
  by (simp add: mask_eq_exp_minus_1)

lemma unat_and_7: "unat (i AND 7) = unat i mod 8" for i :: u32
  unfolding seven_mask unat_and_mask by simp

lemma and_7_eq_0: "i AND 7 = 0 \<longleftrightarrow> unat i mod 8 = 0" for i :: u32
  by (simp add: unat_and_7 flip: unat_eq_zero)

lemma unat_div_8: "unat (drop_bit 3 i) = unat i div 8" for i :: u32
  by (simp add: unat_drop_bit)

lemma bset_update:
  assumes "k < 8 * length bmap" "\<And>j. j < 8 \<Longrightarrow> bit b j = (bit (bmap ! (k div 8)) j \<and> j \<noteq> k mod 8)"
  shows "bset (bmap[k div 8 := b]) = bset bmap - {k}"
proof (rule set_eqI)
  fix x
  have "x = k \<longleftrightarrow> x div 8 = k div 8 \<and> x mod 8 = k mod 8" by (metis div_mult_mod_eq)
  then show "x \<in> bset (bmap[k div 8 := b]) \<longleftrightarrow> x \<in> bset bmap - {k}"
    using assms by (cases "x div 8 = k div 8") (auto simp: bset_def nth_list_update)
qed

lemma bset_insert:
  assumes "k < 8 * length bmap" "\<And>j. j < 8 \<Longrightarrow> bit b j = (bit (bmap ! (k div 8)) j \<or> j = k mod 8)"
  shows "bset (bmap[k div 8 := b]) = insert k (bset bmap)"
proof (rule set_eqI)
  fix x
  have "x = k \<longleftrightarrow> x div 8 = k div 8 \<and> x mod 8 = k mod 8" by (metis div_mult_mod_eq)
  then show "x \<in> bset (bmap[k div 8 := b]) \<longleftrightarrow> x \<in> insert k (bset bmap)"
    using assms by (cases "x div 8 = k div 8") (auto simp: bset_def nth_list_update)
qed

lemma bit_index: "(8 * p + k) div 8 = p + k div 8" "(8 * p + k) mod 8 = k mod 8" for p k :: nat
  by simp_all

lemma is_bit_set_eq:
  "8 * p + unat i < 8 * length bmap \<Longrightarrow> ext4_bmap_is_bit_set bmap p i = Some (8 * p + unat i \<in> bset bmap)"
  by (simp add: ext4_bmap_is_bit_set_def Let_def unat_div_8 unat_and_7 and_exp_eq_0_iff_not_bit bset_def)

lemma is_bit_clr_eq:
  "8 * p + unat i < 8 * length bmap \<Longrightarrow> ext4_bmap_is_bit_clr bmap p i = Some (8 * p + unat i \<notin> bset bmap)"
  by (simp add: ext4_bmap_is_bit_clr_def is_bit_set_eq)

lemma bit_clr_ok:
  assumes "8 * p + unat i < 8 * length bmap"
  obtains bmap' where "ext4_bmap_bit_clr bmap p i = Some bmap'" "clears bmap bmap' {8 * p + unat i}"
proof -
  have "p + unat i div 8 < length bmap" using assms by linarith
  moreover have "bset (bmap[p + unat i div 8 := bmap ! (p + unat i div 8) AND NOT (push_bit (unat i mod 8) 1)]) =
      bset bmap - {8 * p + unat i}"
    using bset_update [OF assms, of "bmap ! (p + unat i div 8) AND NOT (push_bit (unat i mod 8) 1)"]
    by (simp only: bit_index) (auto simp: bit_simps)
  ultimately show ?thesis
    by (intro that [of "bmap[p + unat i div 8 := bmap ! (p + unat i div 8) AND NOT (push_bit (unat i mod 8) 1)]"])
       (simp_all add: ext4_bmap_bit_clr_def Let_def unat_div_8 unat_and_7 clears_def)
qed

lemma bit_set_ok:
  assumes "8 * p + unat i < 8 * length bmap"
  obtains bmap' where "ext4_bmap_bit_set bmap p i = Some bmap'" "length bmap' = length bmap"
    "bset bmap' = insert (8 * p + unat i) (bset bmap)"
proof -
  have "p + unat i div 8 < length bmap" using assms by linarith
  moreover have "bset (bmap[p + unat i div 8 := bmap ! (p + unat i div 8) OR push_bit (unat i mod 8) 1]) =
      insert (8 * p + unat i) (bset bmap)"
    using bset_insert [OF assms, of "bmap ! (p + unat i div 8) OR push_bit (unat i mod 8) 1"]
    by (simp only: bit_index) (auto simp: bit_simps)
  ultimately show ?thesis
    by (intro that) (simp_all add: ext4_bmap_bit_set_def Let_def unat_div_8 unat_and_7)
qed

section \<open>The range operation\<close>

lemma bits_free_prefix_ok:
  assumes "unat i + unat bcnt \<le> 8 * length bmap" "8 * length bmap < 2 ^ 32"
  shows "\<exists>bmap' i' bcnt'. bits_free_prefix bmap i bcnt = Some (bmap', i', bcnt') \<and>
     unat i \<le> unat i' \<and> unat i' + unat bcnt' = unat i + unat bcnt \<and>
     clears bmap bmap' {unat i..<unat i'} \<and> (i' AND 7 = 0 \<or> bcnt' = 0)"
  using assms
proof (induction bmap i bcnt rule: bits_free_prefix.induct)
  case (1 bmap i bcnt)
  show ?case
  proof (cases "i AND 7 = 0 \<or> bcnt = 0")
    case True
    then show ?thesis by (subst bits_free_prefix.simps) auto
  next
    case False
    then have b: "Suc (unat (bcnt - 1)) = unat bcnt" by (simp add: unat_minus1)
    then have i: "unat (i + 1) = Suc (unat i)"
      using unat_add_of_nat [of i 1] 1(2,3) by simp
    obtain b1 where b1: "ext4_bmap_bit_clr bmap 0 i = Some b1" "clears bmap b1 {unat i}"
      using bit_clr_ok [of 0 i bmap] 1(2) b by auto
    then have l: "length b1 = length bmap" by (simp add: clears_def)
    obtain b2 i2 c2 where r: "bits_free_prefix b1 (i + 1) (bcnt - 1) = Some (b2, i2, c2)"
      "unat (i + 1) \<le> unat i2" "unat i2 + unat c2 = unat (i + 1) + unat (bcnt - 1)"
      "clears b1 b2 {unat (i + 1)..<unat i2}" "i2 AND 7 = 0 \<or> c2 = 0"
      using 1(1) [of b1] False b1(1) 1(2,3) b i l by auto
    have "{unat i} \<union> {unat (i + 1)..<unat i2} = {unat i..<unat i2}" using i r(2) by auto
    then have "clears bmap b2 {unat i..<unat i2}" using clears_trans [OF b1(2) r(4)] by simp
    then show ?thesis using False b1(1) r b i by (subst bits_free_prefix.simps) auto
  qed
qed

lemma bset_zero_byte: "p < length bmap \<Longrightarrow> clears bmap (bmap[p := 0]) {8 * p..<8 * p + 8}"
proof -
  assume p: "p < length bmap"
  have e: "x \<in> bset (bmap[p := 0]) \<longleftrightarrow> x \<in> bset bmap - {8 * p..<8 * p + 8}" for x
  proof (cases "x div 8 = p")
    case True
    then have "8 * p \<le> x" "x < 8 * p + 8" by auto
    then show ?thesis using True p by (simp add: bset_def)
  next
    case False
    then have "\<not> (8 * p \<le> x \<and> x < 8 * p + 8)" by auto
    then show ?thesis using False by (auto simp: bset_def)
  qed
  have "bset (bmap[p := 0]) = bset bmap - {8 * p..<8 * p + 8}" by (rule set_eqI, rule e)
  then show ?thesis by (simp add: clears_def)
qed

lemma bits_free_bytes_ok:
  assumes "8 * p + unat bcnt \<le> 8 * length bmap"
  shows "\<exists>bmap' p' bcnt'. bits_free_bytes bmap p bcnt = Some (bmap', p', bcnt') \<and>
     p \<le> p' \<and> 8 * p' + unat bcnt' = 8 * p + unat bcnt \<and> clears bmap bmap' {8 * p..<8 * p'}"
  using assms
proof (induction bmap p bcnt rule: bits_free_bytes.induct)
  case (1 bmap p bcnt)
  show ?case
  proof (cases "8 \<le> bcnt")
    case True
    then have b: "unat (bcnt - 8) = unat bcnt - 8" "8 \<le> unat bcnt"
      by (simp_all add: unat_minus_le word_le_nat_alt)
    then have p: "p < length bmap" using 1(2) by linarith
    have c: "clears bmap (bmap[p := 0]) {8 * p..<8 * p + 8}" by (rule bset_zero_byte [OF p])
    obtain b2 p2 c2 where r: "bits_free_bytes (bmap[p := 0]) (p + 1) (bcnt - 8) = Some (b2, p2, c2)"
      "p + 1 \<le> p2" "8 * p2 + unat c2 = 8 * (p + 1) + unat (bcnt - 8)"
      "clears (bmap[p := 0]) b2 {8 * (p + 1)..<8 * p2}"
      using 1(1) [OF True p] 1(2) b by auto
    have "{8 * p..<8 * p + 8} \<union> {8 * (p + 1)..<8 * p2} = {8 * p..<8 * p2}" using r(2) by auto
    then have "clears bmap b2 {8 * p..<8 * p2}" using clears_trans [OF c r(4)] by simp
    then show ?thesis using True p r b by (subst bits_free_bytes.simps) auto
  next
    case False
    then show ?thesis by (subst bits_free_bytes.simps) auto
  qed
qed

lemma bits_free_tail_ok:
  assumes "i \<le> bcnt" "8 * p + unat bcnt \<le> 8 * length bmap"
  shows "\<exists>bmap'. bits_free_tail bmap p i bcnt = Some bmap' \<and>
     clears bmap bmap' {8 * p + unat i..<8 * p + unat bcnt}"
  using assms
proof (induction bmap p i bcnt rule: bits_free_tail.induct)
  case (1 bmap p i bcnt)
  show ?case
  proof (cases "i < bcnt")
    case True
    then have i: "unat (i + 1) = Suc (unat i)" "unat i < unat bcnt" "i + 1 \<le> bcnt"
      using unat_plus1_less [OF True] by (auto simp: word_less_nat_alt word_le_nat_alt)
    obtain b1 where b1: "ext4_bmap_bit_clr bmap p i = Some b1" "clears bmap b1 {8 * p + unat i}"
      using bit_clr_ok [of p i bmap] 1(3) i by auto
    then have l: "length b1 = length bmap" by (simp add: clears_def)
    obtain b2 where r: "bits_free_tail b1 p (i + 1) bcnt = Some b2"
      "clears b1 b2 {8 * p + unat (i + 1)..<8 * p + unat bcnt}"
      using 1(1) [OF True b1(1) i(3)] 1(3) l by auto
    have "{8 * p + unat i} \<union> {8 * p + unat (i + 1)..<8 * p + unat bcnt} = {8 * p + unat i..<8 * p + unat bcnt}"
      using i by auto
    then have "clears bmap b2 {8 * p + unat i..<8 * p + unat bcnt}" using clears_trans [OF b1(2) r(2)] by simp
    then show ?thesis using True b1(1) r by (subst bits_free_tail.simps) auto
  next
    case False
    then show ?thesis using 1(2) by (subst bits_free_tail.simps) auto
  qed
qed

lemma bmap_bits_free_ok:
  assumes "unat sbit + unat bcnt \<le> 8 * length bmap" "8 * length bmap < 2 ^ 32"
  obtains bmap' where "ext4_bmap_bits_free bmap sbit bcnt = Some bmap'"
    "clears bmap bmap' {unat sbit..<unat sbit + unat bcnt}"
proof -
  obtain b1 i1 c1 where p: "bits_free_prefix bmap sbit bcnt = Some (b1, i1, c1)" "unat sbit \<le> unat i1"
    "unat i1 + unat c1 = unat sbit + unat bcnt" "clears bmap b1 {unat sbit..<unat i1}" "i1 AND 7 = 0 \<or> c1 = 0"
    using bits_free_prefix_ok [OF assms] by blast
  have l1: "length b1 = length bmap" using p(4) by (simp add: clears_def)
  show ?thesis
  proof (cases "i1 AND 7 = 0")
    case False
    then show ?thesis using that p by (auto simp: ext4_bmap_bits_free_def)
  next
    case True
    then have q: "8 * unat (drop_bit 3 i1) = unat i1" by (auto simp: and_7_eq_0 unat_div_8)
    obtain b2 p2 c2 where r: "bits_free_bytes b1 (unat (drop_bit 3 i1)) c1 = Some (b2, p2, c2)"
      "unat (drop_bit 3 i1) \<le> p2" "8 * p2 + unat c2 = unat i1 + unat c1" "clears b1 b2 {unat i1..<8 * p2}"
      using bits_free_bytes_ok [of "unat (drop_bit 3 i1)" c1 b1] p(3) assms(1) q l1 by auto
    have l2: "length b2 = length b1" using r(4) by (simp add: clears_def)
    obtain b3 where t: "bits_free_tail b2 p2 0 c2 = Some b3" "clears b2 b3 {8 * p2..<8 * p2 + unat c2}"
      using bits_free_tail_ok [of 0 c2 p2 b2] r(3) p(3) assms(1) l1 l2 by auto
    have "{unat sbit..<unat i1} \<union> {unat i1..<8 * p2} \<union> {8 * p2..<8 * p2 + unat c2} =
        {unat sbit..<unat sbit + unat bcnt}"
      using p(2,3) r(2,3) q by auto
    then have "clears bmap b3 {unat sbit..<unat sbit + unat bcnt}"
      using clears_trans [OF clears_trans [OF p(4) r(4)] t(2)] by simp
    then show ?thesis using that p(1) r(1) t(1) True by (simp add: ext4_bmap_bits_free_def)
  qed
qed

section \<open>The search\<close>

definition all_set :: "image \<Rightarrow> nat \<Rightarrow> nat \<Rightarrow> bool" where
  "all_set bmap a b \<longleftrightarrow> {a..<b} \<subseteq> bset bmap"

definition first_clear :: "image \<Rightarrow> nat \<Rightarrow> nat \<Rightarrow> nat \<Rightarrow> bool" where
  "first_clear bmap a b m \<longleftrightarrow> a \<le> m \<and> m < b \<and> m \<notin> bset bmap \<and> all_set bmap a m"

lemma all_set_empty [simp]: "b \<le> a \<Longrightarrow> all_set bmap a b"
  by (simp add: all_set_def)

lemma all_set_join: "all_set bmap a b \<Longrightarrow> all_set bmap b c \<Longrightarrow> all_set bmap a c"
  by (force simp: all_set_def)

lemma all_set_step: "a \<in> bset bmap \<Longrightarrow> all_set bmap (Suc a) b \<Longrightarrow> all_set bmap a b"
  by (rule all_set_join [of _ _ "Suc a"]) (auto simp: all_set_def)

lemma first_clear_widen:
  "first_clear bmap b c m \<Longrightarrow> all_set bmap a b \<Longrightarrow> a \<le> b \<Longrightarrow> c \<le> d \<Longrightarrow> first_clear bmap a d m"
  by (auto simp: first_clear_def intro: all_set_join)

lemma first_clear_cases:
  obtains "all_set bmap a b" | m where "first_clear bmap a b m"
proof (cases "all_set bmap a b")
  case False
  then obtain k where k: "a \<le> k" "k < b" "k \<notin> bset bmap"
    unfolding all_set_def by (metis atLeastLessThan_iff subsetI)
  define m where "m = (LEAST k. a \<le> k \<and> k \<notin> bset bmap)"
  have m: "a \<le> m \<and> m \<notin> bset bmap" unfolding m_def by (rule LeastI [of _ k]) (use k in simp)
  have "m \<le> k" unfolding m_def by (rule Least_le) (use k in simp)
  moreover have "x \<in> bset bmap" if "a \<le> x" "x < m" for x
    using not_less_Least [OF that(2) [unfolded m_def]] that(1) by blast
  then have "all_set bmap a m" by (auto simp: all_set_def)
  ultimately have "first_clear bmap a b m" using m k by (simp add: first_clear_def)
  then show ?thesis by (rule that(2))
qed (rule that(1))

lemma first_clear_unique: "first_clear bmap a b m \<Longrightarrow> first_clear bmap a b n \<Longrightarrow> m = n"
  by (metis first_clear_def all_set_def atLeastLessThan_iff linorder_neqE_nat subsetD)

lemma find_clr_bits_ok:
  assumes "i \<le> n" "8 * p + unat n \<le> 8 * length bmap" "unat sbit = 8 * p" "8 * length bmap < 2 ^ 32"
  shows "(\<exists>b. find_clr_bits bmap p sbit i n = Some (Some b) \<and>
            first_clear bmap (8 * p + unat i) (8 * p + unat n) (unat b)) \<or>
         find_clr_bits bmap p sbit i n = Some None \<and> all_set bmap (8 * p + unat i) (8 * p + unat n)"
  using assms
proof (induction bmap p sbit i n rule: find_clr_bits.induct)
  case (1 bmap p sbit i n)
  show ?case
  proof (cases "i < n")
    case True
    then have i: "unat (i + 1) = Suc (unat i)" "unat i < unat n" "i + 1 \<le> n"
      using unat_plus1_less [OF True] by (auto simp: word_less_nat_alt word_le_nat_alt)
    have s: "unat (sbit + i) = 8 * p + unat i"
      using unat_add_of_nat [of sbit "unat i"] 1(3-5) i(2) by simp
    have c: "ext4_bmap_is_bit_clr bmap p i = Some (8 * p + unat i \<notin> bset bmap)"
      using is_bit_clr_eq [of p i bmap] 1(3) i(2) by simp
    show ?thesis
    proof (cases "8 * p + unat i \<in> bset bmap")
      case set: True
      then have IH: "(\<exists>b. find_clr_bits bmap p sbit (i + 1) n = Some (Some b) \<and>
            first_clear bmap (8 * p + unat (i + 1)) (8 * p + unat n) (unat b)) \<or>
         find_clr_bits bmap p sbit (i + 1) n = Some None \<and> all_set bmap (8 * p + unat (i + 1)) (8 * p + unat n)"
        using 1(1) [OF True c _ i(3) 1(3-5)] by simp
      have a: "all_set bmap (8 * p + unat i) (8 * p + unat (i + 1))" using set i(1) by (auto simp: all_set_def less_Suc_eq)
      show ?thesis using IH first_clear_widen [OF _ a] all_set_join [OF a] True c set i(1)
        by (subst (1 2) find_clr_bits.simps) auto
    next
      case False
      then have "first_clear bmap (8 * p + unat i) (8 * p + unat n) (unat (sbit + i))"
        using i(2) s by (simp add: first_clear_def)
      then show ?thesis using True c False by (subst find_clr_bits.simps) simp
    qed
  next
    case False
    then show ?thesis using 1(2) by (subst (1 2) find_clr_bits.simps) simp
  qed
qed

lemma ff_all_set: "p < length bmap \<Longrightarrow> bmap ! p = 0xFF \<Longrightarrow> all_set bmap (8 * p) (8 * p + 8)"
proof -
  assume p: "p < length bmap" "bmap ! p = 0xFF"
  have m: "(0xFF :: u8) = mask 8" by (simp add: mask_eq_exp_minus_1)
  show ?thesis
  proof (unfold all_set_def, rule subsetI)
    fix k assume k: "k \<in> {8 * p..<8 * p + 8}"
    then have "k div 8 = p" by auto
    then show "k \<in> bset bmap" using p k unfolding m by (auto simp: bset_def bit_simps)
  qed
qed

lemma find_clr_bytes_ok:
  assumes "unat sbit = 8 * p" "8 * p + unat bcnt \<le> 8 * length bmap" "8 * length bmap < 2 ^ 32"
  shows "(\<exists>b. find_clr_bytes bmap p sbit bcnt = Some (Inl (Found b)) \<and>
            first_clear bmap (8 * p) (8 * p + unat bcnt) (unat b)) \<or>
         (\<exists>p' sbit' bcnt'. find_clr_bytes bmap p sbit bcnt = Some (Inr (p', sbit', bcnt')) \<and> p \<le> p' \<and>
            unat sbit' = 8 * p' \<and> 8 * p' + unat bcnt' = 8 * p + unat bcnt \<and> all_set bmap (8 * p) (8 * p'))"
  using assms
proof (induction bmap p sbit bcnt rule: find_clr_bytes.induct)
  case (1 bmap p sbit bcnt)
  show ?case
  proof (cases "8 \<le> bcnt")
    case True
    then have b: "unat (bcnt - 8) = unat bcnt - 8" "8 \<le> unat bcnt"
      by (simp_all add: unat_minus_le word_le_nat_alt)
    then have p: "p < length bmap" using 1(3) by linarith
    have s: "unat (sbit + 8) = 8 * (p + 1)"
      using unat_add_of_nat [of sbit 8] 1(2-4) b(2) by simp
    define r where "r = (if bmap ! p \<noteq> 0xFF then find_clr_bits bmap p sbit 0 8 else Some None)"
    have r_cases: "(\<exists>b. r = Some (Some b) \<and> first_clear bmap (8 * p) (8 * p + 8) (unat b)) \<or>
        r = Some None \<and> all_set bmap (8 * p) (8 * p + 8)"
      using find_clr_bits_ok [of 0 8 p bmap sbit] ff_all_set [OF p] p 1(2,4) by (auto simp: r_def)
    have step: "find_clr_bytes bmap p sbit bcnt = do {
         r \<leftarrow> r; (case r of Some b \<Rightarrow> Some (Inl (Found b))
          | None \<Rightarrow> find_clr_bytes bmap (p + 1) (sbit + 8) (bcnt - 8)) }"
      using True p by (subst find_clr_bytes.simps) (simp add: r_def)
    from r_cases show ?thesis
    proof (elim disjE conjE exE)
      fix x assume x: "r = Some (Some x)" "first_clear bmap (8 * p) (8 * p + 8) (unat x)"
      have "first_clear bmap (8 * p) (8 * p + unat bcnt) (unat x)"
        by (rule first_clear_widen [OF x(2)]) (use b in auto)
      then show ?thesis using x(1) step by simp
    next
      assume x: "r = Some None" "all_set bmap (8 * p) (8 * p + 8)"
      have e: "8 * (p + 1) + unat (bcnt - 8) = 8 * p + unat bcnt" using b by simp
      then have c: "8 * (p + 1) + unat (bcnt - 8) \<le> 8 * length bmap" using 1(3) by simp
      have IH: "(\<exists>b. find_clr_bytes bmap (p + 1) (sbit + 8) (bcnt - 8) = Some (Inl (Found b)) \<and>
            first_clear bmap (8 * (p + 1)) (8 * p + unat bcnt) (unat b)) \<or>
         (\<exists>p' sbit' bcnt'. find_clr_bytes bmap (p + 1) (sbit + 8) (bcnt - 8) = Some (Inr (p', sbit', bcnt')) \<and>
            p + 1 \<le> p' \<and> unat sbit' = 8 * p' \<and> 8 * p' + unat bcnt' = 8 * p + unat bcnt \<and>
            all_set bmap (8 * (p + 1)) (8 * p'))"
        using 1(1) [OF True p x(1) [unfolded r_def] refl s c 1(4)] by (simp only: e)
      have a: "all_set bmap (8 * p) (8 * (p + 1))" using x(2) by (simp add: add.commute)
      from IH show ?thesis
      proof (elim disjE conjE exE)
        fix y assume y: "find_clr_bytes bmap (p + 1) (sbit + 8) (bcnt - 8) = Some (Inl (Found y))"
          "first_clear bmap (8 * (p + 1)) (8 * p + unat bcnt) (unat y)"
        show ?thesis using first_clear_widen [OF y(2) a] y(1) x(1) step by simp
      next
        fix p' s' c' assume y: "find_clr_bytes bmap (p + 1) (sbit + 8) (bcnt - 8) = Some (Inr (p', s', c'))"
          "p + 1 \<le> p'" "unat s' = 8 * p'" "8 * p' + unat c' = 8 * p + unat bcnt" "all_set bmap (8 * (p + 1)) (8 * p')"
        show ?thesis using all_set_join [OF a y(5)] y x(1) step by simp
      qed
    qed
  next
    case False
    then show ?thesis using 1(2) by (subst (1 2) find_clr_bytes.simps) simp
  qed
qed

lemma div8_up: "(x + 7) div 8 = (if x mod 8 = 0 then x div 8 else Suc (x div 8))" for x :: nat
proof -
  have "(x mod 8 + 7) div 8 = (if x mod 8 = 0 then 0 else 1)"
    using mod_less_divisor [of 8 x] by (auto intro: div_nat_eqI)
  then show ?thesis using div_add1_eq [of x 7 8] by simp
qed

lemma same_byte_less: "x mod 8 \<noteq> 0 \<Longrightarrow> m div 8 = x div 8 \<Longrightarrow> m < 8 * ((x + 7) div 8)" for x m :: nat
  using mod_less_divisor [of 8 m] div_mult_mod_eq [of m 8] unfolding div8_up by (simp split: if_splits)

lemma find_clr_prefix_ok:
  assumes "unat i + unat bcnt \<le> 8 * length bmap" "8 * length bmap < 2 ^ 32"
  shows "(\<exists>m. find_clr_prefix bmap sbit i bcnt = Some (Inl (Found sbit)) \<and> unat i mod 8 \<noteq> 0 \<and>
            first_clear bmap (unat i) (unat i + unat bcnt) m \<and> m div 8 = unat i div 8) \<or>
         find_clr_prefix bmap sbit i bcnt = Some (Inl Enospc) \<and> all_set bmap (unat i) (unat i + unat bcnt) \<or>
         (\<exists>i' bcnt'. find_clr_prefix bmap sbit i bcnt = Some (Inr (i', bcnt')) \<and> unat i' mod 8 = 0 \<and>
            unat i \<le> unat i' \<and> unat i' = 8 * ((unat i + 7) div 8) \<and>
            unat i' + unat bcnt' = unat i + unat bcnt \<and> all_set bmap (unat i) (unat i'))"
  using assms
proof (induction bmap sbit i bcnt rule: find_clr_prefix.induct)
  case (1 bmap sbit i bcnt)
  consider "i AND 7 = 0" | "i AND 7 \<noteq> 0" "bcnt = 0" | "i AND 7 \<noteq> 0" "bcnt \<noteq> 0" by blast
  then show ?case
  proof cases
    case 1
    then have "unat i = 8 * ((unat i + 7) div 8)" unfolding and_7_eq_0 div8_up by auto
    then show ?thesis using 1 by (subst (1 2 3) find_clr_prefix.simps) (simp add: and_7_eq_0)
  next
    case 2
    then show ?thesis by (subst (1 2 3) find_clr_prefix.simps) simp
  next
    case 3
    then have b: "Suc (unat (bcnt - 1)) = unat bcnt" by (simp add: unat_minus1)
    then have i: "unat (i + 1) = Suc (unat i)"
      using unat_add_of_nat [of i 1] "1.prems" by simp
    have n: "unat i mod 8 \<noteq> 0" using 3(1) by (simp add: and_7_eq_0)
    have c: "ext4_bmap_is_bit_clr bmap 0 i = Some (unat i \<notin> bset bmap)"
      using is_bit_clr_eq [of 0 i bmap] "1.prems"(1) b by simp
    show ?thesis
    proof (cases "unat i \<in> bset bmap")
      case False
      then have "first_clear bmap (unat i) (unat i + unat bcnt) (unat i)"
        using b by (simp add: first_clear_def)
      then show ?thesis using 3 c False n by (subst (1 2 3) find_clr_prefix.simps) auto
    next
      case True
      have p: "unat (i + 1) + unat (bcnt - 1) = unat i + unat bcnt" using b i by simp
      have a: "all_set bmap (unat i) (unat (i + 1))" using True i by (auto simp: all_set_def less_Suc_eq)
      have r: "8 * ((unat (i + 1) + 7) div 8) = 8 * ((unat i + 7) div 8)"
        using n i unfolding div8_up by (auto simp: div_Suc mod_Suc)
      have step: "find_clr_prefix bmap sbit i bcnt = find_clr_prefix bmap sbit (i + 1) (bcnt - 1)"
        using 3 c True by (subst find_clr_prefix.simps) simp
      have IH: "(\<exists>m. find_clr_prefix bmap sbit i bcnt = Some (Inl (Found sbit)) \<and> unat (i + 1) mod 8 \<noteq> 0 \<and>
            first_clear bmap (unat (i + 1)) (unat i + unat bcnt) m \<and> m div 8 = unat (i + 1) div 8) \<or>
         find_clr_prefix bmap sbit i bcnt = Some (Inl Enospc) \<and> all_set bmap (unat (i + 1)) (unat i + unat bcnt) \<or>
         (\<exists>i' bcnt'. find_clr_prefix bmap sbit i bcnt = Some (Inr (i', bcnt')) \<and> unat i' mod 8 = 0 \<and>
            unat (i + 1) \<le> unat i' \<and> unat i' = 8 * ((unat i + 7) div 8) \<and>
            unat i' + unat bcnt' = unat i + unat bcnt \<and> all_set bmap (unat (i + 1)) (unat i'))"
        using "1.IH" [OF 3 c] True "1.prems" by (simp only: p r step simp_thms)
      have d: "unat (i + 1) mod 8 \<noteq> 0 \<Longrightarrow> unat (i + 1) div 8 = unat i div 8" using n i by (simp add: div_Suc)
      have le: "unat i \<le> unat (i + 1)" using i by simp
      from IH show ?thesis
      proof (elim disjE conjE exE)
        fix m assume m: "find_clr_prefix bmap sbit i bcnt = Some (Inl (Found sbit))" "unat (i + 1) mod 8 \<noteq> 0"
          "first_clear bmap (unat (i + 1)) (unat i + unat bcnt) m" "m div 8 = unat (i + 1) div 8"
        then show ?thesis using first_clear_widen [OF m(3) a le order_refl] n d by auto
      next
        assume m: "find_clr_prefix bmap sbit i bcnt = Some (Inl Enospc)"
          "all_set bmap (unat (i + 1)) (unat i + unat bcnt)"
        then show ?thesis using all_set_join [OF a m(2)] by simp
      next
        fix i' c' assume m: "find_clr_prefix bmap sbit i bcnt = Some (Inr (i', c'))" "unat i' mod 8 = 0"
          "unat (i + 1) \<le> unat i'" "unat i' = 8 * ((unat i + 7) div 8)"
          "unat i' + unat c' = unat i + unat bcnt" "all_set bmap (unat (i + 1)) (unat i')"
        have "unat i \<le> unat i'" using le m(3) by simp
        then show ?thesis using m(1,2,4,5) all_set_join [OF a m(6)]
          by - (intro disjI2 exI [of _ i'] exI [of _ c'] conjI, assumption+)
      qed
    qed
  qed
qed

text \<open>The answer of the search on every bitmap and range.\<close>

lemma bmap_bit_find_clr_ok:
  assumes "sbit \<le> ebit" "unat ebit \<le> 8 * length bmap" "8 * length bmap < 2 ^ 32"
  shows "all_set bmap (unat sbit) (unat ebit) \<and> ext4_bmap_bit_find_clr bmap sbit ebit = Some Enospc \<or>
    (\<exists>m. first_clear bmap (unat sbit) (unat ebit) m \<and>
       ext4_bmap_bit_find_clr bmap sbit ebit =
         Some (Found (if m < 8 * ((unat sbit + 7) div 8) then sbit else of_nat m)))"
proof -
  let ?s = "unat sbit" and ?e = "unat ebit"
  have b: "?s + unat (ebit - sbit) = ?e" using assms(1) by (simp add: unat_minus_le word_le_nat_alt)
  from find_clr_prefix_ok [of sbit "ebit - sbit" bmap sbit] assms(2,3) b
  consider m where "find_clr_prefix bmap sbit sbit (ebit - sbit) = Some (Inl (Found sbit))" "?s mod 8 \<noteq> 0"
      "first_clear bmap ?s ?e m" "m div 8 = ?s div 8"
    | "find_clr_prefix bmap sbit sbit (ebit - sbit) = Some (Inl Enospc)" "all_set bmap ?s ?e"
    | i c where "find_clr_prefix bmap sbit sbit (ebit - sbit) = Some (Inr (i, c))" "unat i mod 8 = 0"
      "?s \<le> unat i" "unat i = 8 * ((?s + 7) div 8)" "unat i + unat c = ?e" "all_set bmap ?s (unat i)"
    by auto
  then show ?thesis
  proof cases
    case 1
    then have "m < 8 * ((?s + 7) div 8)" by (intro same_byte_less)
    then show ?thesis using 1 by (auto simp: ext4_bmap_bit_find_clr_def)
  next
    case 2
    then show ?thesis by (simp add: ext4_bmap_bit_find_clr_def)
  next
    case 3
    let ?p = "unat (drop_bit 3 i)"
    have p: "unat i = 8 * ?p" using 3(2) by (auto simp: unat_div_8)
    have pc: "8 * ?p + unat c = ?e" using 3(5) p by simp
    have later: ?thesis if r: "ext4_bmap_bit_find_clr bmap sbit ebit = Some (Found x)"
      and f: "first_clear bmap a ?e (unat x)" and a: "all_set bmap (8 * ?p) a" "8 * ?p \<le> a" for x a
    proof -
      have "first_clear bmap ?s ?e (unat x)"
        by (rule first_clear_widen [OF f all_set_join [OF 3(6)]]) (use a p 3(3) in simp_all)
      moreover have "\<not> unat x < 8 * ((?s + 7) div 8)" using f a(2) p 3(4) by (simp add: first_clear_def)
      ultimately show ?thesis using r
        by - (intro disjI2 exI [of _ "unat x"] conjI, assumption, simp)
    qed
    consider x where "find_clr_bytes bmap ?p i c = Some (Inl (Found x))" "first_clear bmap (8 * ?p) ?e (unat x)"
      | p2 s2 c2 where "find_clr_bytes bmap ?p i c = Some (Inr (p2, s2, c2))" "?p \<le> p2" "unat s2 = 8 * p2"
        "8 * p2 + unat c2 = ?e" "all_set bmap (8 * ?p) (8 * p2)"
      using find_clr_bytes_ok [OF p _ assms(3), of c] pc assms(2) by auto
    then show ?thesis
    proof cases
      case 1
      then show ?thesis using 3(1) by (intro later [OF _ 1(2)]) (simp_all add: ext4_bmap_bit_find_clr_def)
    next
      case q: 2
      have "8 * p2 + unat c2 \<le> 8 * length bmap" using q(4) assms(2) by simp
      then consider x where "find_clr_bits bmap p2 s2 0 c2 = Some (Some x)" "first_clear bmap (8 * p2) ?e (unat x)"
        | "find_clr_bits bmap p2 s2 0 c2 = Some None" "all_set bmap (8 * p2) ?e"
        using find_clr_bits_ok [of 0 c2 p2 bmap s2] q(3,4) assms(3) by auto
      then show ?thesis
      proof cases
        case 1
        then show ?thesis using 3(1) q(1,2,5)
          by (intro later [OF _ 1(2)]) (simp_all add: ext4_bmap_bit_find_clr_def)
      next
        case 2
        then have "all_set bmap ?s ?e" using all_set_join [OF 3(6), of "8 * p2"] all_set_join q(5) p by metis
        then show ?thesis using 2 3(1) q(1) by (simp add: ext4_bmap_bit_find_clr_def)
      qed
    qed
  qed
qed

section \<open>Properties\<close>

text \<open>
  C37: \<open>ext4_bmap_bits_free\<close> terminates inside the bitmap and clears exactly the bits of the range
  from \<open>sbit\<close> on, whatever its alignment; every other bit keeps its value.
\<close>

theorem bmap_bits_free_clears:
  assumes "unat sbit + unat bcnt \<le> 8 * length bmap" "8 * length bmap < 2 ^ 32"
  shows "\<exists>bmap'. ext4_bmap_bits_free bmap sbit bcnt = Some bmap' \<and> length bmap' = length bmap \<and>
     bset bmap' = bset bmap - {unat sbit..<unat sbit + unat bcnt}"
  using bmap_bits_free_ok [OF assms] unfolding clears_def by metis

theorem bmap_bits_free_clears_witness:
  "\<exists>bmap'. ext4_bmap_bits_free [0xFF, 0xFF, 0xFF] 5 10 = Some bmap' \<and> length bmap' = 3 \<and>
     bset bmap' = bset [0xFF, 0xFF, 0xFF] - {5..<15}"
  using bmap_bits_free_clears [of 5 10 "[0xFF, 0xFF, 0xFF]"] by (simp add: numeral_3_eq_3)

text \<open>
  C38: from a byte aligned start \<open>ext4_bmap_bit_find_clr\<close> returns the first clear bit of the range, and
  \<open>ENOSPC\<close> exactly when every bit of the range is set.
\<close>

theorem bmap_find_clr_first:
  assumes "unat sbit mod 8 = 0" "sbit \<le> ebit" "unat ebit \<le> 8 * length bmap" "8 * length bmap < 2 ^ 32"
  shows "(ext4_bmap_bit_find_clr bmap sbit ebit = Some Enospc \<longleftrightarrow> {unat sbit..<unat ebit} \<subseteq> bset bmap) \<and>
    (\<forall>b. ext4_bmap_bit_find_clr bmap sbit ebit = Some (Found b) \<longrightarrow>
       sbit \<le> b \<and> b < ebit \<and> unat b \<notin> bset bmap \<and> {unat sbit..<unat b} \<subseteq> bset bmap) \<and>
    ext4_bmap_bit_find_clr bmap sbit ebit \<noteq> None"
proof -
  from bmap_bit_find_clr_ok [OF assms(2-4)] show ?thesis
  proof (elim disjE conjE exE)
    assume "all_set bmap (unat sbit) (unat ebit)" "ext4_bmap_bit_find_clr bmap sbit ebit = Some Enospc"
    then show ?thesis by (simp add: all_set_def)
  next
    fix m assume m: "first_clear bmap (unat sbit) (unat ebit) m" "ext4_bmap_bit_find_clr bmap sbit ebit =
      Some (Found (if m < 8 * ((unat sbit + 7) div 8) then sbit else of_nat m))"
    have "8 * ((unat sbit + 7) div 8) = unat sbit" using assms(1) unfolding div8_up by auto
    then have r: "ext4_bmap_bit_find_clr bmap sbit ebit = Some (Found (of_nat m))"
      using m by (simp add: first_clear_def)
    have "unat (of_nat m :: u32) = m"
      using m(1) unat_lt_pow2 [of ebit] by (intro unat_of_nat_small) (simp add: first_clear_def)
    then show ?thesis using m(1) r
      by (auto simp: first_clear_def all_set_def word_le_nat_alt word_less_nat_alt)
  qed
qed

theorem bmap_find_clr_first_witness:
  "unat (8 :: u32) mod 8 = 0 \<and> ext4_bmap_bit_find_clr [0, 0xFF, 0x0F] 8 24 \<noteq> None"
  using bmap_find_clr_first [of 8 24 "[0, 0xFF, 0x0F]"] by (simp add: word_le_nat_alt)

text \<open>
  C39: from a start inside a byte \<open>ext4_bmap_bit_find_clr\<close> answers with the start of the range when
  the first clear bit is a later one of the same byte, although the bit at the start is in use.
\<close>

theorem bmap_find_clr_returns_used_bit:
  assumes "unat sbit mod 8 \<noteq> 0" "sbit \<le> ebit" "unat ebit \<le> 8 * length bmap" "8 * length bmap < 2 ^ 32"
    "unat sbit \<in> bset bmap" "m div 8 = unat sbit div 8" "unat sbit < m" "m < unat ebit" "m \<notin> bset bmap"
  shows "ext4_bmap_bit_find_clr bmap sbit ebit = Some (Found sbit)"
proof -
  from bmap_bit_find_clr_ok [OF assms(2-4)] show ?thesis
  proof (elim disjE conjE exE)
    assume "all_set bmap (unat sbit) (unat ebit)"
    then have "m \<in> bset bmap" using assms(7,8) by (force simp: all_set_def)
    then show ?thesis using assms(9) by simp
  next
    fix k assume k: "first_clear bmap (unat sbit) (unat ebit) k" "ext4_bmap_bit_find_clr bmap sbit ebit =
      Some (Found (if k < 8 * ((unat sbit + 7) div 8) then sbit else of_nat k))"
    have "k \<le> m" using k(1) assms(7-9) 
      by (metis all_set_def atLeastLessThan_iff first_clear_def leI less_imp_le subsetD)
    then have "k < 8 * ((unat sbit + 7) div 8)" using same_byte_less [OF assms(1,6)] by simp
    then show ?thesis using k(2) by simp
  qed
qed

theorem bmap_find_clr_returns_used_bit_witness:
  "ext4_bmap_bit_find_clr [0x02] 1 8 = Some (Found 1) \<and> 1 \<in> bset [0x02]"
proof -
  have m: "bit (2 :: u8) 1" "\<not> bit (2 :: u8) 2" by simp_all
  show ?thesis using bmap_find_clr_returns_used_bit [of 1 8 "[0x02]" 2] m
    by (simp add: bset_def word_le_nat_alt)
qed

end
