(* ===== verification/Ext4_Super.thy ===== *)
theory Ext4_Super
  imports Ext4_Crc
begin

text \<open>
  The superblock of lwext4 (\<open>ext4_super.h\<close>, \<open>ext4_super.c\<close>): the accessors of the split counters and
  of the feature words, the block group arithmetic, the checksum, the validation and the placement of
  superblock copies. A division by a zero field is the value \<open>None\<close>. The shift in
  \<open>ext4_sb_get_block_size\<close> is defined in C for \<open>log_block_size\<close> below 21 only; the facts that depend on it
  say so.
\<close>

section \<open>Constants\<close>

definition EXT4_CHECKSUM_CRC32C :: u8 where "EXT4_CHECKSUM_CRC32C = 1"
definition EXT4_SUPERBLOCK_MAGIC :: u16 where "EXT4_SUPERBLOCK_MAGIC = 0xEF53"
definition EXT4_SUPERBLOCK_SIZE :: u32 where "EXT4_SUPERBLOCK_SIZE = 1024"
definition EXT4_SUPERBLOCK_OFFSET :: u64 where "EXT4_SUPERBLOCK_OFFSET = 1024"
definition EXT4_SUPERBLOCK_OS_LINUX :: u32 where "EXT4_SUPERBLOCK_OS_LINUX = 0"
definition EXT4_SUPERBLOCK_OS_HURD :: u32 where "EXT4_SUPERBLOCK_OS_HURD = 1"
definition EXT4_FRO_COM_SPARSE_SUPER :: u32 where "EXT4_FRO_COM_SPARSE_SUPER = 0x0001"
definition EXT4_FRO_COM_HUGE_FILE :: u32 where "EXT4_FRO_COM_HUGE_FILE = 0x0008"
definition EXT4_FRO_COM_GDT_CSUM :: u32 where "EXT4_FRO_COM_GDT_CSUM = 0x0010"
definition EXT4_FRO_COM_METADATA_CSUM :: u32 where "EXT4_FRO_COM_METADATA_CSUM = 0x0400"
definition EXT4_FINCOM_META_BG :: u32 where "EXT4_FINCOM_META_BG = 0x0010"
definition EXT4_CRC32_INIT :: u32 where "EXT4_CRC32_INIT = 0xFFFFFFFF"
definition EXT4_MIN_BLOCK_GROUP_DESCRIPTOR_SIZE :: u16 where "EXT4_MIN_BLOCK_GROUP_DESCRIPTOR_SIZE = 32"
definition EXT4_MAX_BLOCK_GROUP_DESCRIPTOR_SIZE :: u16 where "EXT4_MAX_BLOCK_GROUP_DESCRIPTOR_SIZE = 64"

lemmas sb_consts = EXT4_CHECKSUM_CRC32C_def EXT4_SUPERBLOCK_MAGIC_def EXT4_SUPERBLOCK_SIZE_def
  EXT4_SUPERBLOCK_OFFSET_def EXT4_SUPERBLOCK_OS_LINUX_def EXT4_SUPERBLOCK_OS_HURD_def
  EXT4_FRO_COM_SPARSE_SUPER_def EXT4_FRO_COM_HUGE_FILE_def EXT4_FRO_COM_GDT_CSUM_def
  EXT4_FRO_COM_METADATA_CSUM_def EXT4_FINCOM_META_BG_def EXT4_CRC32_INIT_def
  EXT4_MIN_BLOCK_GROUP_DESCRIPTOR_SIZE_def EXT4_MAX_BLOCK_GROUP_DESCRIPTOR_SIZE_def

abbreviation sb32 :: "image \<Rightarrow> string \<Rightarrow> u32" where "sb32 s f \<equiv> ext4_get32 ext4_sblock s f"
abbreviation sb16 :: "image \<Rightarrow> string \<Rightarrow> u16" where "sb16 s f \<equiv> ext4_get16 ext4_sblock s f"
abbreviation sb8 :: "image \<Rightarrow> string \<Rightarrow> u8" where "sb8 s f \<equiv> ext4_get8 ext4_sblock s f"

definition udiv :: "'a::len word \<Rightarrow> 'a word \<Rightarrow> 'a word option" where
  "udiv a b = (if b = 0 then None else Some (a div b))"

section \<open>Accessors\<close>

definition ext4_sb_get_blocks_cnt :: "image \<Rightarrow> u64" where
  "ext4_sb_get_blocks_cnt s =
     push_bit 32 (ucast (sb32 s ''blocks_count_hi'')) OR ucast (sb32 s ''blocks_count_lo'')"

definition ext4_sb_set_blocks_cnt :: "image \<Rightarrow> u64 \<Rightarrow> image" where
  "ext4_sb_set_blocks_cnt s cnt = (let
     s = ext4_set32 ext4_sblock s ''blocks_count_lo'' (ucast (drop_bit 32 (push_bit 32 cnt)))
     in ext4_set32 ext4_sblock s ''blocks_count_hi'' (ucast (drop_bit 32 cnt)))"

definition ext4_sb_get_free_blocks_cnt :: "image \<Rightarrow> u64" where
  "ext4_sb_get_free_blocks_cnt s =
     push_bit 32 (ucast (sb32 s ''free_blocks_count_hi'')) OR ucast (sb32 s ''free_blocks_count_lo'')"

definition ext4_sb_set_free_blocks_cnt :: "image \<Rightarrow> u64 \<Rightarrow> image" where
  "ext4_sb_set_free_blocks_cnt s cnt = (let
     s = ext4_set32 ext4_sblock s ''free_blocks_count_lo'' (ucast (drop_bit 32 (push_bit 32 cnt)))
     in ext4_set32 ext4_sblock s ''free_blocks_count_hi'' (ucast (drop_bit 32 cnt)))"

definition ext4_sb_get_block_size :: "image \<Rightarrow> u32" where
  "ext4_sb_get_block_size s = push_bit (unat (sb32 s ''log_block_size'')) 1024"

definition ext4_sb_get_desc_size :: "image \<Rightarrow> u16" where
  "ext4_sb_get_desc_size s = (let sz = sb16 s ''desc_size'' in
     if sz < EXT4_MIN_BLOCK_GROUP_DESCRIPTOR_SIZE then EXT4_MIN_BLOCK_GROUP_DESCRIPTOR_SIZE else sz)"

definition ext4_sb_check_flag :: "image \<Rightarrow> u32 \<Rightarrow> bool" where
  "ext4_sb_check_flag s v \<longleftrightarrow> sb32 s ''flags'' AND v \<noteq> 0"

definition ext4_sb_feature_com :: "image \<Rightarrow> u32 \<Rightarrow> bool" where
  "ext4_sb_feature_com s v \<longleftrightarrow> sb32 s ''features_compatible'' AND v \<noteq> 0"

definition ext4_sb_feature_incom :: "image \<Rightarrow> u32 \<Rightarrow> bool" where
  "ext4_sb_feature_incom s v \<longleftrightarrow> sb32 s ''features_incompatible'' AND v \<noteq> 0"

definition ext4_sb_feature_ro_com :: "image \<Rightarrow> u32 \<Rightarrow> bool" where
  "ext4_sb_feature_ro_com s v \<longleftrightarrow> sb32 s ''features_read_only'' AND v \<noteq> 0"

definition ext4_sb_bg_to_flex :: "image \<Rightarrow> u32 \<Rightarrow> u32" where
  "ext4_sb_bg_to_flex s block_group = drop_bit (unat (sb8 s ''log_groups_per_flex'')) block_group"

definition ext4_sb_flex_bg_size :: "image \<Rightarrow> u32" where
  "ext4_sb_flex_bg_size s = push_bit (unat (sb8 s ''log_groups_per_flex'')) 1"

definition ext4_sb_first_meta_bg :: "image \<Rightarrow> u32" where
  "ext4_sb_first_meta_bg s = sb32 s ''first_meta_bg''"

section \<open>Block groups\<close>

definition ext4_block_group_cnt :: "image \<Rightarrow> u32 option" where
  "ext4_block_group_cnt s = (let
     blocks_count = ext4_sb_get_blocks_cnt s;
     blocks_per_group = sb32 s ''blocks_per_group'' in do {
     q \<leftarrow> udiv blocks_count (ucast blocks_per_group);
     let block_groups_count = (ucast q :: u32);
     Some (if blocks_count mod ucast blocks_per_group \<noteq> 0 then block_groups_count + 1
           else block_groups_count) })"

definition ext4_blocks_in_group_cnt :: "image \<Rightarrow> u32 \<Rightarrow> u32 option" where
  "ext4_blocks_in_group_cnt s bgid = do {
     block_group_count \<leftarrow> ext4_block_group_cnt s;
     let blocks_per_group = sb32 s ''blocks_per_group'';
     let total_blocks = ext4_sb_get_blocks_cnt s;
     Some (if bgid < block_group_count - 1 then blocks_per_group
           else ucast (total_blocks - ucast ((block_group_count - 1) * blocks_per_group))) }"

definition ext4_inodes_in_group_cnt :: "image \<Rightarrow> u32 \<Rightarrow> u32 option" where
  "ext4_inodes_in_group_cnt s bgid = do {
     block_group_count \<leftarrow> ext4_block_group_cnt s;
     let inodes_per_group = sb32 s ''inodes_per_group'';
     let total_inodes = sb32 s ''inodes_count'';
     Some (if bgid < block_group_count - 1 then inodes_per_group
           else total_inodes - (block_group_count - 1) * inodes_per_group) }"

section \<open>Checksum and validation\<close>

definition ext4_sb_csum :: "image \<Rightarrow> u32" where
  "ext4_sb_csum s = ext4_crc32c EXT4_CRC32_INIT (take (offsetof ext4_sblock ''checksum'') s)"

definition ext4_sb_verify_csum :: "image \<Rightarrow> bool" where
  "ext4_sb_verify_csum s \<longleftrightarrow>
    (if \<not> ext4_sb_feature_ro_com s EXT4_FRO_COM_METADATA_CSUM then True
     else if sb8 s ''checksum_type'' \<noteq> EXT4_CHECKSUM_CRC32C then False
     else sb32 s ''checksum'' = ext4_sb_csum s)"

definition ext4_sb_set_csum :: "image \<Rightarrow> image" where
  "ext4_sb_set_csum s =
    (if \<not> ext4_sb_feature_ro_com s EXT4_FRO_COM_METADATA_CSUM then s
     else ext4_set32 ext4_sblock s ''checksum'' (ext4_sb_csum s))"

definition ext4_sb_check :: "image \<Rightarrow> bool" where
  "ext4_sb_check s \<longleftrightarrow>
    (if sb16 s ''magic'' \<noteq> EXT4_SUPERBLOCK_MAGIC then False
     else if sb32 s ''inodes_count'' = 0 then False
     else if ext4_sb_get_blocks_cnt s = 0 then False
     else if sb32 s ''blocks_per_group'' = 0 then False
     else if sb32 s ''inodes_per_group'' = 0 then False
     else if sb16 s ''inode_size'' < 128 then False
     else if sb32 s ''first_inode'' < 11 then False
     else if ext4_sb_get_desc_size s < EXT4_MIN_BLOCK_GROUP_DESCRIPTOR_SIZE then False
     else if ext4_sb_get_desc_size s > EXT4_MAX_BLOCK_GROUP_DESCRIPTOR_SIZE then False
     else if \<not> ext4_sb_verify_csum s then False
     else True)"

section \<open>Superblock copies\<close>

text \<open>The loop of \<open>is_power_of\<close>; it does not end for \<open>b = 1\<close> and divides by zero for \<open>b = 0\<close>.\<close>

partial_function (option) is_power_of :: "u32 \<Rightarrow> u32 \<Rightarrow> bool option" where
  "is_power_of a b =
    (if a < b then Some False
     else if a = b then Some True
     else if b = 0 then None
     else if a mod b \<noteq> 0 then Some False
     else is_power_of (a div b) b)"

declare is_power_of.simps [code]

definition ext4_sb_sparse :: "u32 \<Rightarrow> bool option" where
  "ext4_sb_sparse grp =
    (if grp \<le> 1 then Some True
     else if grp AND 1 = 0 then Some False
     else do {
       p7 \<leftarrow> is_power_of grp 7;
       if p7 then Some True else do {
         p5 \<leftarrow> is_power_of grp 5;
         if p5 then Some True else is_power_of grp 3 } })"

definition ext4_sb_is_super_in_bg :: "image \<Rightarrow> u32 \<Rightarrow> bool option" where
  "ext4_sb_is_super_in_bg s grp =
    (if ext4_sb_feature_ro_com s EXT4_FRO_COM_SPARSE_SUPER then ext4_sb_sparse grp else Some True)"

definition dsc_per_block :: "image \<Rightarrow> u32" where
  "dsc_per_block s = ext4_sb_get_block_size s div ucast (ext4_sb_get_desc_size s)"

definition ext4_bg_num_gdb_meta :: "image \<Rightarrow> u32 \<Rightarrow> u32 option" where
  "ext4_bg_num_gdb_meta s grp = do {
     metagroup \<leftarrow> udiv grp (dsc_per_block s);
     let first = metagroup * dsc_per_block s;
     let last = first + dsc_per_block s - 1;
     Some (if grp = first \<or> grp = first + 1 \<or> grp = last then 1 else 0) }"

definition ext4_bg_num_gdb_nometa :: "image \<Rightarrow> u32 \<Rightarrow> u32 option" where
  "ext4_bg_num_gdb_nometa s grp = do {
     super \<leftarrow> ext4_sb_is_super_in_bg s grp;
     if \<not> super then Some 0
     else do {
       cnt \<leftarrow> ext4_block_group_cnt s;
       db_count \<leftarrow> udiv (cnt + dsc_per_block s - 1) (dsc_per_block s);
       Some (if ext4_sb_feature_incom s EXT4_FINCOM_META_BG then ext4_sb_first_meta_bg s else db_count) } }"

definition ext4_bg_num_gdb :: "image \<Rightarrow> u32 \<Rightarrow> u32 option" where
  "ext4_bg_num_gdb s grp = do {
     metagroup \<leftarrow> udiv grp (dsc_per_block s);
     if \<not> ext4_sb_feature_incom s EXT4_FINCOM_META_BG \<or> metagroup < ext4_sb_first_meta_bg s
     then ext4_bg_num_gdb_nometa s grp
     else ext4_bg_num_gdb_meta s grp }"

definition ext4_num_base_meta_clusters :: "image \<Rightarrow> u32 \<Rightarrow> u32 option" where
  "ext4_num_base_meta_clusters s block_group = do {
     super \<leftarrow> ext4_sb_is_super_in_bg s block_group;
     let num = (if super then 1 else 0 :: u32);
     num \<leftarrow>
       (if \<not> ext4_sb_feature_incom s EXT4_FINCOM_META_BG \<or>
           block_group < ext4_sb_first_meta_bg s * dsc_per_block s
        then if num \<noteq> 0 then do {
            gdb \<leftarrow> ext4_bg_num_gdb s block_group;
            Some (num + gdb + ucast (sb16 s ''s_reserved_gdt_blocks'')) }
          else Some num
        else do {
          gdb \<leftarrow> ext4_bg_num_gdb s block_group;
          Some (num + gdb) });
     let clustersize = (push_bit (unat (sb32 s ''log_cluster_size'')) 1024 :: u32);
     cluster_ratio \<leftarrow> udiv clustersize (ext4_sb_get_block_size s);
     Some (drop_bit (unat (sb32 s ''log_cluster_size'')) (num + cluster_ratio - 1)) }"

lemma sb_offsets [layout]:
  "offsetof ext4_sblock ''inodes_count'' = 0"
  "offsetof ext4_sblock ''blocks_count_lo'' = 4"
  "offsetof ext4_sblock ''free_blocks_count_lo'' = 12"
  "offsetof ext4_sblock ''free_inodes_count'' = 16"
  "offsetof ext4_sblock ''first_data_block'' = 20"
  "offsetof ext4_sblock ''log_block_size'' = 24"
  "offsetof ext4_sblock ''log_cluster_size'' = 28"
  "offsetof ext4_sblock ''blocks_per_group'' = 32"
  "offsetof ext4_sblock ''inodes_per_group'' = 40"
  "offsetof ext4_sblock ''magic'' = 56"
  "offsetof ext4_sblock ''creator_os'' = 72"
  "offsetof ext4_sblock ''rev_level'' = 76"
  "offsetof ext4_sblock ''first_inode'' = 84"
  "offsetof ext4_sblock ''inode_size'' = 88"
  "offsetof ext4_sblock ''features_compatible'' = 92"
  "offsetof ext4_sblock ''features_incompatible'' = 96"
  "offsetof ext4_sblock ''features_read_only'' = 100"
  "offsetof ext4_sblock ''uuid'' = 104"
  "offsetof ext4_sblock ''desc_size'' = 254"
  "offsetof ext4_sblock ''blocks_count_hi'' = 336"
  "offsetof ext4_sblock ''free_blocks_count_hi'' = 344"
  "offsetof ext4_sblock ''first_meta_bg'' = 260"
  "offsetof ext4_sblock ''flags'' = 352"
  "offsetof ext4_sblock ''log_groups_per_flex'' = 372"
  "offsetof ext4_sblock ''checksum_type'' = 373"
  "offsetof ext4_sblock ''checksum'' = 1020"
  by code_simp+


section \<open>Split counters\<close>

lemma halves64: "push_bit 32 (ucast (ucast (drop_bit 32 n) :: u32)) OR ucast (ucast n :: u32) = n" for n :: u64
  by (rule bit_word_eqI) (auto simp: bit_simps)

lemma low_half: "(ucast (drop_bit 32 (push_bit 32 n)) :: u32) = ucast n" for n :: u64
  by (rule bit_word_eqI) (auto simp: bit_simps)

lemma halves32: "(ucast (ucast n :: u16) :: u32) OR push_bit 16 (ucast (ucast (drop_bit 16 n) :: u16)) = n" for n :: u32
  by (rule bit_word_eqI) (auto simp: bit_simps)

lemma low_half32: "(ucast (drop_bit 16 (push_bit 16 n)) :: u16) = ucast n" for n :: u32
  by (rule bit_word_eqI) (auto simp: bit_simps)

lemma sb_counts_length [simp]:
  "length (ext4_sb_set_blocks_cnt s n) = length s" "length (ext4_sb_set_free_blocks_cnt s n) = length s"
  by (simp_all add: ext4_sb_set_blocks_cnt_def ext4_sb_set_free_blocks_cnt_def access_defs)

lemma sb_blocks_cnt_set: "length s = 1024 \<Longrightarrow> ext4_sb_get_blocks_cnt (ext4_sb_set_blocks_cnt s n) = n"
  by (simp add: ext4_sb_get_blocks_cnt_def ext4_sb_set_blocks_cnt_def access_defs layout field low_half halves64)

lemma sb_free_blocks_cnt_set:
  "length s = 1024 \<Longrightarrow> ext4_sb_get_free_blocks_cnt (ext4_sb_set_free_blocks_cnt s n) = n"
  by (simp add: ext4_sb_get_free_blocks_cnt_def ext4_sb_set_free_blocks_cnt_def access_defs layout field low_half halves64)

lemma sb_counts_independent:
  "ext4_sb_get_free_blocks_cnt (ext4_sb_set_blocks_cnt s n) = ext4_sb_get_free_blocks_cnt s"
  "ext4_sb_get_blocks_cnt (ext4_sb_set_free_blocks_cnt s n) = ext4_sb_get_blocks_cnt s"
  by (simp_all add: ext4_sb_get_free_blocks_cnt_def ext4_sb_set_free_blocks_cnt_def ext4_sb_get_blocks_cnt_def
        ext4_sb_set_blocks_cnt_def access_defs layout field)

section \<open>Block groups cover the device\<close>

lemma block_group_cnt_eq:
  fixes s defines "n \<equiv> unat (ext4_sb_get_blocks_cnt s)" and "k \<equiv> unat (sb32 s ''blocks_per_group'')"
  assumes "0 < k" "n + k \<le> 2 ^ 32"
  obtains g where "ext4_block_group_cnt s = Some g" "unat g = (n + k - 1) div k"
proof -
  let ?N = "ext4_sb_get_blocks_cnt s" and ?K = "ucast (sb32 s ''blocks_per_group'') :: u64"
  have K: "unat ?K = k" by (simp add: k_def unat_ucast_up)
  then have K0: "?K \<noteq> 0" using assms(3) by auto
  have le: "n div k \<le> n" by simp
  then have "n div k < 2 ^ 32" using assms(3,4) by linarith
  moreover have "unat (?N div ?K) = n div k" by (simp add: unat_div_distrib K flip: n_def)
  ultimately have q: "unat (ucast (?N div ?K) :: u32) = n div k"
    by (simp add: unat_ucast_mod [of "?N div ?K"])
  have m: "?N mod ?K \<noteq> 0 \<longleftrightarrow> n mod k \<noteq> 0" by (simp add: unat_mod_distrib K flip: n_def unat_eq_zero)
  have d: "(n + k - 1) div k = (if n mod k \<noteq> 0 then Suc (n div k) else n div k)"
  proof (cases "n mod k = 0")
    case True
    then obtain c where c: "n = k * c" by auto
    have "(n + k - 1) div k = c" by (rule div_nat_eqI) (use c assms(3) in auto)
    then show ?thesis using c True assms(3) by simp
  next
    case False
    then have "0 < n mod k" by simp
    then have "n + k - 1 = (n mod k - 1) + k * Suc (n div k)"
      using mult_div_mod_eq [of k n] unfolding mult_Suc_right by linarith
    moreover have "n mod k - 1 < k" using assms(3) mod_less_divisor [of k n] by linarith
    ultimately have "(n + k - 1) div k = Suc (n div k)" using assms(3) by (simp only: div_mult_self2) simp
    then show ?thesis using False by simp
  qed
  show ?thesis
  proof (cases "n mod k = 0")
    case True
    then show ?thesis using q d m K0 by (intro that) (simp_all add: ext4_block_group_cnt_def udiv_def)
  next
    case False
    have "Suc (n div k) < 2 ^ 32"
    proof -
      have "k \<noteq> 1" using False by auto
      then have "2 \<le> k" using assms(3) by linarith
      then show ?thesis using assms(4) le by linarith
    qed
    then have "unat ((ucast (?N div ?K) :: u32) + 1) = Suc (n div k)"
      using unat_add_of_nat [of "ucast (?N div ?K) :: u32" 1] q by simp
    then show ?thesis using d m K0 False by (intro that) (simp_all add: ext4_block_group_cnt_def udiv_def)
  qed
qed


lemma sum_lessThan_pred: "0 < g \<Longrightarrow> (\<Sum>i<g. f i) = (\<Sum>i<g - 1. f i) + f (g - 1)" for f :: "nat \<Rightarrow> nat"
  by (cases g) simp_all

lemma blocks_in_group_cnt_eq:
  fixes s defines "n \<equiv> unat (ext4_sb_get_blocks_cnt s)" and "k \<equiv> unat (sb32 s ''blocks_per_group'')"
  assumes "0 < k" "0 < n" "n + k \<le> 2 ^ 32" "unat bgid < (n + k - 1) div k"
  obtains c where "ext4_blocks_in_group_cnt s bgid = Some c"
    "unat c = (if Suc (unat bgid) < (n + k - 1) div k then k else n - ((n + k - 1) div k - 1) * k)"
proof -
  obtain g where g: "ext4_block_group_cnt s = Some g" "unat g = (n + k - 1) div k"
    using block_group_cnt_eq [of s] assms(3,5) unfolding n_def k_def by blast
  let ?b = "(g - 1) * sb32 s ''blocks_per_group''"
  have g1: "g \<noteq> 0" using g(2) assms(6) by auto
  then have p: "unat (g - 1) = (n + k - 1) div k - 1" using g(2) by (simp add: unat_minus_one)
  have "(n + k - 1) div k * k \<le> n + k - 1" by simp
  then have le: "((n + k - 1) div k - 1) * k \<le> n - 1" 
    using assms(3,4) unfolding diff_mult_distrib by linarith
  then have "unat ?b = ((n + k - 1) div k - 1) * k"
    using assms(3,4,5) by (simp add: unat_word_ariths p flip: k_def)
  moreover from this le have "unat (ucast ?b :: u64) = ((n + k - 1) div k - 1) * k"
    by (simp add: unat_ucast_up)
  ultimately have d: "unat (ext4_sb_get_blocks_cnt s - ucast ?b) = n - ((n + k - 1) div k - 1) * k"
    using le assms(4) by (subst unat_minus_le) (simp_all add: word_le_nat_alt flip: n_def)
  then have e: "unat (ucast (ext4_sb_get_blocks_cnt s - ucast ?b) :: u32) = n - ((n + k - 1) div k - 1) * k"
    using assms(3,5) by (simp add: unat_ucast_mod [of "ext4_sb_get_blocks_cnt s - ucast ?b"])
  have c: "bgid < g - 1 \<longleftrightarrow> Suc (unat bgid) < (n + k - 1) div k"
    using p by (simp add: word_less_nat_alt less_diff_conv)
  show ?thesis
    by (rule that [of "if bgid < g - 1 then sb32 s ''blocks_per_group''
          else ucast (ext4_sb_get_blocks_cnt s - ucast ?b)"])
       (simp_all add: ext4_blocks_in_group_cnt_def g(1) e c flip: k_def)
qed


section \<open>Placement of superblock copies\<close>

lemma is_power_of_eq:
  assumes "1 < b"
  shows "is_power_of a b = Some (\<exists>k. unat a = unat b ^ Suc k)"
proof (induction "unat a" arbitrary: a rule: less_induct)
  case less
  have b: "1 < unat b" using assms by (simp add: word_less_nat_alt)
  consider "unat a < unat b" | "a = b" | "unat b < unat a" by (metis linorder_neqE_nat word_unat_eq_iff)
  then show ?case
  proof cases
    case 1
    then have "unat a \<noteq> unat b ^ Suc k" for k
      using b self_le_power [of "unat b" "Suc k"] by auto
    then show ?thesis using 1 by (subst is_power_of.simps) (simp add: word_less_nat_alt)
  next
    case 2
    then have "unat a = unat b ^ Suc 0" by simp
    then have "\<exists>k. unat a = unat b ^ Suc k" ..
    then show ?thesis using 2 by (subst is_power_of.simps) simp
  next
    case 3
    have b0: "b \<noteq> 0" "a \<noteq> b" "\<not> a < b" using 3 b by (auto simp: word_less_nat_alt)
    show ?thesis
    proof (cases "a mod b = 0")
      case False
      then have "unat a mod unat b \<noteq> 0" by (simp add: unat_mod_distrib flip: unat_eq_zero)
      then have "unat a \<noteq> unat b ^ Suc k" for k by (auto simp: mod_mult_self1_is_0)
      then show ?thesis using False b0 by (subst is_power_of.simps) simp
    next
      case True
      then have m: "unat a mod unat b = 0" by (simp add: unat_mod_distrib flip: unat_eq_zero)
      have d: "unat (a div b) = unat a div unat b" by (simp add: unat_div_distrib)
      then have "unat (a div b) < unat a" using 3 b by (simp add: div_less_dividend)
      then have IH: "is_power_of (a div b) b = Some (\<exists>k. unat a div unat b = unat b ^ Suc k)"
        using less d by simp
      have "unat a div unat b = unat b ^ Suc k \<longleftrightarrow> unat a = unat b ^ Suc (Suc k)" for k
        using m b by (auto simp: mod_eq_0_iff_dvd dvd_div_eq_mult mult.commute)
      moreover have "unat a \<noteq> unat b ^ Suc 0" using 3 by simp
      ultimately have "(\<exists>k. unat a div unat b = unat b ^ Suc k) \<longleftrightarrow> (\<exists>k. unat a = unat b ^ Suc k)"
        by (metis not0_implies_Suc)
      then show ?thesis using IH True b0 by (subst is_power_of.simps) simp
    qed
  qed
qed

definition power_of :: "nat \<Rightarrow> nat \<Rightarrow> bool" where
  "power_of n b \<longleftrightarrow> (\<exists>k. n = b ^ k)"

lemma sb_sparse_eq:
  "ext4_sb_sparse g = Some (unat g = 0 \<or> power_of (unat g) 3 \<or> power_of (unat g) 5 \<or> power_of (unat g) 7)"
proof (cases "g \<le> 1")
  case True
  then have "unat g = 0 \<or> unat g = 1" by (auto simp: word_le_nat_alt le_Suc_eq)
  moreover have "power_of 1 3" unfolding power_of_def by (rule exI [of _ 0]) simp
  ultimately show ?thesis using True by (auto simp: ext4_sb_sparse_def)
next
  case False
  then have g: "1 < unat g" by (simp add: word_le_nat_alt)
  have s: "(\<exists>k. unat g = b ^ Suc k) \<longleftrightarrow> power_of (unat g) b" for b
    unfolding power_of_def using g by (metis not0_implies_Suc power_0 less_irrefl)
  have odd: "g AND 1 = 0 \<longleftrightarrow> even (unat g)" 
    using unat_and_mask [of g 1] by (simp add: even_iff_mod_2_eq_zero flip: unat_eq_zero)
  have "\<not> (power_of (unat g) 3 \<or> power_of (unat g) 5 \<or> power_of (unat g) 7)" if "even (unat g)"
    using that g by (auto simp: power_of_def)
  moreover have p: "is_power_of g b = Some (power_of (unat g) (unat b))" if "1 < b" for b
    using is_power_of_eq [OF that, of g] by (simp only: s)
  ultimately show ?thesis using False g p [of 3] p [of 5] p [of 7]
    by (auto simp: ext4_sb_sparse_def odd word_less_nat_alt)
qed


section \<open>Checksums\<close>

lemma take_st32: "n \<le> off \<Longrightarrow> take n (st32 s off v) = take n s"
  by (rule nth_equalityI) (auto simp: st32_def nth_store)

lemma sb_feature_ro_set_csum [simp]: "ext4_sb_feature_ro_com (ext4_sb_set_csum s) v = ext4_sb_feature_ro_com s v"
  by (simp add: ext4_sb_set_csum_def ext4_sb_feature_ro_com_def access_defs layout field)

lemma sb_csum_set_csum: "ext4_sb_csum (ext4_sb_set_csum s) = ext4_sb_csum s"
  by (simp add: ext4_sb_set_csum_def ext4_sb_csum_def access_defs layout take_st32)

lemma sb_set_csum_other:
  "off + 4 \<le> 1020 \<Longrightarrow> ld32 (ext4_sb_set_csum s) off = ld32 s off"
  "off + 2 \<le> 1020 \<Longrightarrow> ld16 (ext4_sb_set_csum s) off = ld16 s off"
  "off < 1020 \<Longrightarrow> ext4_sb_set_csum s ! off = s ! off"
  by (simp_all add: ext4_sb_set_csum_def access_defs layout field)

lemma sb_verify_set_csum:
  assumes "length s = 1024" "sb8 s ''checksum_type'' = EXT4_CHECKSUM_CRC32C"
  shows "ext4_sb_verify_csum (ext4_sb_set_csum s)"
proof (cases "ext4_sb_feature_ro_com s EXT4_FRO_COM_METADATA_CSUM")
  case True
  have "sb32 (ext4_sb_set_csum s) ''checksum'' = ext4_sb_csum s"
    using True assms(1) by (simp add: ext4_sb_set_csum_def access_defs layout field)
  moreover have "sb8 (ext4_sb_set_csum s) ''checksum_type'' = EXT4_CHECKSUM_CRC32C"
    using assms(2) by (simp add: access_defs layout sb_set_csum_other)
  ultimately show ?thesis by (simp add: ext4_sb_verify_csum_def sb_csum_set_csum)
qed (simp add: ext4_sb_verify_csum_def)

text \<open>A superblock with checksums on that differs in one byte before the checksum from a valid one.\<close>

lemma sb_csum_change:
  assumes "length s = 1024" "i < 1020" "s ! i \<noteq> v"
  shows "ext4_sb_csum (s[i := v]) \<noteq> ext4_sb_csum s"
proof -
  let ?a = "take i s" and ?b = "take (1020 - Suc i) (drop (Suc i) s)"
  have "take 1020 s = ?a @ s ! i # ?b"
    using assms(1,2) by (intro nth_equalityI) (auto simp: nth_append nth_Cons' min_def)
  moreover have "take 1020 (s[i := v]) = ?a @ v # ?b"
    using assms(1,2) by (intro nth_equalityI) (auto simp: nth_append nth_Cons' min_def nth_list_update)
  ultimately show ?thesis
    using c32c.single_byte_change [OF assms(3) [symmetric]] by (simp add: ext4_sb_csum_def layout ext4_crc32c_bytes)
qed


text \<open>A stored word determines its bytes.\<close>

lemma le_word_inj:
  assumes "length xs = 4" "length ys = 4" "(le_word xs :: u32) = le_word ys"
  shows "xs = ys"
proof (rule nth_equalityI)
  fix k assume k: "k < length xs"
  show "xs ! k = ys ! k"
  proof (rule bit_word_eqI)
    fix n assume n: "n < LENGTH(8)"
    have "(8 * k + n) div 8 = k" "(8 * k + n) mod 8 = n" "8 * k + n < 32" using n k assms(1) by simp_all
    then show "bit (xs ! k) n = bit (ys ! k) n"
      using arg_cong [OF assms(3), of "\<lambda>w. bit w (8 * k + n)"] k assms(1,2) by (simp add: bit_le_word)
  qed
qed (simp add: assms)

lemma ld32_update_neq:
  assumes "a \<le> i" "i < a + 4" "a + 4 \<le> length s" "s ! i \<noteq> v"
  shows "ld32 (s[i := v]) a \<noteq> ld32 s a"
proof
  assume "ld32 (s[i := v]) a = ld32 s a"
  then have "load (s[i := v]) a 4 = load s a 4" unfolding ld32_def by (intro le_word_inj) simp_all
  then have "load (s[i := v]) a 4 ! (i - a) = load s a 4 ! (i - a)" by simp
  then show False using assms by simp
qed

section \<open>Properties\<close>

text \<open>
  C34: the 64-bit block counters of the superblock, stored as two 32-bit halves in different places,
  read back what was stored, and storing one of them leaves the other one as it was.
\<close>

theorem sb_counts_roundtrip:
  assumes "length s = 1024"
  shows "ext4_sb_get_blocks_cnt (ext4_sb_set_blocks_cnt s n) = n \<and>
    ext4_sb_get_free_blocks_cnt (ext4_sb_set_free_blocks_cnt s n) = n \<and>
    ext4_sb_get_free_blocks_cnt (ext4_sb_set_blocks_cnt s n) = ext4_sb_get_free_blocks_cnt s \<and>
    ext4_sb_get_blocks_cnt (ext4_sb_set_free_blocks_cnt s n) = ext4_sb_get_blocks_cnt s"
  using assms by (simp add: sb_blocks_cnt_set sb_free_blocks_cnt_set sb_counts_independent)

theorem sb_counts_roundtrip_witness:
  "ext4_sb_get_blocks_cnt (ext4_sb_set_blocks_cnt (replicate 1024 0) 0x123456789) = 0x123456789"
  using sb_counts_roundtrip [of "replicate 1024 0" "0x123456789"] by simp

text \<open>
  C33: the block groups cover the device: the number of groups is defined, every group has a size, and
  the sizes of all groups add up to the number of blocks of the superblock, for devices whose last
  group ends below block \<open>2 ^ 32\<close>.
\<close>

theorem block_groups_cover_device:
  assumes "0 < unat (sb32 s ''blocks_per_group'')" "0 < unat (ext4_sb_get_blocks_cnt s)"
    "unat (ext4_sb_get_blocks_cnt s) + unat (sb32 s ''blocks_per_group'') \<le> 2 ^ 32"
  shows "\<exists>g. ext4_block_group_cnt s = Some g \<and>
    (\<forall>i < unat g. ext4_blocks_in_group_cnt s (of_nat i) \<noteq> None) \<and>
    (\<Sum>i < unat g. unat (the (ext4_blocks_in_group_cnt s (of_nat i)))) = unat (ext4_sb_get_blocks_cnt s)"
proof -
  define n where "n = unat (ext4_sb_get_blocks_cnt s)"
  define k where "k = unat (sb32 s ''blocks_per_group'')"
  define m where "m = (n + k - 1) div k"
  have a: "0 < k" "0 < n" "n + k \<le> 2 ^ 32" using assms by (simp_all add: n_def k_def)
  obtain g where g: "ext4_block_group_cnt s = Some g" "unat g = m"
    using block_group_cnt_eq [of s] a unfolding n_def k_def m_def by blast
  have m0: "0 < m" using a by (simp add: m_def div_greater_zero_iff)
  have "m * k \<le> n + k - 1" by (simp add: m_def)
  then have le: "(m - 1) * k \<le> n" using a unfolding diff_mult_distrib by linarith
  have c: "\<exists>c. ext4_blocks_in_group_cnt s (of_nat i) = Some c \<and>
      unat c = (if Suc i < m then k else n - (m - 1) * k)" if "i < m" for i
  proof -
    have "unat (of_nat i :: u32) = i" using that g(2) unat_lt_pow2 [of g] by (intro unat_of_nat_small) simp
    then show ?thesis using blocks_in_group_cnt_eq [of s "of_nat i"] a that
      unfolding n_def k_def m_def by metis
  qed
  let ?f = "\<lambda>i. unat (the (ext4_blocks_in_group_cnt s (of_nat i)))"
  have f: "?f i = (if Suc i < m then k else n - (m - 1) * k)" if "i < m" for i
    using c [OF that] by fastforce
  have "(\<Sum>i < m. ?f i) = (\<Sum>i < m - 1. ?f i) + ?f (m - 1)" by (rule sum_lessThan_pred [OF m0])
  also have "(\<Sum>i < m - 1. ?f i) = (\<Sum>i < m - 1. k)" by (rule sum.cong) (use f in auto)
  also have "\<dots> + ?f (m - 1) = n" using f [of "m - 1"] m0 le by simp
  finally show ?thesis using g c by (fastforce simp: n_def)
qed

theorem block_groups_cover_device_witness:
  "\<exists>g. ext4_block_group_cnt (st32 (st32 (replicate 1024 0) 4 20000) 32 8192) = Some g \<and>
    (\<Sum>i < unat g. unat (the (ext4_blocks_in_group_cnt (st32 (st32 (replicate 1024 0) 4 20000) 32 8192) (of_nat i)))) = 20000"
proof -
  let ?s = "st32 (st32 (replicate 1024 0) 4 20000) 32 8192"
  have z: "ld32 (replicate 1024 0) 336 = 0" by (simp add: ld32_def load_def upt_rec)
  have "ext4_sb_get_blocks_cnt ?s = 20000" "sb32 ?s ''blocks_per_group'' = 8192"
    by (simp_all add: ext4_sb_get_blocks_cnt_def access_defs layout field z)
  then show ?thesis using block_groups_cover_device [of ?s] by auto
qed

text \<open>
  C32: with metadata checksums on, validation rejects every superblock that differs in one byte from a
  valid one, whether in the 1020 bytes before the checksum or in the checksum itself, as long as the feature bit
  that turns the checksum on survives the change.
\<close>

theorem sb_check_rejects_corruption:
  assumes "length s = 1024" "ext4_sb_check s" "i < 1024" "s ! i \<noteq> v"
    "ext4_sb_feature_ro_com s EXT4_FRO_COM_METADATA_CSUM"
    "ext4_sb_feature_ro_com (s[i := v]) EXT4_FRO_COM_METADATA_CSUM"
  shows "\<not> ext4_sb_check (s[i := v])"
proof -
  have c: "sb32 s ''checksum'' = ext4_sb_csum s"
    using assms(2,5) by (auto simp: ext4_sb_check_def ext4_sb_verify_csum_def split: if_splits)
  have "sb32 (s[i := v]) ''checksum'' \<noteq> ext4_sb_csum (s[i := v])"
  proof (cases "i < 1020")
    case True
    then have "sb32 (s[i := v]) ''checksum'' = sb32 s ''checksum''" by (simp add: access_defs layout field)
    then show ?thesis using c sb_csum_change [OF assms(1) True assms(4)] by simp
  next
    case False
    have "ext4_sb_csum (s[i := v]) = ext4_sb_csum s" using False by (simp add: ext4_sb_csum_def layout)
    moreover have "ld32 (s[i := v]) 1020 \<noteq> ld32 s 1020"
      using False assms(1,3,4) by (intro ld32_update_neq) simp_all
    ultimately show ?thesis using c by (simp add: access_defs layout)
  qed
  then have "\<not> ext4_sb_verify_csum (s[i := v])" using assms(6) by (simp add: ext4_sb_verify_csum_def)
  then show ?thesis by (simp add: ext4_sb_check_def)
qed

text \<open>A superblock of a device with 20000 blocks in three groups, metadata checksums on.\<close>

definition blank_sb :: image where
  "blank_sb = (let
     s = replicate 1024 0;
     s = ext4_sb_set_blocks_cnt s 20000;
     s = ext4_set32 ext4_sblock s ''inodes_count'' 6144;
     s = ext4_set32 ext4_sblock s ''blocks_per_group'' 8192;
     s = ext4_set32 ext4_sblock s ''inodes_per_group'' 2048;
     s = ext4_set32 ext4_sblock s ''first_inode'' 11;
     s = ext4_set32 ext4_sblock s ''log_block_size'' 2;
     s = ext4_set16 ext4_sblock s ''inode_size'' 256;
     s = ext4_set16 ext4_sblock s ''desc_size'' 64;
     s = ext4_set16 ext4_sblock s ''magic'' EXT4_SUPERBLOCK_MAGIC;
     s = ext4_set8 ext4_sblock s ''checksum_type'' EXT4_CHECKSUM_CRC32C
     in ext4_set32 ext4_sblock s ''features_read_only'' EXT4_FRO_COM_METADATA_CSUM)"

definition demo_sb :: image where
  "demo_sb = ext4_sb_set_csum blank_sb"

lemma length_blank_sb [simp]: "length blank_sb = 1024"
  by (simp add: blank_sb_def access_defs)

lemma length_demo_sb [simp]: "length demo_sb = 1024"
  by (simp add: demo_sb_def ext4_sb_set_csum_def access_defs)

lemma nth_update_same: "i < length s \<Longrightarrow> s[i := v] ! i = v"
  by simp

lemma blank_sb_fields:
  "ld32 blank_sb 0 = 6144" "ld32 blank_sb 32 = 8192" "ld32 blank_sb 40 = 2048" "ld32 blank_sb 84 = 11"
  "ld32 blank_sb 24 = 2" "ld16 blank_sb 88 = 256" "ld16 blank_sb 254 = 64" "ld16 blank_sb 56 = 0xEF53"
  "blank_sb ! 373 = 1" "ld32 blank_sb 100 = 0x400" "ld32 blank_sb 4 = 20000" "ld32 blank_sb 336 = 0"
  by (simp_all add: blank_sb_def Let_def ext4_sb_set_blocks_cnt_def access_defs layout field sb_consts)

lemma demo_sb_fields:
  "ld32 demo_sb 0 = 6144" "ld32 demo_sb 32 = 8192" "ld32 demo_sb 40 = 2048" "ld32 demo_sb 84 = 11"
  "ld32 demo_sb 24 = 2" "ld16 demo_sb 88 = 256" "ld16 demo_sb 254 = 64" "ld16 demo_sb 56 = 0xEF53"
  "demo_sb ! 373 = 1" "ld32 demo_sb 100 = 0x400" "ld32 demo_sb 4 = 20000" "ld32 demo_sb 336 = 0"
  by (simp_all add: demo_sb_def sb_set_csum_other blank_sb_fields)

lemma demo_sb_verify: "ext4_sb_verify_csum demo_sb"
  unfolding demo_sb_def by (rule sb_verify_set_csum) (simp_all add: access_defs layout blank_sb_fields sb_consts)

lemma demo_sb_check: "ext4_sb_check demo_sb"
  by (simp add: ext4_sb_check_def ext4_sb_get_blocks_cnt_def ext4_sb_get_desc_size_def access_defs layout
        demo_sb_fields sb_consts demo_sb_verify)

theorem sb_check_rejects_corruption_witness:
  "ext4_sb_check demo_sb \<and> \<not> ext4_sb_check (demo_sb[373 := 2])"
  using sb_check_rejects_corruption [of demo_sb 373 2]
  by (simp add: demo_sb_check demo_sb_fields ext4_sb_feature_ro_com_def access_defs layout field sb_consts)

text \<open>
  The search for superblock copies ends for every block group number, and with sparse superblocks
  a group has a copy exactly when it is group 0 or its number is a power of 3, 5 or 7.
\<close>

lemma sb_sparse_powers:
  "ext4_sb_sparse g = Some (unat g = 0 \<or> power_of (unat g) 3 \<or> power_of (unat g) 5 \<or> power_of (unat g) 7)"
  by (rule sb_sparse_eq)

end
