(* ===== verification/Ext4_Bgroup.thy ===== *)
theory Ext4_Bgroup
  imports Ext4_Super
begin

text \<open>
  Block group descriptors of lwext4 (\<open>ext4_block_group.h\<close>): every counter and block number is split in
  a low part and a high part that exists only when the superblock says descriptors are larger than
  32 bytes. A descriptor is the image of \<open>struct ext4_bgroup\<close>, and every accessor also takes the
  superblock it consults.
\<close>

abbreviation bg32 :: "image \<Rightarrow> string \<Rightarrow> u32" where "bg32 bg f \<equiv> ext4_get32 ext4_bgroup bg f"
abbreviation bg16 :: "image \<Rightarrow> string \<Rightarrow> u16" where "bg16 bg f \<equiv> ext4_get16 ext4_bgroup bg f"

section \<open>Accessors\<close>

definition ext4_bg_get_block_bitmap :: "image \<Rightarrow> image \<Rightarrow> u64" where
  "ext4_bg_get_block_bitmap bg s = (let v = ucast (bg32 bg ''block_bitmap_lo'') in
     if EXT4_MIN_BLOCK_GROUP_DESCRIPTOR_SIZE < ext4_sb_get_desc_size s
     then v OR push_bit 32 (ucast (bg32 bg ''block_bitmap_hi'')) else v)"

definition ext4_bg_set_block_bitmap :: "image \<Rightarrow> image \<Rightarrow> u64 \<Rightarrow> image" where
  "ext4_bg_set_block_bitmap bg s blk = (let bg = ext4_set32 ext4_bgroup bg ''block_bitmap_lo'' (ucast blk) in
     if EXT4_MIN_BLOCK_GROUP_DESCRIPTOR_SIZE < ext4_sb_get_desc_size s
     then ext4_set32 ext4_bgroup bg ''block_bitmap_hi'' (ucast (drop_bit 32 blk)) else bg)"

definition ext4_bg_get_inode_bitmap :: "image \<Rightarrow> image \<Rightarrow> u64" where
  "ext4_bg_get_inode_bitmap bg s = (let v = ucast (bg32 bg ''inode_bitmap_lo'') in
     if EXT4_MIN_BLOCK_GROUP_DESCRIPTOR_SIZE < ext4_sb_get_desc_size s
     then v OR push_bit 32 (ucast (bg32 bg ''inode_bitmap_hi'')) else v)"

definition ext4_bg_set_inode_bitmap :: "image \<Rightarrow> image \<Rightarrow> u64 \<Rightarrow> image" where
  "ext4_bg_set_inode_bitmap bg s blk = (let bg = ext4_set32 ext4_bgroup bg ''inode_bitmap_lo'' (ucast blk) in
     if EXT4_MIN_BLOCK_GROUP_DESCRIPTOR_SIZE < ext4_sb_get_desc_size s
     then ext4_set32 ext4_bgroup bg ''inode_bitmap_hi'' (ucast (drop_bit 32 blk)) else bg)"

definition ext4_bg_get_inode_table_first_block :: "image \<Rightarrow> image \<Rightarrow> u64" where
  "ext4_bg_get_inode_table_first_block bg s = (let v = ucast (bg32 bg ''inode_table_first_block_lo'') in
     if EXT4_MIN_BLOCK_GROUP_DESCRIPTOR_SIZE < ext4_sb_get_desc_size s
     then v OR push_bit 32 (ucast (bg32 bg ''inode_table_first_block_hi'')) else v)"

definition ext4_bg_set_inode_table_first_block :: "image \<Rightarrow> image \<Rightarrow> u64 \<Rightarrow> image" where
  "ext4_bg_set_inode_table_first_block bg s blk = (let bg = ext4_set32 ext4_bgroup bg ''inode_table_first_block_lo'' (ucast blk) in
     if EXT4_MIN_BLOCK_GROUP_DESCRIPTOR_SIZE < ext4_sb_get_desc_size s
     then ext4_set32 ext4_bgroup bg ''inode_table_first_block_hi'' (ucast (drop_bit 32 blk)) else bg)"

definition ext4_bg_get_free_blocks_count :: "image \<Rightarrow> image \<Rightarrow> u32" where
  "ext4_bg_get_free_blocks_count bg s = (let v = ucast (bg16 bg ''free_blocks_count_lo'') in
     if EXT4_MIN_BLOCK_GROUP_DESCRIPTOR_SIZE < ext4_sb_get_desc_size s
     then v OR push_bit 16 (ucast (bg16 bg ''free_blocks_count_hi'')) else v)"

definition ext4_bg_set_free_blocks_count :: "image \<Rightarrow> image \<Rightarrow> u32 \<Rightarrow> image" where
  "ext4_bg_set_free_blocks_count bg s cnt = (let
     bg = ext4_set16 ext4_bgroup bg ''free_blocks_count_lo'' (ucast (drop_bit 16 (push_bit 16 cnt))) in
     if EXT4_MIN_BLOCK_GROUP_DESCRIPTOR_SIZE < ext4_sb_get_desc_size s
     then ext4_set16 ext4_bgroup bg ''free_blocks_count_hi'' (ucast (drop_bit 16 cnt)) else bg)"

definition ext4_bg_get_free_inodes_count :: "image \<Rightarrow> image \<Rightarrow> u32" where
  "ext4_bg_get_free_inodes_count bg s = (let v = ucast (bg16 bg ''free_inodes_count_lo'') in
     if EXT4_MIN_BLOCK_GROUP_DESCRIPTOR_SIZE < ext4_sb_get_desc_size s
     then v OR push_bit 16 (ucast (bg16 bg ''free_inodes_count_hi'')) else v)"

definition ext4_bg_set_free_inodes_count :: "image \<Rightarrow> image \<Rightarrow> u32 \<Rightarrow> image" where
  "ext4_bg_set_free_inodes_count bg s cnt = (let
     bg = ext4_set16 ext4_bgroup bg ''free_inodes_count_lo'' (ucast (drop_bit 16 (push_bit 16 cnt))) in
     if EXT4_MIN_BLOCK_GROUP_DESCRIPTOR_SIZE < ext4_sb_get_desc_size s
     then ext4_set16 ext4_bgroup bg ''free_inodes_count_hi'' (ucast (drop_bit 16 cnt)) else bg)"

definition ext4_bg_get_used_dirs_count :: "image \<Rightarrow> image \<Rightarrow> u32" where
  "ext4_bg_get_used_dirs_count bg s = (let v = ucast (bg16 bg ''used_dirs_count_lo'') in
     if EXT4_MIN_BLOCK_GROUP_DESCRIPTOR_SIZE < ext4_sb_get_desc_size s
     then v OR push_bit 16 (ucast (bg16 bg ''used_dirs_count_hi'')) else v)"

definition ext4_bg_set_used_dirs_count :: "image \<Rightarrow> image \<Rightarrow> u32 \<Rightarrow> image" where
  "ext4_bg_set_used_dirs_count bg s cnt = (let
     bg = ext4_set16 ext4_bgroup bg ''used_dirs_count_lo'' (ucast (drop_bit 16 (push_bit 16 cnt))) in
     if EXT4_MIN_BLOCK_GROUP_DESCRIPTOR_SIZE < ext4_sb_get_desc_size s
     then ext4_set16 ext4_bgroup bg ''used_dirs_count_hi'' (ucast (drop_bit 16 cnt)) else bg)"

definition ext4_bg_get_itable_unused :: "image \<Rightarrow> image \<Rightarrow> u32" where
  "ext4_bg_get_itable_unused bg s = (let v = ucast (bg16 bg ''itable_unused_lo'') in
     if EXT4_MIN_BLOCK_GROUP_DESCRIPTOR_SIZE < ext4_sb_get_desc_size s
     then v OR push_bit 16 (ucast (bg16 bg ''itable_unused_hi'')) else v)"

definition ext4_bg_set_itable_unused :: "image \<Rightarrow> image \<Rightarrow> u32 \<Rightarrow> image" where
  "ext4_bg_set_itable_unused bg s cnt = (let
     bg = ext4_set16 ext4_bgroup bg ''itable_unused_lo'' (ucast (drop_bit 16 (push_bit 16 cnt))) in
     if EXT4_MIN_BLOCK_GROUP_DESCRIPTOR_SIZE < ext4_sb_get_desc_size s
     then ext4_set16 ext4_bgroup bg ''itable_unused_hi'' (ucast (drop_bit 16 cnt)) else bg)"

definition ext4_bg_set_checksum :: "image \<Rightarrow> u16 \<Rightarrow> image" where
  "ext4_bg_set_checksum bg crc = ext4_set16 ext4_bgroup bg ''checksum'' crc"

definition ext4_bg_has_flag :: "image \<Rightarrow> u32 \<Rightarrow> bool" where
  "ext4_bg_has_flag bg f \<longleftrightarrow> ucast (bg16 bg ''flags'') AND f \<noteq> 0"

definition ext4_bg_set_flag :: "image \<Rightarrow> u32 \<Rightarrow> image" where
  "ext4_bg_set_flag bg f = ext4_set16 ext4_bgroup bg ''flags'' (ucast ((ucast (bg16 bg ''flags'') :: u32) OR f))"

definition ext4_bg_clear_flag :: "image \<Rightarrow> u32 \<Rightarrow> image" where
  "ext4_bg_clear_flag bg f =
     ext4_set16 ext4_bgroup bg ''flags'' (ucast ((ucast (bg16 bg ''flags'') :: u32) AND NOT f))"

lemma bg_offsets [layout]:
  "offsetof ext4_bgroup ''block_bitmap_lo'' = 0"
  "offsetof ext4_bgroup ''block_bitmap_hi'' = 32"
  "offsetof ext4_bgroup ''inode_bitmap_lo'' = 4"
  "offsetof ext4_bgroup ''inode_bitmap_hi'' = 36"
  "offsetof ext4_bgroup ''inode_table_first_block_lo'' = 8"
  "offsetof ext4_bgroup ''inode_table_first_block_hi'' = 40"
  "offsetof ext4_bgroup ''free_blocks_count_lo'' = 12"
  "offsetof ext4_bgroup ''free_blocks_count_hi'' = 44"
  "offsetof ext4_bgroup ''free_inodes_count_lo'' = 14"
  "offsetof ext4_bgroup ''free_inodes_count_hi'' = 46"
  "offsetof ext4_bgroup ''used_dirs_count_lo'' = 16"
  "offsetof ext4_bgroup ''used_dirs_count_hi'' = 48"
  "offsetof ext4_bgroup ''itable_unused_lo'' = 28"
  "offsetof ext4_bgroup ''itable_unused_hi'' = 50"
  "offsetof ext4_bgroup ''flags'' = 18"
  "offsetof ext4_bgroup ''checksum'' = 30"
  by code_simp+

lemmas bg_defs = ext4_bg_get_block_bitmap_def
  ext4_bg_get_inode_bitmap_def
  ext4_bg_get_inode_table_first_block_def
  ext4_bg_get_free_blocks_count_def
  ext4_bg_get_free_inodes_count_def
  ext4_bg_get_used_dirs_count_def
  ext4_bg_get_itable_unused_def
  ext4_bg_set_block_bitmap_def
  ext4_bg_set_inode_bitmap_def
  ext4_bg_set_inode_table_first_block_def
  ext4_bg_set_free_blocks_count_def
  ext4_bg_set_free_inodes_count_def
  ext4_bg_set_used_dirs_count_def
  ext4_bg_set_itable_unused_def
  ext4_bg_set_checksum_def ext4_bg_has_flag_def ext4_bg_set_flag_def ext4_bg_clear_flag_def

section \<open>Lemmas\<close>

lemma halves64': "ucast (ucast n :: u32) OR push_bit 32 (ucast (ucast (drop_bit 32 n) :: u32)) = n" for n :: u64
  using halves64 [of n] by (simp add: or.commute)

lemma length_bg_set [simp]:
  "length (ext4_bg_set_block_bitmap bg s b) = length bg"
  "length (ext4_bg_set_inode_bitmap bg s b) = length bg"
  "length (ext4_bg_set_inode_table_first_block bg s b) = length bg"
  "length (ext4_bg_set_free_blocks_count bg s c) = length bg"
  "length (ext4_bg_set_free_inodes_count bg s c) = length bg"
  "length (ext4_bg_set_used_dirs_count bg s c) = length bg"
  "length (ext4_bg_set_itable_unused bg s c) = length bg"
  "length (ext4_bg_set_checksum bg crc) = length bg" "length (ext4_bg_set_flag bg f) = length bg"
  "length (ext4_bg_clear_flag bg f) = length bg"
  by (simp_all add: bg_defs access_defs Let_def)

text \<open>The value a block number or counter of a descriptor keeps: all of it, or its low part.\<close>

definition bg_blk :: "image \<Rightarrow> u64 \<Rightarrow> u64" where
  "bg_blk s b = (if 32 < ext4_sb_get_desc_size s then b else ucast (ucast b :: u32))"

definition bg_cnt :: "image \<Rightarrow> u32 \<Rightarrow> u32" where
  "bg_cnt s c = (if 32 < ext4_sb_get_desc_size s then c else ucast (ucast c :: u16))"

lemma bg_get_set:
  assumes "length bg = 64"
  shows
  "ext4_bg_get_block_bitmap (ext4_bg_set_block_bitmap bg s b) s = bg_blk s b"
  "ext4_bg_get_inode_bitmap (ext4_bg_set_inode_bitmap bg s b) s = bg_blk s b"
  "ext4_bg_get_inode_table_first_block (ext4_bg_set_inode_table_first_block bg s b) s = bg_blk s b"
  "ext4_bg_get_free_blocks_count (ext4_bg_set_free_blocks_count bg s c) s = bg_cnt s c"
  "ext4_bg_get_free_inodes_count (ext4_bg_set_free_inodes_count bg s c) s = bg_cnt s c"
  "ext4_bg_get_used_dirs_count (ext4_bg_set_used_dirs_count bg s c) s = bg_cnt s c"
  "ext4_bg_get_itable_unused (ext4_bg_set_itable_unused bg s c) s = bg_cnt s c"
  using assms by (simp_all add: bg_defs bg_blk_def bg_cnt_def access_defs layout field Let_def
      halves64' halves32 low_half32 EXT4_MIN_BLOCK_GROUP_DESCRIPTOR_SIZE_def)


section \<open>Descriptors as records\<close>

text \<open>What a descriptor says, without the split of its fields: the specification of the accessors.\<close>

record bg_view =
  v_block_bitmap :: u64
  v_inode_bitmap :: u64
  v_inode_table_first_block :: u64
  v_free_blocks_count :: u32
  v_free_inodes_count :: u32
  v_used_dirs_count :: u32
  v_itable_unused :: u32
  v_flags :: u16
  v_checksum :: u16

definition view :: "image \<Rightarrow> image \<Rightarrow> bg_view" where
  "view s bg = \<lparr>v_block_bitmap = ext4_bg_get_block_bitmap bg s,
     v_inode_bitmap = ext4_bg_get_inode_bitmap bg s,
     v_inode_table_first_block = ext4_bg_get_inode_table_first_block bg s,
     v_free_blocks_count = ext4_bg_get_free_blocks_count bg s,
     v_free_inodes_count = ext4_bg_get_free_inodes_count bg s,
     v_used_dirs_count = ext4_bg_get_used_dirs_count bg s,
     v_itable_unused = ext4_bg_get_itable_unused bg s,
     v_flags = bg16 bg ''flags'', v_checksum = bg16 bg ''checksum''\<rparr>"

lemma ucast_flags: "(ucast ((ucast a :: u32) OR f) :: u16) = a OR ucast f"
  "(ucast ((ucast a :: u32) AND NOT f) :: u16) = a AND NOT (ucast f)" for a :: u16
  by (rule bit_word_eqI; auto simp: bit_simps)+

lemma view_set:
  assumes "length bg = 64"
  shows
  "view s (ext4_bg_set_block_bitmap bg s b) = (view s bg)\<lparr>v_block_bitmap := bg_blk s b\<rparr>"
  "view s (ext4_bg_set_inode_bitmap bg s b) = (view s bg)\<lparr>v_inode_bitmap := bg_blk s b\<rparr>"
  "view s (ext4_bg_set_inode_table_first_block bg s b) = (view s bg)\<lparr>v_inode_table_first_block := bg_blk s b\<rparr>"
  "view s (ext4_bg_set_free_blocks_count bg s c) = (view s bg)\<lparr>v_free_blocks_count := bg_cnt s c\<rparr>"
  "view s (ext4_bg_set_free_inodes_count bg s c) = (view s bg)\<lparr>v_free_inodes_count := bg_cnt s c\<rparr>"
  "view s (ext4_bg_set_used_dirs_count bg s c) = (view s bg)\<lparr>v_used_dirs_count := bg_cnt s c\<rparr>"
  "view s (ext4_bg_set_itable_unused bg s c) = (view s bg)\<lparr>v_itable_unused := bg_cnt s c\<rparr>"
  "view s (ext4_bg_set_checksum bg crc) = (view s bg)\<lparr>v_checksum := crc\<rparr>"
  "view s (ext4_bg_set_flag bg f) = (view s bg)\<lparr>v_flags := v_flags (view s bg) OR ucast f\<rparr>"
  "view s (ext4_bg_clear_flag bg f) = (view s bg)\<lparr>v_flags := v_flags (view s bg) AND NOT (ucast f)\<rparr>"
  using assms by (simp_all add: view_def bg_defs bg_blk_def bg_cnt_def access_defs layout field Let_def
      halves64' halves32 low_half32 ucast_flags EXT4_MIN_BLOCK_GROUP_DESCRIPTOR_SIZE_def)


text \<open>
  C28: every setter of a block group descriptor changes the one field it names to the value given, cut
  to the low part on file systems with 32 byte descriptors, and no other field: through the record
  view the descriptor bytes refine, each setter is a record update.
\<close>

theorem bg_setters_refine:
  assumes "length bg = 64"
  shows
  "view s (ext4_bg_set_block_bitmap bg s b) = (view s bg)\<lparr>v_block_bitmap := bg_blk s b\<rparr> \<and>
   view s (ext4_bg_set_inode_bitmap bg s b) = (view s bg)\<lparr>v_inode_bitmap := bg_blk s b\<rparr> \<and>
   view s (ext4_bg_set_inode_table_first_block bg s b) = (view s bg)\<lparr>v_inode_table_first_block := bg_blk s b\<rparr> \<and>
   view s (ext4_bg_set_free_blocks_count bg s c) = (view s bg)\<lparr>v_free_blocks_count := bg_cnt s c\<rparr> \<and>
   view s (ext4_bg_set_free_inodes_count bg s c) = (view s bg)\<lparr>v_free_inodes_count := bg_cnt s c\<rparr> \<and>
   view s (ext4_bg_set_used_dirs_count bg s c) = (view s bg)\<lparr>v_used_dirs_count := bg_cnt s c\<rparr> \<and>
   view s (ext4_bg_set_itable_unused bg s c) = (view s bg)\<lparr>v_itable_unused := bg_cnt s c\<rparr> \<and>
   view s (ext4_bg_set_checksum bg crc) = (view s bg)\<lparr>v_checksum := crc\<rparr> \<and>
   view s (ext4_bg_set_flag bg f) = (view s bg)\<lparr>v_flags := v_flags (view s bg) OR ucast f\<rparr> \<and>
   view s (ext4_bg_clear_flag bg f) = (view s bg)\<lparr>v_flags := v_flags (view s bg) AND NOT (ucast f)\<rparr>"
  using assms by (simp add: view_set)

theorem bg_setters_refine_witness:
  "v_free_blocks_count (view demo_sb (ext4_bg_set_free_blocks_count (replicate 64 0) demo_sb 0x12345)) = 0x12345"
  using bg_setters_refine [of "replicate 64 0" demo_sb _ "0x12345"]
  by (simp add: bg_cnt_def ext4_sb_get_desc_size_def access_defs layout demo_sb_fields sb_consts)

end
