(* ===== verification/Ext4_Inode.thy ===== *)
theory Ext4_Inode
  imports Ext4_Super
begin

text \<open>
  Inodes of lwext4 (\<open>ext4_inode.c\<close>): the accessors of the on-disk inode, an image of at least the 156
  bytes of \<open>struct ext4_inode\<close>. The union \<open>osd2\<close> is laid out as its Linux variant; the field
  \<open>hurd2.mode_high\<close> is the second half-word of the union. An index outside the block array is the
  value \<open>None\<close>.
\<close>

section \<open>Constants\<close>

definition EXT4_GOOD_OLD_INODE_SIZE :: u16 where "EXT4_GOOD_OLD_INODE_SIZE = 128"
definition EXT4_INODE_MODE_DIRECTORY :: u32 where "EXT4_INODE_MODE_DIRECTORY = 0x4000"
definition EXT4_INODE_MODE_FILE :: u32 where "EXT4_INODE_MODE_FILE = 0x8000"
definition EXT4_INODE_MODE_SOFTLINK :: u32 where "EXT4_INODE_MODE_SOFTLINK = 0xA000"
definition EXT4_INODE_MODE_TYPE_MASK :: u32 where "EXT4_INODE_MODE_TYPE_MASK = 0xF000"
definition EXT4_INODE_FLAG_IMMUTABLE :: u32 where "EXT4_INODE_FLAG_IMMUTABLE = 0x00000010"
definition EXT4_INODE_FLAG_APPEND :: u32 where "EXT4_INODE_FLAG_APPEND = 0x00000020"
definition EXT4_INODE_FLAG_HUGE_FILE :: u32 where "EXT4_INODE_FLAG_HUGE_FILE = 0x00040000"
definition EXT4_INODE_INDIRECT_BLOCK :: u32 where "EXT4_INODE_INDIRECT_BLOCK = 12"
definition EXT4_INODE_BLOCKS :: nat where "EXT4_INODE_BLOCKS = 15"

lemmas inode_consts = EXT4_GOOD_OLD_INODE_SIZE_def EXT4_INODE_MODE_DIRECTORY_def EXT4_INODE_MODE_FILE_def
  EXT4_INODE_MODE_SOFTLINK_def EXT4_INODE_MODE_TYPE_MASK_def EXT4_INODE_FLAG_IMMUTABLE_def
  EXT4_INODE_FLAG_APPEND_def EXT4_INODE_FLAG_HUGE_FILE_def EXT4_INODE_INDIRECT_BLOCK_def EXT4_INODE_BLOCKS_def

abbreviation in32 :: "image \<Rightarrow> string \<Rightarrow> u32" where "in32 ino f \<equiv> ext4_get32 ext4_inode ino f"
abbreviation in16 :: "image \<Rightarrow> string \<Rightarrow> u16" where "in16 ino f \<equiv> ext4_get16 ext4_inode ino f"
abbreviation in_set32 :: "image \<Rightarrow> string \<Rightarrow> u32 \<Rightarrow> image" where "in_set32 ino f v \<equiv> ext4_set32 ext4_inode ino f v"
abbreviation in_set16 :: "image \<Rightarrow> string \<Rightarrow> u16 \<Rightarrow> image" where "in_set16 ino f v \<equiv> ext4_set16 ext4_inode ino f v"

text \<open>The field \<open>osd2.hurd2.mode_high\<close>.\<close>

definition hurd2_mode_high :: nat where
  "hurd2_mode_high = offsetof ext4_inode ''osd2.linux2.blocks_high'' + 2"

section \<open>Mode, type and flags\<close>

text \<open>The do-while loop of \<open>ext4_inode_block_bits_count\<close>: the size is halved until it is at most 256.\<close>

function block_bits_loop :: "u32 \<Rightarrow> u32 \<Rightarrow> u32" where
  "block_bits_loop bits sz = (let bits = bits + 1; sz = drop_bit 1 sz in
     if sz > 256 then block_bits_loop bits sz else bits)"
  by auto
termination
proof (relation "measure (\<lambda>(_, sz). unat sz)")
  fix bits sz x y :: u32
  assume "x = bits + 1" "y = drop_bit 1 sz" "256 < y"
  moreover from this have "0 < unat sz div 2" by (simp add: word_less_nat_alt unat_drop_bit)
  then have "unat sz div 2 < unat sz" by simp
  ultimately show "((x, y), (bits, sz)) \<in> measure (\<lambda>(_, sz). unat sz)" by (simp add: unat_drop_bit)
qed simp

declare block_bits_loop.simps [simp del]

definition ext4_inode_block_bits_count :: "u32 \<Rightarrow> u32" where
  "ext4_inode_block_bits_count block_size = block_bits_loop 8 block_size"

definition ext4_inode_get_mode :: "image \<Rightarrow> image \<Rightarrow> u32" where
  "ext4_inode_get_mode sb ino = (let v = ucast (in16 ino ''mode'') in
     if sb32 sb ''creator_os'' = EXT4_SUPERBLOCK_OS_HURD
     then v OR push_bit 16 (ucast (ld16 ino hurd2_mode_high)) else v)"

definition ext4_inode_set_mode :: "image \<Rightarrow> image \<Rightarrow> u32 \<Rightarrow> image" where
  "ext4_inode_set_mode sb ino mode = (let
     ino = in_set16 ino ''mode'' (ucast (drop_bit 16 (push_bit 16 mode))) in
     if sb32 sb ''creator_os'' = EXT4_SUPERBLOCK_OS_HURD
     then st16 ino hurd2_mode_high (ucast (drop_bit 16 mode)) else ino)"

definition ext4_inode_get_uid :: "image \<Rightarrow> u32" where
  "ext4_inode_get_uid ino = ucast (in16 ino ''uid'')"

definition ext4_inode_set_uid :: "image \<Rightarrow> u32 \<Rightarrow> image" where
  "ext4_inode_set_uid ino uid = in_set16 ino ''uid'' (ucast uid)"

definition ext4_inode_type :: "image \<Rightarrow> image \<Rightarrow> u32" where
  "ext4_inode_type sb ino = ext4_inode_get_mode sb ino AND EXT4_INODE_MODE_TYPE_MASK"

definition ext4_inode_is_type :: "image \<Rightarrow> image \<Rightarrow> u32 \<Rightarrow> bool" where
  "ext4_inode_is_type sb ino typ \<longleftrightarrow> ext4_inode_type sb ino = typ"

definition ext4_inode_get_size :: "image \<Rightarrow> image \<Rightarrow> u64" where
  "ext4_inode_get_size sb ino = (let v = ucast (in32 ino ''size_lo'') in
     if sb32 sb ''rev_level'' > 0 \<and> ext4_inode_is_type sb ino EXT4_INODE_MODE_FILE
     then v OR push_bit 32 (ucast (in32 ino ''size_hi'')) else v)"

definition ext4_inode_set_size :: "image \<Rightarrow> u64 \<Rightarrow> image" where
  "ext4_inode_set_size ino sz = (let
     ino = in_set32 ino ''size_lo'' (ucast (drop_bit 32 (push_bit 32 sz)))
     in in_set32 ino ''size_hi'' (ucast (drop_bit 32 sz)))"

definition ext4_inode_get_csum :: "image \<Rightarrow> image \<Rightarrow> u32" where
  "ext4_inode_get_csum sb ino = (let v = ucast (in16 ino ''osd2.linux2.checksum_lo'') in
     if sb16 sb ''inode_size'' > EXT4_GOOD_OLD_INODE_SIZE
     then v OR push_bit 16 (ucast (in16 ino ''checksum_hi'')) else v)"

definition ext4_inode_set_csum :: "image \<Rightarrow> image \<Rightarrow> u32 \<Rightarrow> image" where
  "ext4_inode_set_csum sb ino checksum = (let
     ino = in_set16 ino ''osd2.linux2.checksum_lo'' (ucast (drop_bit 16 (push_bit 16 checksum))) in
     if sb16 sb ''inode_size'' > EXT4_GOOD_OLD_INODE_SIZE
     then in_set16 ino ''checksum_hi'' (ucast (drop_bit 16 checksum)) else ino)"

definition ext4_inode_get_access_time :: "image \<Rightarrow> u32" where
  "ext4_inode_get_access_time ino = in32 ino ''access_time''"

definition ext4_inode_set_access_time :: "image \<Rightarrow> u32 \<Rightarrow> image" where
  "ext4_inode_set_access_time ino time = in_set32 ino ''access_time'' time"

definition ext4_inode_get_change_inode_time :: "image \<Rightarrow> u32" where
  "ext4_inode_get_change_inode_time ino = in32 ino ''change_inode_time''"

definition ext4_inode_set_change_inode_time :: "image \<Rightarrow> u32 \<Rightarrow> image" where
  "ext4_inode_set_change_inode_time ino time = in_set32 ino ''change_inode_time'' time"

definition ext4_inode_get_modif_time :: "image \<Rightarrow> u32" where
  "ext4_inode_get_modif_time ino = in32 ino ''modification_time''"

definition ext4_inode_set_modif_time :: "image \<Rightarrow> u32 \<Rightarrow> image" where
  "ext4_inode_set_modif_time ino time = in_set32 ino ''modification_time'' time"

definition ext4_inode_get_del_time :: "image \<Rightarrow> u32" where
  "ext4_inode_get_del_time ino = in32 ino ''deletion_time''"

definition ext4_inode_set_del_time :: "image \<Rightarrow> u32 \<Rightarrow> image" where
  "ext4_inode_set_del_time ino time = in_set32 ino ''deletion_time'' time"

definition ext4_inode_get_gid :: "image \<Rightarrow> u32" where
  "ext4_inode_get_gid ino = ucast (in16 ino ''gid'')"

definition ext4_inode_set_gid :: "image \<Rightarrow> u32 \<Rightarrow> image" where
  "ext4_inode_set_gid ino gid = in_set16 ino ''gid'' (ucast gid)"

definition ext4_inode_get_links_cnt :: "image \<Rightarrow> u16" where
  "ext4_inode_get_links_cnt ino = in16 ino ''links_count''"

definition ext4_inode_set_links_cnt :: "image \<Rightarrow> u16 \<Rightarrow> image" where
  "ext4_inode_set_links_cnt ino cnt = in_set16 ino ''links_count'' cnt"

definition ext4_inode_get_flags :: "image \<Rightarrow> u32" where
  "ext4_inode_get_flags ino = in32 ino ''flags''"

definition ext4_inode_set_flags :: "image \<Rightarrow> u32 \<Rightarrow> image" where
  "ext4_inode_set_flags ino flags = in_set32 ino ''flags'' flags"

definition ext4_inode_has_flag :: "image \<Rightarrow> u32 \<Rightarrow> bool" where
  "ext4_inode_has_flag ino f \<longleftrightarrow> ext4_inode_get_flags ino AND f \<noteq> 0"

definition ext4_inode_clear_flag :: "image \<Rightarrow> u32 \<Rightarrow> image" where
  "ext4_inode_clear_flag ino f = ext4_inode_set_flags ino (ext4_inode_get_flags ino AND NOT f)"

definition ext4_inode_set_flag :: "image \<Rightarrow> u32 \<Rightarrow> image" where
  "ext4_inode_set_flag ino f = ext4_inode_set_flags ino (ext4_inode_get_flags ino OR f)"

definition ext4_inode_can_truncate :: "image \<Rightarrow> image \<Rightarrow> bool" where
  "ext4_inode_can_truncate sb ino \<longleftrightarrow>
    (if ext4_inode_has_flag ino EXT4_INODE_FLAG_APPEND \<or> ext4_inode_has_flag ino EXT4_INODE_FLAG_IMMUTABLE
     then False
     else if ext4_inode_is_type sb ino EXT4_INODE_MODE_FILE \<or> ext4_inode_is_type sb ino EXT4_INODE_MODE_DIRECTORY \<or>
       ext4_inode_is_type sb ino EXT4_INODE_MODE_SOFTLINK then True
     else False)"

section \<open>Block count\<close>

definition ext4_inode_get_blocks_count :: "image \<Rightarrow> image \<Rightarrow> u64" where
  "ext4_inode_get_blocks_count sb ino = (let cnt = ucast (in32 ino ''blocks_count_lo'') in
     if ext4_sb_feature_ro_com sb EXT4_FRO_COM_HUGE_FILE then
       let cnt = cnt OR push_bit 32 (ucast (in16 ino ''osd2.linux2.blocks_high'')) in
       if ext4_inode_has_flag ino EXT4_INODE_FLAG_HUGE_FILE
       then push_bit (unat (ext4_inode_block_bits_count (ext4_sb_get_block_size sb) - 9)) cnt
       else cnt
     else cnt)"

text \<open>The result code and the inode; \<open>None\<close> is the error \<open>EINVAL\<close>, which leaves the inode as it is.\<close>

definition ext4_inode_set_blocks_count :: "image \<Rightarrow> image \<Rightarrow> u64 \<Rightarrow> image option" where
  "ext4_inode_set_blocks_count sb ino count = (let mx = drop_bit 32 (NOT 0) in
     if count \<le> mx then
       let ino = in_set32 ino ''blocks_count_lo'' (ucast count);
           ino = in_set16 ino ''osd2.linux2.blocks_high'' 0
       in Some (ext4_inode_clear_flag ino EXT4_INODE_FLAG_HUGE_FILE)
     else if \<not> ext4_sb_feature_ro_com sb EXT4_FRO_COM_HUGE_FILE then None
     else let mx = drop_bit 16 (NOT 0) in
     if count \<le> mx then
       let ino = in_set32 ino ''blocks_count_lo'' (ucast count);
           ino = in_set16 ino ''osd2.linux2.blocks_high'' (ucast (drop_bit 32 count))
       in Some (ext4_inode_clear_flag ino EXT4_INODE_FLAG_HUGE_FILE)
     else
       let block_bits = ext4_inode_block_bits_count (ext4_sb_get_block_size sb);
           ino = ext4_inode_set_flag ino EXT4_INODE_FLAG_HUGE_FILE;
           count = drop_bit (unat (block_bits - 9)) count;
           ino = in_set32 ino ''blocks_count_lo'' (ucast count)
       in Some (in_set16 ino ''osd2.linux2.blocks_high'' (ucast (drop_bit 32 count))))"

section \<open>Remaining fields\<close>

definition ext4_inode_get_generation :: "image \<Rightarrow> u32" where
  "ext4_inode_get_generation ino = in32 ino ''generation''"

definition ext4_inode_set_generation :: "image \<Rightarrow> u32 \<Rightarrow> image" where
  "ext4_inode_set_generation ino gen = in_set32 ino ''generation'' gen"

definition ext4_inode_get_extra_isize :: "image \<Rightarrow> image \<Rightarrow> u16" where
  "ext4_inode_get_extra_isize sb ino =
    (if sb16 sb ''inode_size'' > EXT4_GOOD_OLD_INODE_SIZE then in16 ino ''extra_isize'' else 0)"

definition ext4_inode_set_extra_isize :: "image \<Rightarrow> image \<Rightarrow> u16 \<Rightarrow> image" where
  "ext4_inode_set_extra_isize sb ino sz =
    (if sb16 sb ''inode_size'' > EXT4_GOOD_OLD_INODE_SIZE then in_set16 ino ''extra_isize'' sz else ino)"

definition ext4_inode_get_file_acl :: "image \<Rightarrow> image \<Rightarrow> u64" where
  "ext4_inode_get_file_acl ino sb = (let v = ucast (in32 ino ''file_acl_lo'') in
     if sb32 sb ''creator_os'' = EXT4_SUPERBLOCK_OS_LINUX
     then v OR ucast (push_bit 16 (ucast (in16 ino ''osd2.linux2.file_acl_high'') :: u32)) else v)"

definition ext4_inode_set_file_acl :: "image \<Rightarrow> image \<Rightarrow> u64 \<Rightarrow> image" where
  "ext4_inode_set_file_acl ino sb acl = (let
     ino = in_set32 ino ''file_acl_lo'' (ucast (drop_bit 32 (push_bit 32 acl))) in
     if sb32 sb ''creator_os'' = EXT4_SUPERBLOCK_OS_LINUX
     then in_set16 ino ''osd2.linux2.file_acl_high'' (ucast (drop_bit 32 acl)) else ino)"

definition inode_block_off :: "u32 \<Rightarrow> nat option" where
  "inode_block_off idx =
    (if unat idx < EXT4_INODE_BLOCKS then Some (offsetof ext4_inode ''blocks'' + 4 * unat idx) else None)"

definition ext4_inode_get_direct_block :: "image \<Rightarrow> u32 \<Rightarrow> u32 option" where
  "ext4_inode_get_direct_block ino idx = map_option (ld32 ino) (inode_block_off idx)"






lemma inode_offsets [layout]:
  "offsetof ext4_inode ''mode'' = 0"
  "offsetof ext4_inode ''uid'' = 2"
  "offsetof ext4_inode ''size_lo'' = 4"
  "offsetof ext4_inode ''access_time'' = 8"
  "offsetof ext4_inode ''change_inode_time'' = 12"
  "offsetof ext4_inode ''modification_time'' = 16"
  "offsetof ext4_inode ''deletion_time'' = 20"
  "offsetof ext4_inode ''gid'' = 24"
  "offsetof ext4_inode ''links_count'' = 26"
  "offsetof ext4_inode ''blocks_count_lo'' = 28"
  "offsetof ext4_inode ''flags'' = 32"
  "offsetof ext4_inode ''unused_osd1'' = 36"
  "offsetof ext4_inode ''blocks'' = 40"
  "offsetof ext4_inode ''generation'' = 100"
  "offsetof ext4_inode ''file_acl_lo'' = 104"
  "offsetof ext4_inode ''size_hi'' = 108"
  "offsetof ext4_inode ''obso_faddr'' = 112"
  "offsetof ext4_inode ''osd2.linux2.blocks_high'' = 116"
  "offsetof ext4_inode ''osd2.linux2.file_acl_high'' = 118"
  "offsetof ext4_inode ''osd2.linux2.uid_high'' = 120"
  "offsetof ext4_inode ''osd2.linux2.gid_high'' = 122"
  "offsetof ext4_inode ''osd2.linux2.checksum_lo'' = 124"
  "offsetof ext4_inode ''osd2.linux2.reserved2'' = 126"
  "offsetof ext4_inode ''extra_isize'' = 128"
  "offsetof ext4_inode ''checksum_hi'' = 130"
  "offsetof ext4_inode ''ctime_extra'' = 132"
  "offsetof ext4_inode ''mtime_extra'' = 136"
  "offsetof ext4_inode ''atime_extra'' = 140"
  "offsetof ext4_inode ''crtime'' = 144"
  "offsetof ext4_inode ''crtime_extra'' = 148"
  "offsetof ext4_inode ''version_hi'' = 152"
  by code_simp+


section \<open>Inodes as records\<close>

text \<open>
  The contents of an inode. \<open>i_size\<close>, \<open>i_blocks\<close> and \<open>i_acl\<close> are the numbers the two parts of the split
  fields hold, 64, 48 and 48 bits wide; the high part of the attribute block exists only on file systems
  created by Linux.
\<close>

record inode_view =
  i_mode :: u32
  i_uid :: u32
  i_gid :: u32
  i_size :: u64
  i_access :: u32
  i_change :: u32
  i_modif :: u32
  i_del :: u32
  i_links :: u16
  i_flags :: u32
  i_gen :: u32
  i_csum :: u32
  i_extra :: u16
  i_blocks :: u64
  i_acl :: u64
  i_block :: "u32 list"

definition is_linux :: "image \<Rightarrow> bool" where
  "is_linux sb \<longleftrightarrow> sb32 sb ''creator_os'' = EXT4_SUPERBLOCK_OS_LINUX"

definition iview :: "image \<Rightarrow> image \<Rightarrow> inode_view" where
  "iview sb ino = \<lparr>i_mode = ext4_inode_get_mode sb ino, i_uid = ext4_inode_get_uid ino,
     i_gid = ext4_inode_get_gid ino,
     i_size = push_bit 32 (ucast (in32 ino ''size_hi'')) OR ucast (in32 ino ''size_lo''),
     i_access = ext4_inode_get_access_time ino, i_change = ext4_inode_get_change_inode_time ino,
     i_modif = ext4_inode_get_modif_time ino, i_del = ext4_inode_get_del_time ino,
     i_links = ext4_inode_get_links_cnt ino, i_flags = ext4_inode_get_flags ino,
     i_gen = ext4_inode_get_generation ino, i_csum = ext4_inode_get_csum sb ino,
     i_extra = ext4_inode_get_extra_isize sb ino,
     i_blocks = ucast (in32 ino ''blocks_count_lo'') OR push_bit 32 (ucast (in16 ino ''osd2.linux2.blocks_high'')),
     i_acl = ucast (in32 ino ''file_acl_lo'') OR
       push_bit 32 (if is_linux sb then ucast (in16 ino ''osd2.linux2.file_acl_high'') else 0),
     i_block = map (\<lambda>i. ld32 ino (offsetof ext4_inode ''blocks'' + 4 * i)) [0..<EXT4_INODE_BLOCKS]\<rparr>"

definition low16 :: "u32 \<Rightarrow> u32" where
  "low16 v = ucast (ucast v :: u16)"

lemmas inode_defs = ext4_inode_get_mode_def ext4_inode_set_mode_def ext4_inode_get_uid_def ext4_inode_set_uid_def
  ext4_inode_get_gid_def ext4_inode_set_gid_def ext4_inode_set_size_def
  ext4_inode_get_access_time_def ext4_inode_set_access_time_def ext4_inode_get_change_inode_time_def
  ext4_inode_set_change_inode_time_def ext4_inode_get_modif_time_def ext4_inode_set_modif_time_def
  ext4_inode_get_del_time_def ext4_inode_set_del_time_def ext4_inode_get_links_cnt_def
  ext4_inode_set_links_cnt_def ext4_inode_get_flags_def ext4_inode_set_flags_def
  ext4_inode_get_generation_def ext4_inode_set_generation_def ext4_inode_get_csum_def ext4_inode_set_csum_def
  ext4_inode_get_extra_isize_def ext4_inode_set_extra_isize_def ext4_inode_clear_flag_def ext4_inode_set_flag_def

lemma block_array:
  "map (\<lambda>i. f (40 + 4 * i)) [0..<EXT4_INODE_BLOCKS] =
    [f 40, f 44, f 48, f 52, f 56, f 60, f 64, f 68, f 72, f 76, f 80, f 84, f 88, f 92, f (96 :: nat)]"
  by (simp add: EXT4_INODE_BLOCKS_def upt_rec)

lemma join32: "(ucast (ucast n :: u32) :: u64) = take_bit 32 n" for n :: u64
  by (rule bit_word_eqI) (auto simp: bit_simps)

lemma join_parts:
  "take_bit 32 n OR push_bit 32 (ucast (ucast (drop_bit 32 n) :: u16)) = take_bit 48 n"
  "push_bit 32 (take_bit 32 (drop_bit 32 n)) OR take_bit 32 n = n"
  "take_bit 32 (push_bit 32 m OR ucast a) = ucast a"
  "take_bit 32 (ucast a OR push_bit 32 m) = ucast a" for n m :: u64 and a :: u32
  by (rule bit_word_eqI, auto simp: bit_simps dest: bit_imp_le_length)+

lemmas view_simps = iview_def inode_defs low16_def access_defs layout field Let_def hurd2_mode_high_def
  halves32 low_half low_half32 block_array join32 join_parts is_linux_def sb_consts

lemma iview_set:
  assumes "156 \<le> length ino"
  shows
  "iview sb (ext4_inode_set_mode sb ino v) = (iview sb ino)\<lparr>i_mode :=
     if sb32 sb ''creator_os'' = EXT4_SUPERBLOCK_OS_HURD then v else low16 v\<rparr>"
  "iview sb (ext4_inode_set_uid ino v) = (iview sb ino)\<lparr>i_uid := low16 v\<rparr>"
  "iview sb (ext4_inode_set_gid ino v) = (iview sb ino)\<lparr>i_gid := low16 v\<rparr>"
  "iview sb (ext4_inode_set_size ino w) = (iview sb ino)\<lparr>i_size := w\<rparr>"
  "iview sb (ext4_inode_set_access_time ino v) = (iview sb ino)\<lparr>i_access := v\<rparr>"
  "iview sb (ext4_inode_set_change_inode_time ino v) = (iview sb ino)\<lparr>i_change := v\<rparr>"
  "iview sb (ext4_inode_set_modif_time ino v) = (iview sb ino)\<lparr>i_modif := v\<rparr>"
  "iview sb (ext4_inode_set_del_time ino v) = (iview sb ino)\<lparr>i_del := v\<rparr>"
  "iview sb (ext4_inode_set_links_cnt ino n) = (iview sb ino)\<lparr>i_links := n\<rparr>"
  "iview sb (ext4_inode_set_flags ino v) = (iview sb ino)\<lparr>i_flags := v\<rparr>"
  "iview sb (ext4_inode_set_flag ino v) = (iview sb ino)\<lparr>i_flags := i_flags (iview sb ino) OR v\<rparr>"
  "iview sb (ext4_inode_clear_flag ino v) = (iview sb ino)\<lparr>i_flags := i_flags (iview sb ino) AND NOT v\<rparr>"
  "iview sb (ext4_inode_set_generation ino v) = (iview sb ino)\<lparr>i_gen := v\<rparr>"
  "iview sb (ext4_inode_set_csum sb ino v) = (iview sb ino)\<lparr>i_csum :=
     if sb16 sb ''inode_size'' > EXT4_GOOD_OLD_INODE_SIZE then v else low16 v\<rparr>"
  "iview sb (ext4_inode_set_extra_isize sb ino n) = (iview sb ino)\<lparr>i_extra :=
     if sb16 sb ''inode_size'' > EXT4_GOOD_OLD_INODE_SIZE then n else 0\<rparr>"
  "iview sb (ext4_inode_set_file_acl ino sb w) = (iview sb ino)\<lparr>i_acl := take_bit (if is_linux sb then 48 else 32) w\<rparr>"
  using assms by (simp_all add: view_simps ext4_inode_set_file_acl_def)

lemma length_inode_set [simp]:
  "length (ext4_inode_set_flag ino v) = length ino" "length (ext4_inode_clear_flag ino v) = length ino"
  by (simp_all add: inode_defs access_defs)

lemma iview_set_blocks:
  assumes "156 \<le> length ino"
  shows "iview sb (in_set16 (in_set32 ino ''blocks_count_lo'' (ucast n)) ''osd2.linux2.blocks_high'' (ucast (drop_bit 32 n))) =
    (iview sb ino)\<lparr>i_blocks := take_bit 48 n\<rparr>"
  using assms by (simp add: view_simps)



lemma iview_get:
  "ext4_inode_get_size sb ino = (let V = iview sb ino in
     if sb32 sb ''rev_level'' > 0 \<and> i_mode V AND 0xF000 = 0x8000 then i_size V else take_bit 32 (i_size V))"
  "ext4_inode_get_blocks_count sb ino = (let V = iview sb ino in
     if \<not> ext4_sb_feature_ro_com sb EXT4_FRO_COM_HUGE_FILE then take_bit 32 (i_blocks V)
     else if i_flags V AND EXT4_INODE_FLAG_HUGE_FILE = 0 then i_blocks V
     else push_bit (unat (ext4_inode_block_bits_count (ext4_sb_get_block_size sb) - 9)) (i_blocks V))"
  "ext4_inode_get_file_acl ino sb = (let V = iview sb ino in take_bit 32 (i_acl V) OR push_bit 16 (drop_bit 32 (i_acl V)))"
  "ext4_inode_get_direct_block ino idx =
     (if unat idx < 15 then Some (i_block (iview sb ino) ! unat idx) else None)"
proof -
  show "ext4_inode_get_size sb ino = (let V = iview sb ino in
     if sb32 sb ''rev_level'' > 0 \<and> i_mode V AND 0xF000 = 0x8000 then i_size V else take_bit 32 (i_size V))"
    by (simp add: ext4_inode_get_size_def iview_def Let_def join_parts or.commute ext4_inode_is_type_def ext4_inode_type_def inode_consts del: take_bit_or)
  show "ext4_inode_get_blocks_count sb ino = (let V = iview sb ino in
     if \<not> ext4_sb_feature_ro_com sb EXT4_FRO_COM_HUGE_FILE then take_bit 32 (i_blocks V)
     else if i_flags V AND EXT4_INODE_FLAG_HUGE_FILE = 0 then i_blocks V
     else push_bit (unat (ext4_inode_block_bits_count (ext4_sb_get_block_size sb) - 9)) (i_blocks V))"
    by (simp add: ext4_inode_get_blocks_count_def iview_def Let_def join_parts ext4_inode_has_flag_def del: push_bit_or take_bit_or)
  have d: "drop_bit 32 (ucast a OR push_bit 32 (ucast b)) = (ucast b :: u64)"
    "ucast (push_bit 16 (ucast b :: u32)) = push_bit 16 (ucast b :: u64)"
    "drop_bit 32 (ucast a :: u64) = 0" "take_bit 32 (ucast a) = (ucast a :: u64)" for a :: u32 and b :: u16
    by (rule bit_word_eqI, auto simp: bit_simps dest: bit_imp_le_length)+
  show "ext4_inode_get_file_acl ino sb = (let V = iview sb ino in take_bit 32 (i_acl V) OR push_bit 16 (drop_bit 32 (i_acl V)))"
    by (simp add: ext4_inode_get_file_acl_def iview_def Let_def join_parts d is_linux_def del: push_bit_or take_bit_or drop_bit_or)
  show "ext4_inode_get_direct_block ino idx =
     (if unat idx < 15 then Some (i_block (iview sb ino) ! unat idx) else None)"
    by (simp add: ext4_inode_get_direct_block_def inode_block_off_def iview_def EXT4_INODE_BLOCKS_def)
qed

section \<open>The block count\<close>

lemma block_bits_loop_power:
  "9 \<le> m \<Longrightarrow> m < 32 \<Longrightarrow> block_bits_loop b (2 ^ m) = b + of_nat (m - 8)"
proof (induction m arbitrary: b rule: nat_induct_at_least)
  case base
  show ?case by (subst block_bits_loop.simps) simp
next
  case (Suc m)
  have d: "drop_bit 1 (2 ^ Suc m :: u32) = 2 ^ m"
    using Suc.prems by (intro bit_word_eqI) (auto simp: bit_simps)
  have "(2 :: nat) ^ 9 \<le> 2 ^ m" using Suc.hyps by (intro power_increasing) auto
  then have "(256 :: u32) < 2 ^ m" using Suc.prems by (simp add: word_less_nat_alt)
  then show ?case using Suc d by (subst block_bits_loop.simps) (simp add: Suc_diff_le)
qed

lemma block_bits_count_eq:
  assumes "unat (sb32 sb ''log_block_size'') \<le> 6"
  shows "ext4_inode_block_bits_count (ext4_sb_get_block_size sb) - 9 =
    of_nat (1 + unat (sb32 sb ''log_block_size''))"
proof -
  let ?k = "unat (sb32 sb ''log_block_size'')"
  have "ext4_sb_get_block_size sb = 2 ^ (10 + ?k)"
    by (simp add: ext4_sb_get_block_size_def push_bit_eq_mult power_add)
  then show ?thesis
    using block_bits_loop_power [of "10 + ?k" 8] assms by (simp add: ext4_inode_block_bits_count_def)
qed

lemma below_mask: "n \<le> mask 32 \<longleftrightarrow> n < 2 ^ 32" "n \<le> mask 48 \<longleftrightarrow> n < 2 ^ 48" for n :: u64
  by (auto simp: mask_eq_exp_minus_1 word_le_nat_alt word_less_nat_alt)

lemma take_bit_small: "n < 2 ^ m \<Longrightarrow> m < 64 \<Longrightarrow> take_bit m n = n" for n :: u64
  by (simp add: word_unat_eq_iff unsigned_take_bit_eq word_less_nat_alt take_bit_nat_eq_self)

text \<open>What the count becomes when it is kept in file system blocks of \<open>2 ^ k\<close> sectors.\<close>

lemma rounded_count: "push_bit k (take_bit 48 (drop_bit k n)) = take_bit (48 + k) (n AND NOT (mask k))"
  for n :: u64
  by (rule bit_word_eqI) (auto simp: bit_simps)

lemma iview_set_blocks_count:
  assumes "156 \<le> length ino"
  shows "map_option (iview sb) (ext4_inode_set_blocks_count sb ino n) = (let V = iview sb ino in
    if n < 2 ^ 32 \<or> n < 2 ^ 48 \<and> ext4_sb_feature_ro_com sb EXT4_FRO_COM_HUGE_FILE
    then Some (V\<lparr>i_blocks := n, i_flags := i_flags V AND NOT EXT4_INODE_FLAG_HUGE_FILE\<rparr>)
    else if ext4_sb_feature_ro_com sb EXT4_FRO_COM_HUGE_FILE
    then Some (V\<lparr>i_blocks := take_bit 48 (drop_bit (unat (ext4_inode_block_bits_count (ext4_sb_get_block_size sb) - 9)) n),
      i_flags := i_flags V OR EXT4_INODE_FLAG_HUGE_FILE\<rparr>)
    else None)"
proof -
  have s: "n < 2 ^ 48" "ucast (drop_bit 32 n) = (0 :: u16)" if "n < 2 ^ 32"
    using that by (simp_all add: word_less_nat_alt unat_ucast_mod unat_drop_bit flip: unat_eq_zero)
  have lo: "iview sb (in_set16 (in_set32 ino ''blocks_count_lo'' (ucast n)) ''osd2.linux2.blocks_high'' 0) =
      (iview sb ino)\<lparr>i_blocks := n\<rparr>" if "n < 2 ^ 32"
    using iview_set_blocks [OF assms, of sb n] s [OF that] take_bit_small [of n 48] by simp
  have l: "156 \<le> length (in_set16 (in_set32 ino ''blocks_count_lo'' u) ''osd2.linux2.blocks_high'' v)" for u v
    using assms by (simp add: access_defs)
  note set = ext4_inode_set_blocks_count_def Let_def below_mask iview_set(12) [OF l] iview_set(11) [OF assms]
  consider "n < 2 ^ 32" "n < 2 ^ 48" | "\<not> n < 2 ^ 32" "n < 2 ^ 48" | "\<not> n < 2 ^ 32" "\<not> n < 2 ^ 48"
    using s(1) by blast
  then show ?thesis
  proof cases
    case 1
    then show ?thesis by (simp add: set lo)
  next
    case 2
    then show ?thesis using take_bit_small [of n 48] by (simp add: set iview_set_blocks [OF assms])
  next
    case 3
    have f: "156 \<le> length (ext4_inode_set_flag ino EXT4_INODE_FLAG_HUGE_FILE)" using assms by simp
    from 3 show ?thesis by (simp add: set iview_set_blocks [OF f] del: drop_bit_drop_bit)
  qed
qed

section \<open>Properties\<close>



text \<open>
  C30: what the block count of an inode, in sectors, reads back as after it was stored, on a file system with blocks
  of \<open>2 ^ k\<close> sectors: the count itself below \<open>2 ^ 48\<close>; the count rounded down to whole blocks from there up to
  \<open>2 ^ (48 + k)\<close>; and from there on, where the setter reports no error, the rounded count without its bits from
  \<open>48 + k\<close> on. Without huge files a count from \<open>2 ^ 32\<close> on is refused.
\<close>

theorem inode_blocks_count_roundtrip:
  assumes "156 \<le> length ino" "unat (sb32 sb ''log_block_size'') \<le> 6"
  defines "k \<equiv> 1 + unat (sb32 sb ''log_block_size'')" and
    "huge \<equiv> ext4_sb_feature_ro_com sb EXT4_FRO_COM_HUGE_FILE"
  shows "map_option (ext4_inode_get_blocks_count sb) (ext4_inode_set_blocks_count sb ino count) =
    (if count < 2 ^ 32 then Some count
     else if \<not> huge then None
     else if count < 2 ^ 48 then Some count
     else if count < 2 ^ (48 + k) then Some (count AND NOT (mask k))
     else Some (take_bit (48 + k) (count AND NOT (mask k))))"
proof -
  have b: "unat (ext4_inode_block_bits_count (ext4_sb_get_block_size sb) - 9) = k"
    unfolding block_bits_count_eq [OF assms(2)] k_def using assms(2) by (intro unat_of_nat_small) simp
  have k: "48 + k < 64" using assms(2) by (simp add: k_def)
  let ?get = "\<lambda>V. if \<not> huge then take_bit 32 (i_blocks V)
     else if i_flags V AND EXT4_INODE_FLAG_HUGE_FILE = 0 then i_blocks V else push_bit k (i_blocks V)"
  have g: "ext4_inode_get_blocks_count sb = ?get \<circ> iview sb"
    by (rule ext) (simp add: iview_get(2) b huge_def)
  have h: "(x AND NOT f) AND f = 0" "(x OR f) AND f = f" for x f :: u32
    by (rule bit_word_eqI, auto simp: bit_simps)+
  have f: "EXT4_INODE_FLAG_HUGE_FILE \<noteq> 0" by (simp add: EXT4_INODE_FLAG_HUGE_FILE_def)
  have r: "take_bit (48 + k) (count AND NOT (mask k)) = count AND NOT (mask k)" if "count < 2 ^ (48 + k)"
  proof -
    have "take_bit m (count AND x) = take_bit m count AND x" for m x by (rule bit_word_eqI) (auto simp: bit_simps)
    then show ?thesis using take_bit_small [OF that k] by (simp only:)
  qed
  have "map_option (ext4_inode_get_blocks_count sb) (ext4_inode_set_blocks_count sb ino count) =
      map_option ?get (map_option (iview sb) (ext4_inode_set_blocks_count sb ino count))"
    by (simp only: g option.map_comp)
  also have "\<dots> = (if count < 2 ^ 32 \<or> count < 2 ^ 48 \<and> huge
      then Some (if huge then count else take_bit 32 count) else if huge then Some (push_bit k (take_bit 48 (drop_bit k count))) else None)"
    by (simp add: iview_set_blocks_count [OF assms(1)] b h f Let_def flip: huge_def)
  finally show ?thesis
    using r take_bit_small [of count 32] by (simp add: rounded_count)
qed

theorem inode_blocks_count_roundtrip_witness:
  "map_option (ext4_inode_get_blocks_count demo_sb) (ext4_inode_set_blocks_count demo_sb (replicate 256 0) 77) = Some 77"
  using inode_blocks_count_roundtrip [of "replicate 256 0" demo_sb 77]
  by (simp add: access_defs layout demo_sb_fields)

text \<open>
  C31: on file systems created by Linux the block of the extended attributes reads back as stored only
  below \<open>2 ^ 32\<close>; the high part of a larger number is stored from bit 32 on and read back at bit 16.
\<close>

theorem inode_file_acl_high_part:
  assumes "156 \<le> length ino" "sb32 sb ''creator_os'' = EXT4_SUPERBLOCK_OS_LINUX" "acl < 2 ^ 48"
  shows "ext4_inode_get_file_acl (ext4_inode_set_file_acl ino sb acl) sb =
      (acl AND mask 32) OR push_bit 16 (drop_bit 32 acl) \<and>
    (acl < 2 ^ 32 \<longrightarrow> ext4_inode_get_file_acl (ext4_inode_set_file_acl ino sb acl) sb = acl) \<and>
    (2 ^ 32 \<le> acl \<longrightarrow> ext4_inode_get_file_acl (ext4_inode_set_file_acl ino sb acl) sb \<noteq> acl)"
proof -
  have z: "drop_bit 48 acl = 0"
    using assms(3) by (simp add: unat_drop_bit word_less_nat_alt flip: unat_eq_zero)
  have b: "bit acl n \<Longrightarrow> n < 48" for n
    using arg_cong [OF z, of "\<lambda>w. bit w (n - 48)"] by (cases "n < 48") (simp_all add: bit_simps)
  have r: "ucast (ucast acl :: u32) OR ucast (push_bit 16 (ucast (ucast (drop_bit 32 acl) :: u16) :: u32)) =
      (acl AND mask 32) OR push_bit 16 (drop_bit 32 acl)"
  proof (rule bit_word_eqI)
    fix n assume n: "n < LENGTH(64)"
    show "bit (ucast (ucast acl :: u32) OR ucast (push_bit 16 (ucast (ucast (drop_bit 32 acl) :: u16) :: u32)) :: u64) n =
        bit ((acl AND mask 32) OR push_bit 16 (drop_bit 32 acl)) n"
      using n b [of "32 + (n - 16)"] by (auto simp: bit_simps)
  qed
  have g: "ext4_inode_get_file_acl (ext4_inode_set_file_acl ino sb acl) sb =
      (acl AND mask 32) OR push_bit 16 (drop_bit 32 acl)"
    using assms(1,2) r by (simp add: ext4_inode_get_file_acl_def ext4_inode_set_file_acl_def Let_def access_defs
        layout field low_half)
  have "acl AND mask 32 = acl \<and> drop_bit 32 acl = 0" if "acl < 2 ^ 32"
  proof -
    have "drop_bit 32 acl = 0"
      using that by (simp add: unat_drop_bit word_less_nat_alt flip: unat_eq_zero)
    then show ?thesis by (metis bits_ident(1) take_bit_eq_mask push_bit_of_0 add_0)
  qed
  moreover have "(acl AND mask 32) OR push_bit 16 (drop_bit 32 acl) \<noteq> acl" if "2 ^ 32 \<le> acl"
  proof
    assume e: "(acl AND mask 32) OR push_bit 16 (drop_bit 32 acl) = acl"
    have "\<not> bit acl n" if "32 \<le> n" for n
    proof (cases "n < 48")
      case True
      have "bit acl n = bit ((acl AND mask 32) OR push_bit 16 (drop_bit 32 acl)) n" by (simp only: e)
      then show ?thesis using True that b [of "32 + (n - 16)"] by (auto simp: bit_simps)
    qed (use b in auto)
    then have "drop_bit 32 acl = 0" by (intro bit_word_eqI) (auto simp: bit_simps)
    then have "unat acl div 2 ^ 32 = 0" by (simp add: unat_drop_bit flip: unat_eq_zero)
    then show False using that by (simp add: word_le_nat_alt)
  qed
  ultimately show ?thesis using g by simp
qed

theorem inode_file_acl_high_part_witness:
  "ext4_inode_get_file_acl (ext4_inode_set_file_acl (replicate 256 0) (replicate 1024 0) 0x100000000) (replicate 1024 0) = 0x10000"
proof -
  have "sb32 (replicate 1024 0) ''creator_os'' = EXT4_SUPERBLOCK_OS_LINUX"
    by (simp add: access_defs layout ld32_def load_def upt_rec sb_consts)
  then show ?thesis using inode_file_acl_high_part [of "replicate 256 0" "replicate 1024 0" "0x100000000"]
    by (simp add: word_less_nat_alt flip: take_bit_eq_mask)
qed

end
