(* ===== verification/Ext4_Hash.thy ===== *)
theory Ext4_Hash
  imports Ext4_Types
begin

text \<open>
  Hashes of directory entry names in lwext4 (\<open>ext4_hash.c\<close>): half MD4, TEA and the legacy hash, each
  over signed or unsigned characters. A name with its length is the list of its bytes, a null pointer
  is \<open>None\<close>. The result of \<open>ext2_htree_hash\<close> is its return code with what it stored through
  \<open>hash_major\<close> and \<open>hash_minor\<close>.
\<close>

section \<open>Half MD4\<close>

definition md4_F :: "u32 \<Rightarrow> u32 \<Rightarrow> u32 \<Rightarrow> u32" where
  "md4_F x y z = (x AND y) OR (NOT x AND z)"

definition md4_G :: "u32 \<Rightarrow> u32 \<Rightarrow> u32 \<Rightarrow> u32" where
  "md4_G x y z = (x AND y) OR (x AND z) OR (y AND z)"

definition md4_H :: "u32 \<Rightarrow> u32 \<Rightarrow> u32 \<Rightarrow> u32" where
  "md4_H x y z = x XOR y XOR z"

definition ROTATE_LEFT :: "u32 \<Rightarrow> nat \<Rightarrow> u32" where
  "ROTATE_LEFT x n = push_bit n x OR drop_bit (32 - n) x"

definition FF :: "u32 \<Rightarrow> u32 \<Rightarrow> u32 \<Rightarrow> u32 \<Rightarrow> u32 \<Rightarrow> nat \<Rightarrow> u32" where
  "FF a b c d x s = ROTATE_LEFT (a + (md4_F b c d + x)) s"

definition GG :: "u32 \<Rightarrow> u32 \<Rightarrow> u32 \<Rightarrow> u32 \<Rightarrow> u32 \<Rightarrow> nat \<Rightarrow> u32" where
  "GG a b c d x s = ROTATE_LEFT (a + (md4_G b c d + x + 0x5A827999)) s"

definition HH :: "u32 \<Rightarrow> u32 \<Rightarrow> u32 \<Rightarrow> u32 \<Rightarrow> u32 \<Rightarrow> nat \<Rightarrow> u32" where
  "HH a b c d x s = ROTATE_LEFT (a + (md4_H b c d + x + 0x6ED9EBA1)) s"

definition ext2_half_md4 :: "u32 list \<Rightarrow> u32 list \<Rightarrow> u32 list" where
  "ext2_half_md4 hash data = (let
     a = hash ! 0; b = hash ! 1; c = hash ! 2; d = hash ! 3;
     a = FF a b c d (data ! 0) 3;
     d = FF d a b c (data ! 1) 7;
     c = FF c d a b (data ! 2) 11;
     b = FF b c d a (data ! 3) 19;
     a = FF a b c d (data ! 4) 3;
     d = FF d a b c (data ! 5) 7;
     c = FF c d a b (data ! 6) 11;
     b = FF b c d a (data ! 7) 19;
     a = GG a b c d (data ! 1) 3;
     d = GG d a b c (data ! 3) 5;
     c = GG c d a b (data ! 5) 9;
     b = GG b c d a (data ! 7) 13;
     a = GG a b c d (data ! 0) 3;
     d = GG d a b c (data ! 2) 5;
     c = GG c d a b (data ! 4) 9;
     b = GG b c d a (data ! 6) 13;
     a = HH a b c d (data ! 3) 3;
     d = HH d a b c (data ! 7) 9;
     c = HH c d a b (data ! 2) 11;
     b = HH b c d a (data ! 6) 15;
     a = HH a b c d (data ! 1) 3;
     d = HH d a b c (data ! 5) 9;
     c = HH c d a b (data ! 0) 11;
     b = HH b c d a (data ! 4) 15
     in [hash ! 0 + a, hash ! 1 + b, hash ! 2 + c, hash ! 3 + d])"

section \<open>TEA and the legacy hash\<close>

fun tea_rounds :: "nat \<Rightarrow> u32 \<Rightarrow> u32 list \<Rightarrow> u32 \<Rightarrow> u32 \<Rightarrow> u32 \<times> u32" where
  "tea_rounds 0 i data x y = (x, y)"
| "tea_rounds (Suc n) i data x y = (let
     sum = i * 0x9E3779B9;
     x = x + ((push_bit 4 y + data ! 0) XOR (y + sum) XOR (drop_bit 5 y + data ! 1));
     y = y + ((push_bit 4 x + data ! 2) XOR (x + sum) XOR (drop_bit 5 x + data ! 3))
     in tea_rounds n (i + 1) data x y)"

definition ext2_tea :: "u32 list \<Rightarrow> u32 list \<Rightarrow> u32 list" where
  "ext2_tea hash data = (let (x, y) = tea_rounds 16 1 data (hash ! 0) (hash ! 1)
     in hash[0 := hash ! 0 + x, 1 := hash ! 1 + y])"

text \<open>A character as an \<open>int\<close>, unsigned or sign extended.\<close>

definition char_val :: "bool \<Rightarrow> u8 \<Rightarrow> u32" where
  "char_val unsigned_char c = (if unsigned_char then ucast c else scast c)"

fun legacy_loop :: "bool \<Rightarrow> u8 list \<Rightarrow> u32 \<Rightarrow> u32 \<Rightarrow> u32" where
  "legacy_loop unsigned_char [] h1 h2 = h1"
| "legacy_loop unsigned_char (c # cs) h1 h2 = (let
     h0 = h2 + (h1 XOR (char_val unsigned_char c * 0x6D22F5));
     h0 = (if h0 AND 0x80000000 \<noteq> 0 then h0 - 0x7FFFFFFF else h0)
     in legacy_loop unsigned_char cs h0 h1)"

definition ext2_legacy_hash :: "u8 list \<Rightarrow> bool \<Rightarrow> u32" where
  "ext2_legacy_hash name unsigned_char =
     push_bit 1 (legacy_loop unsigned_char name 0x12A3FE2D 0x37ABE8F9)"

section \<open>Packing a name into words\<close>

text \<open>
  \<open>ext2_prep_hashbuf\<close> appends to the words \<open>dst\<close> written so far; \<open>dlen\<close> counts the bytes left in the
  destination and ends below zero.
\<close>

fun prep_loop :: "bool \<Rightarrow> u32 \<Rightarrow> u8 list \<Rightarrow> nat \<Rightarrow> u32 \<Rightarrow> u32 list \<Rightarrow> int \<Rightarrow> u32 \<times> u32 list \<times> int" where
  "prep_loop unsigned_char padding [] i buf_val dst dlen = (buf_val, dst, dlen)"
| "prep_loop unsigned_char padding (c # cs) i buf_val dst dlen = (let
     buf_byte = char_val unsigned_char c;
     buf_val = (if i mod 4 = 0 then padding else buf_val);
     buf_val = push_bit 8 buf_val;
     buf_val = buf_val + buf_byte in
     if i mod 4 = 3 then prep_loop unsigned_char padding cs (i + 1) padding (dst @ [buf_val]) (dlen - 4)
     else prep_loop unsigned_char padding cs (i + 1) buf_val dst dlen)"

function pad_loop :: "u32 \<Rightarrow> u32 list \<Rightarrow> int \<Rightarrow> u32 list" where
  "pad_loop padding dst dlen = (if dlen \<ge> 0 then pad_loop padding (dst @ [padding]) (dlen - 4) else dst)"
  by auto
termination
  by (relation "measure (\<lambda>(_, _, dlen). nat (dlen + 4))") auto

declare pad_loop.simps [simp del]

definition ext2_prep_hashbuf :: "u8 list \<Rightarrow> int \<Rightarrow> bool \<Rightarrow> u32 list" where
  "ext2_prep_hashbuf src dlen unsigned_char = (let
     slen = of_nat (length src) :: u32;
     padding = slen OR push_bit 8 slen OR push_bit 16 slen OR push_bit 24 slen;
     len = (if int (length src) > dlen then nat dlen else length src);
     (buf_val, dst, dlen) = prep_loop unsigned_char padding (take len src) 0 padding [] dlen;
     dlen = dlen - 4;
     dst = (if dlen \<ge> 0 then dst @ [buf_val] else dst)
     in pad_loop padding dst (dlen - 4))"

section \<open>The hash of a name\<close>

definition EXT2_HTREE_LEGACY :: int where "EXT2_HTREE_LEGACY = 0"
definition EXT2_HTREE_HALF_MD4 :: int where "EXT2_HTREE_HALF_MD4 = 1"
definition EXT2_HTREE_TEA :: int where "EXT2_HTREE_TEA = 2"
definition EXT2_HTREE_LEGACY_UNSIGNED :: int where "EXT2_HTREE_LEGACY_UNSIGNED = 3"
definition EXT2_HTREE_HALF_MD4_UNSIGNED :: int where "EXT2_HTREE_HALF_MD4_UNSIGNED = 4"
definition EXT2_HTREE_TEA_UNSIGNED :: int where "EXT2_HTREE_TEA_UNSIGNED = 5"
definition EXT2_HTREE_EOF :: u64 where "EXT2_HTREE_EOF = 0x7FFFFFFF"

lemmas htree_consts = EXT2_HTREE_LEGACY_def EXT2_HTREE_HALF_MD4_def EXT2_HTREE_TEA_def
  EXT2_HTREE_LEGACY_UNSIGNED_def EXT2_HTREE_HALF_MD4_UNSIGNED_def EXT2_HTREE_TEA_UNSIGNED_def EXT2_HTREE_EOF_def

function tea_loop :: "bool \<Rightarrow> u8 list \<Rightarrow> u32 list \<Rightarrow> u32 list" where
  "tea_loop unsigned_char name hash =
    (if name = [] then hash
     else tea_loop unsigned_char (drop 16 name) (ext2_tea hash (ext2_prep_hashbuf name 16 unsigned_char)))"
  by auto
termination
  by (relation "measure (\<lambda>(_, name, _). length name)") auto

function md4_loop :: "bool \<Rightarrow> u8 list \<Rightarrow> u32 list \<Rightarrow> u32 list" where
  "md4_loop unsigned_char name hash =
    (if name = [] then hash
     else md4_loop unsigned_char (drop 32 name) (ext2_half_md4 hash (ext2_prep_hashbuf name 32 unsigned_char)))"
  by auto
termination
  by (relation "measure (\<lambda>(_, name, _). length name)") auto

declare tea_loop.simps [simp del] md4_loop.simps [simp del]

text \<open>What a call does: its return code and the words stored through the two result pointers.\<close>

datatype htree_code = HashOk | HashNotsup | HashNull

record htree_res =
  code :: htree_code
  major :: "u32 option"
  minor :: "u32 option"

text \<open>The two words of the switch; \<open>None\<close> is its default branch.\<close>

definition htree_switch :: "u8 list \<Rightarrow> u32 list \<Rightarrow> int \<Rightarrow> (u32 \<times> u32) option" where
  "htree_switch name hash hash_version =
    (if hash_version = EXT2_HTREE_TEA_UNSIGNED \<or> hash_version = EXT2_HTREE_TEA then
       let hash = tea_loop (hash_version = EXT2_HTREE_TEA_UNSIGNED) name hash in Some (hash ! 0, hash ! 1)
     else if hash_version = EXT2_HTREE_LEGACY_UNSIGNED \<or> hash_version = EXT2_HTREE_LEGACY then
       Some (ext2_legacy_hash name (hash_version = EXT2_HTREE_LEGACY_UNSIGNED), 0)
     else if hash_version = EXT2_HTREE_HALF_MD4_UNSIGNED \<or> hash_version = EXT2_HTREE_HALF_MD4 then
       let hash = md4_loop (hash_version = EXT2_HTREE_HALF_MD4_UNSIGNED) name hash in Some (hash ! 1, hash ! 2)
     else None)"

text \<open>The major hash stored: without its lowest bit and different from the end mark.\<close>

definition htree_major :: "u32 \<Rightarrow> u32" where
  "htree_major mj = (let mj = mj AND NOT 1 in
     if ucast mj = push_bit 1 EXT2_HTREE_EOF then ucast (push_bit 1 (EXT2_HTREE_EOF - 1)) else mj)"

definition ext2_htree_hash ::
  "u8 list option \<Rightarrow> u32 list option \<Rightarrow> int \<Rightarrow> bool \<Rightarrow> bool \<Rightarrow> htree_res" where
  "ext2_htree_hash name hash_seed hash_version hash_major hash_minor =
    (if name = None \<or> \<not> hash_major then \<lparr>code = HashNull, major = None, minor = None\<rparr>
     else let
       name = the name;
       error = \<lparr>code = HashNotsup, major = Some 0, minor = (if hash_minor then Some 0 else None)\<rparr>;
       hash = (case hash_seed of None \<Rightarrow> [0x67452301, 0xEFCDAB89, 0x98BADCFE, 0x10325476] | Some seed \<Rightarrow> seed)
     in if length name < 1 \<or> length name > 255 then error
     else case htree_switch name hash hash_version of
       None \<Rightarrow> error
     | Some (mj, mn) \<Rightarrow> \<lparr>code = HashOk, major = Some (htree_major mj), minor = (if hash_minor then Some mn else None)\<rparr>)"


section \<open>The packed words fit the buffer\<close>

lemma length_pad_loop:
  "length (pad_loop padding dst dlen) = length dst + (if dlen \<ge> 0 then Suc (nat (dlen div 4)) else 0)"
proof (induction padding dst dlen rule: pad_loop.induct)
  case (1 padding dst dlen)
  show ?case
  proof (cases "dlen \<ge> 0")
    case True
    have "dlen div 4 = (dlen - 4) div 4 + 1" by simp
    then show ?thesis using 1 [OF True] True
      by (subst pad_loop.simps) (cases "dlen - 4 \<ge> 0"; simp add: nat_add_distrib div_pos_pos_trivial pos_imp_zdiv_nonneg_iff)
  next
    case False
    then show ?thesis by (subst pad_loop.simps) simp
  qed
qed

lemma prep_loop_length:
  "prep_loop u padding cs i b dst dlen = (b', dst', dlen') \<Longrightarrow>
   length dst' + i div 4 = length dst + (i + length cs) div 4 \<and>
   dlen' = dlen - 4 * (int (length dst') - int (length dst))"
proof (induction u padding cs i b dst dlen rule: prep_loop.induct)
  case (2 u padding c cs i b dst dlen)
  show ?case
  proof (cases "i mod 4 = 3")
    case True
    then have "Suc i div 4 = Suc (i div 4)" by (simp add: div_Suc mod_Suc)
    then show ?thesis using 2(1) [OF refl refl refl refl True] 2(3) True by (auto simp: Let_def)
  next
    case False
    then have "Suc i div 4 = i div 4" by (simp add: div_Suc mod_Suc)
    then show ?thesis using 2(2) [OF refl refl refl refl False] 2(3) False by (auto simp: Let_def)
  qed
qed auto

lemma length_prep_hashbuf:
  assumes "0 < m"
  shows "length (ext2_prep_hashbuf src (4 * int m) u) = m"
proof -
  define len where "len = (if int (length src) > 4 * int m then nat (4 * int m) else length src)"
  define padding where "padding = (let slen = of_nat (length src) :: u32 in
    slen OR push_bit 8 slen OR push_bit 16 slen OR push_bit 24 slen)"
  have l: "len \<le> 4 * m" "length (take len src) = len" by (auto simp: len_def)
  obtain b d dl where p: "prep_loop u padding (take len src) 0 padding [] (4 * int m) = (b, d, dl)"
    by (metis prod_cases3)
  have e: "length d = len div 4" "dl = 4 * (int m - int (length d))"
    using prep_loop_length [OF p] l(2) by auto
  have "length d \<le> m" using e(1) l(1) by linarith
  have x: "ext2_prep_hashbuf src (4 * int m) u =
      pad_loop padding (if dl - 4 \<ge> 0 then d @ [b] else d) (dl - 4 - 4)"
    using p by (simp add: ext2_prep_hashbuf_def len_def padding_def Let_def)
  obtain r where r: "m = length d + r" using \<open>length d \<le> m\<close> le_Suc_ex by blast
  then have dl: "dl = 4 * int r" using e(2) by simp
  have "(4 * int r - 8) div 4 = int r - 2" by simp
  then show ?thesis unfolding x length_pad_loop dl using r by (cases r rule: nat.exhaust; cases "r - 1"; auto)
qed


section \<open>Signed and unsigned characters\<close>

lemma char_val_ascii: "c < 0x80 \<Longrightarrow> char_val u c = char_val v c"
proof -
  assume "c < 0x80"
  then have z: "drop_bit 7 c = 0" by (simp add: unat_drop_bit word_less_nat_alt flip: unat_eq_zero)
  have "\<not> bit c 7"
  proof
    assume "bit c 7"
    then have "bit (drop_bit 7 c) 0" by (simp only: bit_drop_bit_eq o_def add_0_right)
    then show False using z by simp
  qed
  then have "scast c = (ucast c :: u32)"
    by (intro bit_word_eqI) (auto simp: bit_simps min_def not_le le_less dest: bit_imp_le_length)
  then show ?thesis by (simp add: char_val_def)
qed

definition ascii :: "u8 list \<Rightarrow> bool" where
  "ascii name \<longleftrightarrow> (\<forall>c \<in> set name. c < 0x80)"

lemma ascii_simps [simp]: "ascii (c # cs) \<longleftrightarrow> c < 0x80 \<and> ascii cs" "ascii []"
  by (auto simp: ascii_def)

lemma ascii_take_drop: "ascii cs \<Longrightarrow> ascii (take n cs)" "ascii cs \<Longrightarrow> ascii (drop n cs)"
  by (auto simp: ascii_def dest: in_set_takeD in_set_dropD)

lemma legacy_loop_ascii: "ascii name \<Longrightarrow> legacy_loop u name h1 h2 = legacy_loop v name h1 h2"
proof (induction name arbitrary: h1 h2)
  case (Cons c cs)
  then show ?case using char_val_ascii [of c u v] by (simp add: Let_def)
qed simp

lemma prep_loop_ascii: "ascii cs \<Longrightarrow> prep_loop u padding cs i b dst dlen = prep_loop v padding cs i b dst dlen"
proof (induction cs arbitrary: i b dst dlen)
  case (Cons c cs)
  then show ?case using char_val_ascii [of c u v] by (simp add: Let_def)
qed simp

lemma prep_hashbuf_ascii: "ascii src \<Longrightarrow> ext2_prep_hashbuf src dlen u = ext2_prep_hashbuf src dlen v"
proof -
  assume a: "ascii src"
  have "prep_loop u p (take n src) i b d l = prep_loop v p (take n src) i b d l" for p n i b d l
    by (intro prep_loop_ascii ascii_take_drop a)
  then show ?thesis by (simp add: ext2_prep_hashbuf_def Let_def)
qed

lemma tea_loop_ascii: "ascii name \<Longrightarrow> tea_loop u name hash = tea_loop v name hash"
proof (induction u name hash rule: tea_loop.induct)
  case (1 u name hash)
  then show ?case using prep_hashbuf_ascii [OF 1(2), of 16 u v] ascii_take_drop(2) [OF 1(2), of 16]
    by (subst (1 2) tea_loop.simps) simp
qed

lemma md4_loop_ascii: "ascii name \<Longrightarrow> md4_loop u name hash = md4_loop v name hash"
proof (induction u name hash rule: md4_loop.induct)
  case (1 u name hash)
  then show ?case using prep_hashbuf_ascii [OF 1(2), of 32 u v] ascii_take_drop(2) [OF 1(2), of 32]
    by (subst (1 2) md4_loop.simps) simp
qed

lemma htree_switch_ascii:
  "ascii name \<Longrightarrow> 0 \<le> ver \<Longrightarrow> ver \<le> 2 \<Longrightarrow> htree_switch name hash ver = htree_switch name hash (ver + 3)"
proof -
  assume a: "ascii name" and "0 \<le> ver" "ver \<le> 2"
  then have "ver = 0 \<or> ver = 1 \<or> ver = 2" by linarith
  then show ?thesis
    using legacy_loop_ascii [OF a, where u = False and v = True] tea_loop_ascii [OF a, where u = False and v = True]
      md4_loop_ascii [OF a, where u = False and v = True]
    by (elim disjE) (simp_all add: htree_switch_def htree_consts ext2_legacy_hash_def)
qed

section \<open>The major hash\<close>

lemma unat_and_not_1: "unat (w AND NOT 1) = unat w div 2 * 2" for w :: u32
  using unat_and_not_mask [of w 1] by simp

lemma htree_major_even: "\<not> bit (htree_major w) 0"
  by (simp add: htree_major_def Let_def EXT2_HTREE_EOF_def bit_and_iff)

lemma htree_major_le: "htree_major w \<le> 0xFFFFFFFC"
proof (cases "ucast (w AND NOT 1) = push_bit 1 EXT2_HTREE_EOF")
  case True
  then show ?thesis by (simp add: htree_major_def Let_def EXT2_HTREE_EOF_def word_le_nat_alt)
next
  case False
  have "unat (w AND NOT 1) \<noteq> 0xFFFFFFFE"
  proof
    assume e: "unat (w AND NOT 1) = 0xFFFFFFFE"
    have "unat (ucast (w AND NOT 1) :: u64) = unat (w AND NOT 1)" by (rule unat_ucast_up) simp
    then have "ucast (w AND NOT 1) = push_bit 1 EXT2_HTREE_EOF" 
      using e by (simp add: word_unat_eq_iff EXT2_HTREE_EOF_def)
    then show False using False by simp
  qed
  then have "unat w div 2 \<noteq> 0x7FFFFFFF" unfolding unat_and_not_1 by simp
  moreover have "unat w div 2 \<le> 0x7FFFFFFF" using unat_lt_pow2 [of w] by simp
  ultimately have "unat (w AND NOT 1) \<le> 0xFFFFFFFC" unfolding unat_and_not_1 by linarith
  then show ?thesis using False by (simp add: htree_major_def Let_def word_le_nat_alt)
qed

section \<open>Properties\<close>

text \<open>
  \<open>ext2_prep_hashbuf\<close> fills exactly the 4 words of the TEA buffer and the 8 words of the half MD4
  buffer, for names of every length: the array \<open>data\<close> of \<open>ext2_htree_hash\<close> is neither overrun nor
  left partly unset.
\<close>

lemma prep_hashbuf_fills_buffer:
  "length (ext2_prep_hashbuf src 16 unsigned_char) = 4 \<and> length (ext2_prep_hashbuf src 32 unsigned_char) = 8"
  using length_prep_hashbuf [of 4 src unsigned_char] length_prep_hashbuf [of 8 src unsigned_char] by simp

text \<open>
  The major hash of a name is even and never the end-of-directory mark: its lowest bit, which
  marks a collision chain, is clear, and it is at most \<open>0xFFFFFFFC\<close>.
\<close>

lemma htree_hash_major_range:
  assumes "code (ext2_htree_hash name seed version mj mn) = HashOk"
  shows "\<exists>m. major (ext2_htree_hash name seed version mj mn) = Some m \<and> \<not> bit m 0 \<and> m \<le> 0xFFFFFFFC"
proof -
  obtain w where "major (ext2_htree_hash name seed version mj mn) = Some (htree_major w)"
    using assms by (auto simp: ext2_htree_hash_def Let_def split: if_splits option.splits prod.splits)
  then show ?thesis using htree_major_even [of w] htree_major_le [of w] by blast
qed

text \<open>
  For names of ASCII characters the signed and the unsigned variant of each hash function give the
  same result, so the character type of the machine that wrote the directory does not matter.
\<close>

lemma htree_hash_ascii_agrees:
  assumes "ascii name" "0 \<le> version" "version \<le> 2"
  shows "ext2_htree_hash (Some name) seed version mj mn = ext2_htree_hash (Some name) seed (version + 3) mj mn"
  by (simp add: ext2_htree_hash_def Let_def htree_switch_ascii [OF assms])

end
