(* ===== verification/Fdt_Core.thy ===== *)
theory Fdt_Core
  imports Klib_String "HOL-Library.Monad_Syntax"
begin

text \<open>
  The core of libfdt (\<open>src/clib/lib/libfdt\<close>: \<open>fdt.c\<close>, \<open>fdt.h\<close>, \<open>libfdt_env.h\<close>, \<open>libfdt_internal.h\<close> and the
  inline functions of \<open>libfdt.h\<close>): header checks, the tag reader and the traversal of nodes.

  A flattened tree is a buffer with its address. A pointer into it is the distance from its start, an integer,
  and a null pointer an inner \<open>None\<close>; access outside the buffer, overflow of the type \<open>int\<close> and a loop that does
  not end are the outer \<open>None\<close>. A C \<open>int\<close> is an integer, an \<open>unsigned\<close> a 32 bit word. The library is built with
  \<open>FDT_ASSUME_MASK\<close> 0, so \<open>can_assume\<close> is false everywhere and the checks it guards are all present.
\<close>

record blob =
  fdt_base :: u64
  fdt_bytes :: "u8 list"

section \<open>Machine integers and memory\<close>

text \<open>The conversion of an integer to \<open>int\<close> and to \<open>unsigned\<close>, and the signed operations, undefined on overflow.\<close>

definition to_int :: "int \<Rightarrow> int" where
  "to_int x = signed_take_bit 31 x"

abbreviation to_uint :: "int \<Rightarrow> u32" where
  "to_uint x \<equiv> word_of_int x"

definition INT_MAX :: int where "INT_MAX = 2147483647"

definition in_int :: "int \<Rightarrow> bool" where
  "in_int x \<longleftrightarrow> - INT_MAX - 1 \<le> x \<and> x \<le> INT_MAX"

definition add_int :: "int \<Rightarrow> int \<Rightarrow> int option" where
  "add_int x y = (if in_int (x + y) then Some (x + y) else None)"

definition sub_int :: "int \<Rightarrow> int \<Rightarrow> int option" where
  "sub_int x y = (if in_int (x - y) then Some (x - y) else None)"

definition rd :: "blob \<Rightarrow> int \<Rightarrow> u8 option" where
  "rd b p = (if 0 \<le> p \<and> p < int (length (fdt_bytes b)) then Some (fdt_bytes b ! nat p) else None)"

definition wr :: "blob \<Rightarrow> int \<Rightarrow> u8 list \<Rightarrow> blob option" where
  "wr b p v = (if 0 \<le> p \<and> p + int (length v) \<le> int (length (fdt_bytes b))
     then Some (b\<lparr>fdt_bytes := take (nat p) (fdt_bytes b) @ v @ drop (nat p + length v) (fdt_bytes b)\<rparr>) else None)"

text \<open>The bytes from a pointer to the end of the buffer, and the functions of the C library on them.\<close>

definition from_ptr :: "blob \<Rightarrow> int \<Rightarrow> u8 list" where
  "from_ptr b p = (if p < 0 then [] else drop (nat p) (fdt_bytes b))"

fun strlen :: "u8 list \<Rightarrow> nat option" where
  "strlen [] = None"
| "strlen (c # s) = (if c = 0 then Some 0 else map_option Suc (strlen s))"

definition mem_eq :: "u8 list \<Rightarrow> u8 list \<Rightarrow> nat \<Rightarrow> bool option" where
  "mem_eq s t n = (if n \<le> length s \<and> n \<le> length t then Some (take n s = take n t) else None)"

definition memmove :: "blob \<Rightarrow> int \<Rightarrow> int \<Rightarrow> nat \<Rightarrow> blob option" where
  "memmove b dst src n = (if n = 0 then Some b
     else if 0 \<le> src \<and> src + int n \<le> int (length (fdt_bytes b)) then wr b dst (take n (from_ptr b src)) else None)"

definition cbytes :: "string \<Rightarrow> u8 list" where
  "cbytes s = map of_char s @ [0]"

section \<open>Big endian words\<close>

definition fdt16_to_cpu :: "u16 \<Rightarrow> u16" where
  "fdt16_to_cpu x = push_bit 8 (x AND 0xff) OR (drop_bit 8 x AND 0xff)"

definition fdt32_to_cpu :: "u32 \<Rightarrow> u32" where
  "fdt32_to_cpu x = push_bit 24 (x AND 0xff) OR push_bit 16 (drop_bit 8 x AND 0xff) OR
     push_bit 8 (drop_bit 16 x AND 0xff) OR (drop_bit 24 x AND 0xff)"

definition fdt64_to_cpu :: "u64 \<Rightarrow> u64" where
  "fdt64_to_cpu x = push_bit 56 (x AND 0xff) OR push_bit 48 (drop_bit 8 x AND 0xff) OR
     push_bit 40 (drop_bit 16 x AND 0xff) OR push_bit 32 (drop_bit 24 x AND 0xff) OR
     push_bit 24 (drop_bit 32 x AND 0xff) OR push_bit 16 (drop_bit 40 x AND 0xff) OR
     push_bit 8 (drop_bit 48 x AND 0xff) OR (drop_bit 56 x AND 0xff)"

definition cpu_to_fdt16 :: "u16 \<Rightarrow> u16" where "cpu_to_fdt16 = fdt16_to_cpu"
definition cpu_to_fdt32 :: "u32 \<Rightarrow> u32" where "cpu_to_fdt32 = fdt32_to_cpu"
definition cpu_to_fdt64 :: "u64 \<Rightarrow> u64" where "cpu_to_fdt64 = fdt64_to_cpu"

text \<open>A little endian load or store of the machine, which the conversions above turn around.\<close>

definition load32 :: "blob \<Rightarrow> int \<Rightarrow> u32 option" where
  "load32 b p = do { b0 \<leftarrow> rd b p; b1 \<leftarrow> rd b (p + 1); b2 \<leftarrow> rd b (p + 2); b3 \<leftarrow> rd b (p + 3);
     Some (ucast b0 OR push_bit 8 (ucast b1) OR push_bit 16 (ucast b2) OR push_bit 24 (ucast b3)) }"

definition load64 :: "blob \<Rightarrow> int \<Rightarrow> u64 option" where
  "load64 b p = do { l \<leftarrow> load32 b p; h \<leftarrow> load32 b (p + 4); Some (ucast l OR push_bit 32 (ucast h)) }"

definition store32 :: "blob \<Rightarrow> int \<Rightarrow> u32 \<Rightarrow> blob option" where
  "store32 b p x = wr b p [ucast x, ucast (drop_bit 8 x), ucast (drop_bit 16 x), ucast (drop_bit 24 x)]"

definition store64 :: "blob \<Rightarrow> int \<Rightarrow> u64 \<Rightarrow> blob option" where
  "store64 b p x = do { c \<leftarrow> store32 b p (ucast x); store32 c (p + 4) (ucast (drop_bit 32 x)) }"

definition fdt32_ld_i :: "blob \<Rightarrow> int \<Rightarrow> u32 option" where
  "fdt32_ld_i b p = map_option fdt32_to_cpu (load32 b p)"

definition fdt64_ld_i :: "blob \<Rightarrow> int \<Rightarrow> u64 option" where
  "fdt64_ld_i b p = map_option fdt64_to_cpu (load64 b p)"

definition fdt16_ld :: "blob \<Rightarrow> int \<Rightarrow> u16 option" where
  "fdt16_ld b p = do { b0 \<leftarrow> rd b p; b1 \<leftarrow> rd b (p + 1); Some (push_bit 8 (ucast b0) OR ucast b1) }"

definition fdt32_ld :: "blob \<Rightarrow> int \<Rightarrow> u32 option" where
  "fdt32_ld b p = do { b0 \<leftarrow> rd b p; b1 \<leftarrow> rd b (p + 1); b2 \<leftarrow> rd b (p + 2); b3 \<leftarrow> rd b (p + 3);
     Some (push_bit 24 (ucast b0) OR push_bit 16 (ucast b1) OR push_bit 8 (ucast b2) OR ucast b3) }"

definition fdt64_ld :: "blob \<Rightarrow> int \<Rightarrow> u64 option" where
  "fdt64_ld b p = do { b0 \<leftarrow> rd b p; b1 \<leftarrow> rd b (p + 1); b2 \<leftarrow> rd b (p + 2); b3 \<leftarrow> rd b (p + 3);
     b4 \<leftarrow> rd b (p + 4); b5 \<leftarrow> rd b (p + 5); b6 \<leftarrow> rd b (p + 6); b7 \<leftarrow> rd b (p + 7);
     Some (push_bit 56 (ucast b0) OR push_bit 48 (ucast b1) OR push_bit 40 (ucast b2) OR push_bit 32 (ucast b3) OR
       push_bit 24 (ucast b4) OR push_bit 16 (ucast b5) OR push_bit 8 (ucast b6) OR ucast b7) }"

definition fdt32_st :: "blob \<Rightarrow> int \<Rightarrow> u32 \<Rightarrow> blob option" where
  "fdt32_st b p v = wr b p [ucast (drop_bit 24 v), ucast (drop_bit 16 v AND 0xff), ucast (drop_bit 8 v AND 0xff), ucast (v AND 0xff)]"

definition fdt64_st :: "blob \<Rightarrow> int \<Rightarrow> u64 \<Rightarrow> blob option" where
  "fdt64_st b p v = wr b p [ucast (drop_bit 56 v), ucast (drop_bit 48 v AND 0xff), ucast (drop_bit 40 v AND 0xff),
     ucast (drop_bit 32 v AND 0xff), ucast (drop_bit 24 v AND 0xff), ucast (drop_bit 16 v AND 0xff),
     ucast (drop_bit 8 v AND 0xff), ucast (v AND 0xff)]"

section \<open>The header\<close>

definition FDT_MAGIC :: u32 where "FDT_MAGIC = 0xd00dfeed"
definition FDT_SW_MAGIC :: u32 where "FDT_SW_MAGIC = NOT FDT_MAGIC"
definition FDT_TAGSIZE :: int where "FDT_TAGSIZE = 4"
definition FDT_BEGIN_NODE :: u32 where "FDT_BEGIN_NODE = 1"
definition FDT_END_NODE :: u32 where "FDT_END_NODE = 2"
definition FDT_PROP :: u32 where "FDT_PROP = 3"
definition FDT_NOP :: u32 where "FDT_NOP = 4"
definition FDT_END :: u32 where "FDT_END = 9"
definition FDT_V1_SIZE :: u32 where "FDT_V1_SIZE = 28"
definition FDT_V2_SIZE :: u32 where "FDT_V2_SIZE = FDT_V1_SIZE + 4"
definition FDT_V3_SIZE :: u32 where "FDT_V3_SIZE = FDT_V2_SIZE + 4"
definition FDT_V16_SIZE :: u32 where "FDT_V16_SIZE = FDT_V3_SIZE"
definition FDT_V17_SIZE :: u32 where "FDT_V17_SIZE = FDT_V16_SIZE + 4"

lemmas fdt_tags = FDT_BEGIN_NODE_def FDT_END_NODE_def FDT_PROP_def FDT_NOP_def FDT_END_def

definition FDT_FIRST_SUPPORTED_VERSION :: u32 where "FDT_FIRST_SUPPORTED_VERSION = 0x02"
definition FDT_LAST_COMPATIBLE_VERSION :: u32 where "FDT_LAST_COMPATIBLE_VERSION = 0x10"
definition FDT_LAST_SUPPORTED_VERSION :: u32 where "FDT_LAST_SUPPORTED_VERSION = 0x11"

definition FDT_ERR_NOTFOUND :: int where "FDT_ERR_NOTFOUND = 1"
definition FDT_ERR_EXISTS :: int where "FDT_ERR_EXISTS = 2"
definition FDT_ERR_NOSPACE :: int where "FDT_ERR_NOSPACE = 3"
definition FDT_ERR_BADOFFSET :: int where "FDT_ERR_BADOFFSET = 4"
definition FDT_ERR_BADPATH :: int where "FDT_ERR_BADPATH = 5"
definition FDT_ERR_BADPHANDLE :: int where "FDT_ERR_BADPHANDLE = 6"
definition FDT_ERR_BADSTATE :: int where "FDT_ERR_BADSTATE = 7"
definition FDT_ERR_TRUNCATED :: int where "FDT_ERR_TRUNCATED = 8"
definition FDT_ERR_BADMAGIC :: int where "FDT_ERR_BADMAGIC = 9"
definition FDT_ERR_BADVERSION :: int where "FDT_ERR_BADVERSION = 10"
definition FDT_ERR_BADSTRUCTURE :: int where "FDT_ERR_BADSTRUCTURE = 11"
definition FDT_ERR_BADLAYOUT :: int where "FDT_ERR_BADLAYOUT = 12"
definition FDT_ERR_INTERNAL :: int where "FDT_ERR_INTERNAL = 13"
definition FDT_ERR_BADNCELLS :: int where "FDT_ERR_BADNCELLS = 14"
definition FDT_ERR_BADVALUE :: int where "FDT_ERR_BADVALUE = 15"
definition FDT_ERR_NOPHANDLES :: int where "FDT_ERR_NOPHANDLES = 17"
definition FDT_ERR_BADFLAGS :: int where "FDT_ERR_BADFLAGS = 18"
definition FDT_ERR_ALIGNMENT :: int where "FDT_ERR_ALIGNMENT = 19"

lemmas fdt_errors = FDT_ERR_NOTFOUND_def FDT_ERR_EXISTS_def FDT_ERR_NOSPACE_def FDT_ERR_BADOFFSET_def
  FDT_ERR_BADPATH_def FDT_ERR_BADPHANDLE_def FDT_ERR_BADSTATE_def FDT_ERR_TRUNCATED_def FDT_ERR_BADMAGIC_def
  FDT_ERR_BADVERSION_def FDT_ERR_BADSTRUCTURE_def FDT_ERR_BADLAYOUT_def FDT_ERR_INTERNAL_def
  FDT_ERR_BADNCELLS_def FDT_ERR_BADVALUE_def FDT_ERR_NOPHANDLES_def FDT_ERR_BADFLAGS_def FDT_ERR_ALIGNMENT_def

definition fdt_magic :: "blob \<Rightarrow> u32 option" where "fdt_magic b = fdt32_ld b 0"
definition fdt_totalsize :: "blob \<Rightarrow> u32 option" where "fdt_totalsize b = fdt32_ld b 4"
definition fdt_off_dt_struct :: "blob \<Rightarrow> u32 option" where "fdt_off_dt_struct b = fdt32_ld b 8"
definition fdt_off_dt_strings :: "blob \<Rightarrow> u32 option" where "fdt_off_dt_strings b = fdt32_ld b 12"
definition fdt_off_mem_rsvmap :: "blob \<Rightarrow> u32 option" where "fdt_off_mem_rsvmap b = fdt32_ld b 16"
definition fdt_version :: "blob \<Rightarrow> u32 option" where "fdt_version b = fdt32_ld b 20"
definition fdt_last_comp_version :: "blob \<Rightarrow> u32 option" where "fdt_last_comp_version b = fdt32_ld b 24"
definition fdt_boot_cpuid_phys :: "blob \<Rightarrow> u32 option" where "fdt_boot_cpuid_phys b = fdt32_ld b 28"
definition fdt_size_dt_strings :: "blob \<Rightarrow> u32 option" where "fdt_size_dt_strings b = fdt32_ld b 32"
definition fdt_size_dt_struct :: "blob \<Rightarrow> u32 option" where "fdt_size_dt_struct b = fdt32_ld b 36"

definition fdt_set_magic :: "blob \<Rightarrow> u32 \<Rightarrow> blob option" where "fdt_set_magic b v = store32 b 0 (cpu_to_fdt32 v)"
definition fdt_set_totalsize :: "blob \<Rightarrow> u32 \<Rightarrow> blob option" where "fdt_set_totalsize b v = store32 b 4 (cpu_to_fdt32 v)"
definition fdt_set_off_dt_struct :: "blob \<Rightarrow> u32 \<Rightarrow> blob option" where "fdt_set_off_dt_struct b v = store32 b 8 (cpu_to_fdt32 v)"
definition fdt_set_off_dt_strings :: "blob \<Rightarrow> u32 \<Rightarrow> blob option" where "fdt_set_off_dt_strings b v = store32 b 12 (cpu_to_fdt32 v)"
definition fdt_set_off_mem_rsvmap :: "blob \<Rightarrow> u32 \<Rightarrow> blob option" where "fdt_set_off_mem_rsvmap b v = store32 b 16 (cpu_to_fdt32 v)"
definition fdt_set_version :: "blob \<Rightarrow> u32 \<Rightarrow> blob option" where "fdt_set_version b v = store32 b 20 (cpu_to_fdt32 v)"
definition fdt_set_last_comp_version :: "blob \<Rightarrow> u32 \<Rightarrow> blob option" where "fdt_set_last_comp_version b v = store32 b 24 (cpu_to_fdt32 v)"
definition fdt_set_boot_cpuid_phys :: "blob \<Rightarrow> u32 \<Rightarrow> blob option" where "fdt_set_boot_cpuid_phys b v = store32 b 28 (cpu_to_fdt32 v)"
definition fdt_set_size_dt_strings :: "blob \<Rightarrow> u32 \<Rightarrow> blob option" where "fdt_set_size_dt_strings b v = store32 b 32 (cpu_to_fdt32 v)"
definition fdt_set_size_dt_struct :: "blob \<Rightarrow> u32 \<Rightarrow> blob option" where "fdt_set_size_dt_struct b v = store32 b 36 (cpu_to_fdt32 v)"

lemmas fdt_header_defs = fdt_magic_def fdt_totalsize_def fdt_off_dt_struct_def fdt_off_dt_strings_def
  fdt_off_mem_rsvmap_def fdt_version_def fdt_last_comp_version_def fdt_boot_cpuid_phys_def
  fdt_size_dt_strings_def fdt_size_dt_struct_def

definition FDT_ALIGN :: "u64 \<Rightarrow> u64 \<Rightarrow> u64" where
  "FDT_ALIGN x a = (x + a - 1) AND NOT (a - 1)"

text \<open>The alignment is computed in \<open>size_t\<close>; its callers convert the result to \<open>int\<close>.\<close>

definition FDT_TAGALIGN :: "int \<Rightarrow> u64" where
  "FDT_TAGALIGN x = FDT_ALIGN (word_of_int x) 4"

definition size_to_int :: "u64 \<Rightarrow> int" where
  "size_to_int w = to_int (uint w)"

section \<open>Checking the header\<close>

definition fdt_ro_probe_i :: "blob \<Rightarrow> int option" where
  "fdt_ro_probe_i b = do {
     totalsize \<leftarrow> fdt_totalsize b;
     if fdt_base b AND 7 \<noteq> 0 then Some (- FDT_ERR_ALIGNMENT) else do {
     magic \<leftarrow> fdt_magic b;
     e \<leftarrow> (if magic = FDT_MAGIC then do {
              v \<leftarrow> fdt_version b;
              if v < FDT_FIRST_SUPPORTED_VERSION then Some (- FDT_ERR_BADVERSION) else do {
              l \<leftarrow> fdt_last_comp_version b;
              if l > FDT_LAST_SUPPORTED_VERSION then Some (- FDT_ERR_BADVERSION) else Some 0 } }
            else if magic = FDT_SW_MAGIC then do {
              z \<leftarrow> fdt_size_dt_struct b;
              if z = 0 then Some (- FDT_ERR_BADSTATE) else Some 0 }
            else Some (- FDT_ERR_BADMAGIC));
     if e \<noteq> 0 then Some e
     else if uint totalsize < INT_MAX then Some (uint totalsize) else Some (- FDT_ERR_TRUNCATED) } }"

definition check_off_i :: "u32 \<Rightarrow> u32 \<Rightarrow> u32 \<Rightarrow> bool" where
  "check_off_i hdrsize totalsize off \<longleftrightarrow> off \<ge> hdrsize \<and> off \<le> totalsize"

definition check_block_i :: "u32 \<Rightarrow> u32 \<Rightarrow> u32 \<Rightarrow> u32 \<Rightarrow> bool" where
  "check_block_i hdrsize totalsize base sz =
     (if \<not> check_off_i hdrsize totalsize base then False
      else if base + sz < base then False
      else if \<not> check_off_i hdrsize totalsize (base + sz) then False
      else True)"

definition fdt_header_size_i :: "u32 \<Rightarrow> u32" where
  "fdt_header_size_i version = (if version \<le> 1 then FDT_V1_SIZE else if version \<le> 2 then FDT_V2_SIZE
     else if version \<le> 3 then FDT_V3_SIZE else if version \<le> 16 then FDT_V16_SIZE else FDT_V17_SIZE)"

definition fdt_header_size :: "blob \<Rightarrow> u32 option" where
  "fdt_header_size b = do { v \<leftarrow> fdt_version b; Some (fdt_header_size_i v) }"

definition fdt_check_header :: "blob \<Rightarrow> int option" where
  "fdt_check_header b =
    (if fdt_base b AND 7 \<noteq> 0 then Some (- FDT_ERR_ALIGNMENT) else do {
     magic \<leftarrow> fdt_magic b;
     if magic \<noteq> FDT_MAGIC then Some (- FDT_ERR_BADMAGIC) else do {
     v \<leftarrow> fdt_version b;
     l \<leftarrow> fdt_last_comp_version b;
     if v < FDT_FIRST_SUPPORTED_VERSION \<or> l > FDT_LAST_SUPPORTED_VERSION then Some (- FDT_ERR_BADVERSION)
     else if v < l then Some (- FDT_ERR_BADVERSION) else do {
     hdrsize \<leftarrow> fdt_header_size b;
     totalsize \<leftarrow> fdt_totalsize b;
     if totalsize < hdrsize \<or> uint totalsize > INT_MAX then Some (- FDT_ERR_TRUNCATED) else do {
     rsv \<leftarrow> fdt_off_mem_rsvmap b;
     if \<not> check_off_i hdrsize totalsize rsv then Some (- FDT_ERR_TRUNCATED) else do {
     struct \<leftarrow> fdt_off_dt_struct b;
     ok \<leftarrow> (if v < 17 then Some (check_off_i hdrsize totalsize struct)
            else do { z \<leftarrow> fdt_size_dt_struct b; Some (check_block_i hdrsize totalsize struct z) });
     if \<not> ok then Some (- FDT_ERR_TRUNCATED) else do {
     strings \<leftarrow> fdt_off_dt_strings b;
     z \<leftarrow> fdt_size_dt_strings b;
     if \<not> check_block_i hdrsize totalsize strings z then Some (- FDT_ERR_TRUNCATED) else Some 0 } } } } } })"

section \<open>Reading tags\<close>

definition fdt_offset_ptr_i :: "blob \<Rightarrow> int \<Rightarrow> int option" where
  "fdt_offset_ptr_i b offset = do { s \<leftarrow> fdt_off_dt_struct b; Some (uint s + offset) }"

definition fdt_offset_ptr :: "blob \<Rightarrow> int \<Rightarrow> u32 \<Rightarrow> int option option" where
  "fdt_offset_ptr b offset len = do {
     s \<leftarrow> fdt_off_dt_struct b;
     let uoffset = to_uint offset;
     let absoffset = uoffset + s;
     if offset < 0 then Some None else do {
     totalsize \<leftarrow> fdt_totalsize b;
     if absoffset < uoffset \<or> absoffset + len < absoffset \<or> absoffset + len > totalsize then Some None else do {
     v \<leftarrow> fdt_version b;
     out \<leftarrow> (if v \<ge> 0x11 then do {
                z \<leftarrow> fdt_size_dt_struct b;
                Some (uoffset + len < uoffset \<or> uoffset + len > z) }
              else Some False);
     if out then Some None else do { p \<leftarrow> fdt_offset_ptr_i b offset; Some (Some p) } } } }"

text \<open>The loop over the name of a node; it returns the last pointer and the offset behind it.\<close>

partial_function (option) skip_name :: "blob \<Rightarrow> int \<Rightarrow> (int option \<times> int) option" where
  "skip_name b offset = do {
     p \<leftarrow> fdt_offset_ptr b offset 1;
     offset' \<leftarrow> add_int offset 1;
     case p of None \<Rightarrow> Some (None, offset')
     | Some q \<Rightarrow> do { c \<leftarrow> rd b q; if c \<noteq> 0 then skip_name b offset' else Some (p, offset') } }"

declare skip_name.simps [code]

text \<open>The offset behind a property of length \<open>len\<close>; \<open>offset\<close> is behind its tag.\<close>

definition prop_end :: "blob \<Rightarrow> u32 \<Rightarrow> int \<Rightarrow> int option option" where
  "prop_end b len offset = (let sum = len + to_uint offset in
     if INT_MAX \<le> uint sum \<or> sum < to_uint offset then Some None else do {
     let offset = to_int (offset + (12 - FDT_TAGSIZE) + uint len);
     v \<leftarrow> fdt_version b;
     if v < 0x10 \<and> len \<ge> 8 \<and> (to_uint offset - len) mod 8 \<noteq> 0
     then do { offset \<leftarrow> add_int offset 4; Some (Some offset) }
     else Some (Some offset) })"

text \<open>
  The switch on the tag: the offset behind the tag's content, or \<open>None\<close> for a premature end. \<open>offset\<close> is behind
  the tag itself.
\<close>

definition tag_end :: "blob \<Rightarrow> u32 \<Rightarrow> int \<Rightarrow> int option option" where
  "tag_end b tag offset =
    (if tag = FDT_BEGIN_NODE then do {
       (p, offset) \<leftarrow> skip_name b offset;
       Some (if p = None then None else Some offset) }
     else if tag = FDT_PROP then do {
       lenp \<leftarrow> fdt_offset_ptr b offset 4;
       case lenp of None \<Rightarrow> Some None
       | Some lp \<Rightarrow> do {
         len \<leftarrow> fdt32_ld_i b lp;
         prop_end b len offset } }
     else if tag = FDT_END \<or> tag = FDT_END_NODE \<or> tag = FDT_NOP then Some (Some offset)
     else Some None)"

definition fdt_next_tag :: "blob \<Rightarrow> int \<Rightarrow> (u32 \<times> int) option" where
  "fdt_next_tag b startoffset = do {
     tagp \<leftarrow> fdt_offset_ptr b startoffset (word_of_int FDT_TAGSIZE);
     case tagp of None \<Rightarrow> Some (FDT_END, - FDT_ERR_TRUNCATED)
     | Some tp \<Rightarrow> do {
       tag \<leftarrow> fdt32_ld_i b tp;
       e \<leftarrow> tag_end b tag (to_int (startoffset + FDT_TAGSIZE));
       case e of None \<Rightarrow> Some (FDT_END, - FDT_ERR_BADSTRUCTURE)
       | Some offset \<Rightarrow> do {
         d \<leftarrow> sub_int offset startoffset;
         p \<leftarrow> fdt_offset_ptr b startoffset (to_uint d);
         if p = None then Some (FDT_END, - FDT_ERR_BADSTRUCTURE)
         else Some (tag, size_to_int (FDT_TAGALIGN offset)) } } }"

definition fdt_check_node_offset_i :: "blob \<Rightarrow> int \<Rightarrow> int option" where
  "fdt_check_node_offset_i b offset =
    (if offset < 0 \<or> offset mod FDT_TAGSIZE \<noteq> 0 then Some (- FDT_ERR_BADOFFSET) else do {
     (tag, offset) \<leftarrow> fdt_next_tag b offset;
     if tag \<noteq> FDT_BEGIN_NODE then Some (- FDT_ERR_BADOFFSET) else Some offset })"

definition fdt_check_prop_offset_i :: "blob \<Rightarrow> int \<Rightarrow> int option" where
  "fdt_check_prop_offset_i b offset =
    (if offset < 0 \<or> offset mod FDT_TAGSIZE \<noteq> 0 then Some (- FDT_ERR_BADOFFSET) else do {
     (tag, offset) \<leftarrow> fdt_next_tag b offset;
     if tag \<noteq> FDT_PROP then Some (- FDT_ERR_BADOFFSET) else Some offset })"

section \<open>Traversing nodes\<close>

text \<open>The loop of \<open>fdt_next_node\<close>. The depth counter is optional; the result is the offset and the counter.\<close>

partial_function (option) next_node_loop :: "blob \<Rightarrow> int \<Rightarrow> int option \<Rightarrow> (int \<times> int option) option" where
  "next_node_loop b offset depth = do {
     (tag, nextoffset) \<leftarrow> fdt_next_tag b offset;
     if tag = FDT_BEGIN_NODE then
       (case depth of None \<Rightarrow> Some (offset, None)
        | Some d \<Rightarrow> do { d \<leftarrow> add_int d 1; Some (offset, Some d) })
     else if tag = FDT_END_NODE then
       (case depth of None \<Rightarrow> next_node_loop b nextoffset None
        | Some d \<Rightarrow> do { d \<leftarrow> sub_int d 1;
            if d < 0 then Some (nextoffset, Some d) else next_node_loop b nextoffset (Some d) })
     else if tag = FDT_END then
       Some (if nextoffset \<ge> 0 \<or> nextoffset = - FDT_ERR_TRUNCATED \<and> depth = None
             then - FDT_ERR_NOTFOUND else nextoffset, depth)
     else next_node_loop b nextoffset depth }"

declare next_node_loop.simps [code]

definition fdt_next_node :: "blob \<Rightarrow> int \<Rightarrow> int option \<Rightarrow> (int \<times> int option) option" where
  "fdt_next_node b offset depth = do {
     nextoffset \<leftarrow> (if offset \<ge> 0 then fdt_check_node_offset_i b offset else Some 0);
     if nextoffset < 0 then Some (nextoffset, depth) else next_node_loop b nextoffset depth }"

definition fdt_first_subnode :: "blob \<Rightarrow> int \<Rightarrow> int option" where
  "fdt_first_subnode b offset = do {
     (offset, depth) \<leftarrow> fdt_next_node b offset (Some 0);
     Some (if offset < 0 \<or> depth \<noteq> Some 1 then - FDT_ERR_NOTFOUND else offset) }"

partial_function (option) next_subnode_loop :: "blob \<Rightarrow> int \<Rightarrow> int option \<Rightarrow> int option" where
  "next_subnode_loop b offset depth = do {
     (offset, depth) \<leftarrow> fdt_next_node b offset depth;
     if offset < 0 \<or> the depth < 1 then Some (- FDT_ERR_NOTFOUND)
     else if the depth > 1 then next_subnode_loop b offset depth
     else Some offset }"

declare next_subnode_loop.simps [code]

definition fdt_next_subnode :: "blob \<Rightarrow> int \<Rightarrow> int option" where
  "fdt_next_subnode b offset = next_subnode_loop b offset (Some 1)"

section \<open>Strings and copies\<close>

text \<open>The search through a string table, an array of \<open>tabsize\<close> bytes; \<open>k\<close> is the distance from its start.\<close>

function find_string_loop :: "u8 list \<Rightarrow> u8 list \<Rightarrow> nat \<Rightarrow> int \<Rightarrow> nat \<Rightarrow> nat option option" where
  "find_string_loop strtab s len final k =
    (if int k \<le> final then do {
       eq \<leftarrow> mem_eq (drop k strtab) s len;
       if eq then Some (Some k) else find_string_loop strtab s len final (Suc k) }
     else Some None)"
  by pat_completeness auto
termination by (relation "measure (\<lambda>(strtab, s, len, final, k). nat (final + 1 - int k))") auto

declare find_string_loop.simps [simp del]

definition fdt_find_string_i :: "u8 list \<Rightarrow> int \<Rightarrow> u8 list \<Rightarrow> nat option option" where
  "fdt_find_string_i strtab tabsize s = do {
     l \<leftarrow> strlen s;
     let len = l + 1;
     find_string_loop strtab s len (tabsize - int len) 0 }"

definition fdt_move :: "blob \<Rightarrow> blob \<Rightarrow> int \<Rightarrow> (int \<times> blob) option" where
  "fdt_move b buf bufsize =
    (if bufsize < 0 then Some (- FDT_ERR_NOSPACE, buf) else do {
     e \<leftarrow> fdt_ro_probe_i b;
     if e < 0 then Some (e, buf) else do {
     totalsize \<leftarrow> fdt_totalsize b;
     if totalsize > to_uint bufsize then Some (- FDT_ERR_NOSPACE, buf) else do {
     src \<leftarrow> (if unat totalsize \<le> length (fdt_bytes b) then Some (take (unat totalsize) (fdt_bytes b)) else None);
     buf' \<leftarrow> wr buf 0 src;
     Some (0, buf') } } })"

end
