(* ===== verification/Fdt_Ro.thy ===== *)
theory Fdt_Ro
  imports Fdt_Core
begin

text \<open>
  Reading a flattened device tree: \<open>src/clib/lib/libfdt/fdt_ro.c\<close>. A function that returns a pointer and stores a
  length through \<open>lenp\<close> is a sum: \<open>Inl\<close> the error it stores when it returns null, \<open>Inr\<close> the pointer and the
  length. A string argument is the list of the bytes from the pointer to the end of its object.
\<close>

section \<open>Strings\<close>

definition fdt_get_string :: "blob \<Rightarrow> int \<Rightarrow> (int + int \<times> int) option" where
  "fdt_get_string b stroffset = do {
     totalsize \<leftarrow> fdt_ro_probe_i b;
     if totalsize < 0 then Some (Inl totalsize) else do {
     strings \<leftarrow> fdt_off_dt_strings b;
     let absoffset = to_uint stroffset + strings;
     if absoffset \<ge> to_uint totalsize then Some (Inl (- FDT_ERR_BADOFFSET)) else do {
     let len = to_uint totalsize - absoffset;
     magic \<leftarrow> fdt_magic b;
     lim \<leftarrow> (if magic = FDT_MAGIC then
               (if stroffset < 0 then Some (Inl (- FDT_ERR_BADOFFSET)) else do {
                v \<leftarrow> fdt_version b;
                if v \<ge> 17 then do {
                  z \<leftarrow> fdt_size_dt_strings b;
                  if to_uint stroffset \<ge> z then Some (Inl (- FDT_ERR_BADOFFSET))
                  else Some (Inr (if z - to_uint stroffset < len then z - to_uint stroffset else len)) }
                else Some (Inr len) })
             else if magic = FDT_SW_MAGIC then do {
               neg \<leftarrow> sub_int 0 stroffset;
               let sw_stroffset = to_uint neg;
               z \<leftarrow> fdt_size_dt_strings b;
               if stroffset \<ge> 0 \<or> sw_stroffset > z then Some (Inl (- FDT_ERR_BADOFFSET))
               else Some (Inr (if sw_stroffset < len then sw_stroffset else len)) }
             else Some (Inl (- FDT_ERR_INTERNAL)));
     case lim of Inl err \<Rightarrow> Some (Inl err)
     | Inr len \<Rightarrow> do {
       n \<leftarrow> memchr (from_ptr b (uint absoffset)) 0 (unat len);
       case n of None \<Rightarrow> Some (Inl (- FDT_ERR_TRUNCATED))
       | Some k \<Rightarrow> Some (Inr (uint absoffset, int k)) } } } }"

definition fdt_string :: "blob \<Rightarrow> int \<Rightarrow> int option option" where
  "fdt_string b stroffset = do {
     r \<leftarrow> fdt_get_string b stroffset;
     Some (case r of Inl err \<Rightarrow> None | Inr (p, len) \<Rightarrow> Some p) }"

definition fdt_string_eq_i :: "blob \<Rightarrow> int \<Rightarrow> u8 list \<Rightarrow> int \<Rightarrow> bool option" where
  "fdt_string_eq_i b stroffset s len = do {
     r \<leftarrow> fdt_get_string b stroffset;
     case r of Inl err \<Rightarrow> Some False
     | Inr (p, slen) \<Rightarrow> if slen = len then mem_eq (from_ptr b p) s (nat len) else Some False }"

section \<open>Names of nodes\<close>

text \<open>For trees before version 16 the name is what follows the last slash of the stored path.\<close>

definition leaf_name :: "blob \<Rightarrow> int \<Rightarrow> int option option" where
  "leaf_name b nameptr = do {
     v \<leftarrow> fdt_version b;
     if v < 0x10 then do {
       l \<leftarrow> strrchr (from_ptr b nameptr) 0x2f;
       Some (case l of None \<Rightarrow> None | Some k \<Rightarrow> Some (nameptr + int k + 1)) }
     else Some (Some nameptr) }"

definition fdt_get_name :: "blob \<Rightarrow> int \<Rightarrow> (int + int \<times> int) option" where
  "fdt_get_name b nodeoffset = do {
     nh \<leftarrow> fdt_offset_ptr_i b nodeoffset;
     err \<leftarrow> fdt_ro_probe_i b;
     if err < 0 then Some (Inl err) else do {
     err \<leftarrow> fdt_check_node_offset_i b nodeoffset;
     if err < 0 then Some (Inl err) else do {
     nameptr \<leftarrow> leaf_name b (nh + FDT_TAGSIZE);
     case nameptr of None \<Rightarrow> Some (Inl (- FDT_ERR_BADSTRUCTURE))
     | Some q \<Rightarrow> do { len \<leftarrow> strlen (from_ptr b q); Some (Inr (q, int len)) } } } }"

definition fdt_nodename_eq_i :: "blob \<Rightarrow> int \<Rightarrow> u8 list \<Rightarrow> int \<Rightarrow> bool option" where
  "fdt_nodename_eq_i b offset s len = do {
     r \<leftarrow> fdt_get_name b offset;
     case r of Inl err \<Rightarrow> Some False
     | Inr (p, olen) \<Rightarrow>
       if olen < len then Some False else do {
       eq \<leftarrow> mem_eq (from_ptr b p) s (nat len);
       if \<not> eq then Some False else do {
       c \<leftarrow> rd b (p + len);
       if c = 0 then Some True else do {
       a \<leftarrow> memchr s 0x40 (nat len);
       Some (a = None \<and> c = 0x40) } } } }"

section \<open>Memory reservations\<close>

definition fdt_mem_rsv_i :: "blob \<Rightarrow> int \<Rightarrow> int option" where
  "fdt_mem_rsv_i b n = do { r \<leftarrow> fdt_off_mem_rsvmap b; Some (uint r + 16 * n) }"

definition fdt_mem_rsv :: "blob \<Rightarrow> int \<Rightarrow> int option option" where
  "fdt_mem_rsv b n = do {
     r \<leftarrow> fdt_off_mem_rsvmap b;
     totalsize \<leftarrow> fdt_totalsize b;
     let offset = to_uint (n * 16);
     let absoffset = r + offset;
     if absoffset < r then Some None
     else if ucast absoffset > (ucast totalsize - 16 :: u64) then Some None
     else do { p \<leftarrow> fdt_mem_rsv_i b n; Some (Some p) } }"

definition fdt_get_mem_rsv :: "blob \<Rightarrow> int \<Rightarrow> (int + u64 \<times> u64) option" where
  "fdt_get_mem_rsv b n = do {
     e \<leftarrow> fdt_ro_probe_i b;
     if e < 0 then Some (Inl e) else do {
     re \<leftarrow> fdt_mem_rsv b n;
     case re of None \<Rightarrow> Some (Inl (- FDT_ERR_BADOFFSET))
     | Some p \<Rightarrow> do { address \<leftarrow> fdt64_ld_i b p; sz \<leftarrow> fdt64_ld_i b (p + 8); Some (Inr (address, sz)) } } }"

partial_function (option) num_mem_rsv_loop :: "blob \<Rightarrow> int \<Rightarrow> int option" where
  "num_mem_rsv_loop b i = do {
     re \<leftarrow> fdt_mem_rsv b i;
     case re of None \<Rightarrow> Some (- FDT_ERR_TRUNCATED)
     | Some p \<Rightarrow> do {
       sz \<leftarrow> fdt64_ld_i b (p + 8);
       if sz = 0 then Some i else do { i \<leftarrow> add_int i 1; num_mem_rsv_loop b i } } }"

declare num_mem_rsv_loop.simps [code]

definition fdt_num_mem_rsv :: "blob \<Rightarrow> int option" where
  "fdt_num_mem_rsv b = num_mem_rsv_loop b 0"

section \<open>Properties\<close>

partial_function (option) nextprop_i :: "blob \<Rightarrow> int \<Rightarrow> int option" where
  "nextprop_i b offset = do {
     (tag, nextoffset) \<leftarrow> fdt_next_tag b offset;
     if tag = FDT_END then Some (if nextoffset \<ge> 0 then - FDT_ERR_BADSTRUCTURE else nextoffset)
     else if tag = FDT_PROP then Some offset
     else if tag = FDT_NOP then nextprop_i b nextoffset
     else Some (- FDT_ERR_NOTFOUND) }"

declare nextprop_i.simps [code]

definition fdt_first_property_offset :: "blob \<Rightarrow> int \<Rightarrow> int option" where
  "fdt_first_property_offset b nodeoffset = do {
     offset \<leftarrow> fdt_check_node_offset_i b nodeoffset;
     if offset < 0 then Some offset else nextprop_i b offset }"

definition fdt_next_property_offset :: "blob \<Rightarrow> int \<Rightarrow> int option" where
  "fdt_next_property_offset b offset = do {
     offset \<leftarrow> fdt_check_prop_offset_i b offset;
     if offset < 0 then Some offset else nextprop_i b offset }"

definition fdt_get_property_by_offset_i :: "blob \<Rightarrow> int \<Rightarrow> (int + int \<times> int) option" where
  "fdt_get_property_by_offset_i b offset = do {
     err \<leftarrow> fdt_check_prop_offset_i b offset;
     if err < 0 then Some (Inl err) else do {
     prop \<leftarrow> fdt_offset_ptr_i b offset;
     len \<leftarrow> fdt32_ld_i b (prop + 4);
     Some (Inr (prop, to_int (uint len))) } }"

definition fdt_get_property_by_offset :: "blob \<Rightarrow> int \<Rightarrow> (int + int \<times> int) option" where
  "fdt_get_property_by_offset b offset = do {
     v \<leftarrow> fdt_version b;
     if v < 0x10 then Some (Inl (- FDT_ERR_BADVERSION)) else fdt_get_property_by_offset_i b offset }"

text \<open>The loop over the properties of a node; the result of a hit is pointer, length and offset.\<close>

partial_function (option) get_property_loop :: "blob \<Rightarrow> int \<Rightarrow> u8 list \<Rightarrow> int \<Rightarrow> (int + int \<times> int \<times> int) option" where
  "get_property_loop b offset name namelen =
    (if offset \<ge> 0 then do {
       r \<leftarrow> fdt_get_property_by_offset_i b offset;
       case r of Inl err \<Rightarrow> Some (Inl (- FDT_ERR_INTERNAL))
       | Inr (prop, len) \<Rightarrow> do {
         nameoff \<leftarrow> fdt32_ld_i b (prop + 8);
         eq \<leftarrow> fdt_string_eq_i b (to_int (uint nameoff)) name namelen;
         if eq then Some (Inr (prop, len, offset)) else do {
         offset \<leftarrow> fdt_next_property_offset b offset;
         get_property_loop b offset name namelen } } }
     else Some (Inl offset))"

declare get_property_loop.simps [code]

definition fdt_get_property_namelen_i :: "blob \<Rightarrow> int \<Rightarrow> u8 list \<Rightarrow> int \<Rightarrow> (int + int \<times> int \<times> int) option" where
  "fdt_get_property_namelen_i b offset name namelen = do {
     offset \<leftarrow> fdt_first_property_offset b offset;
     get_property_loop b offset name namelen }"

definition fdt_get_property_namelen :: "blob \<Rightarrow> int \<Rightarrow> u8 list \<Rightarrow> int \<Rightarrow> (int + int \<times> int) option" where
  "fdt_get_property_namelen b offset name namelen = do {
     v \<leftarrow> fdt_version b;
     if v < 0x10 then Some (Inl (- FDT_ERR_BADVERSION)) else do {
     r \<leftarrow> fdt_get_property_namelen_i b offset name namelen;
     Some (case r of Inl err \<Rightarrow> Inl err | Inr (prop, len, off) \<Rightarrow> Inr (prop, len)) } }"

definition fdt_get_property :: "blob \<Rightarrow> int \<Rightarrow> u8 list \<Rightarrow> (int + int \<times> int) option" where
  "fdt_get_property b nodeoffset name = do {
     n \<leftarrow> strlen name; fdt_get_property_namelen b nodeoffset name (int n) }"

text \<open>The value of a property of a tree before version 16 is moved to a multiple of 8.\<close>

definition prop_data :: "blob \<Rightarrow> int \<Rightarrow> int \<Rightarrow> int option" where
  "prop_data b prop poffset = do {
     v \<leftarrow> fdt_version b;
     if v < 0x10 \<and> (poffset + 12) mod 8 \<noteq> 0 then do {
       len \<leftarrow> fdt32_ld_i b (prop + 4);
       Some (if len \<ge> 8 then prop + 12 + 4 else prop + 12) }
     else Some (prop + 12) }"

definition fdt_getprop_namelen :: "blob \<Rightarrow> int \<Rightarrow> u8 list \<Rightarrow> int \<Rightarrow> (int + int \<times> int) option" where
  "fdt_getprop_namelen b nodeoffset name namelen = do {
     r \<leftarrow> fdt_get_property_namelen_i b nodeoffset name namelen;
     case r of Inl err \<Rightarrow> Some (Inl err)
     | Inr (prop, len, poffset) \<Rightarrow> do { d \<leftarrow> prop_data b prop poffset; Some (Inr (d, len)) } }"

definition fdt_getprop_by_offset :: "blob \<Rightarrow> int \<Rightarrow> (int + int \<times> int \<times> int) option" where
  "fdt_getprop_by_offset b offset = do {
     r \<leftarrow> fdt_get_property_by_offset_i b offset;
     case r of Inl err \<Rightarrow> Some (Inl err)
     | Inr (prop, len) \<Rightarrow> do {
       nameoff \<leftarrow> fdt32_ld_i b (prop + 8);
       name \<leftarrow> fdt_get_string b (to_int (uint nameoff));
       case name of Inl namelen \<Rightarrow> Some (Inl namelen)
       | Inr (np, nl) \<Rightarrow> do { d \<leftarrow> prop_data b prop offset; Some (Inr (d, len, np)) } } }"

definition fdt_getprop :: "blob \<Rightarrow> int \<Rightarrow> u8 list \<Rightarrow> (int + int \<times> int) option" where
  "fdt_getprop b nodeoffset name = do { n \<leftarrow> strlen name; fdt_getprop_namelen b nodeoffset name (int n) }"

section \<open>Phandles\<close>

definition word_prop :: "blob \<Rightarrow> int \<Rightarrow> string \<Rightarrow> int option option" where
  "word_prop b nodeoffset name = do {
     r \<leftarrow> fdt_getprop b nodeoffset (cbytes name);
     Some (case r of Inl err \<Rightarrow> None | Inr (p, len) \<Rightarrow> if len \<noteq> 4 then None else Some p) }"

definition fdt_get_phandle :: "blob \<Rightarrow> int \<Rightarrow> u32 option" where
  "fdt_get_phandle b nodeoffset = do {
     php \<leftarrow> word_prop b nodeoffset ''phandle'';
     case php of Some p \<Rightarrow> fdt32_ld_i b p
     | None \<Rightarrow> do {
       php \<leftarrow> word_prop b nodeoffset ''linux,phandle'';
       case php of Some p \<Rightarrow> fdt32_ld_i b p | None \<Rightarrow> Some 0 } }"

text \<open>The traversals of all nodes use \<open>fdt_next_node\<close> without a depth counter.\<close>

definition next_node :: "blob \<Rightarrow> int \<Rightarrow> int option" where
  "next_node b offset = map_option fst (fdt_next_node b offset None)"

partial_function (option) max_phandle_loop :: "blob \<Rightarrow> int \<Rightarrow> u32 \<Rightarrow> (int + u32) option" where
  "max_phandle_loop b offset mx = do {
     offset \<leftarrow> next_node b offset;
     if offset < 0 then Some (if offset = - FDT_ERR_NOTFOUND then Inr mx else Inl offset) else do {
     v \<leftarrow> fdt_get_phandle b offset;
     max_phandle_loop b offset (if v > mx then v else mx) } }"

declare max_phandle_loop.simps [code]

definition fdt_find_max_phandle :: "blob \<Rightarrow> (int + u32) option" where
  "fdt_find_max_phandle b = max_phandle_loop b (- 1) 0"

definition FDT_MAX_PHANDLE :: u32 where "FDT_MAX_PHANDLE = 0xfffffffe"

definition fdt_generate_phandle :: "blob \<Rightarrow> (int + u32) option" where
  "fdt_generate_phandle b = do {
     r \<leftarrow> fdt_find_max_phandle b;
     Some (case r of Inl err \<Rightarrow> Inl err
       | Inr mx \<Rightarrow> if mx = FDT_MAX_PHANDLE then Inl (- FDT_ERR_NOPHANDLES) else Inr (mx + 1)) }"

definition fdt_get_max_phandle :: "blob \<Rightarrow> u32 option" where
  "fdt_get_max_phandle b = do { r \<leftarrow> fdt_find_max_phandle b; Some (case r of Inl err \<Rightarrow> - 1 | Inr p \<Rightarrow> p) }"

section \<open>Finding nodes by path\<close>

partial_function (option) subnode_offset_loop :: "blob \<Rightarrow> int \<Rightarrow> int option \<Rightarrow> u8 list \<Rightarrow> int \<Rightarrow> int option" where
  "subnode_offset_loop b offset depth name namelen =
    (if offset \<ge> 0 \<and> the depth \<ge> 0 then do {
       hit \<leftarrow> (if the depth = 1 then fdt_nodename_eq_i b offset name namelen else Some False);
       if hit then Some offset else do {
       (offset, depth) \<leftarrow> fdt_next_node b offset depth;
       subnode_offset_loop b offset depth name namelen } }
     else if the depth < 0 then Some (- FDT_ERR_NOTFOUND)
     else Some offset)"

declare subnode_offset_loop.simps [code]

definition fdt_subnode_offset_namelen :: "blob \<Rightarrow> int \<Rightarrow> u8 list \<Rightarrow> int \<Rightarrow> int option" where
  "fdt_subnode_offset_namelen b offset name namelen = do {
     e \<leftarrow> fdt_ro_probe_i b;
     if e < 0 then Some e else subnode_offset_loop b offset (Some 0) name namelen }"

definition fdt_subnode_offset :: "blob \<Rightarrow> int \<Rightarrow> u8 list \<Rightarrow> int option" where
  "fdt_subnode_offset b parentoffset name = do {
     n \<leftarrow> strlen name; fdt_subnode_offset_namelen b parentoffset name (int n) }"

text \<open>
  The loop over the components of a path. \<open>path\<close> are the bytes from the position \<open>p\<close> on and \<open>n\<close> is the distance
  to the end. The inner loop over slashes returns when it reaches the end.
\<close>

fun skip_slashes :: "u8 list \<Rightarrow> nat \<Rightarrow> (u8 list \<times> nat) option" where
  "skip_slashes [] n = None"
| "skip_slashes (c # path) n = (if c = 0x2f then (if n = 1 then Some (path, 0) else skip_slashes path (n - 1))
     else Some (c # path, n))"

partial_function (option) path_loop :: "blob \<Rightarrow> u8 list \<Rightarrow> nat \<Rightarrow> int \<Rightarrow> int option" where
  "path_loop b path n offset =
    (if n > 0 then do {
       (path, n) \<leftarrow> skip_slashes path n;
       if n = 0 then Some offset else do {
       q \<leftarrow> memchr path 0x2f n;
       let k = (case q of None \<Rightarrow> n | Some k \<Rightarrow> k);
       offset \<leftarrow> fdt_subnode_offset_namelen b offset path (int k);
       if offset < 0 then Some offset else path_loop b (drop k path) (n - k) offset } }
     else Some offset)"

declare path_loop.simps [code]

text \<open>
  A path that does not start with a slash starts with an alias, a property of the node \<open>/aliases\<close> whose value
  is a path again. The first argument bounds the depth of this recursion.
\<close>

fun path_offset_fuel :: "nat \<Rightarrow> blob \<Rightarrow> u8 list \<Rightarrow> int \<Rightarrow> int option"
  and alias_fuel :: "nat \<Rightarrow> blob \<Rightarrow> u8 list \<Rightarrow> int \<Rightarrow> int option option" where
  "path_offset_fuel f b path namelen = do {
     e \<leftarrow> fdt_ro_probe_i b;
     if e < 0 then Some e
     else if namelen \<le> 0 then Some (- FDT_ERR_BADPATH) else do {
     c \<leftarrow> (case path of [] \<Rightarrow> None | c # _ \<Rightarrow> Some c);
     if c \<noteq> 0x2f then (case f of 0 \<Rightarrow> None | Suc g \<Rightarrow> do {
       q \<leftarrow> memchr path 0x2f (nat namelen);
       let k = (case q of None \<Rightarrow> nat namelen | Some k \<Rightarrow> k);
       a \<leftarrow> alias_fuel g b path (int k);
       case a of None \<Rightarrow> Some (- FDT_ERR_BADPATH)
       | Some p \<Rightarrow> do {
         l \<leftarrow> strlen (from_ptr b p);
         offset \<leftarrow> path_offset_fuel g b (from_ptr b p) (int l);
         path_loop b (drop k path) (nat namelen - k) offset } })
     else path_loop b path (nat namelen) 0 } }"
| "alias_fuel f b name namelen = (case f of 0 \<Rightarrow> None | Suc g \<Rightarrow> do {
     offset \<leftarrow> path_offset_fuel g b (cbytes ''/aliases'') 8;
     if offset < 0 then Some None else do {
     r \<leftarrow> fdt_getprop_namelen b offset name namelen;
     case r of Inl err \<Rightarrow> Some None
     | Inr (p, len) \<Rightarrow>
       if len > 0 then do {
         z \<leftarrow> rd b (p + len - 1);
         if z = 0 then do { c \<leftarrow> rd b p; Some (if c = 0x2f then Some p else None) } else Some None }
       else Some None } })"

declare path_offset_fuel.simps [simp del] alias_fuel.simps [simp del]

definition fdt_path_offset_namelen :: "blob \<Rightarrow> u8 list \<Rightarrow> int \<Rightarrow> int option" where
  "fdt_path_offset_namelen b path namelen = path_offset_fuel 2 b path namelen"

definition fdt_path_offset :: "blob \<Rightarrow> u8 list \<Rightarrow> int option" where
  "fdt_path_offset b path = do { n \<leftarrow> strlen path; fdt_path_offset_namelen b path (int n) }"

definition fdt_path_getprop_namelen :: "blob \<Rightarrow> u8 list \<Rightarrow> u8 list \<Rightarrow> int \<Rightarrow> (int \<times> int) option option" where
  "fdt_path_getprop_namelen b path propname propnamelen = do {
     offset \<leftarrow> fdt_path_offset b path;
     if offset < 0 then Some None else do {
     r \<leftarrow> fdt_getprop_namelen b offset propname propnamelen;
     Some (case r of Inl err \<Rightarrow> None | Inr v \<Rightarrow> Some v) } }"

definition fdt_get_alias_namelen :: "blob \<Rightarrow> u8 list \<Rightarrow> int \<Rightarrow> int option option" where
  "fdt_get_alias_namelen b name namelen = alias_fuel 1 b name namelen"

definition fdt_get_alias :: "blob \<Rightarrow> u8 list \<Rightarrow> int option option" where
  "fdt_get_alias b name = do { n \<leftarrow> strlen name; fdt_get_alias_namelen b name (int n) }"

definition fdt_get_symbol_namelen :: "blob \<Rightarrow> u8 list \<Rightarrow> int \<Rightarrow> int option option" where
  "fdt_get_symbol_namelen b name namelen = do {
     r \<leftarrow> fdt_path_getprop_namelen b (cbytes ''/__symbols__'') name namelen;
     Some (map_option fst r) }"

definition fdt_get_symbol :: "blob \<Rightarrow> u8 list \<Rightarrow> int option option" where
  "fdt_get_symbol b name = do { n \<leftarrow> strlen name; fdt_get_symbol_namelen b name (int n) }"

section \<open>The path and the parents of a node\<close>

text \<open>The removal of the last component of a path in the buffer; the argument is the length in use.\<close>

partial_function (option) drop_component :: "u8 list \<Rightarrow> int \<Rightarrow> int option" where
  "drop_component buf p = do {
     let q = p - 1;
     c \<leftarrow> (if 0 < q \<and> q \<le> int (length buf) then Some (buf ! nat (q - 1)) else None);
     if c \<noteq> 0x2f then drop_component buf q else Some q }"

declare drop_component.simps [code]

partial_function (option) drop_components :: "u8 list \<Rightarrow> int \<Rightarrow> int \<Rightarrow> int \<Rightarrow> (int \<times> int) option" where
  "drop_components buf p pdepth depth =
    (if pdepth > depth then do { p \<leftarrow> drop_component buf p; drop_components buf p (pdepth - 1) depth }
     else Some (p, pdepth))"

declare drop_components.simps [code]

definition put :: "u8 list \<Rightarrow> int \<Rightarrow> u8 list \<Rightarrow> u8 list option" where
  "put buf p v = (if 0 \<le> p \<and> p + int (length v) \<le> int (length buf)
     then Some (take (nat p) buf @ v @ drop (nat p + length v) buf) else None)"

text \<open>The end of the function when the loop has run out of nodes.\<close>

definition no_such_node :: "int \<Rightarrow> int" where
  "no_such_node offset = (if offset = - FDT_ERR_NOTFOUND \<or> offset \<ge> 0 then - FDT_ERR_BADOFFSET
     else if offset = - FDT_ERR_BADOFFSET then - FDT_ERR_BADSTRUCTURE else offset)"

text \<open>One pass of the loop that appends the name of the node at \<open>offset\<close>: an error, or the new buffer.\<close>

definition append_name :: "blob \<Rightarrow> int \<Rightarrow> u8 list \<Rightarrow> int \<Rightarrow> int \<Rightarrow> int \<Rightarrow> int \<Rightarrow> (int + u8 list \<times> int \<times> int) option" where
  "append_name b offset buf buflen p pdepth depth =
    (if pdepth \<ge> depth then do {
       r \<leftarrow> fdt_get_name b offset;
       case r of Inl err \<Rightarrow> Some (Inl err)
       | Inr (name, namelen) \<Rightarrow>
         if p + namelen + 1 \<le> buflen then do {
           buf \<leftarrow> put buf p (take (nat namelen) (from_ptr b name));
           buf \<leftarrow> put buf (p + namelen) [0x2f];
           Some (Inr (buf, p + namelen + 1, pdepth + 1)) }
         else Some (Inr (buf, p, pdepth)) }
     else Some (Inr (buf, p, pdepth)))"

partial_function (option) get_path_loop ::
  "blob \<Rightarrow> int \<Rightarrow> int \<Rightarrow> int \<Rightarrow> int \<Rightarrow> u8 list \<Rightarrow> int \<Rightarrow> int \<Rightarrow> (int \<times> u8 list) option" where
  "get_path_loop b nodeoffset buflen offset depth buf p pdepth =
    (if offset \<ge> 0 \<and> offset \<le> nodeoffset then do {
       (p, pdepth) \<leftarrow> drop_components buf p pdepth depth;
       r \<leftarrow> append_name b offset buf buflen p pdepth depth;
       case r of Inl err \<Rightarrow> Some (err, buf)
       | Inr (buf, p, pdepth) \<Rightarrow>
         if offset = nodeoffset then
           (if pdepth < depth + 1 then Some (- FDT_ERR_NOSPACE, buf) else do {
            let p = (if p > 1 then p - 1 else p);
            buf \<leftarrow> put buf p [0];
            Some (0, buf) })
         else do {
           (offset, depth) \<leftarrow> fdt_next_node b offset (Some depth);
           get_path_loop b nodeoffset buflen offset (the depth) buf p pdepth } }
     else Some (no_such_node offset, buf))"

declare get_path_loop.simps [code]

definition fdt_get_path :: "blob \<Rightarrow> int \<Rightarrow> u8 list \<Rightarrow> int \<Rightarrow> (int \<times> u8 list) option" where
  "fdt_get_path b nodeoffset buf buflen = do {
     e \<leftarrow> fdt_ro_probe_i b;
     if e < 0 then Some (e, buf)
     else if buflen < 2 then Some (- FDT_ERR_NOSPACE, buf)
     else get_path_loop b nodeoffset buflen 0 0 buf 0 0 }"

text \<open>The result is the offset of the ancestor and, when the node was reached, its depth.\<close>

partial_function (option) supernode_loop :: "blob \<Rightarrow> int \<Rightarrow> int \<Rightarrow> int \<Rightarrow> int \<Rightarrow> int \<Rightarrow> (int \<times> int option) option" where
  "supernode_loop b nodeoffset supernodedepth offset depth supernodeoffset =
    (if offset \<ge> 0 \<and> offset \<le> nodeoffset then do {
       let supernodeoffset = (if depth = supernodedepth then offset else supernodeoffset);
       if offset = nodeoffset then
         Some (if supernodedepth > depth then - FDT_ERR_NOTFOUND else supernodeoffset, Some depth)
       else do {
         (offset, depth) \<leftarrow> fdt_next_node b offset (Some depth);
         supernode_loop b nodeoffset supernodedepth offset (the depth) supernodeoffset } }
     else Some (no_such_node offset, None))"

declare supernode_loop.simps [code]

definition fdt_supernode_atdepth_offset :: "blob \<Rightarrow> int \<Rightarrow> int \<Rightarrow> (int \<times> int option) option" where
  "fdt_supernode_atdepth_offset b nodeoffset supernodedepth = do {
     e \<leftarrow> fdt_ro_probe_i b;
     if e < 0 then Some (e, None)
     else if supernodedepth < 0 then Some (- FDT_ERR_NOTFOUND, None)
     else supernode_loop b nodeoffset supernodedepth 0 0 (- FDT_ERR_INTERNAL) }"

definition fdt_node_depth :: "blob \<Rightarrow> int \<Rightarrow> int option" where
  "fdt_node_depth b nodeoffset = do {
     (err, nodedepth) \<leftarrow> fdt_supernode_atdepth_offset b nodeoffset 0;
     if err \<noteq> 0 then Some (if err < 0 then err else - FDT_ERR_INTERNAL) else nodedepth }"

definition fdt_parent_offset :: "blob \<Rightarrow> int \<Rightarrow> int option" where
  "fdt_parent_offset b nodeoffset = do {
     nodedepth \<leftarrow> fdt_node_depth b nodeoffset;
     if nodedepth < 0 then Some nodedepth
     else map_option fst (fdt_supernode_atdepth_offset b nodeoffset (nodedepth - 1)) }"

section \<open>Searching all nodes\<close>

partial_function (option) by_prop_value_loop :: "blob \<Rightarrow> int \<Rightarrow> u8 list \<Rightarrow> u8 list \<Rightarrow> int \<Rightarrow> int option" where
  "by_prop_value_loop b offset propname propval proplen =
    (if offset \<ge> 0 then do {
       r \<leftarrow> fdt_getprop b offset propname;
       hit \<leftarrow> (case r of Inl err \<Rightarrow> Some False
         | Inr (val, len) \<Rightarrow> if len = proplen then mem_eq (from_ptr b val) propval (nat len) else Some False);
       if hit then Some offset else do {
       offset \<leftarrow> next_node b offset;
       by_prop_value_loop b offset propname propval proplen } }
     else Some offset)"

declare by_prop_value_loop.simps [code]

definition fdt_node_offset_by_prop_value :: "blob \<Rightarrow> int \<Rightarrow> u8 list \<Rightarrow> u8 list \<Rightarrow> int \<Rightarrow> int option" where
  "fdt_node_offset_by_prop_value b startoffset propname propval proplen = do {
     e \<leftarrow> fdt_ro_probe_i b;
     if e < 0 then Some e else do {
     offset \<leftarrow> next_node b startoffset;
     by_prop_value_loop b offset propname propval proplen } }"

partial_function (option) by_phandle_loop :: "blob \<Rightarrow> int \<Rightarrow> u32 \<Rightarrow> int option" where
  "by_phandle_loop b offset phandle =
    (if offset \<ge> 0 then do {
       h \<leftarrow> fdt_get_phandle b offset;
       if h = phandle then Some offset else do {
       offset \<leftarrow> next_node b offset;
       by_phandle_loop b offset phandle } }
     else Some offset)"

declare by_phandle_loop.simps [code]

definition fdt_node_offset_by_phandle :: "blob \<Rightarrow> u32 \<Rightarrow> int option" where
  "fdt_node_offset_by_phandle b phandle =
    (if phandle = 0 \<or> phandle = NOT 0 then Some (- FDT_ERR_BADPHANDLE) else do {
     e \<leftarrow> fdt_ro_probe_i b;
     if e < 0 then Some e else do {
     offset \<leftarrow> next_node b (- 1);
     by_phandle_loop b offset phandle } })"

section \<open>Lists of strings\<close>

text \<open>The list is the bytes from the pointer to the end of the buffer, with the length that is left of it.\<close>

function stringlist_contains_loop :: "u8 list \<Rightarrow> int \<Rightarrow> u8 list \<Rightarrow> int \<Rightarrow> bool option" where
  "stringlist_contains_loop strlist listlen str len =
    (if listlen \<ge> len \<and> len \<ge> 0 then do {
       eq \<leftarrow> mem_eq str strlist (nat len + 1);
       if eq then Some True else do {
       p \<leftarrow> memchr strlist 0 (nat listlen);
       case p of None \<Rightarrow> Some False
       | Some k \<Rightarrow> stringlist_contains_loop (drop (k + 1) strlist) (listlen - (int k + 1)) str len } }
     else Some False)"
  by pat_completeness auto
termination by (relation "measure (\<lambda>(strlist, listlen, str, len). nat (listlen + 1))") auto

declare stringlist_contains_loop.simps [simp del]

definition fdt_stringlist_contains :: "u8 list \<Rightarrow> int \<Rightarrow> u8 list \<Rightarrow> bool option" where
  "fdt_stringlist_contains strlist listlen str = do {
     len \<leftarrow> strlen str; stringlist_contains_loop strlist listlen str (int len) }"

text \<open>
  The loops of the other three functions step through the strings in the same way; \<open>n\<close> is the distance to the
  end of the list. The step gives the length of the first string with its terminator, or \<open>None\<close> when that is
  missing.
\<close>

definition next_string :: "u8 list \<Rightarrow> nat \<Rightarrow> nat option option" where
  "next_string xs n = do {
     l \<leftarrow> strnlen xs n;
     let length = l + 1;
     Some (if length > n then None else Some length) }"

function stringlist_count_loop :: "u8 list \<Rightarrow> nat \<Rightarrow> int \<Rightarrow> int option" where
  "stringlist_count_loop xs n count =
    (if 0 < n then do {
       r \<leftarrow> next_string xs n;
       case r of None \<Rightarrow> Some (- FDT_ERR_BADVALUE)
       | Some l \<Rightarrow> stringlist_count_loop (drop l xs) (n - l) (count + 1) }
     else Some count)"
  by pat_completeness auto
termination
  by (relation "measure (\<lambda>(xs, n, count). n)") (auto simp: next_string_def bind_eq_Some_conv split: if_splits)

declare stringlist_count_loop.simps [simp del]

definition fdt_stringlist_count :: "blob \<Rightarrow> int \<Rightarrow> u8 list \<Rightarrow> int option" where
  "fdt_stringlist_count b nodeoffset property = do {
     r \<leftarrow> fdt_getprop b nodeoffset property;
     case r of Inl err \<Rightarrow> Some err
     | Inr (p, len) \<Rightarrow> stringlist_count_loop (from_ptr b p) (nat len) 0 }"

function stringlist_search_loop :: "u8 list \<Rightarrow> nat \<Rightarrow> u8 list \<Rightarrow> nat \<Rightarrow> int \<Rightarrow> int option" where
  "stringlist_search_loop xs n str len idx =
    (if 0 < n then do {
       r \<leftarrow> next_string xs n;
       case r of None \<Rightarrow> Some (- FDT_ERR_BADVALUE)
       | Some l \<Rightarrow> do {
         eq \<leftarrow> (if l = len then mem_eq xs str l else Some False);
         if eq then Some idx else stringlist_search_loop (drop l xs) (n - l) str len (idx + 1) } }
     else Some (- FDT_ERR_NOTFOUND))"
  by pat_completeness auto
termination
  by (relation "measure (\<lambda>(xs, n, str, len, idx). n)") (auto simp: next_string_def bind_eq_Some_conv split: if_splits)

declare stringlist_search_loop.simps [simp del]

definition fdt_stringlist_search :: "blob \<Rightarrow> int \<Rightarrow> u8 list \<Rightarrow> u8 list \<Rightarrow> int option" where
  "fdt_stringlist_search b nodeoffset property str = do {
     r \<leftarrow> fdt_getprop b nodeoffset property;
     case r of Inl err \<Rightarrow> Some err
     | Inr (p, len) \<Rightarrow> do { l \<leftarrow> strlen str; stringlist_search_loop (from_ptr b p) (nat len) str (l + 1) 0 } }"

text \<open>The result of a hit is the distance of the string from the start of the list and its length.\<close>

function stringlist_get_loop :: "u8 list \<Rightarrow> nat \<Rightarrow> int \<Rightarrow> int \<Rightarrow> (int + int \<times> int) option" where
  "stringlist_get_loop xs n idx p =
    (if 0 < n then do {
       r \<leftarrow> next_string xs n;
       case r of None \<Rightarrow> Some (Inl (- FDT_ERR_BADVALUE))
       | Some l \<Rightarrow> if idx = 0 then Some (Inr (p, int l - 1))
                   else stringlist_get_loop (drop l xs) (n - l) (idx - 1) (p + int l) }
     else Some (Inl (- FDT_ERR_NOTFOUND)))"
  by pat_completeness auto
termination
  by (relation "measure (\<lambda>(xs, n, idx, p). n)") (auto simp: next_string_def bind_eq_Some_conv split: if_splits)

declare stringlist_get_loop.simps [simp del]

definition fdt_stringlist_get :: "blob \<Rightarrow> int \<Rightarrow> u8 list \<Rightarrow> int \<Rightarrow> (int + int \<times> int) option" where
  "fdt_stringlist_get b nodeoffset property idx = do {
     r \<leftarrow> fdt_getprop b nodeoffset property;
     case r of Inl err \<Rightarrow> Some (Inl err)
     | Inr (p, len) \<Rightarrow> stringlist_get_loop (from_ptr b p) (nat len) idx p }"

definition fdt_node_check_compatible :: "blob \<Rightarrow> int \<Rightarrow> u8 list \<Rightarrow> int option" where
  "fdt_node_check_compatible b nodeoffset compatible = do {
     r \<leftarrow> fdt_getprop b nodeoffset (cbytes ''compatible'');
     case r of Inl err \<Rightarrow> Some err
     | Inr (prop, len) \<Rightarrow> do {
       c \<leftarrow> fdt_stringlist_contains (from_ptr b prop) len compatible;
       Some (if c then 0 else 1) } }"

partial_function (option) by_compatible_loop :: "blob \<Rightarrow> int \<Rightarrow> u8 list \<Rightarrow> int option" where
  "by_compatible_loop b offset compatible =
    (if offset \<ge> 0 then do {
       err \<leftarrow> fdt_node_check_compatible b offset compatible;
       if err < 0 \<and> err \<noteq> - FDT_ERR_NOTFOUND then Some err
       else if err = 0 then Some offset else do {
       offset \<leftarrow> next_node b offset;
       by_compatible_loop b offset compatible } }
     else Some offset)"

declare by_compatible_loop.simps [code]

definition fdt_node_offset_by_compatible :: "blob \<Rightarrow> int \<Rightarrow> u8 list \<Rightarrow> int option" where
  "fdt_node_offset_by_compatible b startoffset compatible = do {
     e \<leftarrow> fdt_ro_probe_i b;
     if e < 0 then Some e else do {
     offset \<leftarrow> next_node b startoffset;
     by_compatible_loop b offset compatible } }"

end
