(* ===== verification/Fdt_Safe.thy ===== *)
theory Fdt_Safe
  imports Fdt_Ro
begin

text \<open>
  Memory safety and termination of the readers of libfdt on arbitrary contents. The only assumptions on the tree
  are on its buffer: it holds the header and as many bytes as the header claims.
\<close>

section \<open>Big endian words\<close>

definition be32 :: "u8 \<Rightarrow> u8 \<Rightarrow> u8 \<Rightarrow> u8 \<Rightarrow> u32" where
  "be32 b0 b1 b2 b3 = push_bit 24 (ucast b0) OR push_bit 16 (ucast b1) OR push_bit 8 (ucast b2) OR ucast b3"

lemma byte_bit: "bit (ucast c :: u32) n \<longleftrightarrow> n < 8 \<and> bit c n" for c :: u8
  by (auto simp: bit_simps dest: bit_imp_le_length)

lemma bytes_of_word:
  fixes b0 b1 b2 b3 :: u8
  defines "x \<equiv> (ucast b0 OR push_bit 8 (ucast b1) OR push_bit 16 (ucast b2) OR push_bit 24 (ucast b3) :: u32)"
  shows "x AND mask 8 = ucast b0" "drop_bit 8 x AND mask 8 = ucast b1"
    "drop_bit 16 x AND mask 8 = ucast b2" "drop_bit 24 x AND mask 8 = ucast b3"
proof -
  have x: "bit x n \<longleftrightarrow> n < 8 \<and> bit b0 n \<or> 8 \<le> n \<and> n < 16 \<and> bit b1 (n - 8) \<or>
      16 \<le> n \<and> n < 24 \<and> bit b2 (n - 16) \<or> 24 \<le> n \<and> n < 32 \<and> bit b3 (n - 24)" for n
    unfolding x_def bit_or_iff bit_push_bit_iff byte_bit by (auto dest: bit_imp_le_length)
  have a: "bit (drop_bit k x AND mask 8) n \<longleftrightarrow> n < 8 \<and> bit x (k + n)" for k n
    by (auto simp: bit_and_iff bit_mask_iff bit_drop_bit_eq)
  show "x AND mask 8 = ucast b0" by (rule bit_word_eqI) (auto simp: bit_and_iff bit_mask_iff byte_bit x)
  show "drop_bit 8 x AND mask 8 = ucast b1" by (rule bit_word_eqI) (auto simp: a byte_bit x)
  show "drop_bit 16 x AND mask 8 = ucast b2" by (rule bit_word_eqI) (auto simp: a byte_bit x)
  show "drop_bit 24 x AND mask 8 = ucast b3" by (rule bit_word_eqI) (auto simp: a byte_bit x)
qed

lemma fdt32_to_cpu_bytes:
  "fdt32_to_cpu (ucast b0 OR push_bit 8 (ucast b1) OR push_bit 16 (ucast b2) OR push_bit 24 (ucast b3)) = be32 b0 b1 b2 b3"
proof -
  have m: "(0xff :: u32) = mask 8" by (simp add: mask_eq_exp_minus_1)
  show ?thesis unfolding fdt32_to_cpu_def be32_def m bytes_of_word by (rule refl)
qed

lemma fdt32_ld_i_eq: "fdt32_ld_i b p = fdt32_ld b p"
  by (simp add: fdt32_ld_i_def load32_def fdt32_ld_def fdt32_to_cpu_bytes be32_def map_option_bind comp_def
    split: Option.bind_split)

text \<open>The word at a position of the buffer.\<close>

definition word_at :: "blob \<Rightarrow> int \<Rightarrow> u32" where
  "word_at b p = (let c = (\<lambda>i. fdt_bytes b ! nat (p + i)) in be32 (c 0) (c 1) (c 2) (c 3))"

lemma fdt32_ld_eq:
  "0 \<le> p \<Longrightarrow> p + 4 \<le> int (length (fdt_bytes b)) \<Longrightarrow> fdt32_ld b p = Some (word_at b p)"
  by (simp add: fdt32_ld_def rd_def word_at_def be32_def)

section \<open>Trees that fit their buffer\<close>

abbreviation tsize :: "blob \<Rightarrow> int" where
  "tsize b \<equiv> uint (word_at b 4)"

definition fits :: "blob \<Rightarrow> bool" where
  "fits b \<longleftrightarrow> 40 \<le> length (fdt_bytes b) \<and> tsize b \<le> int (length (fdt_bytes b)) \<and> tsize b + 4 \<le> INT_MAX"

lemma header_words:
  assumes "fits b"
  shows "fdt_magic b = Some (word_at b 0)" "fdt_totalsize b = Some (word_at b 4)"
    "fdt_off_dt_struct b = Some (word_at b 8)" "fdt_off_dt_strings b = Some (word_at b 12)"
    "fdt_off_mem_rsvmap b = Some (word_at b 16)" "fdt_version b = Some (word_at b 20)"
    "fdt_last_comp_version b = Some (word_at b 24)" "fdt_size_dt_strings b = Some (word_at b 32)"
    "fdt_size_dt_struct b = Some (word_at b 36)"
  using assms by (simp_all add: fits_def fdt_header_defs fdt32_ld_eq)

lemma to_int_id: "in_int x \<Longrightarrow> to_int x = x"
  by (simp add: to_int_def in_int_def INT_MAX_def signed_take_bit_int_eq_self)

lemma uint_to_uint: "0 \<le> x \<Longrightarrow> x \<le> INT_MAX \<Longrightarrow> uint (to_uint x) = x"
  by (simp add: uint_word_of_int INT_MAX_def)

lemma uint_plus_no_wrap: "\<not> x + y < x \<Longrightarrow> uint (x + y) = uint x + uint y" for x y :: u32
  by (metis uint_plus_simple_iff not_less)

text \<open>A pointer the bounds check lets through stands for \<open>len\<close> bytes inside the tree.\<close>

lemma offset_ptr_ok:
  assumes "fits b"
  obtains (null) "fdt_offset_ptr b offset len = Some None"
  | (ptr) "fdt_offset_ptr b offset len = Some (Some (uint (word_at b 8) + offset))" "0 \<le> offset"
      "offset \<le> INT_MAX \<Longrightarrow> uint (word_at b 8) + offset + uint len \<le> tsize b"
proof (cases "offset < 0")
  case True
  then show ?thesis using null by (simp add: fdt_offset_ptr_def header_words [OF assms])
next
  case False
  let ?s = "word_at b 8" and ?u = "to_uint offset"
  let ?out = "?u + ?s < ?u \<or> ?u + ?s + len < ?u + ?s \<or> ?u + ?s + len > word_at b 4"
  show ?thesis
  proof (cases ?out)
    case True
    then have "fdt_offset_ptr b offset len = Some None"
      using False by (simp add: fdt_offset_ptr_def header_words [OF assms] Let_def)
    then show ?thesis by (rule null)
  next
    case no: False
    have "uint ?s + offset + uint len \<le> tsize b" if "offset \<le> INT_MAX"
      using no False that uint_plus_no_wrap [of ?u ?s] uint_plus_no_wrap [of "?u + ?s" len] uint_to_uint [of offset]
      by (simp add: not_less word_le_def)
    moreover have "fdt_offset_ptr b offset len = Some None \<or> fdt_offset_ptr b offset len = Some (Some (uint ?s + offset))"
      using False no by (simp add: fdt_offset_ptr_def header_words [OF assms] Let_def fdt_offset_ptr_i_def)
    ultimately show ?thesis using null ptr False by auto
  qed
qed

abbreviation sbase :: "blob \<Rightarrow> int" where
  "sbase b \<equiv> uint (word_at b 8)"

lemma from_ptr_Cons:
  "0 \<le> p \<Longrightarrow> p < int (length (fdt_bytes b)) \<Longrightarrow> from_ptr b p = fdt_bytes b ! nat p # from_ptr b (p + 1)"
  by (simp add: from_ptr_def nat_add_distrib Cons_nth_drop_Suc)

section \<open>The tag reader\<close>

text \<open>The name scan stops inside the tree, at the terminator of the name, or reports a missing one.\<close>

lemma skip_name_ok:
  assumes "fits b" "0 \<le> offset" "offset \<le> tsize b"
  shows "(\<exists>o'. skip_name b offset = Some (None, o')) \<or>
    (\<exists>q o'. skip_name b offset = Some (Some q, o') \<and> offset < o' \<and> sbase b + o' \<le> tsize b \<and>
       strlen (from_ptr b (sbase b + offset)) = Some (nat (o' - offset) - 1))"
  using assms(2,3)
proof (induction "nat (tsize b + 1 - offset)" arbitrary: offset rule: less_induct)
  case less
  have im: "tsize b + 4 \<le> INT_MAX" and len: "tsize b \<le> int (length (fdt_bytes b))" using assms(1) by (auto simp: fits_def)
  have add: "add_int offset 1 = Some (offset + 1)"
    using less.prems im by (simp add: add_int_def in_int_def INT_MAX_def)
  show ?case
  proof (cases rule: offset_ptr_ok [OF assms(1), of offset 1])
    case 1
    then show ?thesis by (subst skip_name.simps) (simp add: add)
  next
    case ptr: 2
    let ?q = "sbase b + offset"
    have q: "0 \<le> ?q" "?q + 1 \<le> tsize b" using ptr(3) less.prems im by simp_all
    then have r: "rd b ?q = Some (fdt_bytes b ! nat ?q)" using len by (simp add: rd_def)
    have f: "from_ptr b ?q = fdt_bytes b ! nat ?q # from_ptr b (?q + 1)"
      using q len by (intro from_ptr_Cons) simp_all
    show ?thesis
    proof (cases "fdt_bytes b ! nat ?q = 0")
      case True
      have "skip_name b offset = Some (Some ?q, offset + 1)"
        by (subst skip_name.simps) (simp add: add ptr(1) r True)
      then show ?thesis using q True f by (intro disjI2 exI [of _ ?q] exI [of _ "offset + 1"]) simp
    next
      case False
      have s: "skip_name b offset = skip_name b (offset + 1)"
        by (subst skip_name.simps) (simp add: add ptr(1) r False)
      have "sbase b \<ge> 0" by simp
      then have "offset + 1 \<le> tsize b" using q by linarith
      then consider o' where "skip_name b (offset + 1) = Some (None, o')"
        | q' o' where "skip_name b (offset + 1) = Some (Some q', o')" "offset + 1 < o'" "sbase b + o' \<le> tsize b"
            "strlen (from_ptr b (sbase b + (offset + 1))) = Some (nat (o' - (offset + 1)) - 1)"
        using less.hyps [of "offset + 1"] less.prems by auto
      then show ?thesis
      proof cases
        case 1
        then show ?thesis by (simp add: s)
      next
        case 2
        have "nat (o' - (offset + 1)) - 1 + 1 = nat (o' - offset) - 1" using 2(2) by linarith
        then show ?thesis using 2 f False
          by (intro disjI2 exI [of _ q'] exI [of _ o']) (simp add: s add.assoc)
      qed
    qed
  qed
qed

text \<open>
  The reader subtracts two offsets of type \<open>int\<close> after it has added the length of a property. A property whose
  length, together with its position, comes within 16 of \<open>INT_MAX\<close> overflows there.
\<close>

definition no_huge_prop :: "blob \<Rightarrow> bool" where
  "no_huge_prop b \<longleftrightarrow> (\<forall>p. 0 \<le> p \<and> p + 8 \<le> tsize b \<and> word_at b p = FDT_PROP \<longrightarrow> p + uint (word_at b (p + 4)) + 16 < INT_MAX)"

definition tags :: "u32 set" where
  "tags = {FDT_BEGIN_NODE, FDT_END_NODE, FDT_PROP, FDT_NOP, FDT_END}"

text \<open>What a successful read of a tag guarantees.\<close>

definition realign :: "blob \<Rightarrow> u32 \<Rightarrow> int \<Rightarrow> int" where
  "realign b len start = (if word_at b 20 < 0x10 \<and> 8 \<le> len \<and> (start + 12) mod 8 \<noteq> 0 then 4 else 0)"

definition tag_read :: "blob \<Rightarrow> int \<Rightarrow> u32 \<Rightarrow> int \<Rightarrow> bool" where
  "tag_read b start tag next \<longleftrightarrow> 0 \<le> start \<and> start + 4 \<le> next \<and> next \<le> tsize b + 3 \<and> next mod 4 = 0 \<and> tag \<in> tags \<and>
     word_at b (sbase b + start) = tag \<and> sbase b + start + 4 \<le> tsize b \<and>
     (tag = FDT_BEGIN_NODE \<longrightarrow> (\<exists>n. strlen (from_ptr b (sbase b + start + 4)) = Some n)) \<and>
     (tag = FDT_PROP \<longrightarrow> (let len = word_at b (sbase b + start + 4) in
        sbase b + start + 12 + uint len + realign b len start \<le> tsize b))"

lemma tagalign:
  assumes "0 \<le> x" "x + 4 \<le> INT_MAX"
  shows "size_to_int (FDT_TAGALIGN x) = (x + 3) div 4 * 4"
proof -
  have m: "(4 - 1 :: u64) = mask 2" by (simp add: mask_eq_exp_minus_1)
  have e: "(word_of_int x + 4 - 1 :: u64) = word_of_int (x + 3)" by (simp add: wi_hom_syms)
  have u: "uint (word_of_int (x + 3) :: u64) = x + 3"
    unfolding uint_word_of_int using assms by (simp add: INT_MAX_def)
  have "FDT_TAGALIGN x = word_of_int (x + 3) AND NOT (mask 2)"
    unfolding FDT_TAGALIGN_def FDT_ALIGN_def e m by (rule refl)
  then have "unat (FDT_TAGALIGN x) = unat (word_of_int (x + 3) :: u64) div 4 * 4" by (simp add: unat_and_not_mask)
  then have "uint (FDT_TAGALIGN x) = (x + 3) div 4 * 4" using u by (metis uint_nat of_nat_mult of_nat_numeral zdiv_int)
  moreover have "0 \<le> (x + 3) div 4 * 4" "(x + 3) div 4 * 4 \<le> INT_MAX" using assms by presburger+
  ultimately show ?thesis by (simp add: size_to_int_def to_int_id in_int_def INT_MAX_def)
qed

lemma realign_bounds: "0 \<le> realign b len start" "realign b len start \<le> 4"
  by (simp_all add: realign_def)

lemma realign_word:
  assumes "0 \<le> start" "start + 12 + uint len \<le> INT_MAX"
  shows "(to_uint (start + 12 + uint len) - len) mod 8 \<noteq> 0 \<longleftrightarrow> (start + 12) mod 8 \<noteq> 0"
proof -
  have "to_uint (start + 12 + uint len) - len = to_uint (start + 12)" by (simp add: wi_hom_syms)
  moreover have "uint (to_uint (start + 12)) = start + 12"
    using assms uint_ge_0 [of len] by (intro uint_to_uint) linarith+
  ultimately show ?thesis by (simp add: word_uint_eq_iff uint_mod)
qed

text \<open>The end of a property, when its length can be read.\<close>

lemma tag_end_prop:
  assumes "fits b" "no_huge_prop b" "0 \<le> start" "sbase b + start + 4 \<le> tsize b" "word_at b (sbase b + start) = FDT_PROP"
  shows "tag_end b FDT_PROP (start + 4) = Some None \<or>
    tag_end b FDT_PROP (start + 4) = Some (Some (start + 12 + uint (word_at b (sbase b + start + 4)) +
      realign b (word_at b (sbase b + start + 4)) start)) \<and>
      start + uint (word_at b (sbase b + start + 4)) + 16 < INT_MAX"
proof -
  have im: "tsize b + 4 \<le> INT_MAX" and len: "tsize b \<le> int (length (fdt_bytes b))" using assms(1) by (auto simp: fits_def)
  have sb: "0 \<le> sbase b" by simp
  show ?thesis
  proof (cases rule: offset_ptr_ok [OF assms(1), of "start + 4" 4])
    case 1
    then show ?thesis by (simp add: tag_end_def fdt_tags)
  next
    case 2
    let ?l = "word_at b (sbase b + start + 4)"
    have q: "sbase b + start + 8 \<le> tsize b" using 2(3) assms(3,4) im sb by simp
    have "fdt32_ld_i b (sbase b + start + 4) = Some ?l"
      unfolding fdt32_ld_i_eq using q len assms(3) sb by (intro fdt32_ld_eq) linarith+
    then have l: "fdt32_ld_i b (sbase b + (start + 4)) = Some ?l" by (simp add: add.assoc)
    have h: "sbase b + start + uint ?l + 16 < INT_MAX"
      using assms(2) q assms(3,5) sb by (auto simp: no_huge_prop_def)
    then have h': "start + uint ?l + 16 < INT_MAX" using sb by linarith
    have o: "to_int (start + 4 + (12 - FDT_TAGSIZE) + uint ?l) = start + 12 + uint ?l"
      using h' assms(3) uint_ge_0 [of ?l] by (subst to_int_id) (simp_all add: in_int_def INT_MAX_def FDT_TAGSIZE_def)
    have r: "(to_uint (start + 12 + uint ?l) - ?l) mod 8 \<noteq> 0 \<longleftrightarrow> (start + 12) mod 8 \<noteq> 0"
      using h sb assms(3) by (intro realign_word) linarith+
    have a: "add_int (start + 12 + uint ?l) 4 = Some (start + 12 + uint ?l + 4)"
      using h' assms(3) uint_ge_0 [of ?l] by (simp add: add_int_def in_int_def INT_MAX_def)
    have "prop_end b ?l (start + 4) = Some None \<or>
      prop_end b ?l (start + 4) = Some (Some (start + 12 + uint ?l + realign b ?l start))"
      unfolding prop_end_def Let_def o header_words(6) [OF assms(1)] option.simps bind.bind_lunit r realign_def
      by (simp add: a)
    then have "tag_end b FDT_PROP (start + 4) = Some None \<or>
      tag_end b FDT_PROP (start + 4) = Some (Some (start + 12 + uint ?l + realign b ?l start))"
      by (simp add: tag_end_def fdt_tags 2(1) l)
    then show ?thesis using h' by auto
  qed
qed

lemma tag_end_ok:
  assumes "fits b" "no_huge_prop b" "0 \<le> start" "sbase b + start + 4 \<le> tsize b"
  defines "tag \<equiv> word_at b (sbase b + start)" and "len \<equiv> word_at b (sbase b + start + 4)"
  shows "tag_end b tag (start + 4) = Some None \<or>
    (\<exists>e. tag_end b tag (start + 4) = Some (Some e) \<and> start + 4 \<le> e \<and> e \<le> INT_MAX \<and> tag \<in> tags \<and>
       (tag = FDT_BEGIN_NODE \<longrightarrow> (\<exists>n. strlen (from_ptr b (sbase b + start + 4)) = Some n)) \<and>
       (tag = FDT_PROP \<longrightarrow> e = start + 12 + uint len + realign b len start))"
proof -
  have im: "tsize b + 4 \<le> INT_MAX" using assms(1) by (auto simp: fits_def)
  have sb: "0 \<le> sbase b" by simp
  consider "tag = FDT_PROP" | "tag = FDT_BEGIN_NODE" | "tag \<in> {FDT_END, FDT_END_NODE, FDT_NOP}"
    | "tag \<notin> tags" by (auto simp: tags_def)
  then show ?thesis
  proof cases
    case 1
    then have t: "tag_end b FDT_PROP (start + 4) = Some None \<or>
      tag_end b FDT_PROP (start + 4) = Some (Some (start + 12 + uint len + realign b len start)) \<and>
      start + uint len + 16 < INT_MAX"
      unfolding len_def using assms(5) by (intro tag_end_prop [OF assms(1-4)]) simp
    have l: "0 \<le> uint len" by simp
    from t show ?thesis
    proof
      assume "tag_end b FDT_PROP (start + 4) = Some None"
      then show ?thesis using 1 by simp
    next
      assume "tag_end b FDT_PROP (start + 4) = Some (Some (start + 12 + uint len + realign b len start)) \<and>
        start + uint len + 16 < INT_MAX"
      then show ?thesis using 1 l realign_bounds [of b len start]
        by (intro disjI2 exI [of _ "start + 12 + uint len + realign b len start"] conjI)
          (simp_all add: tags_def fdt_tags)
    qed
  next
    case 2
    have "start + 4 \<le> tsize b" "0 \<le> start + 4" using assms(3,4) sb by linarith+
    from skip_name_ok [OF assms(1) this(2,1)] show ?thesis
    proof (elim disjE exE conjE)
      fix o' assume "skip_name b (start + 4) = Some (None, o')"
      then show ?thesis using 2 by (simp add: tag_end_def)
    next
      fix q o'
      assume h: "skip_name b (start + 4) = Some (Some q, o')" "start + 4 < o'" "sbase b + o' \<le> tsize b"
        "strlen (from_ptr b (sbase b + (start + 4))) = Some (nat (o' - (start + 4)) - 1)"
      have "o' \<le> INT_MAX" using h(3) im sb by linarith
      then show ?thesis using 2 h
        by (intro disjI2 exI [of _ o']) (simp add: tag_end_def tags_def add.assoc fdt_tags)
    qed
  next
    case 3
    have "start + 4 \<le> INT_MAX" using assms(4) im sb by linarith
    moreover have "tag_end b tag (start + 4) = Some (Some (start + 4))"
      using 3 by (auto simp: tag_end_def fdt_tags)
    ultimately show ?thesis using 3 by (intro disjI2 exI [of _ "start + 4"]) (auto simp: tags_def fdt_tags)
  next
    case 4
    then show ?thesis by (auto simp: tag_end_def tags_def)
  qed
qed

lemma next_tag_ok:
  assumes "fits b" "no_huge_prop b" "in_int start"
  obtains (error) err where "fdt_next_tag b start = Some (FDT_END, err)" "err = - FDT_ERR_TRUNCATED \<or> err = - FDT_ERR_BADSTRUCTURE"
  | (read) tag nxt where "fdt_next_tag b start = Some (tag, nxt)" "tag_read b start tag nxt"
proof (cases rule: offset_ptr_ok [OF assms(1), of start 4])
  case 1
  then show ?thesis using error by (simp add: fdt_next_tag_def FDT_TAGSIZE_def)
next
  case ptr: 2
  have im: "tsize b + 4 \<le> INT_MAX" and len: "tsize b \<le> int (length (fdt_bytes b))" using assms(1) by (auto simp: fits_def)
  have sb: "0 \<le> sbase b" by simp
  have p: "sbase b + start + 4 \<le> tsize b" using ptr(3) assms(3) by (simp add: in_int_def)
  define tag where "tag = word_at b (sbase b + start)"
  have t: "fdt32_ld_i b (sbase b + start) = Some tag"
    unfolding fdt32_ld_i_eq tag_def using p len ptr(2) sb by (intro fdt32_ld_eq) linarith+
  have "start + 4 \<le> INT_MAX" using p im sb by linarith
  then have i4: "to_int (start + FDT_TAGSIZE) = start + 4"
    using ptr(2) by (subst to_int_id) (simp_all add: FDT_TAGSIZE_def in_int_def INT_MAX_def)
  have n: "fdt_next_tag b start = tag_end b tag (start + 4) \<bind> (\<lambda>e. case e of
      None \<Rightarrow> Some (FDT_END, - FDT_ERR_BADSTRUCTURE)
    | Some offset \<Rightarrow> do { d \<leftarrow> sub_int offset start; p \<leftarrow> fdt_offset_ptr b start (to_uint d);
        if p = None then Some (FDT_END, - FDT_ERR_BADSTRUCTURE)
        else Some (tag, size_to_int (FDT_TAGALIGN offset)) })"
    using ptr(1) t i4 by (simp add: fdt_next_tag_def) (simp add: FDT_TAGSIZE_def)
  from tag_end_ok [OF assms(1,2) ptr(2) p, folded tag_def] show ?thesis
  proof (elim disjE exE conjE)
    assume "tag_end b tag (start + 4) = Some None"
    then show ?thesis using error n by simp
  next
    fix e assume e: "tag_end b tag (start + 4) = Some (Some e)" "start + 4 \<le> e" "e \<le> INT_MAX" "tag \<in> tags"
      "tag = FDT_BEGIN_NODE \<longrightarrow> (\<exists>n. strlen (from_ptr b (sbase b + start + 4)) = Some n)"
      "tag = FDT_PROP \<longrightarrow> e = start + 12 + uint (word_at b (sbase b + start + 4)) + realign b (word_at b (sbase b + start + 4)) start"
    have s: "sub_int e start = Some (e - start)"
      using e(2,3) ptr(2) by (simp add: sub_int_def in_int_def INT_MAX_def)
    have u: "uint (to_uint (e - start)) = e - start" using e(2,3) ptr(2) by (intro uint_to_uint) linarith+
    show ?thesis
    proof (cases rule: offset_ptr_ok [OF assms(1), of start "to_uint (e - start)"])
      case 1
      then show ?thesis using error n e(1) s by simp
    next
      case 2
      have f: "sbase b + e \<le> tsize b" using 2(3) assms(3) unfolding u by (simp add: in_int_def)
      then have ub: "0 \<le> e" "e + 4 \<le> INT_MAX" "(e + 3) div 4 * 4 \<le> tsize b + 3" "e \<le> (e + 3) div 4 * 4"
        using im sb e(2) ptr(2) by linarith+
      have a: "size_to_int (FDT_TAGALIGN e) = (e + 3) div 4 * 4" by (rule tagalign [OF ub(1,2)])
      have "fdt_next_tag b start = Some (tag, (e + 3) div 4 * 4)" using n e(1) s 2(1) a by simp
      moreover have "tag_read b start tag ((e + 3) div 4 * 4)"
        using e(2,4-6) f p ub(3,4) ptr(2) by (auto simp: tag_read_def tag_def Let_def)
      ultimately show ?thesis by (rule read)
    qed
  qed
qed

section \<open>Nodes\<close>

text \<open>A tree that fits its buffer and whose properties do not come near \<open>INT_MAX\<close>.\<close>

definition safe :: "blob \<Rightarrow> bool" where
  "safe b \<longleftrightarrow> fits b \<and> no_huge_prop b"

lemma safe_bound: "safe b \<Longrightarrow> tsize b + 4 \<le> INT_MAX"
  by (simp add: safe_def fits_def)

lemma in_intI: "0 \<le> x \<Longrightarrow> x \<le> INT_MAX \<Longrightarrow> in_int x"
  by (simp add: in_int_def INT_MAX_def)

lemma check_node_offset_ok:
  assumes "safe b" "in_int offset"
  obtains r where "fdt_check_node_offset_i b offset = Some r" "r < 0 \<and> in_int r \<or> tag_read b offset FDT_BEGIN_NODE r"
proof (cases "offset < 0 \<or> offset mod FDT_TAGSIZE \<noteq> 0")
  case True
  then show ?thesis using that by (simp add: fdt_check_node_offset_i_def fdt_errors in_int_def INT_MAX_def)
next
  case False
  note fs = assms(1) [unfolded safe_def]
  show ?thesis
  proof (cases rule: next_tag_ok [OF conjunct1 [OF fs] conjunct2 [OF fs] assms(2)])
    case (1 err)
    then show ?thesis using that False by (auto simp: fdt_check_node_offset_i_def fdt_errors fdt_tags in_int_def INT_MAX_def)
  next
    case (2 tag nxt)
    then show ?thesis using that False
      by (cases "tag = FDT_BEGIN_NODE") (auto simp: fdt_check_node_offset_i_def fdt_errors in_int_def INT_MAX_def)
  qed
qed

lemma check_prop_offset_ok:
  assumes "safe b" "in_int offset"
  obtains r where "fdt_check_prop_offset_i b offset = Some r" "r < 0 \<and> in_int r \<or> tag_read b offset FDT_PROP r"
proof (cases "offset < 0 \<or> offset mod FDT_TAGSIZE \<noteq> 0")
  case True
  then show ?thesis using that by (simp add: fdt_check_prop_offset_i_def fdt_errors in_int_def INT_MAX_def)
next
  case False
  note fs = assms(1) [unfolded safe_def]
  show ?thesis
  proof (cases rule: next_tag_ok [OF conjunct1 [OF fs] conjunct2 [OF fs] assms(2)])
    case (1 err)
    then show ?thesis using that False by (auto simp: fdt_check_prop_offset_i_def fdt_errors fdt_tags in_int_def INT_MAX_def)
  next
    case (2 tag nxt)
    then show ?thesis using that False
      by (cases "tag = FDT_PROP") (auto simp: fdt_check_prop_offset_i_def fdt_errors in_int_def INT_MAX_def)
  qed
qed

definition depth_ok :: "int option \<Rightarrow> int \<Rightarrow> bool" where
  "depth_ok depth n \<longleftrightarrow> (case depth of None \<Rightarrow> True | Some d \<Rightarrow> \<bar>d\<bar> \<le> n)"

lemma depth_step:
  "\<bar>d\<bar> \<le> n \<Longrightarrow> n < INT_MAX \<Longrightarrow> add_int d 1 = Some (d + 1)" "\<bar>d\<bar> \<le> n \<Longrightarrow> n < INT_MAX \<Longrightarrow> sub_int d 1 = Some (d - 1)"
  by (auto simp: add_int_def sub_int_def in_int_def INT_MAX_def)

text \<open>What the traversal returns: an error or a later offset, and a depth counter that cannot overflow.\<close>

definition node_result :: "blob \<Rightarrow> int \<Rightarrow> int option \<Rightarrow> int \<times> int option \<Rightarrow> bool" where
  "node_result b offset depth r \<longleftrightarrow> (snd r = None \<longleftrightarrow> depth = None) \<and>
     (fst r < 0 \<and> in_int (fst r) \<or> offset \<le> fst r \<and> fst r \<le> tsize b + 3 \<and> depth_ok (snd r) (fst r + 1))"

lemma node_result_mono: "node_result b o1 d1 r \<Longrightarrow> o2 \<le> o1 \<Longrightarrow> (d1 = None \<longleftrightarrow> d2 = None) \<Longrightarrow> node_result b o2 d2 r"
  by (auto simp: node_result_def)

lemma next_node_loop_ok:
  assumes "safe b" "0 \<le> offset" "offset \<le> tsize b + 3" "depth_ok depth offset"
  obtains r where "next_node_loop b offset depth = Some r" "node_result b offset depth r"
proof -
  note fs = assms(1) [unfolded safe_def] and im = safe_bound [OF assms(1)]
  have "\<exists>r. next_node_loop b offset depth = Some r \<and> node_result b offset depth r"
    using assms(2-4)
  proof (induction "nat (tsize b + 4 - offset)" arbitrary: offset depth rule: less_induct)
    case less
    have ii: "in_int offset" using less.prems im by (intro in_intI) linarith+
    show ?case
    proof (cases rule: next_tag_ok [OF conjunct1 [OF fs] conjunct2 [OF fs] ii])
      case (1 err)
      then have "next_node_loop b offset depth =
        Some (if err \<ge> 0 \<or> err = - FDT_ERR_TRUNCATED \<and> depth = None then - FDT_ERR_NOTFOUND else err, depth)"
        by (subst next_node_loop.simps) (simp add: fdt_tags)
      then show ?thesis using 1(2) by (auto simp: node_result_def fdt_errors in_int_def INT_MAX_def)
    next
      case (2 tag nxt)
      have n: "offset + 4 \<le> nxt" "nxt \<le> tsize b + 3" "tag \<in> tags" using 2(2) by (auto simp: tag_read_def)
      have IH: "\<exists>r. next_node_loop b nxt d = Some r \<and> node_result b offset depth r"
        if "depth_ok d nxt" "d = None \<longleftrightarrow> depth = None" for d
        using less.hyps [of nxt d] n(1,2) that less.prems node_result_mono [of b nxt d _ offset depth] by force
      consider "tag = FDT_BEGIN_NODE" | "tag = FDT_END" | "tag = FDT_END_NODE" "depth = None"
        | d where "tag = FDT_END_NODE" "depth = Some d" | "tag = FDT_PROP \<or> tag = FDT_NOP"
        using n(3) by (cases depth) (auto simp: tags_def)
      then show ?thesis
      proof cases
        case t: 1
        show ?thesis
        proof (cases depth)
          case None
          then show ?thesis using less.prems
            by (subst next_node_loop.simps) (simp add: 2(1) t node_result_def depth_ok_def)
        next
          case (Some d)
          then have "add_int d 1 = Some (d + 1)" using less.prems im
            by (intro depth_step(1) [of _ offset]) (simp_all add: depth_ok_def)
          then show ?thesis using less.prems Some
            by (subst next_node_loop.simps) (auto simp: 2(1) t node_result_def depth_ok_def)
        qed
      next
        case t: 2
        then show ?thesis using n less.prems
          by (subst next_node_loop.simps)
            (simp add: 2(1) fdt_tags node_result_def fdt_errors in_int_def INT_MAX_def)
      next
        case t: 3
        then have "next_node_loop b offset depth = next_node_loop b nxt None"
          by (subst next_node_loop.simps) (simp add: 2(1) fdt_tags)
        then show ?thesis using IH [of None] t by (simp add: depth_ok_def)
      next
        case t: (4 d)
        then have d: "sub_int d 1 = Some (d - 1)" "\<bar>d - 1\<bar> \<le> nxt"
          using less.prems im n depth_step(2) [of d offset] by (auto simp: depth_ok_def)
        have l: "next_node_loop b offset depth =
          (if d - 1 < 0 then Some (nxt, Some (d - 1)) else next_node_loop b nxt (Some (d - 1)))"
          using t d by (subst next_node_loop.simps) (simp add: 2(1) fdt_tags)
        show ?thesis
        proof (cases "d - 1 < 0")
          case True
          then show ?thesis using l t n d(2) less.prems by (auto simp: node_result_def depth_ok_def)
        next
          case False
          then show ?thesis using l IH [of "Some (d - 1)"] t d(2) by (simp add: depth_ok_def)
        qed
      next
        case t: 5
        have "depth_ok depth nxt" using less.prems n by (auto simp: depth_ok_def split: option.splits)
        moreover have "next_node_loop b offset depth = next_node_loop b nxt depth"
          using t by (subst next_node_loop.simps) (auto simp: 2(1) fdt_tags)
        ultimately show ?thesis using IH [of depth] by simp
      qed
    qed
  qed
  then show ?thesis using that by blast
qed

lemma next_node_ok:
  assumes "safe b" "in_int offset" "depth_ok depth (if offset < 0 then 0 else offset + 1)"
  obtains r where "fdt_next_node b offset depth = Some r" "node_result b (if offset < 0 then 0 else offset + 4) depth r"
proof (cases "offset < 0")
  case True
  have "0 \<le> tsize b + 3" by simp
  then show ?thesis using next_node_loop_ok [OF assms(1), of 0 depth] assms(3) True that
    by (auto simp: fdt_next_node_def)
next
  case False
  obtain c where c: "fdt_check_node_offset_i b offset = Some c" "c < 0 \<and> in_int c \<or> tag_read b offset FDT_BEGIN_NODE c"
    using check_node_offset_ok [OF assms(1,2)] by blast
  show ?thesis
  proof (cases "c < 0")
    case neg: True
    then have "in_int c" using c(2) by (auto simp: tag_read_def)
    then show ?thesis using that neg c(1) False by (auto simp: fdt_next_node_def node_result_def)
  next
    case pos: False
    then have t: "offset + 4 \<le> c" "c \<le> tsize b + 3" using c(2) by (auto simp: tag_read_def)
    then have "depth_ok depth c" using assms(3) False by (auto simp: depth_ok_def split: option.splits)
    then obtain r where r: "next_node_loop b c depth = Some r" "node_result b c depth r"
      using next_node_loop_ok [OF assms(1), of c depth] t pos by auto
    then have "node_result b (offset + 4) depth r" using node_result_mono [OF r(2) t(1)] by simp
    then show ?thesis using that r(1) c(1) pos False by (simp add: fdt_next_node_def)
  qed
qed

lemma first_subnode_ok:
  assumes "safe b" "in_int offset"
  obtains r where "fdt_first_subnode b offset = Some r" "r < 0 \<or> offset < r" "r \<le> tsize b + 3" "in_int r"
proof -
  note im = safe_bound [OF assms(1)]
  obtain n where n: "fdt_next_node b offset (Some 0) = Some n" "node_result b (if offset < 0 then 0 else offset + 4) (Some 0) n"
    by (rule next_node_ok [OF assms, of "Some 0"]) (auto simp: depth_ok_def)
  let ?r = "if fst n < 0 \<or> snd n \<noteq> Some 1 then - FDT_ERR_NOTFOUND else fst n"
  have "fdt_first_subnode b offset = Some ?r" using n(1) by (simp add: fdt_first_subnode_def split: prod.splits)
  moreover have "?r < 0 \<or> offset < ?r" "?r \<le> tsize b + 3" "in_int ?r"
    using n(2) im by (auto simp: node_result_def fdt_errors in_int_def INT_MAX_def split: if_splits)
  ultimately show ?thesis by (rule that)
qed

lemma next_subnode_loop_ok:
  assumes "safe b" "0 \<le> offset" "offset \<le> tsize b + 3" "\<bar>d\<bar> \<le> offset + 1"
  shows "\<exists>r. next_subnode_loop b offset (Some d) = Some r \<and> (r < 0 \<or> offset < r) \<and> r \<le> tsize b + 3 \<and> in_int r"
  using assms(2-4)
proof (induction "nat (tsize b + 4 - offset)" arbitrary: offset d rule: less_induct)
  case less
  note im = safe_bound [OF assms(1)]
  have ii: "in_int offset" using less.prems im by (intro in_intI) linarith+
  obtain r where r: "fdt_next_node b offset (Some d) = Some r" "node_result b (offset + 4) (Some d) r"
    using next_node_ok [OF assms(1) ii, of "Some d"] less.prems by (auto simp: depth_ok_def)
  obtain e where e: "snd r = Some e" using r(2) by (auto simp: node_result_def)
  have l: "next_subnode_loop b offset (Some d) = (if fst r < 0 \<or> e < 1 then Some (- FDT_ERR_NOTFOUND)
      else if e > 1 then next_subnode_loop b (fst r) (Some e) else Some (fst r))"
    using r(1) e by (subst next_subnode_loop.simps) (cases r, simp)
  show ?case
  proof (cases "fst r < 0 \<or> e < 1")
    case True
    then show ?thesis by (simp add: l fdt_errors in_int_def INT_MAX_def)
  next
    case False
    then have b: "offset + 4 \<le> fst r" "fst r \<le> tsize b + 3" "\<bar>e\<bar> \<le> fst r + 1"
      using r(2) e by (auto simp: node_result_def depth_ok_def)
    show ?thesis
    proof (cases "e > 1")
      case True
      then show ?thesis using less.hyps [of "fst r" e] b less.prems l False by force
    next
      case e1: False
      then show ?thesis using l False b im by (auto simp: in_int_def INT_MAX_def)
    qed
  qed
qed

lemma next_subnode_ok:
  assumes "safe b" "0 \<le> offset" "offset \<le> tsize b + 3"
  obtains r where "fdt_next_subnode b offset = Some r" "r < 0 \<or> offset < r" "r \<le> tsize b + 3" "in_int r"
  using next_subnode_loop_ok [OF assms, of 1] assms(2) by (auto simp: fdt_next_subnode_def)

section \<open>Names and strings\<close>

lemma ro_probe_ok:
  assumes "fits b"
  obtains e where "fdt_ro_probe_i b = Some e" "e < 0 \<or> e = tsize b"
  using assms by (fastforce simp: fdt_ro_probe_i_def header_words fdt_errors Let_def split: if_splits)

lemma strlen_terminated: "strlen s = Some n \<Longrightarrow> terminated s \<and> cstr s = take n s \<and> n < length s"
  by (induction s arbitrary: n) (auto split: if_splits)

lemma strlen_Some: "terminated s \<Longrightarrow> strlen s = Some (length (cstr s))"
  by (induction s) auto

lemma terminated_drop_cstr: "terminated s \<Longrightarrow> k \<le> length (cstr s) \<Longrightarrow> terminated (drop k s)"
proof (induction s arbitrary: k)
  case (Cons a s)
  then show ?case by (cases k) (auto split: if_splits)
qed simp

lemma from_ptr_add: "0 \<le> p \<Longrightarrow> from_ptr b (p + int k) = drop k (from_ptr b p)"
  by (simp add: from_ptr_def nat_add_distrib add.commute)

lemma leaf_name_ok:
  assumes "fits b" "0 \<le> p" "terminated (from_ptr b p)"
  obtains r where "leaf_name b p = Some r" "\<And>q. r = Some q \<Longrightarrow> p \<le> q \<and> terminated (from_ptr b q)"
proof (cases "word_at b 20 < 0x10")
  case True
  have slash: "ucast (0x2f :: u32) = (0x2f :: u8)" by simp
  have s: "if (0x2f :: u8) \<in> set (cstr (from_ptr b p) @ [0])
      then \<exists>k. strrchr (from_ptr b p) 0x2f = Some (Some k) \<and> last_at 0x2f (cstr (from_ptr b p) @ [0]) k
      else strrchr (from_ptr b p) 0x2f = Some None"
    using strrchr_spec [OF assms(3), of "0x2f"] unfolding slash by assumption
  show ?thesis
  proof (cases "(0x2f :: u8) \<in> set (cstr (from_ptr b p) @ [0])")
    case t: True
    then obtain k where k: "strrchr (from_ptr b p) 0x2f = Some (Some k)" "last_at 0x2f (cstr (from_ptr b p) @ [0]) k"
      using s by auto
    have "k < length (cstr (from_ptr b p))"
      using k(2) by (cases "k = length (cstr (from_ptr b p))") (auto simp: last_at_def nth_append)
    then have "terminated (drop (k + 1) (from_ptr b p))" by (intro terminated_drop_cstr [OF assms(3)]) simp
    then have "terminated (from_ptr b (p + int k + 1))"
      using from_ptr_add [OF assms(2), of b "k + 1"] by (simp add: ac_simps)
    then show ?thesis using that [of "Some (p + int k + 1)"] True k(1) by (simp add: leaf_name_def header_words [OF assms(1)])
  next
    case False
    then have "strrchr (from_ptr b p) 0x2f = Some None" using s by simp
    then show ?thesis using that [of None] True by (simp add: leaf_name_def header_words [OF assms(1)])
  qed
next
  case False
  then show ?thesis using that [of "Some p"] assms(3) by (simp add: leaf_name_def header_words [OF assms(1)])
qed

lemma get_name_ok:
  assumes "safe b" "in_int offset"
  obtains r where "fdt_get_name b offset = Some r"
    "\<And>q len. r = Inr (q, len) \<Longrightarrow> 0 \<le> q \<and> strlen (from_ptr b q) = Some (nat len) \<and> 0 \<le> len"
proof -
  have f: "fits b" using assms(1) by (simp add: safe_def)
  obtain e where e: "fdt_ro_probe_i b = Some e" using ro_probe_ok [OF f] by blast
  obtain c where c: "fdt_check_node_offset_i b offset = Some c" "c < 0 \<or> tag_read b offset FDT_BEGIN_NODE c"
    using check_node_offset_ok [OF assms] by auto
  show ?thesis
  proof (cases "e < 0 \<or> c < 0")
    case True
    then show ?thesis using that [of "Inl (if e < 0 then e else c)"] e c(1)
      by (auto simp: fdt_get_name_def fdt_offset_ptr_i_def header_words [OF f])
  next
    case False
    then have t: "0 \<le> offset" "terminated (from_ptr b (sbase b + offset + 4))"
      using c(2) strlen_terminated by (auto simp: tag_read_def)
    then have p: "0 \<le> sbase b + offset + 4" by simp
    obtain r where r: "leaf_name b (sbase b + offset + 4) = Some r"
      "\<And>q. r = Some q \<Longrightarrow> sbase b + offset + 4 \<le> q \<and> terminated (from_ptr b q)"
      using leaf_name_ok [OF f p t(2)] by blast
    have g: "fdt_get_name b offset = (case r of None \<Rightarrow> Some (Inl (- FDT_ERR_BADSTRUCTURE))
        | Some q \<Rightarrow> do { len \<leftarrow> strlen (from_ptr b q); Some (Inr (q, int len)) })"
      using e c(1) False r(1) by (simp add: fdt_get_name_def fdt_offset_ptr_i_def header_words [OF f] FDT_TAGSIZE_def)
    show ?thesis
    proof (cases r)
      case None
      then show ?thesis using that g by auto
    next
      case (Some q)
      then show ?thesis using that [of "Inr (q, int (length (cstr (from_ptr b q))))"] g r(2) [of q] p strlen_Some by auto
    qed
  qed
qed

section \<open>Properties\<close>

text \<open>A complete tree, as opposed to one that is still being written.\<close>

definition complete :: "blob \<Rightarrow> bool" where
  "complete b \<longleftrightarrow> safe b \<and> word_at b 0 = FDT_MAGIC"

lemma from_ptr_length: "0 \<le> p \<Longrightarrow> p \<le> int (length (fdt_bytes b)) \<Longrightarrow> int (length (from_ptr b p)) = int (length (fdt_bytes b)) - p"
  by (simp add: from_ptr_def)

lemma memchr_total: "n \<le> length s \<Longrightarrow> \<exists>r. memchr s c n = Some r \<and> (\<forall>k. r = Some k \<longrightarrow> k < n)"
proof -
  assume n: "n \<le> length s"
  have "length (takeWhile ((\<noteq>) x) s) < n" if "x \<in> set (take n s)" for x
    using that n
  proof (induction s arbitrary: n)
    case (Cons a s)
    then show ?case by (cases n) auto
  qed simp
  then show ?thesis using memchr_spec [OF n, of c] by auto
qed

lemma get_string_ok:
  assumes "complete b" "in_int stroffset"
  obtains r where "fdt_get_string b stroffset = Some r"
    "\<And>p len. r = Inr (p, len) \<Longrightarrow> 0 \<le> p \<and> 0 \<le> len \<and> p + len < tsize b"
proof -
  have f: "fits b" and m: "word_at b 0 = FDT_MAGIC" using assms(1) by (simp_all add: complete_def safe_def)
  obtain e where e: "fdt_ro_probe_i b = Some e" "e < 0 \<or> e = tsize b" using ro_probe_ok [OF f] by blast
  define a where "a = to_uint stroffset + word_at b 12"
  define l where "l = word_at b 4 - a"
  have body: "\<exists>r. (memchr (from_ptr b (uint a)) 0 (unat l') \<bind> (\<lambda>n. case n of None \<Rightarrow> Some (Inl (- FDT_ERR_TRUNCATED))
      | Some k \<Rightarrow> Some (Inr (uint a, int k)))) = Some r \<and> (\<forall>p len. r = Inr (p, len) \<longrightarrow> 0 \<le> p \<and> 0 \<le> len \<and> p + len < tsize b)"
    if "a < word_at b 4" "l' \<le> l" for l'
  proof -
    have "uint l = tsize b - uint a" unfolding l_def using that(1) uint_sub_lem [of a "word_at b 4"]
      by (simp add: word_less_def)
    moreover have "uint l' \<le> uint l" using that(2) by (simp add: word_le_def)
    moreover have "tsize b \<le> int (length (fdt_bytes b))" using f by (simp add: fits_def)
    ultimately have le: "uint a + int (unat l') \<le> tsize b" "uint a + int (unat l') \<le> int (length (fdt_bytes b))" by simp_all
    have "int (unat a + unat l') \<le> int (length (fdt_bytes b))" using le(2) by simp
    then have "unat a + unat l' \<le> length (fdt_bytes b)" by (simp only: of_nat_le_iff)
    then have "unat l' \<le> length (from_ptr b (uint a))" by (simp add: from_ptr_def)
    then obtain r where r: "memchr (from_ptr b (uint a)) 0 (unat l') = Some r" "\<forall>k. r = Some k \<longrightarrow> k < unat l'"
      using memchr_total by blast
    show ?thesis
    proof (cases r)
      case (Some k)
      then have "k < unat l'" using r(2) by blast
      then have "int k < int (unat l')" by (simp only: of_nat_less_iff)
      then have "uint a + int k < tsize b" using le(1) by linarith
      then show ?thesis using r(1) Some by simp
    qed (use r(1) in simp)
  qed
  have "to_uint (tsize b) = word_at b 4" by simp
  then have "\<exists>r. fdt_get_string b stroffset = Some r \<and> (\<forall>p len. r = Inr (p, len) \<longrightarrow> 0 \<le> p \<and> 0 \<le> len \<and> p + len < tsize b)"
    using e m body [of l] body [of "word_at b 32 - to_uint stroffset"]
    by (auto simp: fdt_get_string_def header_words [OF f] Let_def simp flip: a_def l_def)
  then show ?thesis using that by blast
qed

lemma string_eq_ok:
  assumes "complete b" "in_int stroffset" "0 \<le> len" "nat len \<le> length s"
  obtains eq where "fdt_string_eq_i b stroffset s len = Some eq"
proof -
  have l: "tsize b \<le> int (length (fdt_bytes b))" using assms(1) by (simp add: complete_def safe_def fits_def)
  obtain r where r: "fdt_get_string b stroffset = Some r"
    "\<And>p len. r = Inr (p, len) \<Longrightarrow> 0 \<le> p \<and> 0 \<le> len \<and> p + len < tsize b"
    using get_string_ok [OF assms(1,2)] by blast
  show ?thesis
  proof (cases r)
    case (Inr a)
    obtain p n where a: "a = (p, n)" by (cases a)
    then have "nat n \<le> length (from_ptr b p)" using r(2) [of p n] Inr l by (auto simp: from_ptr_def)
    then show ?thesis using that r(1) Inr a assms(4)
      by (cases "n = len") (simp_all add: fdt_string_eq_i_def mem_eq_def)
  qed (use that [of False] r(1) in \<open>simp add: fdt_string_eq_i_def\<close>)
qed

lemma nextprop_ok:
  assumes "safe b" "0 \<le> offset" "offset \<le> tsize b + 3"
  shows "\<exists>r. nextprop_i b offset = Some r \<and> in_int r \<and> (r < 0 \<or> offset \<le> r \<and> r \<le> tsize b + 3)"
  using assms(2,3)
proof (induction "nat (tsize b + 4 - offset)" arbitrary: offset rule: less_induct)
  case less
  note fs = assms(1) [unfolded safe_def] and im = safe_bound [OF assms(1)]
  have ii: "in_int offset" using less.prems im by (intro in_intI) linarith+
  show ?case
  proof (cases rule: next_tag_ok [OF conjunct1 [OF fs] conjunct2 [OF fs] ii])
    case (1 err)
    then show ?thesis by (subst nextprop_i.simps) (auto simp: fdt_errors in_int_def INT_MAX_def)
  next
    case (2 tag nxt)
    have n: "offset + 4 \<le> nxt" "nxt \<le> tsize b + 3" using 2(2) by (auto simp: tag_read_def)
    show ?thesis
    proof (cases "tag = FDT_NOP")
      case True
      then have "nextprop_i b offset = nextprop_i b nxt" by (subst nextprop_i.simps) (simp add: 2(1) fdt_tags)
      then show ?thesis using less.hyps [of nxt] n less.prems by force
    next
      case False
      then show ?thesis using less.prems n ii
        by (subst nextprop_i.simps) (auto simp: 2(1) fdt_errors in_int_def INT_MAX_def)
    qed
  qed
qed

lemma first_property_ok:
  assumes "safe b" "in_int offset"
  obtains r where "fdt_first_property_offset b offset = Some r" "in_int r" "r < 0 \<or> offset < r \<and> r \<le> tsize b + 3"
proof -
  obtain c where c: "fdt_check_node_offset_i b offset = Some c" "c < 0 \<and> in_int c \<or> tag_read b offset FDT_BEGIN_NODE c"
    using check_node_offset_ok [OF assms] by blast
  show ?thesis
  proof (cases "c < 0")
    case True
    then show ?thesis using that c by (auto simp: fdt_first_property_offset_def tag_read_def)
  next
    case False
    then have "offset + 4 \<le> c" "c \<le> tsize b + 3" using c(2) by (auto simp: tag_read_def)
    then show ?thesis using that nextprop_ok [OF assms(1), of c] c(1) False
      by (force simp: fdt_first_property_offset_def)
  qed
qed

lemma next_property_ok:
  assumes "safe b" "in_int offset"
  obtains r where "fdt_next_property_offset b offset = Some r" "in_int r" "r < 0 \<or> offset < r \<and> r \<le> tsize b + 3"
proof -
  obtain c where c: "fdt_check_prop_offset_i b offset = Some c" "c < 0 \<and> in_int c \<or> tag_read b offset FDT_PROP c"
    using check_prop_offset_ok [OF assms] by blast
  show ?thesis
  proof (cases "c < 0")
    case True
    then show ?thesis using that c by (auto simp: fdt_next_property_offset_def tag_read_def)
  next
    case False
    then have "offset + 4 \<le> c" "c \<le> tsize b + 3" using c(2) by (auto simp: tag_read_def)
    then show ?thesis using that nextprop_ok [OF assms(1), of c] c(1) False
      by (force simp: fdt_next_property_offset_def)
  qed
qed

text \<open>The header and the value of a property a lookup returns lie inside the tree.\<close>

definition prop_at :: "blob \<Rightarrow> int \<Rightarrow> int \<Rightarrow> int \<Rightarrow> bool" where
  "prop_at b prop len offset \<longleftrightarrow> 0 \<le> offset \<and> prop = sbase b + offset \<and> len = uint (word_at b (prop + 4)) \<and>
     prop + 12 + len + realign b (word_at b (prop + 4)) offset \<le> tsize b"

lemma prop_words:
  assumes "fits b" "prop_at b prop len offset"
  shows "fdt32_ld_i b (prop + 4) = Some (word_at b (prop + 4))" "fdt32_ld_i b (prop + 8) = Some (word_at b (prop + 8))"
proof -
  have l: "tsize b \<le> int (length (fdt_bytes b))" using assms(1) by (simp add: fits_def)
  have "0 \<le> prop" "0 \<le> len" "prop + 12 \<le> tsize b"
    using assms(2) realign_bounds(1) [of b "word_at b (prop + 4)" offset] uint_ge_0 [of "word_at b 8"]
      uint_ge_0 [of "word_at b (prop + 4)"] unfolding prop_at_def by linarith+
  then show "fdt32_ld_i b (prop + 4) = Some (word_at b (prop + 4))" "fdt32_ld_i b (prop + 8) = Some (word_at b (prop + 8))"
    unfolding fdt32_ld_i_eq using l by (intro fdt32_ld_eq; linarith)+
qed

lemma to_int_in_int: "in_int (to_int x)"
  using signed_take_bit_int_less_exp [of 31 x] signed_take_bit_int_greater_eq_minus_exp [of 31 x]
  by (simp add: to_int_def in_int_def INT_MAX_def)

lemma property_by_offset_ok:
  assumes "safe b" "in_int offset"
  obtains r where "fdt_get_property_by_offset_i b offset = Some r" "\<And>p len. r = Inr (p, len) \<Longrightarrow> prop_at b p len offset"
proof -
  have f: "fits b" and im: "tsize b + 4 \<le> INT_MAX" using assms(1) by (auto simp: safe_def fits_def)
  obtain c where c: "fdt_check_prop_offset_i b offset = Some c" "c < 0 \<and> in_int c \<or> tag_read b offset FDT_PROP c"
    using check_prop_offset_ok [OF assms] by blast
  show ?thesis
  proof (cases "c < 0")
    case True
    then show ?thesis using that c by (auto simp: fdt_get_property_by_offset_i_def)
  next
    case False
    let ?p = "sbase b + offset" and ?l = "word_at b (sbase b + offset + 4)"
    have a: "prop_at b ?p (uint ?l) offset" using c(2) False by (auto simp: tag_read_def prop_at_def Let_def)
    then have "uint ?l \<le> INT_MAX"
      using im realign_bounds(1) [of b ?l offset] uint_ge_0 [of "word_at b 8"] unfolding prop_at_def by linarith
    then have "to_int (uint ?l) = uint ?l" by (intro to_int_id in_intI) simp_all
    then show ?thesis using that [of "Inr (?p, uint ?l)"] a c(1) False prop_words(1) [OF f a]
      by (auto simp: fdt_get_property_by_offset_i_def fdt_offset_ptr_i_def header_words [OF f])
  qed
qed

lemma get_property_loop_ok:
  assumes "complete b" "0 \<le> namelen" "nat namelen \<le> length name" "in_int offset" "offset \<le> tsize b + 3"
  shows "\<exists>r. get_property_loop b offset name namelen = Some r \<and> (\<forall>p len off. r = Inr (p, len, off) \<longrightarrow> prop_at b p len off)"
  using assms(4,5)
proof (induction "nat (tsize b + 4 - offset)" arbitrary: offset rule: less_induct)
  case less
  have s: "safe b" and f: "fits b" using assms(1) by (simp_all add: complete_def safe_def)
  show ?case
  proof (cases "offset < 0")
    case True
    then show ?thesis by (subst get_property_loop.simps) simp
  next
    case False
    obtain r where r: "fdt_get_property_by_offset_i b offset = Some r" "\<And>p len. r = Inr (p, len) \<Longrightarrow> prop_at b p len offset"
      using property_by_offset_ok [OF s less.prems(1)] by blast
    show ?thesis
    proof (cases r)
      case (Inl err)
      then show ?thesis using r(1) False by (subst get_property_loop.simps) simp
    next
      case (Inr a)
      obtain p len where a: "a = (p, len)" by (cases a)
      have w: "prop_at b p len offset" using r(2) Inr a by simp
      obtain eq where eq: "fdt_string_eq_i b (to_int (uint (word_at b (p + 8)))) name namelen = Some eq"
        using string_eq_ok [OF assms(1) to_int_in_int assms(2,3)] by blast
      obtain n where n: "fdt_next_property_offset b offset = Some n" "in_int n" "n < 0 \<or> offset < n \<and> n \<le> tsize b + 3"
        using next_property_ok [OF s less.prems(1)] by blast
      have l: "get_property_loop b offset name namelen =
        (if eq then Some (Inr (p, len, offset)) else get_property_loop b n name namelen)"
        using False r(1) Inr a eq n(1) prop_words(2) [OF f w] by (subst get_property_loop.simps) simp
      have "\<exists>r. get_property_loop b n name namelen = Some r \<and> (\<forall>p len off. r = Inr (p, len, off) \<longrightarrow> prop_at b p len off)"
      proof (cases "n < 0")
        case True
        then show ?thesis by (subst get_property_loop.simps) simp
      next
        case nn: False
        then show ?thesis using less.hyps [of n] n less.prems False by auto
      qed
      then show ?thesis using l w by (cases eq) auto
    qed
  qed
qed

lemma getprop_namelen_ok:
  assumes "complete b" "in_int offset" "0 \<le> namelen" "nat namelen \<le> length name"
  obtains r where "fdt_getprop_namelen b offset name namelen = Some r"
    "\<And>p len. r = Inr (p, len) \<Longrightarrow> 0 \<le> p \<and> 0 \<le> len \<and> p + len \<le> tsize b"
proof -
  have s: "safe b" and f: "fits b" using assms(1) by (simp_all add: complete_def safe_def)
  obtain o1 where o: "fdt_first_property_offset b offset = Some o1" "in_int o1" "o1 < 0 \<or> offset < o1 \<and> o1 \<le> tsize b + 3"
    using first_property_ok [OF s assms(2)] by blast
  have "o1 \<le> tsize b + 3" using o(3) uint_ge_0 [of "word_at b 4"] by linarith
  then obtain r where r: "get_property_loop b o1 name namelen = Some r" "\<forall>p len off. r = Inr (p, len, off) \<longrightarrow> prop_at b p len off"
    using get_property_loop_ok [OF assms(1,3,4) o(2)] by blast
  show ?thesis
  proof (cases r)
    case (Inl err)
    then show ?thesis using that r(1) o(1) by (simp add: fdt_getprop_namelen_def fdt_get_property_namelen_i_def)
  next
    case (Inr a)
    obtain p len off where a: "a = (p, len, off)" by (cases a)
    have w: "prop_at b p len off" using r(2) Inr a by simp
    define d where "d = p + 12 + realign b (word_at b (p + 4)) off"
    have "prop_data b p off = Some d"
      using prop_words(1) [OF f w] by (simp add: prop_data_def header_words [OF f] d_def realign_def)
    then have g: "fdt_getprop_namelen b offset name namelen = Some (Inr (d, len))"
      using r(1) o(1) Inr a by (simp add: fdt_getprop_namelen_def fdt_get_property_namelen_i_def)
    have "0 \<le> d \<and> 0 \<le> len \<and> d + len \<le> tsize b"
      using w realign_bounds(1) [of b "word_at b (p + 4)" off] uint_ge_0 [of "word_at b 8"] uint_ge_0 [of "word_at b (p + 4)"]
      unfolding d_def prop_at_def by linarith
    then show ?thesis using that [OF g] by simp
  qed
qed

end
