(* ===== verification/Fdt_Tree.thy ===== *)
theory Fdt_Tree
  imports Fdt_Safe
begin

text \<open>
  What a flattened tree means: a tree of nodes with names, properties and children, its flat encoding, and the
  functions of libfdt on a buffer that holds this encoding. The tag reader inverts the encoding of every token,
  the traversal enumerates the children, and the lookups return the names and the first matching property.
\<close>

section \<open>Trees and their encoding\<close>

datatype dtree = Node (dt_name: "u8 list") (dt_props: "(u32 \<times> u8 list) list") (dt_children: "dtree list")

definition be :: "u32 \<Rightarrow> u8 list" where
  "be w = [ucast (drop_bit 24 w), ucast (drop_bit 16 w), ucast (drop_bit 8 w), ucast w]"

lemma length_be [simp]: "length (be w) = 4"
  by (simp add: be_def)

definition padding :: "nat \<Rightarrow> nat" where
  "padding n = (4 - n mod 4) mod 4"

definition pad4 :: "u8 list \<Rightarrow> u8 list" where
  "pad4 xs = xs @ replicate (padding (length xs)) 0"

lemma length_pad4: "length (pad4 xs) = (length xs + 3) div 4 * 4"
proof -
  have "n + (4 - n mod 4) mod 4 = (n + 3) div 4 * 4" for n :: nat
  proof -
    define q r where "q = n div 4" and "r = n mod 4"
    then have n: "n = 4 * q + r" "r < 4" by simp_all
    have "(n + 3) div 4 = q + (r + 3) div 4" unfolding n(1) by simp
    moreover have "r = 0 \<or> r = 1 \<or> r = 2 \<or> r = 3" using n(2) by linarith
    ultimately show ?thesis unfolding r_def [symmetric] using n(1) by (elim disjE) simp_all
  qed
  then show ?thesis by (simp add: pad4_def padding_def)
qed

definition flat_begin :: "u8 list \<Rightarrow> u8 list" where
  "flat_begin n = be FDT_BEGIN_NODE @ pad4 (n @ [0])"

definition flat_prop :: "u32 \<times> u8 list \<Rightarrow> u8 list" where
  "flat_prop p = be FDT_PROP @ be (of_nat (length (snd p))) @ be (fst p) @ pad4 (snd p)"

primrec flat :: "dtree \<Rightarrow> u8 list" where
  "flat (Node n ps cs) = flat_begin n @ concat (map flat_prop ps) @ concat (map flat cs) @ be FDT_END_NODE"

text \<open>Names without zero bytes and values shorter than 256 MiB.\<close>

primrec wf_tree :: "dtree \<Rightarrow> bool" where
  "wf_tree (Node n ps cs) \<longleftrightarrow> 0 \<notin> set n \<and> (\<forall>p \<in> set ps. length (snd p) < 2 ^ 28) \<and> list_all wf_tree cs"

section \<open>Buffers that hold an encoding\<close>

text \<open>The bytes \<open>xs\<close> stand at \<open>offset\<close> of the structure block. Trees before version 16 use another encoding.\<close>

definition holds :: "blob \<Rightarrow> int \<Rightarrow> u8 list \<Rightarrow> bool" where
  "holds b offset xs \<longleftrightarrow> 0 \<le> offset \<and> sbase b + offset + int (length xs) \<le> tsize b \<and>
     (0x11 \<le> word_at b 20 \<longrightarrow> offset + int (length xs) \<le> uint (word_at b 36)) \<and>
     take (length xs) (from_ptr b (sbase b + offset)) = xs"

definition v16 :: "blob \<Rightarrow> bool" where
  "v16 b \<longleftrightarrow> fits b \<and> 0x10 \<le> word_at b 20"

lemma from_ptr_plus: "0 \<le> p \<Longrightarrow> from_ptr b (p + int k) = drop k (from_ptr b p)"
  by (rule from_ptr_add)

lemma holds_append:
  "holds b offset (xs @ ys) \<Longrightarrow> holds b offset xs \<and> holds b (offset + int (length xs)) ys"
proof -
  assume h: "holds b offset (xs @ ys)"
  let ?s = "from_ptr b (sbase b + offset)"
  have t: "take (length xs + length ys) ?s = xs @ ys" using h by (simp add: holds_def)
  have x: "take (length xs) ?s = xs" using arg_cong [OF t, of "take (length xs)"] by simp
  have y: "take (length ys) (drop (length xs) ?s) = ys"
    using arg_cong [OF t, of "drop (length xs)"] by (simp add: drop_take)
  have "0 \<le> sbase b + offset" using h by (simp add: holds_def)
  then have "from_ptr b (sbase b + (offset + int (length xs))) = drop (length xs) ?s"
    using from_ptr_plus [of "sbase b + offset" b "length xs"] by (simp add: add.assoc)
  then show ?thesis using h x y by (auto simp: holds_def)
qed

lemma holds_take_le: "holds b offset xs \<Longrightarrow> length xs \<le> length (from_ptr b (sbase b + offset))"
  by (metis holds_def length_take min.cobounded1)

lemma offset_ptr_holds:
  assumes "fits b" "holds b offset xs" "n \<le> length xs"
  shows "fdt_offset_ptr b offset (of_nat n) = Some (Some (sbase b + offset))"
proof -
  have im: "tsize b + 4 \<le> INT_MAX" using assms(1) by (simp add: fits_def)
  have sb: "0 \<le> sbase b" by simp
  have h: "0 \<le> offset" "sbase b + offset + int n \<le> tsize b" "0x11 \<le> word_at b 20 \<longrightarrow> offset + int n \<le> uint (word_at b 36)"
    using assms(2,3) by (auto simp: holds_def)
  have u: "uint (to_uint offset) = offset" using h im sb by (intro uint_to_uint) linarith+
  have "int n \<le> INT_MAX" using h im sb by linarith
  then have "n < 2 ^ LENGTH(32)" by (simp add: INT_MAX_def)
  then have n: "uint (of_nat n :: u32) = int n" using unat_of_nat_small [of n, where 'a = 32] by (metis uint_nat)
  have on: "offset + int n < 4294967296" "offset + sbase b < 4294967296" "offset + sbase b + int n < 4294967296"
    using h(1,2) im sb unfolding INT_MAX_def by linarith+
  have a: "uint (to_uint offset + word_at b 8) = offset + sbase b"
    using on(2) u by (subst uint_add_lem [THEN iffD1]) simp_all
  have a2: "uint (to_uint offset + word_at b 8 + of_nat n) = offset + sbase b + int n"
    using on(3) a n by (subst uint_add_lem [THEN iffD1]) simp_all
  have a3: "uint (to_uint offset + of_nat n) = offset + int n"
    using on(1) u n by (subst uint_add_lem [THEN iffD1]) simp_all
  have "\<not> to_uint offset + word_at b 8 < to_uint offset"
    "\<not> to_uint offset + word_at b 8 + of_nat n < to_uint offset + word_at b 8"
    "\<not> to_uint offset + word_at b 8 + of_nat n > word_at b 4" "\<not> to_uint offset + of_nat n < to_uint offset"
    "0x11 \<le> word_at b 20 \<Longrightarrow> \<not> to_uint offset + of_nat n > word_at b 36"
    using h sb by (simp_all add: word_less_def a a2 a3 u)
  then show ?thesis using h(1)
    by (simp add: fdt_offset_ptr_def header_words [OF assms(1)] Let_def fdt_offset_ptr_i_def)
qed

lemma be32_be: "be32 (ucast (drop_bit 24 w)) (ucast (drop_bit 16 w)) (ucast (drop_bit 8 w)) (ucast w) = w" for w :: u32
proof (rule bit_word_eqI)
  fix n assume "n < LENGTH(32)"
  then have n: "n < 32" by simp
  have c: "bit (ucast (ucast (drop_bit k w) :: u8) :: u32) m \<longleftrightarrow> m < 8 \<and> bit w (k + m)" for k m
    unfolding byte_bit by (auto simp: bit_ucast_iff bit_drop_bit_eq dest: bit_imp_le_length)
  have "bit (be32 (ucast (drop_bit 24 w)) (ucast (drop_bit 16 w)) (ucast (drop_bit 8 w)) (ucast (drop_bit 0 w))) n = bit w n"
    unfolding be32_def bit_or_iff bit_push_bit_iff c using n
    by (cases "n < 8"; cases "n < 16"; cases "n < 24") (simp_all add: not_less less_diff_conv2)
  then show "bit (be32 (ucast (drop_bit 24 w)) (ucast (drop_bit 16 w)) (ucast (drop_bit 8 w)) (ucast w)) n = bit w n" by simp
qed

text \<open>Reading a word of the encoding.\<close>

lemma word_holds:
  assumes "fits b" "holds b offset (be w)"
  shows "word_at b (sbase b + offset) = w" "fdt32_ld_i b (sbase b + offset) = Some w"
proof -
  let ?p = "sbase b + offset"
  have p: "0 \<le> ?p" "?p + 4 \<le> int (length (fdt_bytes b))" using assms by (auto simp: holds_def fits_def)
  have t: "take 4 (from_ptr b ?p) = be w" using assms(2) by (simp add: holds_def)
  have "fdt_bytes b ! nat (?p + int i) = be w ! i" if "i < 4" for i
  proof -
    have "be w ! i = from_ptr b ?p ! i" using that by (simp flip: t)
    then show ?thesis using p that by (simp add: from_ptr_def nat_add_distrib)
  qed
  from this [of 0] this [of 1] this [of 2] this [of 3] show w: "word_at b ?p = w"
    by (simp add: word_at_def Let_def be_def be32_be)
  then show "fdt32_ld_i b ?p = Some w" unfolding fdt32_ld_i_eq using fdt32_ld_eq [OF p] by simp
qed

section \<open>The tag reader on an encoding\<close>

lemma holds_bounds:
  assumes "fits b" "holds b offset xs"
  shows "0 \<le> offset" "offset + int (length xs) + 4 \<le> INT_MAX"
proof -
  have "0 \<le> sbase b" by simp
  moreover have "tsize b + 4 \<le> INT_MAX" "sbase b + offset + int (length xs) \<le> tsize b" "0 \<le> offset"
    using assms by (auto simp: fits_def holds_def)
  ultimately show "0 \<le> offset" "offset + int (length xs) + 4 \<le> INT_MAX" by linarith+
qed

lemma next_tag_holds:
  assumes "fits b" "holds b offset (be tag @ ys)" "tag_end b tag (offset + 4) = Some (Some (offset + int k))"
    "k \<le> length (be tag @ ys)" "offset mod 4 = 0"
  shows "fdt_next_tag b offset = Some (tag, offset + int ((k + 3) div 4 * 4))"
proof -
  note hb = holds_bounds [OF assms(1,2)]
  have b4: "fdt_offset_ptr b offset 4 = Some (Some (sbase b + offset))"
    using offset_ptr_holds [OF assms(1,2), of 4] by simp
  have t: "fdt32_ld_i b (sbase b + offset) = Some tag"
    using word_holds(2) [OF assms(1)] holds_append [OF assms(2)] by blast
  have i4: "to_int (offset + FDT_TAGSIZE) = offset + 4"
    using hb by (subst to_int_id) (simp_all add: FDT_TAGSIZE_def in_int_def INT_MAX_def)
  have d: "sub_int (offset + int k) offset = Some (int k)"
    using assms(4) hb by (simp add: sub_int_def in_int_def INT_MAX_def)
  have p: "fdt_offset_ptr b offset (to_uint (int k)) = Some (Some (sbase b + offset))"
    using offset_ptr_holds [OF assms(1,2,4)] by simp
  have a: "size_to_int (FDT_TAGALIGN (offset + int k)) = (offset + int k + 3) div 4 * 4"
    using hb assms(4) by (intro tagalign) simp_all
  obtain q where q: "offset = 4 * q" using assms(5) by auto
  have "4 * q + int k + 3 = (int k + 3) + q * 4" by simp
  then have "(4 * q + int k + 3) div 4 = q + (int k + 3) div 4" by (simp only: div_mult_self1)
  then have "(offset + int k + 3) div 4 * 4 = offset + int ((k + 3) div 4 * 4)"
    unfolding q by (simp add: zdiv_int)
  then show ?thesis using b4 t i4 assms(3) d p a
    by (simp add: fdt_next_tag_def FDT_TAGSIZE_def)
qed

lemma rd_from_ptr: "0 \<le> p \<Longrightarrow> take 1 (from_ptr b p) = [c] \<Longrightarrow> rd b p = Some c"
proof -
  assume p: "0 \<le> p" "take 1 (from_ptr b p) = [c]"
  then have l: "nat p < length (fdt_bytes b)"
    by (cases "nat p < length (fdt_bytes b)") (auto simp: from_ptr_def)
  then have "from_ptr b p = fdt_bytes b ! nat p # from_ptr b (p + 1)" using p(1) by (intro from_ptr_Cons) auto
  then show ?thesis using p l by (simp add: rd_def)
qed

lemma skip_name_holds:
  assumes "fits b" "holds b offset (n @ [0])" "0 \<notin> set n"
  shows "\<exists>q. skip_name b offset = Some (Some q, offset + int (length n) + 1)"
  using assms(2,3)
proof (induction n arbitrary: offset)
  case Nil
  note hb = holds_bounds [OF assms(1) Nil(1)]
  have p: "fdt_offset_ptr b offset 1 = Some (Some (sbase b + offset))" using offset_ptr_holds [OF assms(1) Nil(1), of 1] by simp
  have "take 1 (from_ptr b (sbase b + offset)) = [0]" using Nil by (simp add: holds_def)
  then have r: "rd b (sbase b + offset) = Some 0"
    using hb(1) by (intro rd_from_ptr) simp_all
  have "add_int offset 1 = Some (offset + 1)" using hb by (simp add: add_int_def in_int_def INT_MAX_def)
  then show ?case using p r by (subst skip_name.simps) simp
next
  case (Cons c n)
  note hb = holds_bounds [OF assms(1) Cons.prems(1)]
  have p: "fdt_offset_ptr b offset 1 = Some (Some (sbase b + offset))"
    using offset_ptr_holds [OF assms(1) Cons.prems(1), of 1] by simp
  have h: "holds b offset ([c] @ (n @ [0]))" using Cons.prems(1) by simp
  then have "take 1 (from_ptr b (sbase b + offset)) = [c]" using holds_append [OF h] by (simp add: holds_def)
  then have r: "rd b (sbase b + offset) = Some c"
    using hb(1) by (intro rd_from_ptr) simp_all
  have a: "add_int offset 1 = Some (offset + 1)" using hb by (simp add: add_int_def in_int_def INT_MAX_def)
  have "holds b (offset + 1) (n @ [0])" using holds_append [OF h] by simp
  then obtain q where "skip_name b (offset + 1) = Some (Some q, offset + 1 + int (length n) + 1)"
    using Cons.IH [of "offset + 1"] Cons.prems(2) by fastforce
  then show ?case using p r a Cons.prems(2) by (subst skip_name.simps) (auto simp: add.assoc)
qed

lemma roundup_add: "(4 * a + m) div 4 * 4 = 4 * a + m div 4 * 4" for a m :: nat
  by simp

lemma next_tag_begin:
  assumes "fits b" "holds b offset (flat_begin n)" "0 \<notin> set n" "offset mod 4 = 0"
  shows "fdt_next_tag b offset = Some (FDT_BEGIN_NODE, offset + int (length (flat_begin n)))"
proof -
  have h: "holds b offset (be FDT_BEGIN_NODE @ pad4 (n @ [0]))" using assms(2) by (simp add: flat_begin_def)
  then have "holds b (offset + 4) ((n @ [0]) @ replicate (padding (length (n @ [0]))) 0)"
    using holds_append [OF h] by (simp add: pad4_def)
  then have "holds b (offset + 4) (n @ [0])" using holds_append by blast
  then obtain q where q: "skip_name b (offset + 4) = Some (Some q, offset + 4 + int (length n) + 1)"
    using skip_name_holds [OF assms(1) _ assms(3)] by blast
  have "tag_end b FDT_BEGIN_NODE (offset + 4) = Some (Some (offset + int (length n + 5)))"
    using q by (simp add: tag_end_def)
  then have "fdt_next_tag b offset = Some (FDT_BEGIN_NODE, offset + int ((length n + 5 + 3) div 4 * 4))"
    by (rule next_tag_holds [OF assms(1) h]) (simp_all add: pad4_def assms(4))
  moreover have "(length n + 5 + 3) div 4 * 4 = length (flat_begin n)"
    using roundup_add [of 1 "length n + 4"] by (simp add: flat_begin_def length_pad4 add.commute)
  ultimately show ?thesis by simp
qed

lemma uint_of_nat_small: "n < 2 ^ 32 \<Longrightarrow> uint (of_nat n :: u32) = int n"
  by (simp only: uint_nat) (simp add: unat_of_nat_small)

lemma next_tag_prop:
  assumes "v16 b" "holds b offset (flat_prop (no, v))" "length v < 2 ^ 28" "offset mod 4 = 0"
  shows "fdt_next_tag b offset = Some (FDT_PROP, offset + int (length (flat_prop (no, v))))"
proof -
  have f: "fits b" and ver: "\<not> word_at b 20 < 0x10" using assms(1) by (auto simp: v16_def)
  have h: "holds b offset (be FDT_PROP @ be (of_nat (length v)) @ be no @ pad4 v)" using assms(2) by (simp add: flat_prop_def)
  note hb = holds_bounds [OF f h]
  have h4: "holds b (offset + 4) (be (of_nat (length v)))" using holds_append [OF h] holds_append by fastforce
  let ?l = "of_nat (length v) :: u32"
  have l: "uint ?l = int (length v)" using assms(3) by (intro uint_of_nat_small) simp
  have p: "fdt_offset_ptr b (offset + 4) 4 = Some (Some (sbase b + (offset + 4)))"
    using offset_ptr_holds [OF f h4, of 4] by simp
  have r: "fdt32_ld_i b (sbase b + (offset + 4)) = Some ?l" using word_holds(2) [OF f h4] .
  have o: "uint (to_uint (offset + 4)) = offset + 4" using hb by (intro uint_to_uint) (simp_all add: INT_MAX_def)
  have len: "length v \<le> length (pad4 v)" by (simp add: pad4_def)
  have s: "uint (?l + to_uint (offset + 4)) = int (length v) + offset + 4"
    using hb len l o by (subst uint_add_lem [THEN iffD1]) (simp_all add: INT_MAX_def)
  have "\<not> INT_MAX \<le> uint (?l + to_uint (offset + 4))" "\<not> ?l + to_uint (offset + 4) < to_uint (offset + 4)"
    unfolding word_less_def s o using hb len by simp_all
  moreover have "to_int (offset + 4 + (12 - FDT_TAGSIZE) + uint ?l) = offset + int (length v + 12)"
    unfolding l using hb len by (subst to_int_id) (simp_all add: in_int_def INT_MAX_def FDT_TAGSIZE_def)
  ultimately have "prop_end b ?l (offset + 4) = Some (Some (offset + int (length v + 12)))"
    unfolding prop_end_def Let_def header_words(6) [OF f] using ver by simp
  then have "tag_end b FDT_PROP (offset + 4) = Some (Some (offset + int (length v + 12)))"
    using p r by (simp add: tag_end_def fdt_tags)
  then have "fdt_next_tag b offset = Some (FDT_PROP, offset + int ((length v + 12 + 3) div 4 * 4))"
    by (rule next_tag_holds [OF f h]) (simp_all add: pad4_def assms(4))
  moreover have "(length v + 12 + 3) div 4 * 4 = length (flat_prop (no, v))"
    using roundup_add [of 3 "length v + 3"] by (simp add: flat_prop_def length_pad4 add.commute)
  ultimately show ?thesis by simp
qed

lemma next_tag_plain:
  assumes "fits b" "holds b offset (be tag)" "tag \<in> {FDT_END_NODE, FDT_NOP, FDT_END}" "offset mod 4 = 0"
  shows "fdt_next_tag b offset = Some (tag, offset + 4)"
proof -
  have "tag_end b tag (offset + 4) = Some (Some (offset + int 4))" using assms(3) by (auto simp: tag_end_def fdt_tags)
  then show ?thesis using next_tag_holds [OF assms(1), of offset tag "[]" 4] assms(2,4) by simp
qed

section \<open>Properties and children of a node\<close>

definition flat_props :: "(u32 \<times> u8 list) list \<Rightarrow> u8 list" where
  "flat_props ps = concat (map flat_prop ps)"

definition flats :: "dtree list \<Rightarrow> u8 list" where
  "flats ts = concat (map flat ts)"

lemma flat_props_simps [simp]: "flat_props [] = []" "flat_props (p # ps) = flat_prop p @ flat_props ps"
  by (simp_all add: flat_props_def)

lemma flats_simps [simp]: "flats [] = []" "flats (t # ts) = flat t @ flats ts"
  by (simp_all add: flats_def)

lemma flat_eq: "flat (Node n ps cs) = flat_begin n @ flat_props ps @ flats cs @ be FDT_END_NODE"
  by (simp add: flat_props_def flats_def)

lemma flat_aligned [simp]: "4 dvd length (flat_begin n)" "4 dvd length (flat_prop p)" "4 dvd length (flat_props ps)"
proof -
  show "4 dvd length (flat_begin n)" by (simp add: flat_begin_def length_pad4)
  show p: "4 dvd length (flat_prop p)" for p by (simp add: flat_prop_def length_pad4)
  show "4 dvd length (flat_props ps)" by (induction ps) (simp_all add: p)
qed

lemma flat_tree_aligned [simp]: "4 dvd length (flat t)"
proof (induction t)
  case (Node n ps cs)
  then have "4 dvd length (flats cs)" by (induction cs) auto
  then show ?case unfolding flat_eq by simp
qed

lemma aligned_add: "offset mod 4 = 0 \<Longrightarrow> 4 dvd n \<Longrightarrow> (offset + int n) mod 4 = 0"
  by (auto simp: mod_eq_0_iff_dvd)

definition wf_props :: "(u32 \<times> u8 list) list \<Rightarrow> bool" where
  "wf_props ps \<longleftrightarrow> (\<forall>p \<in> set ps. length (snd p) < 2 ^ 28)"

lemma wf_props_Cons [simp]: "wf_props (p # ps) \<longleftrightarrow> length (snd p) < 2 ^ 28 \<and> wf_props ps"
  by (simp add: wf_props_def)

lemma wf_tree_eq: "wf_tree (Node n ps cs) \<longleftrightarrow> 0 \<notin> set n \<and> wf_props ps \<and> list_all wf_tree cs"
  by (simp add: wf_props_def)

text \<open>The steps of the node traversal over the tokens.\<close>

lemma loop_props:
  assumes "v16 b" "holds b offset (flat_props ps)" "wf_props ps" "offset mod 4 = 0"
  shows "next_node_loop b offset d = next_node_loop b (offset + int (length (flat_props ps))) d"
  using assms(2-4)
proof (induction ps arbitrary: offset)
  case (Cons p ps)
  have h: "holds b offset (flat_prop p)" "holds b (offset + int (length (flat_prop p))) (flat_props ps)"
    using holds_append [of b offset "flat_prop p" "flat_props ps"] Cons.prems(1) by simp_all
  have "fdt_next_tag b offset = Some (FDT_PROP, offset + int (length (flat_prop p)))"
    using next_tag_prop [OF assms(1), of offset "fst p" "snd p"] h(1) Cons.prems by simp
  then have "next_node_loop b offset d = next_node_loop b (offset + int (length (flat_prop p))) d"
    by (subst next_node_loop.simps) (simp add: fdt_tags)
  then show ?case using Cons.IH [OF h(2)] Cons.prems aligned_add [of offset] by (simp add: add.assoc)
qed simp

lemma loop_begin:
  assumes "fits b" "holds b offset (flat_begin n)" "0 \<notin> set n" "offset mod 4 = 0" "0 \<le> d" "d < INT_MAX"
  shows "next_node_loop b offset (Some d) = Some (offset, Some (d + 1))"
proof -
  have "add_int d 1 = Some (d + 1)" using assms(5,6) by (simp add: add_int_def in_int_def INT_MAX_def)
  then show ?thesis using next_tag_begin [OF assms(1-4)] by (subst next_node_loop.simps) (simp add: fdt_tags)
qed

lemma loop_end:
  assumes "fits b" "holds b offset (be FDT_END_NODE)" "offset mod 4 = 0" "0 \<le> d" "d < INT_MAX"
  shows "next_node_loop b offset (Some d) =
    (if d = 0 then Some (offset + 4, Some (- 1)) else next_node_loop b (offset + 4) (Some (d - 1)))"
proof -
  have "sub_int d 1 = Some (d - 1)" using assms(4,5) by (simp add: sub_int_def in_int_def INT_MAX_def)
  moreover have "fdt_next_tag b offset = Some (FDT_END_NODE, offset + 4)"
    using next_tag_plain [OF assms(1,2) _ assms(3)] by simp
  ultimately show ?thesis using assms(4) by (subst next_node_loop.simps) (auto simp: fdt_tags)
qed

text \<open>The search for the next sibling, continued at a token.\<close>

definition resume :: "blob \<Rightarrow> int \<Rightarrow> int \<Rightarrow> int option" where
  "resume b offset d = next_node_loop b offset (Some d) \<bind> (\<lambda>(offset, depth).
     if offset < 0 \<or> the depth < 1 then Some (- FDT_ERR_NOTFOUND)
     else if the depth > 1 then next_subnode_loop b offset depth else Some offset)"

lemma check_node_tree:
  assumes "fits b" "holds b offset (flat_begin n)" "0 \<notin> set n" "offset mod 4 = 0"
  shows "fdt_check_node_offset_i b offset = Some (offset + int (length (flat_begin n)))"
  using next_tag_begin [OF assms] holds_bounds(1) [OF assms(1,2)] assms(4)
  by (simp add: fdt_check_node_offset_i_def FDT_TAGSIZE_def)

lemma subnode_resume:
  assumes "fits b" "holds b offset (flat_begin n)" "0 \<notin> set n" "offset mod 4 = 0"
  shows "next_subnode_loop b offset (Some d) = resume b (offset + int (length (flat_begin n))) d"
  using check_node_tree [OF assms] holds_bounds(1) [OF assms(1,2)]
  by (subst next_subnode_loop.simps) (simp add: fdt_next_node_def resume_def)

lemma resume_props:
  assumes "v16 b" "holds b offset (flat_props ps)" "wf_props ps" "offset mod 4 = 0"
  shows "resume b offset d = resume b (offset + int (length (flat_props ps))) d"
  unfolding resume_def loop_props [OF assms] ..

lemma resume_begin:
  assumes "fits b" "holds b offset (flat_begin n)" "0 \<notin> set n" "offset mod 4 = 0" "0 \<le> d" "d < INT_MAX"
  shows "resume b offset d = (if d = 0 then Some offset else resume b (offset + int (length (flat_begin n))) (d + 1))"
  using loop_begin [OF assms] subnode_resume [OF assms(1-4), of "d + 1"] holds_bounds(1) [OF assms(1,2)] assms(5)
  by (simp add: resume_def [of b offset])

lemma resume_end:
  assumes "fits b" "holds b offset (be FDT_END_NODE)" "offset mod 4 = 0" "0 \<le> d" "d < INT_MAX"
  shows "resume b offset d = (if d = 0 then Some (- FDT_ERR_NOTFOUND) else resume b (offset + 4) (d - 1))"
  using loop_end [OF assms] by (simp add: resume_def)

lemma flats_Cons_split: "flats (t # ts) @ ys = flat t @ (flats ts @ ys)"
  by simp

lemma resume_trees:
  assumes "v16 b"
  shows "wf_tree t \<Longrightarrow> holds b offset (flat t) \<Longrightarrow> offset mod 4 = 0 \<Longrightarrow> 1 \<le> d \<Longrightarrow> d + int (length (flat t)) \<le> INT_MAX \<Longrightarrow>
    resume b offset d = resume b (offset + int (length (flat t))) d"
proof (induction t arbitrary: offset d)
  case (Node n ps cs)
  have f: "fits b" using assms by (simp add: v16_def)
  have wf: "0 \<notin> set n" "wf_props ps" "list_all wf_tree cs" using Node.prems(1) unfolding wf_tree_eq by simp_all
  let ?o1 = "offset + int (length (flat_begin n))"
  let ?o2 = "?o1 + int (length (flat_props ps))"
  let ?o3 = "?o2 + int (length (flats cs))"
  have h1: "holds b offset (flat_begin n)" "holds b ?o1 (flat_props ps @ flats cs @ be FDT_END_NODE)"
    using holds_append [OF Node.prems(2) [unfolded flat_eq]] by simp_all
  have h2: "holds b ?o1 (flat_props ps)" "holds b ?o2 (flats cs @ be FDT_END_NODE)" using holds_append [OF h1(2)] by simp_all
  have h3: "holds b ?o2 (flats cs)" "holds b ?o3 (be FDT_END_NODE)" using holds_append [OF h2(2)] by simp_all
  have a: "?o1 mod 4 = 0" "?o2 mod 4 = 0" using Node.prems(3) by (intro aligned_add; simp)+
  have dl: "d + 1 + int (length (flats cs)) \<le> INT_MAX" using Node.prems(5) unfolding flat_eq by (simp add: flat_begin_def)
  have cs: "resume b off (d + 1) = resume b (off + int (length (flats ts))) (d + 1) \<and> (off + int (length (flats ts))) mod 4 = 0"
    if "set ts \<subseteq> set cs" "holds b off (flats ts)" "off mod 4 = 0" "d + 1 + int (length (flats ts)) \<le> INT_MAX" for ts off
    using that
  proof (induction ts arbitrary: off)
    case (Cons t ts)
    have hh: "holds b off (flat t)" "holds b (off + int (length (flat t))) (flats ts)"
      using holds_append [of b off "flat t" "flats ts"] Cons.prems(2) by simp_all
    have t: "t \<in> set cs" "wf_tree t" using Cons.prems(1) wf(3) by (auto simp: list_all_iff)
    have "resume b off (d + 1) = resume b (off + int (length (flat t))) (d + 1)"
      using Node.IH [OF t hh(1) Cons.prems(3), of "d + 1"] Cons.prems(4) Node.prems(4) by simp
    then show ?case using Cons.IH [OF _ hh(2)] Cons.prems aligned_add [of off "length (flat t)"] by (simp add: add.assoc)
  qed simp
  have a3: "?o3 mod 4 = 0" and c: "resume b ?o2 (d + 1) = resume b ?o3 (d + 1)"
    using cs [OF subset_refl h3(1) a(2) dl] by simp_all
  have d: "0 \<le> d" "d < INT_MAX" "0 \<le> d + 1" "d + 1 < INT_MAX"
    using Node.prems(4,5) dl by (simp_all add: flat_begin_def)
  have "resume b offset d = resume b ?o1 (d + 1)"
    using resume_begin [OF f h1(1) wf(1) Node.prems(3) d(1,2)] Node.prems(4) by simp
  also have "\<dots> = resume b ?o3 (d + 1)" using resume_props [OF assms h2(1) wf(2) a(1)] c by simp
  also have "\<dots> = resume b (?o3 + 4) d" using resume_end [OF f h3(2) a3 d(3,4)] Node.prems(4) by simp
  finally show ?case unfolding flat_eq by (simp add: add.assoc)
qed

text \<open>The parts of the encoding of a node at an offset.\<close>

abbreviation props_at :: "int \<Rightarrow> u8 list \<Rightarrow> int" where
  "props_at offset n \<equiv> offset + int (length (flat_begin n))"

definition children_at :: "int \<Rightarrow> dtree \<Rightarrow> int" where
  "children_at offset t = props_at offset (dt_name t) + int (length (flat_props (dt_props t)))"

lemma holds_node:
  assumes "v16 b" "holds b offset (flat (Node n ps cs))" "offset mod 4 = 0"
  shows "holds b offset (flat_begin n)" "holds b (props_at offset n) (flat_props ps @ flats cs @ be FDT_END_NODE)"
    "holds b (props_at offset n) (flat_props ps)"
    "holds b (children_at offset (Node n ps cs)) (flats cs @ be FDT_END_NODE)"
    "props_at offset n mod 4 = 0" "children_at offset (Node n ps cs) mod 4 = 0"
proof -
  show h1: "holds b offset (flat_begin n)" and h2: "holds b (props_at offset n) (flat_props ps @ flats cs @ be FDT_END_NODE)"
    using holds_append [OF assms(2) [unfolded flat_eq]] by simp_all
  show "holds b (props_at offset n) (flat_props ps)" "holds b (children_at offset (Node n ps cs)) (flats cs @ be FDT_END_NODE)"
    using holds_append [OF h2] by (simp_all add: children_at_def)
  show a: "props_at offset n mod 4 = 0" using assms(3) by (intro aligned_add) simp_all
  show "children_at offset (Node n ps cs) mod 4 = 0" unfolding children_at_def dtree.sel
    by (rule aligned_add [OF a]) simp
qed

text \<open>What stands at the end of a list of siblings decides the search: another sibling or the end of the parent.\<close>

lemma resume_siblings:
  assumes "v16 b" "holds b offset (flats cs @ be FDT_END_NODE)" "list_all wf_tree cs" "offset mod 4 = 0"
  shows "resume b offset 0 = Some (if cs = [] then - FDT_ERR_NOTFOUND else offset)"
proof (cases cs)
  case Nil
  then show ?thesis using resume_end [of b offset 0] assms by (simp add: v16_def INT_MAX_def)
next
  case (Cons t ts)
  obtain n ps us where t: "t = Node n ps us" by (cases t)
  have "holds b offset (flat_begin n @ (flat_props ps @ flats us @ be FDT_END_NODE @ flats ts @ be FDT_END_NODE))"
    using assms(2) unfolding Cons t flats_simps flat_eq by simp
  then have "holds b offset (flat_begin n)" using holds_append by blast
  then show ?thesis using resume_begin [of b offset n 0] assms Cons t by (simp add: v16_def INT_MAX_def)
qed

lemma first_subnode_tree:
  assumes "v16 b" "holds b offset (flat (Node n ps cs))" "wf_tree (Node n ps cs)" "offset mod 4 = 0"
  shows "fdt_first_subnode b offset = Some (if cs = [] then - FDT_ERR_NOTFOUND else children_at offset (Node n ps cs))"
proof -
  have f: "fits b" using assms(1) by (simp add: v16_def)
  have wf: "0 \<notin> set n" "wf_props ps" "list_all wf_tree cs" using assms(3) unfolding wf_tree_eq by simp_all
  note h = holds_node [OF assms(1,2,4)]
  let ?c = "children_at offset (Node n ps cs)"
  have o: "0 \<le> offset" "0 \<le> props_at offset n" using holds_bounds(1) [OF f h(1)] holds_bounds(1) [OF f h(3)] by simp_all
  have n: "fdt_next_node b offset (Some 0) = next_node_loop b ?c (Some 0)"
    using check_node_tree [OF f h(1) wf(1) assms(4)] loop_props [OF assms(1) h(3) wf(2) h(5)] o
    by (simp add: fdt_next_node_def children_at_def)
  show ?thesis
  proof (cases cs)
    case Nil
    then have "next_node_loop b ?c (Some 0) = Some (?c + 4, Some (- 1))"
      using loop_end [OF f, of ?c 0] h(4,6) by (simp add: INT_MAX_def)
    then show ?thesis using n Nil by (simp add: fdt_first_subnode_def)
  next
    case (Cons t ts)
    obtain m qs us where t: "t = Node m qs us" by (cases t)
    have "holds b ?c (flat_begin m @ (flat_props qs @ flats us @ be FDT_END_NODE @ flats ts @ be FDT_END_NODE))"
      using h(4) unfolding Cons t flats_simps flat_eq by simp
    then have hb: "holds b ?c (flat_begin m)" using holds_append by blast
    have "next_node_loop b ?c (Some 0) = Some (?c, Some 1)"
      using loop_begin [OF f hb, of 0] wf(3) h(6) Cons t by (simp add: INT_MAX_def)
    moreover have "0 \<le> ?c" using holds_bounds(1) [OF f h(4)] by simp
    ultimately show ?thesis using n Cons by (simp add: fdt_first_subnode_def)
  qed
qed

lemma next_subnode_tree:
  assumes "v16 b" "holds b offset (flats (t # ts) @ be FDT_END_NODE)" "list_all wf_tree (t # ts)" "offset mod 4 = 0"
  shows "fdt_next_subnode b offset = Some (if ts = [] then - FDT_ERR_NOTFOUND else offset + int (length (flat t)))"
proof -
  have f: "fits b" using assms(1) by (simp add: v16_def)
  obtain n ps cs where t: "t = Node n ps cs" by (cases t)
  have wf: "0 \<notin> set n" "wf_props ps" "list_all wf_tree cs" "list_all wf_tree ts"
    using assms(3) unfolding t list.pred_inject wf_tree_eq by simp_all
  have hh: "holds b offset (flat (Node n ps cs))" "holds b (offset + int (length (flat t))) (flats ts @ be FDT_END_NODE)"
    using holds_append [of b offset "flat t" "flats ts @ be FDT_END_NODE"] assms(2) t by simp_all
  note h = holds_node [OF assms(1) hh(1) assms(4)]
  let ?c = "children_at offset (Node n ps cs)"
  let ?e = "?c + int (length (flats cs))"
  have h4: "holds b ?c (flats cs)" "holds b ?e (be FDT_END_NODE)" using holds_append [OF h(4)] by simp_all
  have kids: "resume b off 1 = resume b (off + int (length (flats us))) 1 \<and> (off + int (length (flats us))) mod 4 = 0"
    if "list_all wf_tree us" "holds b off (flats us)" "off mod 4 = 0" for us off
    using that
  proof (induction us arbitrary: off)
    case (Cons u us)
    have hu: "holds b off (flat u)" "holds b (off + int (length (flat u))) (flats us)"
      using holds_append [of b off "flat u" "flats us"] Cons.prems(2) by simp_all
    have "1 + int (length (flat u)) \<le> INT_MAX" using holds_bounds [OF f hu(1)] by simp
    then have "resume b off 1 = resume b (off + int (length (flat u))) 1"
      using resume_trees [OF assms(1), of u off 1] Cons.prems hu(1) by simp
    then show ?case using Cons.IH [OF _ hu(2)] Cons.prems aligned_add [of off "length (flat u)"] by (simp add: add.assoc)
  qed simp
  have "fdt_next_subnode b offset = resume b (props_at offset n) 1"
    unfolding fdt_next_subnode_def by (rule subnode_resume [OF f h(1) wf(1) assms(4)])
  also have "\<dots> = resume b ?e 1"
    using resume_props [OF assms(1) h(3) wf(2) h(5)] kids [OF wf(3) h4(1) h(6)] by (simp add: children_at_def)
  also have "\<dots> = resume b (?e + 4) 0"
    using resume_end [OF f h4(2), of 1] kids [OF wf(3) h4(1) h(6)] by (simp add: INT_MAX_def)
  also have "?e + 4 = offset + int (length (flat t))" unfolding t flat_eq by (simp add: children_at_def)
  also have "resume b (offset + int (length (flat t))) 0 = Some (if ts = [] then - FDT_ERR_NOTFOUND else offset + int (length (flat t)))"
    using resume_siblings [OF assms(1) hh(2) wf(4)] aligned_add [OF assms(4), of "length (flat t)"] by simp
  finally show ?thesis .
qed

section \<open>Names and properties of a node\<close>

definition readable :: "blob \<Rightarrow> bool" where
  "readable b \<longleftrightarrow> v16 b \<and> fdt_ro_probe_i b = Some (tsize b)"

lemma strlen_holds: "0 \<notin> set n \<Longrightarrow> take (Suc (length n)) s = n @ [0] \<Longrightarrow> strlen s = Some (length n)"
proof (induction n arbitrary: s)
  case Nil
  then show ?case by (cases s) auto
next
  case (Cons c n)
  then show ?case by (cases s) auto
qed

lemma get_name_tree:
  assumes "readable b" "holds b offset (flat_begin n)" "0 \<notin> set n" "offset mod 4 = 0"
  shows "fdt_get_name b offset = Some (Inr (sbase b + offset + 4, int (length n)))"
    "take (Suc (length n)) (from_ptr b (sbase b + offset + 4)) = n @ [0]"
proof -
  have f: "fits b" and v: "\<not> word_at b 20 < 0x10" using assms(1) by (auto simp: readable_def v16_def)
  have h: "holds b offset (be FDT_BEGIN_NODE @ ((n @ [0]) @ replicate (padding (length (n @ [0]))) 0))"
    using assms(2) by (simp add: flat_begin_def pad4_def)
  then have "holds b (offset + 4) (n @ [0])" using holds_append [OF h] holds_append by force
  then show t: "take (Suc (length n)) (from_ptr b (sbase b + offset + 4)) = n @ [0]" by (simp add: holds_def add.assoc)
  have "0 \<le> tsize b" "0 \<le> props_at offset n" using holds_bounds(1) [OF f assms(2)] by simp_all
  then show "fdt_get_name b offset = Some (Inr (sbase b + offset + 4, int (length n)))"
    using assms(1) check_node_tree [OF f assms(2-4)] strlen_holds [OF assms(3) t] v
    by (simp add: fdt_get_name_def fdt_offset_ptr_i_def header_words [OF f] readable_def leaf_name_def FDT_TAGSIZE_def)
qed

text \<open>The string block resolves name offsets.\<close>

definition names :: "blob \<Rightarrow> u32 \<Rightarrow> u8 list \<Rightarrow> bool" where
  "names b no s \<longleftrightarrow> (\<exists>p. fdt_get_string b (to_int (uint no)) = Some (Inr (p, int (length s))) \<and>
     take (length s) (from_ptr b p) = s)"

lemma string_eq_tree:
  assumes "names b no s" "l \<le> length name"
  shows "fdt_string_eq_i b (to_int (uint no)) name (int l) = Some (s = take l name)"
proof -
  obtain p where p: "fdt_get_string b (to_int (uint no)) = Some (Inr (p, int (length s)))" "take (length s) (from_ptr b p) = s"
    using assms(1) by (auto simp: names_def)
  have "length s \<le> length (from_ptr b p)" using p(2) by (metis length_take min.cobounded1)
  moreover have "s = take l name \<Longrightarrow> length s = l" using assms(2) by simp
  ultimately show ?thesis using p assms(2) by (cases "length s = l") (auto simp: fdt_string_eq_i_def mem_eq_def)
qed

lemma flat_prop_parts:
  assumes "fits b" "holds b offset (flat_prop (no, v))" "length v < 2 ^ 28"
  shows "fdt32_ld_i b (sbase b + offset + 4) = Some (of_nat (length v))" "fdt32_ld_i b (sbase b + offset + 8) = Some no"
    "holds b (offset + 12) v"
proof -
  have h: "holds b offset (be FDT_PROP @ (be (of_nat (length v)) @ (be no @ (v @ replicate (padding (length v)) 0))))"
    using assms(2) by (simp add: flat_prop_def pad4_def)
  note h1 = holds_append [OF h, THEN conjunct2] note h2 = holds_append [OF h1] note h3 = holds_append [OF h2 [THEN conjunct2]]
  show "fdt32_ld_i b (sbase b + offset + 4) = Some (of_nat (length v))"
    using word_holds(2) [OF assms(1) h2 [THEN conjunct1]] by (simp add: add.assoc)
  show "fdt32_ld_i b (sbase b + offset + 8) = Some no"
    using word_holds(2) [OF assms(1) h3 [THEN conjunct1]] by (simp add: add.assoc)
  show "holds b (offset + 12) v" using holds_append [OF h3 [THEN conjunct2]] by (simp add: add.assoc)
qed

lemma check_prop_tree:
  assumes "v16 b" "holds b offset (flat_prop (no, v))" "length v < 2 ^ 28" "offset mod 4 = 0"
  shows "fdt_check_prop_offset_i b offset = Some (offset + int (length (flat_prop (no, v))))"
    "fdt_get_property_by_offset_i b offset = Some (Inr (sbase b + offset, int (length v)))"
proof -
  have f: "fits b" using assms(1) by (simp add: v16_def)
  show c: "fdt_check_prop_offset_i b offset = Some (offset + int (length (flat_prop (no, v))))"
    using next_tag_prop [OF assms] holds_bounds(1) [OF f assms(2)] assms(4)
    by (simp add: fdt_check_prop_offset_i_def FDT_TAGSIZE_def)
  have "uint (of_nat (length v) :: u32) = int (length v)" using assms(3) by (intro uint_of_nat_small) simp
  moreover have "to_int (int (length v)) = int (length v)" using assms(3) by (intro to_int_id in_intI) (simp_all add: INT_MAX_def)
  ultimately show "fdt_get_property_by_offset_i b offset = Some (Inr (sbase b + offset, int (length v)))"
    using c holds_bounds(1) [OF f assms(2)] flat_prop_parts(1) [OF f assms(2,3)]
    by (simp add: fdt_get_property_by_offset_i_def fdt_offset_ptr_i_def header_words [OF f])
qed

lemma nextprop_tree:
  assumes "v16 b" "holds b offset (flat_props ps @ flats cs @ be FDT_END_NODE)" "wf_props ps" "list_all wf_tree cs" "offset mod 4 = 0"
  shows "nextprop_i b offset = Some (if ps = [] then - FDT_ERR_NOTFOUND else offset)"
proof (cases ps)
  case (Cons p qs)
  have "holds b offset (flat_prop p @ (flat_props qs @ flats cs @ be FDT_END_NODE))" using assms(2) Cons by simp
  then have "holds b offset (flat_prop (fst p, snd p))" using holds_append by fastforce
  then show ?thesis using next_tag_prop [OF assms(1), of offset "fst p" "snd p"] assms(3,5) Cons
    by (subst nextprop_i.simps) (simp add: fdt_tags)
next
  case Nil
  have f: "fits b" using assms(1) by (simp add: v16_def)
  have "\<exists>tag next. fdt_next_tag b offset = Some (tag, next) \<and> tag \<in> {FDT_BEGIN_NODE, FDT_END_NODE}"
  proof (cases cs)
    case cs: Nil
    then have "holds b offset (be FDT_END_NODE)" using assms(2) Nil by simp
    then show ?thesis using next_tag_plain [OF f _ _ assms(5), of FDT_END_NODE] by auto
  next
    case (Cons t ts)
    obtain n qs us where t: "t = Node n qs us" by (cases t)
    have "holds b offset (flat_begin n @ (flat_props qs @ flats us @ be FDT_END_NODE @ flats ts @ be FDT_END_NODE))"
      using assms(2) unfolding Nil Cons t flats_simps flat_props_simps flat_eq by simp
    then have "holds b offset (flat_begin n)" using holds_append by blast
    then show ?thesis using next_tag_begin [OF f _ _ assms(5), of n] assms(4) Cons t by auto
  qed
  then show ?thesis using Nil by (subst nextprop_i.simps) (auto simp: fdt_tags)
qed

text \<open>The first property whose name offset satisfies a predicate, with its offset.\<close>

fun find_prop :: "(u32 \<Rightarrow> bool) \<Rightarrow> int \<Rightarrow> (u32 \<times> u8 list) list \<Rightarrow> (int \<times> u8 list) option" where
  "find_prop P offset [] = None"
| "find_prop P offset (p # ps) = (if P (fst p) then Some (offset, snd p) else find_prop P (offset + int (length (flat_prop p))) ps)"

lemma find_prop_holds:
  "find_prop P offset ps = Some (o', v) \<Longrightarrow> holds b offset (flat_props ps) \<Longrightarrow> wf_props ps \<Longrightarrow> offset mod 4 = 0 \<Longrightarrow>
   \<exists>no. holds b o' (flat_prop (no, v)) \<and> length v < 2 ^ 28 \<and> o' mod 4 = 0"
proof (induction P offset ps rule: find_prop.induct)
  case (2 P offset p ps)
  have h: "holds b offset (flat_prop p)" "holds b (offset + int (length (flat_prop p))) (flat_props ps)"
    using holds_append [of b offset "flat_prop p" "flat_props ps"] 2(3) by simp_all
  show ?case
  proof (cases "P (fst p)")
    case True
    then show ?thesis using 2 h(1) by (cases p) auto
  next
    case False
    then show ?thesis using 2 h(2) aligned_add [of offset "length (flat_prop p)"] by simp
  qed
qed simp

lemma property_loop_tree:
  assumes "v16 b" "\<And>no. no \<in> fst ` set ps \<Longrightarrow> fdt_string_eq_i b (to_int (uint no)) name l = Some (P no)"
    "holds b offset (flat_props ps @ flats cs @ be FDT_END_NODE)" "wf_props ps" "list_all wf_tree cs" "offset mod 4 = 0"
  shows "get_property_loop b (if ps = [] then - FDT_ERR_NOTFOUND else offset) name l =
    Some (case find_prop P offset ps of None \<Rightarrow> Inl (- FDT_ERR_NOTFOUND) | Some (o', v) \<Rightarrow> Inr (sbase b + o', int (length v), o'))"
  using assms(2-4,6)
proof (induction ps arbitrary: offset)
  case Nil
  then show ?case by (subst get_property_loop.simps) (simp add: fdt_errors)
next
  case (Cons p ps)
  have f: "fits b" using assms(1) by (simp add: v16_def)
  obtain no v where p: "p = (no, v)" by (cases p)
  let ?n = "offset + int (length (flat_prop p))"
  have h: "holds b offset (flat_prop (no, v))" "holds b ?n (flat_props ps @ flats cs @ be FDT_END_NODE)"
    using holds_append [of b offset "flat_prop p" "flat_props ps @ flats cs @ be FDT_END_NODE"] Cons.prems(2) p by simp_all
  have lv: "length v < 2 ^ 28" using Cons.prems(3) p by simp
  note c = check_prop_tree [OF assms(1) h(1) lv Cons.prems(4)]
  have a: "?n mod 4 = 0" using Cons.prems(4) by (intro aligned_add) simp_all
  have "fdt_next_property_offset b offset = Some (if ps = [] then - FDT_ERR_NOTFOUND else ?n)"
    using c(1) nextprop_tree [OF assms(1) h(2) _ assms(5) a] Cons.prems(3) holds_bounds(1) [OF f h(2)] p
    by (simp add: fdt_next_property_offset_def)
  then have "get_property_loop b offset name l = (if P no then Some (Inr (sbase b + offset, int (length v), offset))
      else get_property_loop b (if ps = [] then - FDT_ERR_NOTFOUND else ?n) name l)"
    using c(2) flat_prop_parts(2) [OF f h(1) lv] Cons.prems(1) [of no] holds_bounds(1) [OF f h(1)] p
    by (subst get_property_loop.simps) simp
  then show ?case using Cons.IH [OF _ h(2) _ a] Cons.prems(1,3) p by auto
qed

lemma getprop_tree:
  assumes "readable b" "holds b offset (flat (Node n ps cs))" "wf_tree (Node n ps cs)" "offset mod 4 = 0"
    "\<And>no. no \<in> fst ` set ps \<Longrightarrow> names b no (strs no)" "l \<le> length name"
  shows "\<exists>r. fdt_getprop_namelen b offset name (int l) = Some r \<and>
    (case find (\<lambda>p. strs (fst p) = take l name) ps of None \<Rightarrow> r = Inl (- FDT_ERR_NOTFOUND)
     | Some p \<Rightarrow> \<exists>q. r = Inr (sbase b + q, int (length (snd p))) \<and> holds b q (snd p))"
proof -
  have v: "v16 b" and f: "fits b" and ver: "\<not> word_at b 20 < 0x10" using assms(1) by (auto simp: readable_def v16_def)
  have wf: "0 \<notin> set n" "wf_props ps" "list_all wf_tree cs" using assms(3) unfolding wf_tree_eq by simp_all
  note h = holds_node [OF v assms(2,4)]
  let ?P = "\<lambda>no. strs no = take l name" and ?o = "props_at offset n"
  have "fdt_first_property_offset b offset = Some (if ps = [] then - FDT_ERR_NOTFOUND else ?o)"
    using check_node_tree [OF f h(1) wf(1) assms(4)] nextprop_tree [OF v h(2) wf(2,3) h(5)] holds_bounds(1) [OF f h(3)]
    by (simp add: fdt_first_property_offset_def)
  moreover have "fdt_string_eq_i b (to_int (uint no)) name (int l) = Some (?P no)" if "no \<in> fst ` set ps" for no
    by (rule string_eq_tree [OF assms(5) [OF that] assms(6)])
  ultimately have g: "fdt_get_property_namelen_i b offset name (int l) = Some (case find_prop ?P ?o ps of
      None \<Rightarrow> Inl (- FDT_ERR_NOTFOUND) | Some (o', v) \<Rightarrow> Inr (sbase b + o', int (length v), o'))"
    using property_loop_tree [OF v _ h(2) wf(2,3) h(5), of name "int l" ?P] by (simp add: fdt_get_property_namelen_i_def)
  show ?thesis
  proof (cases "find_prop ?P ?o ps")
    case None
    have "find_prop ?P off qs = None \<longleftrightarrow> find (\<lambda>p. ?P (fst p)) qs = None" for off qs
      by (induction qs arbitrary: off) auto
    then show ?thesis using g None by (simp add: fdt_getprop_namelen_def)
  next
    case (Some ov)
    obtain o' w where ov: "ov = (o', w)" by (cases ov)
    have "find_prop ?P off qs = Some (o', w) \<Longrightarrow> \<exists>p. find (\<lambda>p. ?P (fst p)) qs = Some p \<and> snd p = w" for off qs
      by (induction qs arbitrary: off) (auto split: if_splits)
    then obtain p where p: "find (\<lambda>p. ?P (fst p)) ps = Some p" "snd p = w" using Some ov by blast
    obtain no where no: "holds b o' (flat_prop (no, w))" "length w < 2 ^ 28"
      using find_prop_holds [of ?P ?o ps o' w b] Some ov h(3,5) wf(2) by auto
    have "prop_data b (sbase b + o') o' = Some (sbase b + o' + 12)" using ver by (simp add: prop_data_def header_words [OF f])
    then have "fdt_getprop_namelen b offset name (int l) = Some (Inr (sbase b + (o' + 12), int (length w)))"
      using g Some ov by (simp add: fdt_getprop_namelen_def add.assoc)
    then show ?thesis using p flat_prop_parts(3) [OF f no] by auto
  qed
qed

lemma be32_bytes: "be32 a b c d = w \<Longrightarrow> ucast (drop_bit 24 w) = a \<and> ucast (drop_bit 16 w) = b \<and> ucast (drop_bit 8 w) = c \<and> ucast w = d"
proof -
  assume w: "be32 a b c d = w"
  have bits: "bit w n \<longleftrightarrow> n < 8 \<and> bit d n \<or> 8 \<le> n \<and> n < 16 \<and> bit c (n - 8) \<or>
      16 \<le> n \<and> n < 24 \<and> bit b (n - 16) \<or> 24 \<le> n \<and> n < 32 \<and> bit a (n - 24)" for n
    unfolding w [symmetric] be32_def bit_or_iff bit_push_bit_iff byte_bit by (auto dest: bit_imp_le_length)
  have u: "bit (ucast (drop_bit k w) :: u8) n \<longleftrightarrow> n < 8 \<and> bit w (k + n)" for k n
    by (auto simp: bit_ucast_iff bit_drop_bit_eq dest: bit_imp_le_length)
  have "ucast (drop_bit 24 w) = a" by (rule bit_word_eqI) (auto simp: u bits)
  moreover have "ucast (drop_bit 16 w) = b" by (rule bit_word_eqI) (auto simp: u bits)
  moreover have "ucast (drop_bit 8 w) = c" by (rule bit_word_eqI) (auto simp: u bits)
  moreover have "ucast (drop_bit 0 w) = d" by (rule bit_word_eqI) (simp only: u, auto simp: bits)
  ultimately show ?thesis by simp
qed

section \<open>Properties\<close>

text \<open>A tree with one memory node: 128 MiB at 2 GiB.\<close>

definition demo_fdt :: blob where
  "demo_fdt = \<lparr>fdt_base = 0x82200000, fdt_bytes =
    [0xd0, 0xd, 0xfe, 0xed, 0, 0, 0, 0x80, 0, 0, 0, 0x38, 0, 0, 0, 0x7c, 0, 0, 0, 0x28, 0, 0, 0, 0x11, 0, 0, 0,
     0x10, 0, 0, 0, 0, 0, 0, 0, 4, 0, 0, 0, 0x44, 0, 0, 0, 0, 0, 0, 0, 0, 0, 0, 0, 0, 0, 0, 0, 0, 0, 0, 0, 1, 0, 0,
     0, 0, 0, 0, 0, 1, 0x6d, 0x65, 0x6d, 0x6f, 0x72, 0x79, 0x40, 0x38, 0x30, 0x30, 0x30, 0x30, 0x30, 0x30, 0x30, 0,
     0, 0, 0, 3, 0, 0, 0, 0x10, 0, 0, 0, 0, 0, 0, 0, 0, 0x80, 0, 0, 0, 0, 0, 0, 0, 8, 0, 0, 0, 0, 0, 0, 2, 0, 0, 0,
     2, 0, 0, 0, 9, 0x72, 0x65, 0x67, 0]\<rparr>"

definition demo_tree :: dtree where
  "demo_tree = Node [] [] [Node (map of_char ''memory@80000000'')
     [(0, [0, 0, 0, 0, 0x80, 0, 0, 0, 0, 0, 0, 0, 8, 0, 0, 0])] []]"

lemma demo_fits: "fits demo_fdt"
  by code_simp

lemma demo_readable: "readable demo_fdt"
  by code_simp

lemma demo_holds: "holds demo_fdt 0 (flat demo_tree)"
  by code_simp

lemma demo_string: "fdt_get_string demo_fdt (to_int (uint (0 :: u32))) = Some (Inr (124, 3))"
  by code_simp

text \<open>
  C21: the tag reader inverts the encoding: at the encoding of any token of the structure block (the begin of a
  node with its name, a property with its value, an end, a nop) it returns the tag and the offset right behind the
  padded token.
\<close>
theorem fdt_next_tag_inverts_encoding:
  assumes "v16 b" "offset mod 4 = 0"
  shows "(\<forall>n. holds b offset (flat_begin n) \<and> 0 \<notin> set n \<longrightarrow>
      fdt_next_tag b offset = Some (FDT_BEGIN_NODE, offset + int (length (flat_begin n)))) \<and>
    (\<forall>no v. holds b offset (flat_prop (no, v)) \<and> length v < 2 ^ 28 \<longrightarrow>
      fdt_next_tag b offset = Some (FDT_PROP, offset + int (length (flat_prop (no, v))))) \<and>
    (\<forall>tag \<in> {FDT_END_NODE, FDT_NOP, FDT_END}. holds b offset (be tag) \<longrightarrow> fdt_next_tag b offset = Some (tag, offset + 4))"
proof -
  have f: "fits b" using assms(1) by (simp add: v16_def)
  show ?thesis
    using next_tag_begin [OF f _ _ assms(2)] next_tag_prop [OF assms(1) _ _ assms(2)] next_tag_plain [OF f _ _ assms(2)]
    by blast
qed

theorem fdt_next_tag_inverts_encoding_witness:
  "fdt_next_tag demo_fdt 8 = Some (FDT_BEGIN_NODE, 28)"
proof -
  have "v16 demo_fdt" using demo_readable by (simp add: readable_def)
  moreover have "holds demo_fdt 8 (flat_begin (map of_char ''memory@80000000''))" by code_simp
  moreover have "length (flat_begin (map of_char ''memory@80000000'')) = 20" by code_simp
  ultimately show ?thesis
    using fdt_next_tag_inverts_encoding [THEN conjunct1, rule_format, of demo_fdt 8 "map of_char ''memory@80000000''"]
    by (simp add: of_char_def)
qed

text \<open>
  C20: the property lookup reads the tree: on a buffer that holds the encoding of a node, \<open>fdt_getprop_namelen\<close>
  finds the first property of the node with the given name and returns a pointer to its value and its length, and it
  reports \<open>FDT_ERR_NOTFOUND\<close> exactly when the node has no such property.
\<close>
theorem fdt_getprop_refines:
  assumes "readable b" "holds b offset (flat (Node n ps cs))" "wf_tree (Node n ps cs)" "offset mod 4 = 0"
    "\<forall>p \<in> set ps. names b (fst p) (strs (fst p))" "l \<le> length name"
  shows "\<exists>r. fdt_getprop_namelen b offset name (int l) = Some r \<and>
    (case find (\<lambda>p. strs (fst p) = take l name) ps of None \<Rightarrow> r = Inl (- FDT_ERR_NOTFOUND)
     | Some p \<Rightarrow> \<exists>q. r = Inr (sbase b + q, int (length (snd p))) \<and> take (length (snd p)) (from_ptr b (sbase b + q)) = snd p)"
proof -
  have "names b no (strs no)" if "no \<in> fst ` set ps" for no using assms(5) that by auto
  then obtain r where r: "fdt_getprop_namelen b offset name (int l) = Some r"
    "case find (\<lambda>p. strs (fst p) = take l name) ps of None \<Rightarrow> r = Inl (- FDT_ERR_NOTFOUND)
     | Some p \<Rightarrow> \<exists>q. r = Inr (sbase b + q, int (length (snd p))) \<and> holds b q (snd p)"
    using getprop_tree [OF assms(1-4) _ assms(6)] by blast
  then show ?thesis by (auto simp: holds_def split: option.splits)
qed

theorem fdt_getprop_refines_witness:
  "\<exists>p. fdt_getprop_namelen demo_fdt 8 (map of_char ''reg'') 3 = Some (Inr (p, 16)) \<and>
    take 16 (from_ptr demo_fdt p) = [0, 0, 0, 0, 0x80, 0, 0, 0, 0, 0, 0, 0, 8, 0, 0, 0]"
proof -
  let ?v = "[0, 0, 0, 0, 0x80, 0, 0, 0, 0, 0, 0, 0, 8, 0, 0, 0] :: u8 list"
  let ?n = "map of_char ''memory@80000000'' :: u8 list" and ?r = "map of_char ''reg'' :: u8 list"
  have h: "holds demo_fdt 8 (flat (Node ?n [(0, ?v)] []))" by code_simp
  have "take 3 (from_ptr demo_fdt 124) = ?r" by code_simp
  then have s: "\<forall>p \<in> set [(0 :: u32, ?v)]. names demo_fdt (fst p) ?r" using demo_string by (simp add: names_def numeral_3_eq_3)
  have wf: "wf_tree (Node ?n [(0, ?v)] [])" by (simp add: of_char_def)
  obtain r where r: "fdt_getprop_namelen demo_fdt 8 ?r (int 3) = Some r"
    "case find (\<lambda>p. ?r = take 3 ?r) [(0 :: u32, ?v)] of None \<Rightarrow> r = Inl (- FDT_ERR_NOTFOUND)
     | Some p \<Rightarrow> \<exists>q. r = Inr (sbase demo_fdt + q, int (length (snd p))) \<and> take (length (snd p)) (from_ptr demo_fdt (sbase demo_fdt + q)) = snd p"
    using fdt_getprop_refines [OF demo_readable h wf _ s, of 3 ?r] by auto
  then obtain q where q: "r = Inr (sbase demo_fdt + q, int (length ?v))" "take (length ?v) (from_ptr demo_fdt (sbase demo_fdt + q)) = ?v"
    by auto
  have "int (length ?v) = 16" "length ?v = 16" by simp_all
  then show ?thesis using r(1) q by (intro exI [of _ "sbase demo_fdt + q"]) (simp only: of_nat_numeral)
qed

lemma to_int_wraps: "to_int (x + 2 ^ 32) = to_int x"
proof -
  have "(x + 4294967296 + 2147483648) mod 4294967296 = (x + 2147483648 + 4294967296) mod 4294967296" by (simp only: ac_simps)
  also have "\<dots> = (x + 2147483648) mod 4294967296" by (rule mod_add_self2)
  finally show ?thesis by (simp add: to_int_def signed_take_bit_eq_take_bit_shift take_bit_eq_mod)
qed

text \<open>
  C22: the tag reader adds the length of a property before it compares the result with the size of the tree, and
  the sum is of type \<open>int\<close>: for a property whose length ends up to 8 bytes past \<open>INT_MAX\<close> the offset wraps to a
  negative number, and the subtraction of the start overflows, which is undefined.
\<close>
theorem fdt_next_tag_overflows:
  assumes "v16 b" "holds b start (be FDT_PROP @ be len)" "8 \<le> start"
    "INT_MAX < start + 12 + uint len" "start + 4 + uint len < INT_MAX"
  shows "fdt_next_tag b start = None"
proof -
  have f: "fits b" and ver: "\<not> word_at b 20 < 0x10" using assms(1) by (auto simp: v16_def)
  note hb = holds_bounds [OF f assms(2)]
  have h: "holds b start (be FDT_PROP)" "holds b (start + 4) (be len)" using holds_append [OF assms(2)] by simp_all
  have b4: "fdt_offset_ptr b start 4 = Some (Some (sbase b + start))" using offset_ptr_holds [OF f h(1), of 4] by simp
  have p: "fdt_offset_ptr b (start + 4) 4 = Some (Some (sbase b + (start + 4)))" using offset_ptr_holds [OF f h(2), of 4] by simp
  have r: "fdt32_ld_i b (sbase b + start) = Some FDT_PROP" "fdt32_ld_i b (sbase b + (start + 4)) = Some len"
    using word_holds(2) [OF f h(1)] word_holds(2) [OF f h(2)] by simp_all
  have i4: "to_int (start + FDT_TAGSIZE) = start + 4"
    using hb by (subst to_int_id) (simp_all add: FDT_TAGSIZE_def in_int_def INT_MAX_def)
  have o: "uint (to_uint (start + 4)) = start + 4" using hb by (intro uint_to_uint) (simp_all add: INT_MAX_def)
  have s: "uint (len + to_uint (start + 4)) = uint len + (start + 4)"
    using assms(5) o by (subst uint_add_lem [THEN iffD1]) (simp_all add: INT_MAX_def)
  have c: "\<not> INT_MAX \<le> uint (len + to_uint (start + 4))" "\<not> len + to_uint (start + 4) < to_uint (start + 4)"
    unfolding word_less_def s o using assms(5) by simp_all
  define e where "e = start + 12 + uint len - 2 ^ 32"
  have e: "to_int (start + 4 + (12 - FDT_TAGSIZE) + uint len) = e"
  proof -
    have "to_int (start + 12 + uint len) = to_int e" using to_int_wraps [of e] by (simp add: e_def ac_simps)
    also have "\<dots> = e" using assms(3-5) by (intro to_int_id) (simp add: e_def in_int_def INT_MAX_def)
    finally show ?thesis by (simp add: FDT_TAGSIZE_def ac_simps)
  qed
  have "prop_end b len (start + 4) = Some (Some e)"
    unfolding prop_end_def Let_def header_words(6) [OF f] e using ver c by simp
  then have "tag_end b FDT_PROP (start + 4) = Some (Some e)" using p r(2) by (simp add: tag_end_def fdt_tags)
  moreover have "sub_int e start = None" using assms(3,5) by (simp add: sub_int_def in_int_def INT_MAX_def e_def)
  ultimately show ?thesis using b4 r(1) i4 by (simp add: fdt_next_tag_def FDT_TAGSIZE_def)
qed

text \<open>The same tree with the length of the property set to \<open>0x7fffffd8\<close>.\<close>

definition evil_fdt :: blob where
  "evil_fdt = demo_fdt\<lparr>fdt_bytes := (fdt_bytes demo_fdt)[88 := 0x7f, 89 := 0xff, 90 := 0xff, 91 := 0xd8]\<rparr>"

theorem fdt_next_tag_overflows_witness: "fdt_next_tag evil_fdt 28 = None"
proof -
  have "v16 evil_fdt" "holds evil_fdt 28 (be FDT_PROP @ be 0x7fffffd8)" by code_simp+
  then show ?thesis using fdt_next_tag_overflows [of evil_fdt 28 "0x7fffffd8"] by (simp add: INT_MAX_def)
qed

end
