(* ===== verification/Riscv_Map.thy ===== *)
theory Riscv_Map
  imports KPrelude
begin

text \<open>
  The initial kernel page table of the RISC-V entry code (\<open>arch/riscv/entry/mapkernel.c\<close>), built with
  translation off. Memory is a function from addresses to 64-bit words; the state also holds the
  variables the code reaches through the linker symbols. The addresses of the sections are parameters
  of the model. Against the Sv39 translation of the privileged architecture the lemmas show what
  \<open>map\<close> and the loops of \<open>__riscv_map_kaddr\<close> make of the address space.
\<close>

section \<open>State\<close>

record boot =
  bmem :: "u64 \<Rightarrow> u64"
  ktop :: u64
  kpgtable_root :: u64
  kaddr_offset :: u64
  copied_fdt :: u64

record symbols =
  kernel_end :: u64
  init_start :: u64
  init_end :: u64
  text_start :: u64
  text_end :: u64
  bss_start :: u64
  bss_end :: u64

definition LEVEL :: nat where "LEVEL = 2"
definition PGSIZE :: u32 where "PGSIZE = 4096"

definition PTE_V :: u64 where "PTE_V = 1"
definition PTE_R :: u64 where "PTE_R = 2"
definition PTE_W :: u64 where "PTE_W = 4"
definition PTE_X :: u64 where "PTE_X = 8"
definition PTE_G :: u64 where "PTE_G = 32"
definition PTE_A :: u64 where "PTE_A = 64"
definition PTE_D :: u64 where "PTE_D = 128"

lemmas pte_flags = PTE_V_def PTE_R_def PTE_W_def PTE_X_def PTE_G_def PTE_A_def PTE_D_def

section \<open>Mapping a page\<close>

definition alloc_page :: "boot \<Rightarrow> u64 \<times> boot" where
  "alloc_page s = (ktop s, s\<lparr>ktop := ktop s + ucast PGSIZE\<rparr>)"

definition get_ppn :: "u64 \<Rightarrow> u64" where
  "get_ppn paddr = drop_bit 12 paddr"

text \<open>The loop that clears the 512 words of a page.\<close>

fun clear_words :: "(u64 \<Rightarrow> u64) \<Rightarrow> u64 \<Rightarrow> nat \<Rightarrow> (u64 \<Rightarrow> u64)" where
  "clear_words m page 0 = m"
| "clear_words m page (Suc n) = (clear_words m page n)(page + 8 * of_nat n := 0)"

definition clear_page :: "boot \<Rightarrow> u64 \<Rightarrow> boot" where
  "clear_page s page = s\<lparr>bmem := clear_words (bmem s) page (unat PGSIZE div 8)\<rparr>"

definition vpn :: "u64 \<Rightarrow> nat \<Rightarrow> u64" where
  "vpn kaddr level = drop_bit (12 + (LEVEL - level) * 9) kaddr AND 0x1ff"

text \<open>The table a valid entry points to; an invalid entry gets a new, empty table first.\<close>

definition descend :: "boot \<Rightarrow> u64 \<Rightarrow> u64 \<times> boot" where
  "descend s pte = (let
     s = (if bmem s pte AND PTE_V = 0 then
            let (new_page, s) = alloc_page s;
                s = clear_page s new_page
            in s\<lparr>bmem := (bmem s)(pte := push_bit 10 (get_ppn new_page) OR PTE_V)\<rparr>
          else s)
     in (drop_bit 10 (bmem s pte), s))"

function map_levels :: "nat \<Rightarrow> u64 \<Rightarrow> u64 \<Rightarrow> u64 \<Rightarrow> u8 \<Rightarrow> boot \<Rightarrow> boot" where
  "map_levels level ppn kaddr paddr flags s =
    (if level > LEVEL then s
     else let pte = push_bit 12 ppn + 8 * vpn kaddr level in
       if level = LEVEL then s\<lparr>bmem := (bmem s)(pte := push_bit 10 (get_ppn paddr) OR ucast flags)\<rparr>
       else let (ppn, s) = descend s pte in map_levels (level + 1) ppn kaddr paddr flags s)"
  by auto
termination
  by (relation "measure (\<lambda>(level, _). Suc LEVEL - level)") auto

declare map_levels.simps [simp del]

definition map_page :: "u64 \<Rightarrow> u64 \<Rightarrow> u64 \<Rightarrow> u8 \<Rightarrow> boot \<Rightarrow> boot" where
  "map_page root kaddr paddr flags s = map_levels 0 (get_ppn root) kaddr paddr flags s"

section \<open>Mapping the kernel\<close>

text \<open>
  The loops over physical pages; the first one maps every page twice. Adding the page size to an
  address at the end of the address space wraps, and such a loop does not end.
\<close>

partial_function (option) map_init_loop :: "u64 \<Rightarrow> u64 \<Rightarrow> u64 \<Rightarrow> u64 \<Rightarrow> u8 \<Rightarrow> boot \<Rightarrow> boot option" where
  "map_init_loop root paddr e off flags s =
    (if paddr < e then let
       s = map_page root paddr paddr flags s;
       s = map_page root (paddr + off) paddr flags s
       in map_init_loop root (paddr + ucast PGSIZE) e off flags s
     else Some s)"

partial_function (option) map_loop :: "u64 \<Rightarrow> u64 \<Rightarrow> u64 \<Rightarrow> u64 \<Rightarrow> u8 \<Rightarrow> boot \<Rightarrow> boot option" where
  "map_loop root paddr e off flags s =
    (if paddr < e then let
       s = map_page root (paddr + off) paddr flags s
       in map_loop root (paddr + ucast PGSIZE) e off flags s
     else Some s)"

text \<open>
  Rounding up to a page. The page size is a 32-bit \<open>unsigned int\<close>, and so is the complement
  \<open>~(PGSIZE - 1)\<close> that is extended with zeros to the 64 bits of the address.
\<close>

definition page_round :: "u64 \<Rightarrow> u64" where
  "page_round a = (a + ucast PGSIZE - 1) AND ucast (NOT (PGSIZE - 1))"

definition init_flags :: u8 where
  "init_flags = ucast (PTE_V OR PTE_R OR PTE_W OR PTE_X OR PTE_G OR PTE_A OR PTE_D)"

definition text_flags :: u8 where
  "text_flags = ucast (PTE_V OR PTE_R OR PTE_X OR PTE_G OR PTE_A OR PTE_D)"

definition data_flags :: u8 where
  "data_flags = ucast (PTE_V OR PTE_R OR PTE_W OR PTE_G OR PTE_A OR PTE_D)"

definition riscv_map_kaddr :: "symbols \<Rightarrow> u64 \<Rightarrow> u64 \<Rightarrow> boot \<Rightarrow> (u64 \<times> boot) option" where
  "riscv_map_kaddr ld off memory_top s = do {
     let s = s\<lparr>ktop := page_round (ktop s)\<rparr>;
     let (root, s) = alloc_page s;
     let s = s\<lparr>kpgtable_root := root + kaddr_offset s\<rparr>;
     let s = clear_page s root;
     s \<leftarrow> map_init_loop root (init_start ld) (init_end ld) off init_flags s;
     s \<leftarrow> map_loop root (text_start ld) (text_end ld) off text_flags s;
     let memory_top = page_round memory_top;
     s \<leftarrow> map_loop root (text_end ld) memory_top off data_flags s;
     let satp = push_bit 60 8 OR get_ppn root;
     Some (satp, s) }"

section \<open>Sv39 translation\<close>

text \<open>
  The page table walk of the architecture: three levels of 9 bits each; the entry at the last level
  maps the page. Entries of the upper levels that are leaves (superpages) do not occur in the tables
  built here and count as no translation.
\<close>

definition table_entry :: "u64 \<Rightarrow> bool" where
  "table_entry pte \<longleftrightarrow> pte AND 1 \<noteq> 0 \<and> pte AND 0xE = 0"

definition sv39_walk :: "(u64 \<Rightarrow> u64) \<Rightarrow> u64 \<Rightarrow> u64 \<Rightarrow> u64 option" where
  "sv39_walk m root va = (let p2 = m (push_bit 12 root + 8 * vpn va 0) in
     if \<not> table_entry p2 then None
     else let p1 = m (push_bit 12 (drop_bit 10 p2) + 8 * vpn va 1) in
     if \<not> table_entry p1 then None
     else let p0 = m (push_bit 12 (drop_bit 10 p1) + 8 * vpn va 2) in
     if p0 AND 1 = 0 then None else Some p0)"

section \<open>Entries of page tables\<close>

definition ent :: "u64 \<Rightarrow> u64 \<Rightarrow> u64" where
  "ent p i = push_bit 12 p + 8 * i"

lemma unat_ent: "p < 2 ^ 44 \<Longrightarrow> i < 512 \<Longrightarrow> unat (ent p i) = 4096 * unat p + 8 * unat i"
proof -
  assume a: "p < 2 ^ 44" "i < 512"
  then have b: "unat p < 2 ^ 44" "unat i < 512" by (simp_all add: word_less_nat_alt)
  have "unat (push_bit 12 p) = 4096 * unat p" using b by (simp add: unat_push_bit_small)
  moreover have "unat (8 * i) = 8 * unat i" using b by (simp add: unat_word_ariths)
  ultimately show ?thesis unfolding ent_def using b
    unat_add_of_nat [of "push_bit 12 p" "unat (8 * i)"] by simp
qed

lemma ent_eq_iff:
  assumes "p < 2 ^ 44" "q < 2 ^ 44" "i < 512" "j < 512"
  shows "ent p i = ent q j \<longleftrightarrow> p = q \<and> i = j"
proof
  assume e: "ent p i = ent q j"
  have b: "unat i < 512" "unat j < 512" using assms by (simp_all add: word_less_nat_alt)
  have u: "4096 * unat p + 8 * unat i = 4096 * unat q + 8 * unat j"
    using e unat_ent assms by metis
  then have "unat p = unat q" using b by linarith
  then have "unat p = unat q" "unat i = unat j" using u by simp_all
  then show "p = q \<and> i = j" by (simp add: word_unat_eq_iff)
qed simp

lemma clear_words_eq:
  "clear_words m page n a = (if \<exists>k < n. a = page + 8 * of_nat k then 0 else m a)"
  by (induction n) (auto simp: less_Suc_eq)

lemma clear_ent:
  assumes "p < 2 ^ 44" "P < 2 ^ 44" "i < 512"
  shows "clear_words m (push_bit 12 P) 512 (ent p i) = (if p = P then 0 else m (ent p i))"
proof -
  have k: "(of_nat k :: u64) < 512" if "k < 512" for k
    using that unat_of_nat_small [of k, where 'a = 64] by (simp add: word_less_nat_alt)
  have "(\<exists>k < 512. ent p i = push_bit 12 P + 8 * of_nat k) \<longleftrightarrow> p = P"
  proof
    assume "\<exists>k < 512. ent p i = push_bit 12 P + 8 * of_nat k"
    then obtain k where "k < 512" "ent p i = ent P (of_nat k)" by (auto simp: ent_def)
    then show "p = P" using ent_eq_iff assms k by blast
  next
    assume "p = P"
    then show "\<exists>k < 512. ent p i = push_bit 12 P + 8 * of_nat k"
      using assms(3) by (intro exI [of _ "unat i"]) (simp add: ent_def word_less_nat_alt)
  qed
  then show ?thesis by (simp add: clear_words_eq)
qed

lemma vpn_less: "vpn va l < 512"
proof -
  have m: "(0x1ff :: u64) = mask 9" by (simp add: mask_eq_exp_minus_1)
  have "unat (vpn va l) < 2 ^ 9" unfolding vpn_def m unat_and_mask by simp
  then show ?thesis by (simp add: word_less_nat_alt)
qed

definition tbl :: "u64 option \<Rightarrow> u64" where
  "tbl t = (case t of None \<Rightarrow> 0 | Some p \<Rightarrow> push_bit 10 p OR 1)"

lemma tbl_simps [simp]: "tbl None = 0" "tbl (Some p) = push_bit 10 p OR 1"
  by (simp_all add: tbl_def)

lemma pte_valid: "(push_bit 10 p OR 1) AND 1 = (1 :: u64)"
  by (rule bit_word_eqI) (auto simp: bit_simps)

lemma pte_table: "table_entry (push_bit 10 p OR 1)"
proof -
  have e: "(0xE :: u64) = mask 4 AND NOT 1" by (simp add: mask_eq_exp_minus_1)
  have "(push_bit 10 p OR 1) AND 0xE = (0 :: u64)"
    unfolding e by (rule bit_word_eqI) (auto simp: bit_simps)
  then show ?thesis by (simp add: table_entry_def pte_valid)
qed

lemma pte_ppn: "p < 2 ^ 44 \<Longrightarrow> drop_bit 10 (push_bit 10 p OR 1) = p" for p :: u64
proof (rule bit_word_eqI)
  fix n assume p: "p < 2 ^ 44" and n: "n < LENGTH(64)"
  have z: "drop_bit 44 p = 0" using p by (simp add: unat_drop_bit word_less_nat_alt flip: unat_eq_zero)
  have "bit p n \<Longrightarrow> n < 44"
    using arg_cong [OF z, of "\<lambda>w. bit w (n - 44)"] by (cases "n < 44") (simp_all add: bit_simps)
  then show "bit (drop_bit 10 (push_bit 10 p OR 1)) n = bit p n" using n by (auto simp: bit_simps)
qed

section \<open>Well-formed page tables\<close>

text \<open>
  A page table with root page \<open>R\<close>: \<open>T1 i\<close> is the table the root entry \<open>i\<close> points to and \<open>T0 i j\<close> the one
  entry \<open>j\<close> of that table points to. All tables are different pages, allocated between the root and
  the next free page, and the entries of the two upper levels are what \<open>T1\<close> and \<open>T0\<close> say.
\<close>

definition pt_ok :: "boot \<Rightarrow> u64 \<Rightarrow> (u64 \<Rightarrow> u64 option) \<Rightarrow> (u64 \<Rightarrow> u64 \<Rightarrow> u64 option) \<Rightarrow> bool" where
  "pt_ok s R T1 T0 \<longleftrightarrow>
     ktop s = push_bit 12 (get_ppn (ktop s)) \<and> get_ppn (ktop s) \<le> 2 ^ 44 \<and> R < get_ppn (ktop s) \<and>
     (\<forall>i p. T1 i = Some p \<longrightarrow> R < p \<and> p < get_ppn (ktop s) \<and> (\<forall>i'. T1 i' = Some p \<longrightarrow> i' = i)) \<and>
     (\<forall>i j q. T0 i j = Some q \<longrightarrow> R < q \<and> q < get_ppn (ktop s) \<and> T1 i \<noteq> None \<and>
        (\<forall>i'. T1 i' \<noteq> Some q) \<and> (\<forall>i' j'. T0 i' j' = Some q \<longrightarrow> i' = i \<and> j' = j)) \<and>
     (\<forall>i < 512. bmem s (ent R i) = tbl (T1 i)) \<and>
     (\<forall>i p. T1 i = Some p \<longrightarrow> (\<forall>j < 512. bmem s (ent p j) = tbl (T0 i j)))"

definition leaf :: "boot \<Rightarrow> (u64 \<Rightarrow> u64 \<Rightarrow> u64 option) \<Rightarrow> u64 \<Rightarrow> u64 \<Rightarrow> u64 \<Rightarrow> u64 option" where
  "leaf s T0 i j k = (case T0 i j of None \<Rightarrow> None
     | Some q \<Rightarrow> if bmem s (ent q k) AND 1 = 0 then None else Some (bmem s (ent q k)))"

lemma pt_okD:
  assumes "pt_ok s R T1 T0"
  shows "ktop s = push_bit 12 (get_ppn (ktop s))" "get_ppn (ktop s) \<le> 2 ^ 44" "R < get_ppn (ktop s)" "R < 2 ^ 44"
    "T1 i = Some p \<Longrightarrow> R < p" "T1 i = Some p \<Longrightarrow> p < get_ppn (ktop s)" "T1 i = Some p \<Longrightarrow> p < 2 ^ 44"
    "T1 i = Some p \<Longrightarrow> T1 i' = Some p \<Longrightarrow> i' = i"
    "T0 i j = Some q \<Longrightarrow> R < q" "T0 i j = Some q \<Longrightarrow> q < get_ppn (ktop s)" "T0 i j = Some q \<Longrightarrow> q < 2 ^ 44"
    "T0 i j = Some q \<Longrightarrow> T1 i \<noteq> None" "T0 i j = Some q \<Longrightarrow> T1 i' \<noteq> Some q"
    "T0 i j = Some q \<Longrightarrow> T0 i' j' = Some q \<Longrightarrow> i' = i \<and> j' = j"
    "i < 512 \<Longrightarrow> bmem s (ent R i) = tbl (T1 i)"
    "T1 i = Some p \<Longrightarrow> j < 512 \<Longrightarrow> bmem s (ent p j) = tbl (T0 i j)"
  using assms unfolding pt_ok_def by (blast intro: order_less_le_trans)+

lemma walk_leaf:
  assumes "pt_ok s R T1 T0"
  shows "sv39_walk (bmem s) R va = leaf s T0 (vpn va 0) (vpn va 1) (vpn va 2)"
proof -
  note d = pt_okD [OF assms]
  have z: "\<not> table_entry 0" by (simp add: table_entry_def)
  show ?thesis
  proof (cases "T1 (vpn va 0)")
    case None
    then have "T0 (vpn va 0) (vpn va 1) = None" using d(12) by (metis option.exhaust)
    then show ?thesis using None d(15) [OF vpn_less]
      by (simp add: sv39_walk_def leaf_def z flip: ent_def)
  next
    case (Some p)
    have r: "bmem s (ent R (vpn va 0)) = push_bit 10 p OR 1" using d(15) [OF vpn_less] Some by simp
    have m: "bmem s (ent p (vpn va 1)) = tbl (T0 (vpn va 0) (vpn va 1))" using d(16) [OF Some vpn_less] .
    show ?thesis
    proof (cases "T0 (vpn va 0) (vpn va 1)")
      case None
      then show ?thesis using r m pte_ppn [OF d(7) [OF Some]]
        by (simp add: sv39_walk_def leaf_def pte_table z flip: ent_def)
    next
      case q: (Some q)
      then show ?thesis using r m pte_ppn [OF d(7) [OF Some]] pte_ppn [OF d(11) [OF q]]
        by (simp add: sv39_walk_def leaf_def pte_table flip: ent_def)
    qed
  qed
qed

section \<open>Descending a level\<close>

lemma get_ppn_push: "K \<le> 2 ^ 44 \<Longrightarrow> get_ppn (push_bit 12 K) = K"
proof -
  assume "K \<le> 2 ^ 44"
  then have "unat K \<le> 2 ^ 44" by (simp add: word_le_nat_alt)
  then have "unat (drop_bit 12 (push_bit 12 K)) = unat K"
    by (simp add: unat_drop_bit unat_push_bit_small)
  then show ?thesis by (simp add: get_ppn_def word_unat_eq_iff)
qed

lemma next_page: "K < 2 ^ 44 \<Longrightarrow> push_bit 12 K + ucast PGSIZE = push_bit 12 (K + 1)" for K :: u64
  by (simp add: PGSIZE_def push_bit_add)

lemma succ_le: "K < M \<Longrightarrow> K + 1 \<le> M" for K M :: u64
  using unat_plus1_less [of K M] by (simp add: word_le_nat_alt word_less_nat_alt)

lemma less_succ: "p < K + 1 \<longleftrightarrow> p \<le> K" if "K < M" for p K M :: u64
  using unat_plus1_less [OF that] by (simp add: word_le_nat_alt word_less_nat_alt less_Suc_eq_le)

lemma descend_old:
  assumes "bmem s (ent p i) = push_bit 10 q OR 1" "q < 2 ^ 44"
  shows "descend s (ent p i) = (q, s)"
  using assms pte_valid [of q] pte_ppn [OF assms(2)] by (simp add: descend_def PTE_V_def)

lemma descend_new:
  assumes k: "ktop s = push_bit 12 K" "K < 2 ^ 44" and p: "p < K" "i < 512" and z: "bmem s (ent p i) = 0"
  obtains s' where "descend s (ent p i) = (K, s')" "ktop s' = push_bit 12 (K + 1)" "get_ppn (ktop s') = K + 1"
    "\<And>q j. q < 2 ^ 44 \<Longrightarrow> j < 512 \<Longrightarrow> bmem s' (ent q j) =
       (if q = p \<and> j = i then push_bit 10 K OR 1 else if q = K then 0 else bmem s (ent q j))"
    "kpgtable_root s' = kpgtable_root s" "kaddr_offset s' = kaddr_offset s" "copied_fdt s' = copied_fdt s"
proof -
  define m where "m = (clear_words (bmem s) (push_bit 12 K) 512)(ent p i := push_bit 10 K OR 1)"
  have P: "p < 2 ^ 44" using p(1) k(2) by (rule order_less_trans)
  have g: "get_ppn (push_bit 12 K) = K" using k(2) by (simp add: get_ppn_push)
  have "descend s (ent p i) = (drop_bit 10 (m (ent p i)), s\<lparr>ktop := ktop s + ucast PGSIZE, bmem := m\<rparr>)"
    using z k(1) g by (simp add: descend_def alloc_page_def clear_page_def Let_def m_def PTE_V_def PGSIZE_def)
  moreover have "drop_bit 10 (m (ent p i)) = K" using pte_ppn [OF k(2)] by (simp add: m_def)
  moreover have "m (ent q j) = (if q = p \<and> j = i then push_bit 10 K OR 1 else if q = K then 0 else bmem s (ent q j))"
    if "q < 2 ^ 44" "j < 512" for q j
    using clear_ent [OF that(1) k(2) that(2)] ent_eq_iff [OF that(1) P that(2) p(2)]
    by (simp only: m_def fun_upd_apply)
  ultimately show ?thesis using k next_page [OF k(2)] get_ppn_push [OF succ_le [OF k(2)]]
    by (intro that [of "s\<lparr>ktop := ktop s + ucast PGSIZE, bmem := m\<rparr>"]) simp_all
qed

text \<open>What the map operation keeps of the rest of the state.\<close>

definition same_vars :: "boot \<Rightarrow> boot \<Rightarrow> bool" where
  "same_vars s s' \<longleftrightarrow> kpgtable_root s' = kpgtable_root s \<and> kaddr_offset s' = kaddr_offset s \<and>
     copied_fdt s' = copied_fdt s"

lemma same_vars_trans: "same_vars a b \<Longrightarrow> same_vars b c \<Longrightarrow> same_vars a c"
  by (simp add: same_vars_def)

lemma same_vars_refl [simp]: "same_vars s s"
  by (simp add: same_vars_def)

lemma descend_root:
  assumes ok: "pt_ok s R T1 T0" and k: "get_ppn (ktop s) < 2 ^ 44" and i: "i < 512"
  shows "\<exists>p s' T1'. descend s (ent R i) = (p, s') \<and> pt_ok s' R T1' T0 \<and> T1' i = Some p \<and>
    (\<forall>a b c. c < 512 \<longrightarrow> leaf s' T0 a b c = leaf s T0 a b c) \<and> get_ppn (ktop s') \<le> get_ppn (ktop s) + 1 \<and> same_vars s s'"
proof (cases "T1 i")
  case (Some p)
  note d = pt_okD [OF ok]
  have "descend s (ent R i) = (p, s)" using d(15) [OF i] Some d(7) [OF Some] by (intro descend_old) simp_all
  moreover have "get_ppn (ktop s) \<le> get_ppn (ktop s) + 1" using less_succ [OF k] by (simp add: order.strict_implies_order)
  ultimately show ?thesis using ok Some by (intro exI [of _ p] exI [of _ s] exI [of _ T1]) simp
next
  case None
  note d = pt_okD [OF ok]
  define K where "K = get_ppn (ktop s)"
  have k': "ktop s = push_bit 12 K" "K < 2 ^ 44" using d(1) k by (simp_all add: K_def)
  have rK: "R < K" using d(3) by (simp add: K_def)
  have z: "bmem s (ent R i) = 0" using d(15) [OF i] None by simp
  obtain s' where s': "descend s (ent R i) = (K, s')" "ktop s' = push_bit 12 (K + 1)" "get_ppn (ktop s') = K + 1"
    "\<And>q j. q < 2 ^ 44 \<Longrightarrow> j < 512 \<Longrightarrow> bmem s' (ent q j) =
       (if q = R \<and> j = i then push_bit 10 K OR 1 else if q = K then 0 else bmem s (ent q j))"
    "kpgtable_root s' = kpgtable_root s" "kaddr_offset s' = kaddr_offset s" "copied_fdt s' = copied_fdt s"
    using descend_new [OF k' rK i z] by blast
  have lt: "p < K + 1 \<longleftrightarrow> p \<le> K" for p by (rule less_succ [OF k'(2)])
  have n1: "T1 a \<noteq> Some K" for a using d(6) [of a K] by (auto simp: K_def)
  have n0: "T0 a b \<noteq> Some K" for a b using d(10) [of a b K] by (auto simp: K_def)
  have t0: "T0 i b = None" for b using d(12) [of i b] None by (cases "T0 i b") auto
  have "pt_ok s' R (T1(i := Some K)) T0"
    unfolding pt_ok_def s'(3) lt
  proof (intro conjI allI impI)
    show "ktop s' = push_bit 12 (K + 1)" by (rule s'(2))
    show "K + 1 \<le> 2 ^ 44" by (rule succ_le [OF k'(2)])
    show "R \<le> K" using rK by simp
  next
    fix a p assume "(T1(i := Some K)) a = Some p"
    then show "R < p" "p \<le> K" using rK d(5,6) [of a p] by (auto simp: K_def split: if_splits)
  next
    fix a p a' assume "(T1(i := Some K)) a = Some p" "(T1(i := Some K)) a' = Some p"
    then show "a' = a" using n1 d(8) [of a p a'] by (auto split: if_splits)
  next
    fix a b q assume q: "T0 a b = Some q"
    show "R < q" "q \<le> K" using d(9,10) [OF q] by (auto simp: K_def)
    show "(T1(i := Some K)) a \<noteq> None" using d(12) [OF q] by auto
  next
    fix a b q a' assume q: "T0 a b = Some q"
    show "(T1(i := Some K)) a' \<noteq> Some q" using d(13) [OF q] n0 q by auto
  next
    fix a b q a' b' assume "T0 a b = Some q" "T0 a' b' = Some q"
    then show "a' = a" "b' = b" using d(14) by blast+
  next
    fix a :: u64 assume "a < 512"
    then show "bmem s' (ent R a) = tbl ((T1(i := Some K)) a)"
      using s'(4) [OF d(4), of a] d(15) [of a] rK by auto
  next
    fix a p b assume p: "(T1(i := Some K)) a = Some p" and b: "b < (512 :: u64)"
    show "bmem s' (ent p b) = tbl (T0 a b)"
    proof (cases "a = i")
      case True
      then show ?thesis using p s'(4) [OF k'(2) b] rK t0 by auto
    next
      case False
      then have a: "T1 a = Some p" using p by simp
      have "p \<noteq> R" "p \<noteq> K" using d(5) [OF a] n1 a by auto
      then show ?thesis using s'(4) [OF d(7) [OF a] b] d(16) [OF a b] by simp
    qed
  qed
  moreover have "leaf s' T0 a b c = leaf s T0 a b c" if "c < 512" for a b c
  proof (cases "T0 a b")
    case (Some q)
    have "q \<noteq> R" "q \<noteq> K" using d(9) [OF Some] n0 Some by auto
    then show ?thesis using Some s'(4) [OF d(11) [OF Some] that] by (simp add: leaf_def)
  qed (simp add: leaf_def)
  ultimately show ?thesis using s'
    by (intro exI [of _ K] exI [of _ s'] exI [of _ "T1(i := Some K)"]) (simp add: same_vars_def K_def)
qed

lemma descend_middle:
  assumes ok: "pt_ok s R T1 T0" and k: "get_ppn (ktop s) < 2 ^ 44" and i: "T1 i = Some p" and j: "j < 512"
  shows "\<exists>q s' T0'. descend s (ent p j) = (q, s') \<and> pt_ok s' R T1 T0' \<and> T0' i j = Some q \<and>
    (\<forall>a b c. c < 512 \<longrightarrow> leaf s' T0' a b c = leaf s T0 a b c) \<and> get_ppn (ktop s') \<le> get_ppn (ktop s) + 1 \<and>
    same_vars s s'"
proof (cases "T0 i j")
  case (Some q)
  note d = pt_okD [OF ok]
  have "descend s (ent p j) = (q, s)" using d(16) [OF i j] Some d(11) [OF Some] by (intro descend_old) simp_all
  moreover have "get_ppn (ktop s) \<le> get_ppn (ktop s) + 1" using less_succ [OF k] by (simp add: order.strict_implies_order)
  ultimately show ?thesis using ok Some by (intro exI [of _ q] exI [of _ s] exI [of _ T0]) simp
next
  case None
  note d = pt_okD [OF ok]
  define K where "K = get_ppn (ktop s)"
  define T where "T = (\<lambda>a b. if a = i \<and> b = j then Some K else T0 a b)"
  have k': "ktop s = push_bit 12 K" "K < 2 ^ 44" using d(1) k by (simp_all add: K_def)
  have rK: "R < K" and pK: "p < K" and pR: "p \<noteq> R" using d(3) d(5,6) [OF i] by (auto simp: K_def)
  have z: "bmem s (ent p j) = 0" using d(16) [OF i j] None by simp
  obtain s' where s': "descend s (ent p j) = (K, s')" "ktop s' = push_bit 12 (K + 1)" "get_ppn (ktop s') = K + 1"
    "\<And>q b. q < 2 ^ 44 \<Longrightarrow> b < 512 \<Longrightarrow> bmem s' (ent q b) =
       (if q = p \<and> b = j then push_bit 10 K OR 1 else if q = K then 0 else bmem s (ent q b))"
    "kpgtable_root s' = kpgtable_root s" "kaddr_offset s' = kaddr_offset s" "copied_fdt s' = copied_fdt s"
    using descend_new [OF k' pK j z] by blast
  have lt: "x < K + 1 \<longleftrightarrow> x \<le> K" for x by (rule less_succ [OF k'(2)])
  have n1: "T1 a \<noteq> Some K" for a using d(6) [of a K] by (auto simp: K_def)
  have n0: "T0 a b \<noteq> Some K" for a b using d(10) [of a b K] by (auto simp: K_def)
  have T: "T a b = Some q \<Longrightarrow> a = i \<and> b = j \<and> q = K \<or> T0 a b = Some q \<and> q \<noteq> K" for a b q
    using n0 by (auto simp: T_def split: if_splits)
  have "pt_ok s' R T1 T"
    unfolding pt_ok_def s'(3) lt
  proof (intro conjI allI impI)
    show "ktop s' = push_bit 12 (K + 1)" by (rule s'(2))
    show "K + 1 \<le> 2 ^ 44" by (rule succ_le [OF k'(2)])
    show "R \<le> K" using rK by simp
  next
    fix a x assume "T1 a = Some x"
    then show "R < x" "x \<le> K" using d(5,6) [of a x] by (auto simp: K_def)
  next
    fix a x a' assume "T1 a = Some x" "T1 a' = Some x"
    then show "a' = a" by (rule d(8))
  next
    fix a b q assume q: "T a b = Some q"
    show "R < q" "q \<le> K" using T [OF q] rK d(9,10) [of a b q] by (auto simp: K_def)
    show "T1 a \<noteq> None" using T [OF q] i d(12) [of a b q] by auto
  next
    fix a b q a' assume q: "T a b = Some q"
    show "T1 a' \<noteq> Some q" using T [OF q] n1 d(13) [of a b q a'] by auto
  next
    fix a b q a' b' assume q: "T a b = Some q" "T a' b' = Some q"
    show "a' = a" "b' = b" using T [OF q(1)] T [OF q(2)] d(14) [of a b q a' b'] by auto
  next
    fix a :: u64 assume "a < 512"
    then show "bmem s' (ent R a) = tbl (T1 a)"
      using s'(4) [OF d(4), of a] d(15) [of a] rK pR by auto
  next
    fix a x b assume x: "T1 a = Some x" and b: "b < (512 :: u64)"
    have xK: "x \<noteq> K" using n1 x by auto
    have "x = p \<longleftrightarrow> a = i" using x i d(8) [OF i, of a] by auto
    then show "bmem s' (ent x b) = tbl (T a b)"
      using xK s'(4) [OF d(7) [OF x] b] d(16) [OF x b] by (auto simp: T_def)
  qed
  moreover have "leaf s' T a b c = leaf s T0 a b c" if c: "c < 512" for a b c
  proof (cases "T a b")
    case (Some q)
    show ?thesis
    proof (cases "q = K")
      case True
      then have ab: "a = i" "b = j" using T [OF Some] by auto
      have "bmem s' (ent K c) = 0" using s'(4) [OF k'(2) c] pK by auto
      then show ?thesis using Some True None ab by (simp add: leaf_def)
    next
      case False
      then have q: "T0 a b = Some q" using T [OF Some] by auto
      have "q \<noteq> p" using d(13) [OF q] i by auto
      then show ?thesis using q Some False s'(4) [OF d(11) [OF q] c] by (simp add: leaf_def)
    qed
  next
    case n: None
    then have "T0 a b = None" by (auto simp: T_def split: if_splits)
    then show ?thesis using n by (simp add: leaf_def)
  qed
  moreover have "T i j = Some K" by (simp add: T_def)
  ultimately show ?thesis using s'
    by (intro exI [of _ K] exI [of _ s'] exI [of _ T]) (simp add: same_vars_def K_def)
qed

lemma leaf_write:
  fixes v :: u64
  assumes ok: "pt_ok s R T1 T0" and q: "T0 i j = Some q" and k: "k < 512"
  defines "s' \<equiv> s\<lparr>bmem := (bmem s)(ent q k := v)\<rparr>"
  shows "pt_ok s' R T1 T0"
    "c < 512 \<Longrightarrow> leaf s' T0 a b c =
      (if a = i \<and> b = j \<and> c = k then if v AND 1 = 0 then None else Some v else leaf s T0 a b c)"
proof -
  note d = pt_okD [OF ok]
  have m: "bmem s' (ent x y) = (if x = q \<and> y = k then v else bmem s (ent x y))" if "x < 2 ^ 44" "y < 512" for x y
    using ent_eq_iff [OF that(1) d(11) [OF q] that(2) k] by (simp add: s'_def)
  have t: "ktop s' = ktop s" by (simp add: s'_def)
  have "bmem s' (ent R a) = tbl (T1 a)" if "a < 512" for a
    using m [OF d(4) that] d(9) [OF q] d(15) [OF that] by auto
  moreover have "bmem s' (ent x b) = tbl (T0 a b)" if "T1 a = Some x" "b < 512" for a x b
    using m [OF d(7) [OF that(1)] that(2)] d(13) [OF q] d(16) [OF that] that(1) by auto
  ultimately show "pt_ok s' R T1 T0"
    using ok unfolding pt_ok_def t by blast
  show "leaf s' T0 a b c = (if a = i \<and> b = j \<and> c = k then if v AND 1 = 0 then None else Some v else leaf s T0 a b c)"
    if c: "c < 512"
  proof (cases "T0 a b")
    case (Some x)
    have "x = q \<longleftrightarrow> a = i \<and> b = j" using Some q d(14) [OF q, of a b] by auto
    then show ?thesis using Some m [OF d(11) [OF Some] c] by (auto simp: leaf_def)
  next
    case None
    then have "\<not> (a = i \<and> b = j)" using q by auto
    then show ?thesis using None by (auto simp: leaf_def)
  qed
qed

section \<open>Mapping one page\<close>

definition page39 :: "u64 \<Rightarrow> u64" where
  "page39 va = drop_bit 12 va AND mask 27"

lemma vpn_bit: "l \<le> 2 \<Longrightarrow> bit (vpn va l) n \<longleftrightarrow> n < 9 \<and> bit va (12 + (2 - l) * 9 + n)"
proof -
  have m: "(0x1ff :: u64) = mask 9" by (simp add: mask_eq_exp_minus_1)
  show ?thesis unfolding vpn_def m LEVEL_def by (auto simp: bit_simps)
qed

lemma page39_eq_iff:
  "page39 va = page39 vb \<longleftrightarrow> vpn va 0 = vpn vb 0 \<and> vpn va 1 = vpn vb 1 \<and> vpn va 2 = vpn vb 2"
proof
  assume p: "page39 va = page39 vb"
  have b: "bit va (12 + n) = bit vb (12 + n)" if "n < 27" for n
    using arg_cong [OF p, of "\<lambda>w. bit w n"] that by (simp add: page39_def bit_simps)
  have "vpn va l = vpn vb l" if "l \<le> 2" for l
  proof (rule bit_word_eqI)
    fix n :: nat
    have "n < 9 \<Longrightarrow> (2 - l) * 9 + n < 27" using that by (auto simp: le_Suc_eq numeral_2_eq_2)
    then show "bit (vpn va l) n = bit (vpn vb l) n"
      using that b [of "(2 - l) * 9 + n"] by (auto simp: vpn_bit add.assoc)
  qed
  then show "vpn va 0 = vpn vb 0 \<and> vpn va 1 = vpn vb 1 \<and> vpn va 2 = vpn vb 2" by simp
next
  assume v: "vpn va 0 = vpn vb 0 \<and> vpn va 1 = vpn vb 1 \<and> vpn va 2 = vpn vb 2"
  have b: "bit va (12 + (2 - l) * 9 + n) = bit vb (12 + (2 - l) * 9 + n)" if "l \<le> 2" "n < 9" for l n
  proof -
    have "vpn va l = vpn vb l" using v that(1) by (auto simp: le_Suc_eq numeral_2_eq_2)
    then have "bit (vpn va l) n = bit (vpn vb l) n" by simp
    then show ?thesis using that by (simp add: vpn_bit)
  qed
  show "page39 va = page39 vb"
  proof (rule bit_word_eqI)
    fix n :: nat
    show "bit (page39 va) n = bit (page39 vb) n"
    proof (cases "n < 27")
      case True
      then have "n = (2 - (2 - n div 9)) * 9 + n mod 9" "n mod 9 < 9" by auto
      then have "bit va (12 + n) = bit vb (12 + n)" using b [of "2 - n div 9" "n mod 9"] by (simp add: add.assoc)
      then show ?thesis by (simp add: page39_def bit_simps)
    qed (simp add: page39_def bit_simps)
  qed
qed

lemma unat_succ_bound: "x \<le> K + 1 \<Longrightarrow> K < M \<Longrightarrow> unat x \<le> Suc (unat K)" for x K M :: u64
  using unat_plus1_less [of K M] by (simp add: word_le_nat_alt)

text \<open>
  The address space a page table gives, as a map from virtual page numbers to page table entries: the
  specification of the operations that build the table.
\<close>

type_synonym aspace = "u64 \<Rightarrow> u64 option"

definition has_aspace :: "boot \<Rightarrow> u64 \<Rightarrow> aspace \<Rightarrow> bool" where
  "has_aspace s R t \<longleftrightarrow> (\<exists>T1 T0. pt_ok s R T1 T0) \<and> (\<forall>va. sv39_walk (bmem s) R va = t (page39 va))"

definition pte :: "u8 \<Rightarrow> u64 \<Rightarrow> u64" where
  "pte flags paddr = push_bit 10 (get_ppn paddr) OR ucast flags"

text \<open>The operations use at most \<open>n\<close> new pages and keep the other variables.\<close>

definition grows :: "boot \<Rightarrow> boot \<Rightarrow> nat \<Rightarrow> bool" where
  "grows s s' n \<longleftrightarrow> unat (get_ppn (ktop s')) \<le> unat (get_ppn (ktop s)) + n \<and> same_vars s s'"

lemma grows_trans: "grows a b m \<Longrightarrow> grows b c n \<Longrightarrow> grows a c (m + n)"
  by (auto simp: grows_def intro: same_vars_trans)

lemma map_page_ok:
  assumes t: "has_aspace s R t" and r: "get_ppn root = R" and k: "unat (get_ppn (ktop s)) + 2 \<le> 2 ^ 44"
    and f: "bit flags 0"
  shows "has_aspace (map_page root kaddr paddr flags s) R (t(page39 kaddr \<mapsto> pte flags paddr)) \<and>
    grows s (map_page root kaddr paddr flags s) 2"
proof -
  let ?i = "vpn kaddr 0" and ?j = "vpn kaddr 1" and ?k = "vpn kaddr 2"
  let ?v = "push_bit 10 (get_ppn paddr) OR ucast flags :: u64"
  obtain T1 T0 where ok: "pt_ok s R T1 T0" and w: "\<And>va. sv39_walk (bmem s) R va = t (page39 va)"
    using t by (auto simp: has_aspace_def)
  have k0: "get_ppn (ktop s) < 2 ^ 44" using k by (simp add: word_less_nat_alt)
  obtain p s1 U1 where a: "descend s (ent R ?i) = (p, s1)" "pt_ok s1 R U1 T0" "U1 ?i = Some p"
    "\<And>a b c. c < 512 \<Longrightarrow> leaf s1 T0 a b c = leaf s T0 a b c" "get_ppn (ktop s1) \<le> get_ppn (ktop s) + 1" "same_vars s s1"
    using descend_root [OF ok k0 vpn_less] by blast
  have u1: "unat (get_ppn (ktop s1)) \<le> Suc (unat (get_ppn (ktop s)))" by (rule unat_succ_bound [OF a(5) k0])
  then have k1: "get_ppn (ktop s1) < 2 ^ 44" using k by (simp add: word_less_nat_alt)
  obtain q s2 U0 where b: "descend s1 (ent p ?j) = (q, s2)" "pt_ok s2 R U1 U0" "U0 ?i ?j = Some q"
    "\<And>a b c. c < 512 \<Longrightarrow> leaf s2 U0 a b c = leaf s1 T0 a b c" "get_ppn (ktop s2) \<le> get_ppn (ktop s1) + 1" "same_vars s1 s2"
    using descend_middle [OF a(2) k1 a(3) vpn_less] by blast
  define s3 where "s3 = s2\<lparr>bmem := (bmem s2)(ent q ?k := ?v)\<rparr>"
  have m: "map_page root kaddr paddr flags s = s3"
    using a(1) b(1) r by (simp add: map_page_def map_levels.simps LEVEL_def s3_def flip: ent_def)
      (simp add: map_levels.simps LEVEL_def numeral_2_eq_2 flip: ent_def)
  have "bit ?v 0" using f by (simp add: bit_simps)
  then have "?v AND 1 \<noteq> 0" by (metis and_exp_eq_0_iff_not_bit power_0)
  then have l: "leaf s3 U0 a' b' c = (if a' = ?i \<and> b' = ?j \<and> c = ?k then Some ?v else leaf s T0 a' b' c)"
    if "c < 512" for a' b' c
    using leaf_write(2) [OF b(2,3) vpn_less [of kaddr 2] that, where v = ?v and a = a' and b = b']
      a(4) [OF that] b(4) [OF that] by (simp add: s3_def)
  have ok3: "pt_ok s3 R U1 U0" unfolding s3_def by (rule leaf_write(1) [OF b(2,3) vpn_less])
  have "sv39_walk (bmem s3) R va = (t(page39 kaddr \<mapsto> pte flags paddr)) (page39 va)" for va
    unfolding pte_def fun_upd_apply w [symmetric] using l [OF vpn_less [of va 2], where a' = "vpn va 0" and b' = "vpn va 1"] unfolding walk_leaf [OF ok3] walk_leaf [OF ok] page39_eq_iff by simp
  moreover have "unat (get_ppn (ktop s3)) \<le> unat (get_ppn (ktop s)) + 2"
    using unat_succ_bound [OF b(5) k1] u1 by (simp add: s3_def)
  moreover have "same_vars s s3" using same_vars_trans [OF a(6) b(6)] by (simp add: same_vars_def s3_def)
  ultimately show ?thesis using ok3 unfolding m has_aspace_def grows_def by blast
qed

section \<open>Mapping ranges\<close>

text \<open>The addresses a loop visits, and what it makes of the address space.\<close>

definition page_count :: "u64 \<Rightarrow> u64 \<Rightarrow> nat" where
  "page_count a e = (if a < e then (unat e - unat a + 4095) div 4096 else 0)"

fun visited :: "u64 \<Rightarrow> nat \<Rightarrow> u64 list" where
  "visited a 0 = []"
| "visited a (Suc n) = a # visited (a + 4096) n"

definition map_range :: "u64 \<Rightarrow> u8 \<Rightarrow> u64 list \<Rightarrow> aspace \<Rightarrow> aspace" where
  "map_range off flags as t = fold (\<lambda>a t. t(page39 (a + off) \<mapsto> pte flags a)) as t"

definition map_init_range :: "u64 \<Rightarrow> u8 \<Rightarrow> u64 list \<Rightarrow> aspace \<Rightarrow> aspace" where
  "map_init_range off flags as t =
     fold (\<lambda>a t. t(page39 a \<mapsto> pte flags a, page39 (a + off) \<mapsto> pte flags a)) as t"

lemma page_count_step:
  assumes "a < e" "unat e + 4096 \<le> 2 ^ 64"
  shows "page_count a e = Suc (page_count (a + 4096) e)"
proof -
  have u: "unat (a + 4096) = unat a + 4096"
    using assms unat_add_of_nat [of a 4096] by (simp add: word_less_nat_alt)
  show ?thesis
  proof (cases "a + 4096 < e")
    case True
    then have "unat e - unat a + 4095 = (unat e - unat (a + 4096) + 4095) + 4096"
      using u by (simp add: word_less_nat_alt)
    then have "(unat e - unat a + 4095) div 4096 = Suc ((unat e - unat (a + 4096) + 4095) div 4096)" by simp
    then show ?thesis using True assms(1) by (simp add: page_count_def)
  next
    case False
    then have "unat e - unat a \<le> 4096" "0 < unat e - unat a"
      using u assms(1) by (simp_all add: word_less_nat_alt not_less)
    then have "(unat e - unat a + 4095) div 4096 = 1" by (intro div_nat_eqI) simp_all
    then show ?thesis using False assms(1) by (simp add: page_count_def)
  qed
qed

lemma map_loop_ok:
  assumes "has_aspace s R t" "get_ppn root = R" "unat e + 4096 \<le> 2 ^ 64" "bit flags 0"
    "unat (get_ppn (ktop s)) + 2 * page_count a e \<le> 2 ^ 44"
  shows "\<exists>s'. map_loop root a e off flags s = Some s' \<and>
    has_aspace s' R (map_range off flags (visited a (page_count a e)) t) \<and> grows s s' (2 * page_count a e)"
  using assms(1,5)
proof (induction "page_count a e" arbitrary: a s t)
  case 0
  then have "\<not> a < e" using page_count_step [OF _ assms(3)] by fastforce
  then show ?case using 0 by (subst map_loop.simps) (simp add: map_range_def page_count_def grows_def)
next
  case (Suc n)
  then have ae: "a < e" by (auto simp: page_count_def split: if_splits)
  then have n: "page_count (a + 4096) e = n" "page_count a e = Suc n"
    using page_count_step [OF ae assms(3)] Suc.hyps(2) by simp_all
  define s1 where "s1 = map_page root (a + off) a flags s"
  have m: "has_aspace s1 R (t(page39 (a + off) \<mapsto> pte flags a))" "grows s s1 2"
    using map_page_ok [OF Suc.prems(1) assms(2) _ assms(4), of "a + off" a] Suc.prems(2) n(2) by (simp_all add: s1_def)
  then have "unat (get_ppn (ktop s1)) + 2 * page_count (a + 4096) e \<le> 2 ^ 44"
    using Suc.prems(2) n by (simp add: grows_def)
  then obtain s' where s': "map_loop root (a + 4096) e off flags s1 = Some s'"
    "has_aspace s' R (map_range off flags (visited (a + 4096) n) (t(page39 (a + off) \<mapsto> pte flags a)))"
    "grows s1 s' (2 * n)"
    using Suc.hyps(1) [OF n(1) [symmetric] m(1)] n(1) by auto
  have "map_loop root a e off flags s = Some s'"
    using ae s'(1) by (subst map_loop.simps) (simp add: s1_def PGSIZE_def)
  then show ?case using s'(2) grows_trans [OF m(2) s'(3)] n(2) by (simp add: map_range_def)
qed

lemma map_init_loop_ok:
  assumes "has_aspace s R t" "get_ppn root = R" "unat e + 4096 \<le> 2 ^ 64" "bit flags 0"
    "unat (get_ppn (ktop s)) + 4 * page_count a e \<le> 2 ^ 44"
  shows "\<exists>s'. map_init_loop root a e off flags s = Some s' \<and>
    has_aspace s' R (map_init_range off flags (visited a (page_count a e)) t) \<and> grows s s' (4 * page_count a e)"
  using assms(1,5)
proof (induction "page_count a e" arbitrary: a s t)
  case 0
  then have "\<not> a < e" using page_count_step [OF _ assms(3)] by fastforce
  then show ?case using 0 by (subst map_init_loop.simps) (simp add: map_init_range_def page_count_def grows_def)
next
  case (Suc n)
  then have ae: "a < e" by (auto simp: page_count_def split: if_splits)
  then have n: "page_count (a + 4096) e = n" "page_count a e = Suc n"
    using page_count_step [OF ae assms(3)] Suc.hyps(2) by simp_all
  define s0 where "s0 = map_page root a a flags s"
  define s1 where "s1 = map_page root (a + off) a flags s0"
  have m0: "has_aspace s0 R (t(page39 a \<mapsto> pte flags a))" "grows s s0 2"
    using map_page_ok [OF Suc.prems(1) assms(2) _ assms(4), of a a] Suc.prems(2) n(2) by (simp_all add: s0_def)
  have m1: "has_aspace s1 R (t(page39 a \<mapsto> pte flags a, page39 (a + off) \<mapsto> pte flags a))" "grows s0 s1 2"
    using map_page_ok [OF m0(1) assms(2) _ assms(4), of "a + off" a] m0(2) Suc.prems(2) n(2)
    by (simp_all add: s1_def grows_def)
  have g: "grows s s1 4" using grows_trans [OF m0(2) m1(2)] by simp
  then have "unat (get_ppn (ktop s1)) + 4 * page_count (a + 4096) e \<le> 2 ^ 44"
    using Suc.prems(2) n by (simp add: grows_def)
  then obtain s' where s': "map_init_loop root (a + 4096) e off flags s1 = Some s'"
    "has_aspace s' R (map_init_range off flags (visited (a + 4096) n)
       (t(page39 a \<mapsto> pte flags a, page39 (a + off) \<mapsto> pte flags a)))"
    "grows s1 s' (4 * n)"
    using Suc.hyps(1) [OF n(1) [symmetric] m1(1)] n(1) by auto
  have "map_init_loop root a e off flags s = Some s'"
    using ae s'(1) by (subst map_init_loop.simps) (simp add: s0_def s1_def PGSIZE_def)
  then show ?case using s'(2) grows_trans [OF g s'(3)] n(2) by (simp add: map_init_range_def)
qed

section \<open>Rounding to pages\<close>

lemma page_round_bits: "page_round a = push_bit 12 (take_bit 20 (drop_bit 12 (a + 4095)))"
proof -
  have m: "ucast (NOT (PGSIZE - 1)) = (push_bit 12 (mask 20) :: u64)"
    by (simp add: PGSIZE_def push_bit_eq_mult mask_eq_exp_minus_1)
  have "page_round a = (a + 4095) AND push_bit 12 (mask 20)"
    unfolding page_round_def m by (simp only: add_diff_eq [symmetric]) (simp add: PGSIZE_def)
  also have "\<dots> = push_bit 12 (take_bit 20 (drop_bit 12 (a + 4095)))"
    by (rule bit_word_eqI) (auto simp: bit_simps)
  finally show ?thesis .
qed

lemma unat_page_round: "unat (page_round a) = 4096 * (unat (a + 4095) div 4096 mod 2 ^ 20)"
proof -
  let ?w = "take_bit 20 (drop_bit 12 (a + 4095))"
  have w: "unat ?w = unat (a + 4095) div 4096 mod 2 ^ 20"
    by (simp only: unsigned_take_bit_eq) (simp add: take_bit_eq_mod unat_drop_bit)
  have "unat ?w < 2 ^ 20" unfolding w by simp
  then show ?thesis unfolding page_round_bits using w by (simp add: unat_push_bit_small)
qed

lemma page_round_small:
  "unat a + 4095 < 2 ^ 32 \<Longrightarrow> unat (page_round a) = 4096 * ((unat a + 4095) div 4096)"
proof -
  assume a: "unat a + 4095 < 2 ^ 32"
  then have "unat (a + 4095) = unat a + 4095" using unat_add_of_nat [of a 4095] by simp
  moreover have "(unat a + 4095) div 4096 < 2 ^ 20" using a by (simp add: less_mult_imp_div_less)
  ultimately show ?thesis by (simp add: unat_page_round)
qed

section \<open>The address space of the kernel\<close>

lemma unat_page39: "unat (page39 a) = unat a div 4096 mod 2 ^ 27"
  by (simp add: page39_def unat_and_mask unat_drop_bit)

lemma page39_add:
  assumes "4096 dvd unat off"
  shows "unat (page39 (a + off)) = (unat a div 4096 + unat off div 4096) mod 2 ^ 27"
proof -
  obtain c where c: "unat off = 4096 * c" using assms by auto
  have p: "(2 :: nat) ^ 64 = 4096 * 2 ^ 52" by simp
  have "unat (a + off) div 4096 = (unat a + 4096 * c) mod (4096 * 2 ^ 52) div 4096"
    by (simp add: unat_word_ariths c)
  also have "\<dots> = (unat a div 4096 + c) mod 2 ^ 52"
    unfolding mod_mult2_eq by (simp add: add.commute)
  finally have "unat (page39 (a + off)) = (unat a div 4096 + c) mod 2 ^ 52 mod 2 ^ 27"
    by (simp add: unat_page39)
  then show ?thesis using c by (simp add: mod_mod_cancel)
qed

lemma get_ppn_eq: "unat (get_ppn a) = unat a div 4096"
  by (simp add: get_ppn_def unat_drop_bit)

lemma mod_add_cancel_le:
  "x \<le> y \<Longrightarrow> y < m \<Longrightarrow> (x + z) mod m = (y + z) mod m \<Longrightarrow> x = y" for x y z m :: nat
  using mod_eq_dvd_iff_nat [of "x + z" "y + z" m] by (auto dest: dvd_imp_le)

lemma mod_add_cancel_small:
  "x < m \<Longrightarrow> y < m \<Longrightarrow> (x + z) mod m = (y + z) mod m \<longleftrightarrow> x = y" for x y z m :: nat
  by (metis mod_add_cancel_le nat_le_linear)

text \<open>Physical addresses below 4 GiB have the same page exactly when their images do.\<close>

lemma page39_off_eq_iff:
  assumes "4096 dvd unat off" "unat a < 2 ^ 32" "unat b < 2 ^ 32"
  shows "page39 (a + off) = page39 (b + off) \<longleftrightarrow> get_ppn a = get_ppn b"
proof -
  let ?x = "unat a div 4096" and ?y = "unat b div 4096" and ?o = "unat off div 4096"
  have b: "?x < 2 ^ 20" "?y < 2 ^ 20" using assms by (simp_all add: less_mult_imp_div_less)
  have "(?x + ?o) mod 2 ^ 27 = (?y + ?o) mod 2 ^ 27 \<longleftrightarrow> ?x = ?y"
    using b by (intro mod_add_cancel_small) simp_all
  then show ?thesis using b by (simp add: word_unat_eq_iff page39_add [OF assms(1)] get_ppn_eq)
qed

lemma unat_add_page: "unat a + 4096 < 2 ^ 64 \<Longrightarrow> unat (a + 4096) = unat a + 4096" for a :: u64
  using unat_add_of_nat [of a 4096] by simp

lemma visited_less:
  "unat a + 4096 * n < 2 ^ 64 \<Longrightarrow> b \<in> set (visited a n) \<Longrightarrow> unat b < unat a + 4096 * n"
proof (induction a n rule: visited.induct)
  case (2 a n)
  then have "unat (a + 4096) = unat a + 4096" by (intro unat_add_page) simp
  then show ?case using 2 by auto
qed simp

lemma visited_pages:
  "unat a + 4096 * n < 2 ^ 64 \<Longrightarrow> (\<exists>b \<in> set (visited a n). get_ppn b = p) \<longleftrightarrow>
     unat a div 4096 \<le> unat p \<and> unat p < unat a div 4096 + n"
proof (induction a n rule: visited.induct)
  case (2 a n)
  then have "unat (a + 4096) = unat a + 4096" by (intro unat_add_page) simp
  moreover have "get_ppn a = p \<longleftrightarrow> unat a div 4096 = unat p" by (simp add: word_unat_eq_iff get_ppn_eq)
  ultimately show ?case using 2 by auto
qed simp

lemma map_range_lookup:
  assumes "4096 dvd unat off" "unat x < 2 ^ 32" "\<And>a. a \<in> set as \<Longrightarrow> unat a < 2 ^ 32"
  shows "map_range off flags as t (page39 (x + off)) =
    (if \<exists>a \<in> set as. get_ppn a = get_ppn x then Some (pte flags x) else t (page39 (x + off)))"
  using assms(3)
proof (induction as arbitrary: t)
  case (Cons a as)
  have "page39 (x + off) = page39 (a + off) \<longleftrightarrow> get_ppn a = get_ppn x"
    using page39_off_eq_iff [OF assms(1,2), of a] Cons.prems by auto
  then show ?case using Cons by (auto simp: map_range_def pte_def)
qed (simp add: map_range_def)

section \<open>The whole table\<close>

definition kspace :: "symbols \<Rightarrow> u64 \<Rightarrow> u64 \<Rightarrow> aspace" where
  "kspace ld off mtop = (let e = page_round mtop in
     map_range off data_flags (visited (text_end ld) (page_count (text_end ld) e))
      (map_range off text_flags (visited (text_start ld) (page_count (text_start ld) (text_end ld)))
        (map_init_range off init_flags (visited (init_start ld) (page_count (init_start ld) (init_end ld)))
          Map.empty)))"

text \<open>Every section lies below 4 GiB, and the kernel is mapped at a multiple of the page size.\<close>

definition boot_ok :: "symbols \<Rightarrow> u64 \<Rightarrow> boot \<Rightarrow> bool" where
  "boot_ok ld off s \<longleftrightarrow> unat (ktop s) + 4095 < 2 ^ 32 \<and> 4096 dvd unat off \<and> unat (init_end ld) < 2 ^ 32 \<and>
     unat (text_end ld) < 2 ^ 32 \<and> 4096 dvd unat (text_start ld)"

lemma page_count_le: "unat e < 2 ^ 32 \<Longrightarrow> page_count a e \<le> 2 ^ 20"
proof -
  assume "unat e < 2 ^ 32"
  then have "(unat e - unat a + 4095) div 4096 \<le> (2 ^ 32 + 4095) div 4096" by (intro div_le_mono) simp
  then show ?thesis by (simp add: page_count_def)
qed

lemma flags_valid: "bit init_flags 0" "bit text_flags 0" "bit data_flags 0"
  by (simp_all add: init_flags_def text_flags_def data_flags_def pte_flags)

lemma empty_table:
  assumes "ktop s = push_bit 12 (R + 1)" "R < 2 ^ 44"
  shows "has_aspace (clear_page s (push_bit 12 R)) R Map.empty"
proof -
  let ?s = "clear_page s (push_bit 12 R)"
  have k: "get_ppn (ktop ?s) = R + 1" using assms get_ppn_push [OF succ_le [OF assms(2)]] by (simp add: clear_page_def)
  have "bmem ?s (ent R i) = 0" if "i < 512" for i
    using clear_ent [OF assms(2,2) that] by (simp add: clear_page_def PGSIZE_def)
  then have ok: "pt_ok ?s R Map.empty (\<lambda>_ _. None)"
    using assms succ_le [OF assms(2)] less_succ [OF assms(2), of R]
    unfolding pt_ok_def k by (simp add: clear_page_def)
  then show ?thesis using walk_leaf [OF ok] by (auto simp: has_aspace_def leaf_def)
qed

lemma map_kaddr_ok:
  assumes "boot_ok ld off s"
  obtains R s' where "riscv_map_kaddr ld off mtop s = Some (push_bit 60 8 OR R, s')" "has_aspace s' R (kspace ld off mtop)"
    "unat R = (unat (ktop s) + 4095) div 4096" "kpgtable_root s' = push_bit 12 R + kaddr_offset s" 
proof -
  define R where "R = get_ppn (page_round (ktop s))"
  have b: "unat (ktop s) + 4095 < 2 ^ 32" "unat (init_end ld) < 2 ^ 32" "unat (text_end ld) < 2 ^ 32"
    using assms by (auto simp: boot_ok_def)
  have r: "unat R = (unat (ktop s) + 4095) div 4096"
    using page_round_small [OF b(1)] by (simp add: R_def get_ppn_eq)
  then have r20: "unat R < 2 ^ 20" using b(1) by (simp add: less_mult_imp_div_less)
  then have r44: "R < 2 ^ 44" by (simp add: word_less_nat_alt)
  have pr: "page_round (ktop s) = push_bit 12 R"
    using page_round_small [OF b(1)] r r20 by (simp add: word_unat_eq_iff unat_push_bit_small)
  have gr: "get_ppn (push_bit 12 R) = R" using r44 by (simp add: get_ppn_push)
  define s1 where "s1 = clear_page (s\<lparr>ktop := push_bit 12 (R + 1), kpgtable_root := push_bit 12 R + kaddr_offset s\<rparr>) (push_bit 12 R)"
  have a1: "has_aspace s1 R Map.empty" unfolding s1_def by (rule empty_table [OF _ r44]) simp
  have k1: "unat (get_ppn (ktop s1)) = unat R + 1"
    using get_ppn_push [OF succ_le [OF r44]] unat_plus1_less [OF r44] by (simp add: s1_def clear_page_def)
  let ?n1 = "page_count (init_start ld) (init_end ld)" and ?n2 = "page_count (text_start ld) (text_end ld)"
    and ?n3 = "page_count (text_end ld) (page_round mtop)"
  have e3: "unat (page_round mtop) < 2 ^ 32" by (simp add: unat_page_round)
  have n: "?n1 \<le> 2 ^ 20" "?n2 \<le> 2 ^ 20" "?n3 \<le> 2 ^ 20" using b e3 by (intro page_count_le; simp)+
  obtain s2 where s2: "map_init_loop (push_bit 12 R) (init_start ld) (init_end ld) off init_flags s1 = Some s2"
    "has_aspace s2 R (map_init_range off init_flags (visited (init_start ld) ?n1) Map.empty)" "grows s1 s2 (4 * ?n1)"
    using map_init_loop_ok [OF a1 gr _ flags_valid(1), of "init_end ld" "init_start ld" off] b(2) n(1) k1 r20 by auto
  have k2: "unat (get_ppn (ktop s2)) \<le> unat R + 1 + 4 * ?n1" using s2(3) k1 by (simp add: grows_def)
  obtain s3 where s3: "map_loop (push_bit 12 R) (text_start ld) (text_end ld) off text_flags s2 = Some s3"
    "has_aspace s3 R (map_range off text_flags (visited (text_start ld) ?n2)
       (map_init_range off init_flags (visited (init_start ld) ?n1) Map.empty))" "grows s2 s3 (2 * ?n2)"
    using map_loop_ok [OF s2(2) gr _ flags_valid(2), of "text_end ld" "text_start ld" off] b(3) n(1,2) k2 r20 by auto
  have k3: "unat (get_ppn (ktop s3)) \<le> unat R + 1 + 4 * ?n1 + 2 * ?n2" using s3(3) k2 by (simp add: grows_def)
  obtain s4 where s4: "map_loop (push_bit 12 R) (text_end ld) (page_round mtop) off data_flags s3 = Some s4"
    "has_aspace s4 R (kspace ld off mtop)" "grows s3 s4 (2 * ?n3)"
    using map_loop_ok [OF s3(2) gr _ flags_valid(3), of "page_round mtop" "text_end ld" off] e3 n k3 r20
    by (auto simp: kspace_def Let_def)
  have "riscv_map_kaddr ld off mtop s = Some (push_bit 60 8 OR R, s4)"
    using s2(1) s3(1) s4(1) pr gr next_page [OF r44]
    by (simp add: riscv_map_kaddr_def Let_def alloc_page_def s1_def)
  moreover have "kpgtable_root s4 = push_bit 12 R + kaddr_offset s"
    using s2(3) s3(3) s4(3) by (simp add: grows_def same_vars_def s1_def clear_page_def)
  ultimately show ?thesis using that s4(2) r by blast
qed

end
