(* ===== verification/Riscv_Kspace.thy ===== *)
theory Riscv_Kspace
  imports Riscv_Map
begin

text \<open>
  The address space the kernel boots into: what the table built by \<open>riscv_map_kaddr\<close>
  (\<open>src/arch/riscv/entry/mapkernel.c\<close>) translates, section by section.
\<close>

section \<open>The translation selected by satp\<close>

lemma satp_root: "R < 2 ^ 44 \<Longrightarrow> (push_bit 60 8 OR R) AND mask 44 = R" for R :: u64
proof -
  assume R: "R < 2 ^ 44"
  have z: "drop_bit 44 R = 0" using R by (simp add: unat_drop_bit word_less_nat_alt flip: unat_eq_zero)
  have b: "bit R n \<Longrightarrow> n < 44" for n
    using arg_cong [OF z, of "\<lambda>w. bit w (n - 44)"] by (cases "n < 44") (simp_all add: bit_simps)
  define T :: u64 where "T = push_bit 60 8"
  have t: "bit T n \<Longrightarrow> 60 \<le> n" for n
    unfolding T_def by (simp only: bit_push_bit_iff)
  have "(T OR R) AND mask 44 = R"
    by (rule bit_word_eqI) (use b in \<open>auto simp: bit_and_iff bit_or_iff bit_mask_iff dest: t\<close>)
  then show ?thesis by (simp only: T_def)
qed

definition translate :: "u64 \<times> boot \<Rightarrow> u64 \<Rightarrow> u64 option" where
  "translate r va = sv39_walk (bmem (snd r)) (fst r AND mask 44) va"

lemma map_kaddr_translate:
  assumes "boot_ok ld off s"
  obtains r where "riscv_map_kaddr ld off mtop s = Some r" "\<And>va. translate r va = kspace ld off mtop (page39 va)"
proof -
  obtain R s' where k: "riscv_map_kaddr ld off mtop s = Some (push_bit 60 8 OR R, s')"
    "has_aspace s' R (kspace ld off mtop)" "unat R = (unat (ktop s) + 4095) div 4096"
    using map_kaddr_ok [OF assms] by blast
  have "unat R < 2 ^ 20" using assms k(3) by (simp add: boot_ok_def less_mult_imp_div_less)
  then have "R < 2 ^ 44" by (simp add: word_less_nat_alt)
  then have "translate (push_bit 60 8 OR R, s') va = kspace ld off mtop (page39 va)" for va
    using k(2) satp_root by (simp add: translate_def has_aspace_def del: push_bit_numeral)
  then show ?thesis using that [OF k(1)] by blast
qed

section \<open>The pages a loop reaches\<close>

lemma visited_below:
  assumes "unat e + 4096 \<le> 2 ^ 64" "b \<in> set (visited a (page_count a e))"
  shows "b < e"
  using assms(2)
proof (induction "page_count a e" arbitrary: a)
  case (Suc n)
  then have ae: "a < e" by (auto simp: page_count_def split: if_splits)
  then have n: "page_count (a + 4096) e = n" "page_count a e = Suc n"
    using page_count_step [OF ae assms(1)] Suc.hyps(2) by simp_all
  then have "b = a \<or> b \<in> set (visited (a + 4096) (page_count (a + 4096) e))" using Suc.prems by simp
  then show ?case using ae Suc.hyps(1) [OF n(1) [symmetric]] by blast
qed simp

lemma page_count_bound:
  assumes "unat e < 2 ^ 32"
  shows "a < e \<Longrightarrow> unat a + 4096 * page_count a e < 2 ^ 64"
  using assms page_count_le [OF assms, of a] by (simp add: word_less_nat_alt)

lemma count_aligned_end: "a < 4096 * q \<Longrightarrow> (4096 * q - a + 4095) div 4096 = q - a div 4096" for a q :: nat
proof -
  assume a: "a < 4096 * q"
  have "a = 4096 * (a div 4096) + a mod 4096" "a mod 4096 < 4096" by simp_all
  then obtain c r where "a = 4096 * c + r" "r < 4096" "a div 4096 = c" by blast
  then show ?thesis using a by (intro div_nat_eqI) auto
qed

lemma count_aligned_start: "4096 * q < e \<Longrightarrow> (e - 4096 * q + 4095) div 4096 = (e + 4095) div 4096 - q" for e q :: nat
proof -
  assume "4096 * q < e"
  then obtain d where "e = 4096 * q + d" by (metis less_imp_add_positive)
  then show ?thesis by simp
qed

lemma page_before: "p < (e + 4095) div 4096 \<longleftrightarrow> 4096 * p < e" for e p :: nat
proof -
  have "p < (e + 4095) div 4096 \<longleftrightarrow> Suc p \<le> (e + 4095) div 4096" by linarith
  also have "\<dots> \<longleftrightarrow> Suc p * 4096 \<le> e + 4095" by (rule less_eq_div_iff_mult_less_eq) simp
  finally show ?thesis by auto
qed

text \<open>Which pages a loop reaches, to a page aligned end or from a page aligned start.\<close>

lemma range_pages_end:
  assumes "unat e < 2 ^ 32" "unat e = 4096 * q"
  shows "(\<exists>b \<in> set (visited a (page_count a e)). get_ppn b = get_ppn x) \<longleftrightarrow>
    a < e \<and> unat a div 4096 \<le> unat x div 4096 \<and> unat x div 4096 < q"
proof (cases "a < e")
  case True
  then have a: "unat a < 4096 * q" using assms(2) by (simp add: word_less_nat_alt)
  then have "page_count a e = q - unat a div 4096"
    using True assms(2) count_aligned_end [OF a] by (simp add: page_count_def)
  moreover have "unat a div 4096 < q" using a by (simp add: less_mult_imp_div_less mult.commute)
  ultimately show ?thesis
    using visited_pages [OF page_count_bound [OF assms(1) True], of "get_ppn x"] True by (simp add: get_ppn_eq)
qed (simp add: page_count_def)

lemma range_pages_start:
  assumes "unat e < 2 ^ 32" "unat a = 4096 * q"
  shows "(\<exists>b \<in> set (visited a (page_count a e)). get_ppn b = get_ppn x) \<longleftrightarrow>
    q \<le> unat x div 4096 \<and> 4096 * (unat x div 4096) < unat e"
proof (cases "a < e")
  case True
  then have a: "4096 * q < unat e" using assms(2) by (simp add: word_less_nat_alt)
  then have "page_count a e = (unat e + 4095) div 4096 - q"
    using True assms(2) count_aligned_start [OF a] by (simp add: page_count_def)
  moreover have "q < (unat e + 4095) div 4096" using a by (simp add: page_before)
  ultimately show ?thesis
    using visited_pages [OF page_count_bound [OF assms(1) True], of "get_ppn x"] assms(2) page_before
    by (simp add: get_ppn_eq)
next
  case False
  then have "unat e \<le> 4096 * q" using assms(2) by (simp add: word_less_nat_alt)
  then show ?thesis using False by (auto simp: page_count_def)
qed

section \<open>The sections of the kernel\<close>

lemma kspace_lookup:
  assumes "boot_ok ld off s" "unat x < 2 ^ 32"
  shows "kspace ld off mtop (page39 (x + off)) =
    (if text_end ld < page_round mtop \<and> unat (text_end ld) div 4096 \<le> unat x div 4096 \<and> unat x < unat (page_round mtop)
     then Some (pte data_flags x)
     else if text_start ld \<le> x \<and> 4096 * (unat x div 4096) < unat (text_end ld) then Some (pte text_flags x)
     else map_init_range off init_flags (visited (init_start ld) (page_count (init_start ld) (init_end ld)))
            Map.empty (page39 (x + off)))"
proof -
  let ?e = "page_round mtop"
  have b: "4096 dvd unat off" "unat (text_end ld) < 2 ^ 32" "4096 dvd unat (text_start ld)"
    using assms(1) by (auto simp: boot_ok_def)
  obtain q where q: "unat (text_start ld) = 4096 * q" using b(3) by auto
  obtain r where r: "unat ?e = 4096 * r" using unat_page_round by blast
  have e: "unat ?e < 2 ^ 32" by (simp add: unat_page_round)
  have l: "unat a < 2 ^ 32" if "a \<in> set (visited c (page_count c d))" "unat d < 2 ^ 32" for a c d
    using visited_below [OF _ that(1)] that(2) by (simp add: word_less_nat_alt)
  have x: "unat x div 4096 < r \<longleftrightarrow> unat x < unat ?e" "q \<le> unat x div 4096 \<longleftrightarrow> text_start ld \<le> x"
    using q r by (simp_all add: div_less_iff_less_mult less_eq_div_iff_mult_less_eq word_le_nat_alt mult.commute)
  note m = map_range_lookup [OF b(1) assms(2) l]
  show ?thesis
    by (simp add: kspace_def Let_def m [OF _ e] m [OF _ b(2)] range_pages_end [OF e r] range_pages_start [OF b(2) q] x)
qed

lemma mod_add_multiple: "((a + k * 2 ^ 32) mod 2 ^ 64 + c) mod 2 ^ 32 = (a + c) mod 2 ^ 32" for a k c :: nat
proof -
  have "(a + k * 2 ^ 32) mod 2 ^ 64 mod 2 ^ 32 = (a + k * 2 ^ 32) mod 2 ^ 32"
    by (rule mod_mod_cancel) (rule le_imp_power_dvd, simp)
  then have "(a + k * 2 ^ 32) mod 2 ^ 64 mod 2 ^ 32 = a mod 2 ^ 32" by simp
  then show ?thesis by (metis mod_add_left_eq)
qed

lemma page_round_periodic: "page_round (a + push_bit 32 k) = page_round a"
proof -
  have "unat (a + push_bit 32 k + 4095) mod 2 ^ 32 = unat (a + 4095) mod 2 ^ 32"
    using mod_add_multiple [of "unat a" "unat k" 4095]
    by (simp add: unat_word_ariths push_bit_eq_mult mod_mod_cancel mod_add_right_eq)
  moreover have "u div 4096 mod 2 ^ 20 = u mod 2 ^ 32 div 4096" for u :: nat
    using mod_mult2_eq [of u 4096 "2 ^ 20"] by simp
  ultimately show ?thesis by (simp add: word_unat_eq_iff unat_page_round)
qed

text \<open>The flags decide what a page may be used for.\<close>

lemma pte_text: "pte text_flags x AND 0xf = 0xb" and pte_data: "pte data_flags x AND 0xf = 0x7"
proof -
  have "pte fl x AND 0xf = ucast fl AND 0xf" for fl
  proof -
    have "push_bit 10 (get_ppn x) AND mask 4 = 0" by (rule bit_word_eqI) (auto simp: bit_simps)
    then show ?thesis by (simp add: pte_def mask_eq_exp_minus_1 bit.conj_disj_distrib2)
  qed
  then show "pte text_flags x AND 0xf = 0xb" "pte data_flags x AND 0xf = 0x7"
    by (simp_all add: text_flags_def data_flags_def pte_flags)
qed

lemma map_kaddr_sections:
  assumes "boot_ok ld off s" "riscv_map_kaddr ld off mtop s = Some r"
  shows "text_start ld \<le> x \<Longrightarrow> unat x div 4096 < unat (text_end ld) div 4096 \<Longrightarrow>
      translate r (x + off) = Some (pte text_flags x)"
    "unat mtop + 4095 < 2 ^ 32 \<Longrightarrow> unat (text_end ld) div 4096 \<le> unat x div 4096 \<Longrightarrow> text_end ld < mtop \<Longrightarrow> x < mtop \<Longrightarrow>
      translate r (x + off) = Some (pte data_flags x)"
proof -
  have r: "translate r va = kspace ld off mtop (page39 va)" for va
    using map_kaddr_translate [OF assms(1), of mtop] assms(2) by (metis option.inject)
  have te: "unat (text_end ld) < 2 ^ 32" using assms(1) by (simp add: boot_ok_def)
  show "translate r (x + off) = Some (pte text_flags x)"
    if "text_start ld \<le> x" "unat x div 4096 < unat (text_end ld) div 4096"
  proof -
    have "unat x < unat (text_end ld)" using that(2) by (metis div_le_mono not_le)
    moreover have "4096 * (unat x div 4096) \<le> unat x" by simp
    ultimately have "4096 * (unat x div 4096) < unat (text_end ld)" "unat x < 2 ^ 32" using te by linarith+
    then show ?thesis using kspace_lookup [OF assms(1)] that by (simp add: r)
  qed
  show "translate r (x + off) = Some (pte data_flags x)"
    if "unat mtop + 4095 < 2 ^ 32" "unat (text_end ld) div 4096 \<le> unat x div 4096" "text_end ld < mtop" "x < mtop"
  proof -
    have "unat mtop \<le> unat (page_round mtop)" unfolding page_round_small [OF that(1)] by linarith
    then show ?thesis using that kspace_lookup [OF assms(1), of x] by (simp add: r word_less_nat_alt)
  qed
qed

section \<open>Properties\<close>

text \<open>
  C12: mapping a page updates the address space at that page and nowhere else: whatever the hardware's
  three level walk found below the root before, it finds after \<open>map\<close>, except that the virtual page of
  \<open>kaddr\<close> now leads to the frame of \<open>paddr\<close> with the given flags, and at most two new tables are taken.
\<close>
theorem map_page_refines:
  assumes "has_aspace s R t" "get_ppn root = R" "unat (get_ppn (ktop s)) + 2 \<le> 2 ^ 44" "bit flags 0"
  shows "has_aspace (map_page root kaddr paddr flags s) R (t(page39 kaddr \<mapsto> pte flags paddr)) \<and>
    unat (get_ppn (ktop (map_page root kaddr paddr flags s))) \<le> unat (get_ppn (ktop s)) + 2"
  using map_page_ok [OF assms] by (simp add: grows_def)

definition demo_boot :: boot where
  "demo_boot = \<lparr>bmem = (\<lambda>_. 0xabad1dea), ktop = 0x80403010, kpgtable_root = 0, kaddr_offset = 0xffffffff00000000, copied_fdt = 0\<rparr>"

definition demo_syms :: symbols where
  "demo_syms = \<lparr>kernel_end = 0x80403010, init_start = 0x80200000, init_end = 0x80201000, text_start = 0x80201000,
     text_end = 0x80300248, bss_start = 0x80400000, bss_end = 0x80403000\<rparr>"

lemma demo_boot_ok: "boot_ok demo_syms 0xffffffff00000000 demo_boot"
  by (simp add: boot_ok_def demo_boot_def demo_syms_def)

theorem map_page_refines_witness:
  "has_aspace (map_page (push_bit 12 1) 0x80201000 0x80201000 0xef
      (clear_page (demo_boot\<lparr>ktop := push_bit 12 2\<rparr>) (push_bit 12 1))) 1
    [page39 0x80201000 \<mapsto> pte 0xef 0x80201000]"
proof -
  have h: "has_aspace (clear_page (demo_boot\<lparr>ktop := push_bit 12 2\<rparr>) (push_bit 12 1)) 1 Map.empty"
    by (rule empty_table) simp_all
  show ?thesis using map_page_refines [OF h, of "push_bit 12 1" "0xef" "0x80201000" "0x80201000"]
    by (simp add: get_ppn_def clear_page_def)
qed

text \<open>
  C13: when memory ends below 4 GiB the boot code terminates with a table in which every page of the
  text before the one \<open>__text_end\<close> lies in is readable and executable but not writable, and every page from
  there to the end of memory is readable and writable but not executable, each at its physical address plus the
  kernel's offset. The pages below the text, which hold the initialization code, are not part of the claim.
\<close>
theorem kernel_sections_mapped:
  assumes "boot_ok ld off s" "unat mtop + 4095 < 2 ^ 32"
  shows "\<exists>r. riscv_map_kaddr ld off mtop s = Some r \<and>
    (\<forall>x. text_start ld \<le> x \<and> unat x div 4096 < unat (text_end ld) div 4096 \<longrightarrow>
       translate r (x + off) = Some (pte text_flags x) \<and> pte text_flags x AND 0xf = 0xb) \<and>
    (\<forall>x. unat (text_end ld) div 4096 \<le> unat x div 4096 \<and> text_end ld < mtop \<and> x < mtop \<longrightarrow>
       translate r (x + off) = Some (pte data_flags x) \<and> pte data_flags x AND 0xf = 0x7)"
proof -
  obtain r where r: "riscv_map_kaddr ld off mtop s = Some r" using map_kaddr_translate [OF assms(1)] by blast
  then show ?thesis using map_kaddr_sections [OF assms(1) r] assms(2) pte_text pte_data by blast
qed

theorem kernel_sections_mapped_witness:
  "\<exists>r. riscv_map_kaddr demo_syms 0xffffffff00000000 0x88000000 demo_boot = Some r \<and>
    translate r 0xffffffff80201000 = Some (pte text_flags 0x80201000) \<and>
    translate r 0xffffffff87fff000 = Some (pte data_flags 0x87fff000)"
proof -
  obtain r where r: "riscv_map_kaddr demo_syms 0xffffffff00000000 0x88000000 demo_boot = Some r"
    "\<forall>x. text_start demo_syms \<le> x \<and> unat x div 4096 < unat (text_end demo_syms) div 4096 \<longrightarrow>
       translate r (x + 0xffffffff00000000) = Some (pte text_flags x)"
    "\<forall>x. unat (text_end demo_syms) div 4096 \<le> unat x div 4096 \<and> text_end demo_syms < 0x88000000 \<and> x < 0x88000000 \<longrightarrow>
       translate r (x + 0xffffffff00000000) = Some (pte data_flags x)"
    using kernel_sections_mapped [OF demo_boot_ok, of "0x88000000"] by auto
  show ?thesis using r(1) r(2) [rule_format, of "0x80201000"] r(3) [rule_format, of "0x87fff000"]
    by (simp add: demo_syms_def)
qed

text \<open>
  C14: the loop over the data starts at \<open>__text_end\<close> itself, not at the next page: when the text does not end
  on a page boundary, the instructions in its last page end up in a page that is writable and not executable.
\<close>
theorem text_tail_not_executable:
  assumes "boot_ok ld off s" "unat mtop + 4095 < 2 ^ 32" "text_end ld < mtop"
    "x < text_end ld" "unat x div 4096 = unat (text_end ld) div 4096"
  shows "\<exists>r p. riscv_map_kaddr ld off mtop s = Some r \<and> translate r (x + off) = Some p \<and>
    p AND PTE_X = 0 \<and> p AND PTE_W \<noteq> 0"
proof -
  obtain r where r: "riscv_map_kaddr ld off mtop s = Some r" "\<And>va. translate r va = kspace ld off mtop (page39 va)"
    using map_kaddr_translate [OF assms(1)] by blast
  have "unat mtop \<le> unat (page_round mtop)" unfolding page_round_small [OF assms(2)] by linarith
  then have "translate r (x + off) = Some (pte data_flags x)"
    using kspace_lookup [OF assms(1), of x mtop] assms by (simp add: r(2) word_less_nat_alt)
  moreover have "pte data_flags x AND PTE_X = 0" "pte data_flags x AND PTE_W = 4"
    using arg_cong [OF pte_data [of x], of "\<lambda>w. w AND 8"] arg_cong [OF pte_data [of x], of "\<lambda>w. w AND 4"]
    by (simp_all add: and.assoc pte_flags)
  ultimately show ?thesis using r(1) by (auto simp: pte_flags)
qed

theorem text_tail_not_executable_witness:
  "\<exists>r p. riscv_map_kaddr demo_syms 0xffffffff00000000 0x88000000 demo_boot = Some r \<and>
    translate r 0xffffffff80300000 = Some p \<and> p AND PTE_X = 0 \<and> p AND PTE_W \<noteq> 0"
  using text_tail_not_executable [OF demo_boot_ok, of "0x88000000" "0x80300000"] by (simp add: demo_syms_def)

text \<open>
  C15: the page size is a 32 bit constant, so the mask the end of memory is rounded with clears the upper
  half of the address: memory ending at or above 4 GiB is mapped as if it ended that many multiples of 4 GiB lower,
  and memory that ends at exactly 4 GiB gets no data page at all.
\<close>
theorem memory_top_truncated:
  "riscv_map_kaddr ld off (mtop + push_bit 32 k) s = riscv_map_kaddr ld off mtop s \<and> page_round (push_bit 32 k) = 0"
proof
  show "riscv_map_kaddr ld off (mtop + push_bit 32 k) s = riscv_map_kaddr ld off mtop s"
    by (simp only: riscv_map_kaddr_def page_round_periodic)
  show "page_round (push_bit 32 k) = 0" using page_round_periodic [of 0 k] by (simp add: page_round_def PGSIZE_def)
qed

end
