(* ===== verification/Riscv_Boot.thy ===== *)
theory Riscv_Boot
  imports Fdt_Tree Riscv_Kspace
begin

text \<open>
  The first stage of the boot on RISC-V: \<open>src/clib/src/arch/riscv/entry/init.c\<close> and \<open>fdt.c\<close>. The device tree the
  firmware passes is a separate object, a buffer with its address; everything else is the state of the page table
  code. A panic prints its reason and spins for ever: it is the result \<open>Die\<close>.
\<close>

datatype 'a boot_result = Done 'a | Die string

section \<open>The device tree\<close>

definition memory_reg :: "blob \<Rightarrow> int \<Rightarrow> int \<Rightarrow> u64 boot_result option" where
  "memory_reg b p prop_len =
    (if prop_len \<ge> 16 then do {
       w0 \<leftarrow> fdt32_ld_i b p; w1 \<leftarrow> fdt32_ld_i b (p + 4); w2 \<leftarrow> fdt32_ld_i b (p + 8); w3 \<leftarrow> fdt32_ld_i b (p + 12);
       Some (Done ((push_bit 32 (ucast w0) OR ucast w1) + (push_bit 32 (ucast w2) OR ucast w3))) }
     else if prop_len \<ge> 8 then do {
       w0 \<leftarrow> fdt32_ld_i b p; w1 \<leftarrow> fdt32_ld_i b (p + 4);
       Some (Done (ucast w0 + ucast w1)) }
     else Some (Die ''prop_len is invalid.''))"

text \<open>The body of the loop over the subnodes of the root: \<open>None\<close> for \<open>continue\<close>.\<close>

definition memory_node :: "blob \<Rightarrow> int \<Rightarrow> u64 boot_result option option" where
  "memory_node b node_offset = do {
     node_name \<leftarrow> fdt_get_name b node_offset;
     case node_name of Inl err \<Rightarrow> Some None
     | Inr (q, n) \<Rightarrow> do {
       c \<leftarrow> strncmp (from_ptr b q) (cbytes ''memory'') 6;
       if c \<noteq> 0 then Some None else do {
       prop \<leftarrow> fdt_getprop b node_offset (cbytes ''reg'');
       case prop of Inl err \<Rightarrow> Some None
       | Inr (p, prop_len) \<Rightarrow> do { r \<leftarrow> memory_reg b p prop_len; Some (Some r) } } } }"

partial_function (option) memory_loop :: "blob \<Rightarrow> int \<Rightarrow> u64 boot_result option" where
  "memory_loop b node_offset =
    (if node_offset \<ge> 0 then do {
       r \<leftarrow> memory_node b node_offset;
       case r of Some v \<Rightarrow> Some v
       | None \<Rightarrow> do { n \<leftarrow> fdt_next_subnode b node_offset; memory_loop b n } }
     else Some (Die ''Kernel panic: no memory node found in FDT''))"

declare memory_loop.simps [code]

definition get_memory_top_from_fdt :: "blob \<Rightarrow> u64 boot_result option" where
  "get_memory_top_from_fdt b = do { n \<leftarrow> fdt_first_subnode b 0; memory_loop b n }"

text \<open>A store of a byte into the word addressed memory, little endian.\<close>

definition store8 :: "boot \<Rightarrow> u64 \<Rightarrow> u8 \<Rightarrow> boot" where
  "store8 s a v = (let w = a AND NOT 7; k = 8 * unat (a AND 7) in
     s\<lparr>bmem := (bmem s)(w := (bmem s w AND NOT (push_bit k 0xff)) OR push_bit k (ucast v))\<rparr>)"

fun copy_fdt :: "boot \<Rightarrow> u64 \<Rightarrow> u8 list \<Rightarrow> boot" where
  "copy_fdt s dst [] = s"
| "copy_fdt s dst (c # src) = copy_fdt (store8 s dst c) (dst + 1) src"


section \<open>Initialization\<close>





section \<open>The boot code on arbitrary device trees\<close>


lemma memory_bytes: "strlen (cbytes ''reg'') = Some 3" "length (cbytes ''reg'') = 4" "terminated (cbytes ''memory'')"
  by (simp_all add: cbytes_def of_char_def)












lemma copy_fdt_vars [simp]:
  "ktop (copy_fdt s dst src) = ktop s" "kaddr_offset (copy_fdt s dst src) = kaddr_offset s"
  "kpgtable_root (copy_fdt s dst src) = kpgtable_root s"
  by (induction src arbitrary: s dst) (simp_all add: store8_def Let_def)


section \<open>The whole boot\<close>




section \<open>The memory node of a tree\<close>

text \<open>What the boot code computes, on the tree instead of its encoding.\<close>

definition word_of :: "u8 list \<Rightarrow> nat \<Rightarrow> u32" where
  "word_of v i = be32 (v ! i) (v ! (i + 1)) (v ! (i + 2)) (v ! (i + 3))"

definition reg_top :: "u8 list \<Rightarrow> u64 boot_result" where
  "reg_top v = (if 16 \<le> length v
       then Done ((push_bit 32 (ucast (word_of v 0)) OR ucast (word_of v 4)) + (push_bit 32 (ucast (word_of v 8)) OR ucast (word_of v 12)))
     else if 8 \<le> length v then Done (ucast (word_of v 0) + ucast (word_of v 4))
     else Die ''prop_len is invalid.'')"

definition tree_reg :: "(u32 \<Rightarrow> u8 list) \<Rightarrow> dtree \<Rightarrow> u8 list option" where
  "tree_reg strs t = map_option snd (find (\<lambda>p. strs (fst p) = map of_char ''reg'') (dt_props t))"

definition tree_node :: "(u32 \<Rightarrow> u8 list) \<Rightarrow> dtree \<Rightarrow> u64 boot_result option" where
  "tree_node strs t = (if take 6 (dt_name t) = map of_char ''memory'' then map_option reg_top (tree_reg strs t) else None)"

primrec tree_memory_top :: "(u32 \<Rightarrow> u8 list) \<Rightarrow> dtree list \<Rightarrow> u64 boot_result" where
  "tree_memory_top strs [] = Die ''Kernel panic: no memory node found in FDT''"
| "tree_memory_top strs (t # ts) = (case tree_node strs t of Some r \<Rightarrow> r | None \<Rightarrow> tree_memory_top strs ts)"

text \<open>Every property name offset of the tree resolves in the string block.\<close>

primrec named :: "blob \<Rightarrow> (u32 \<Rightarrow> u8 list) \<Rightarrow> dtree \<Rightarrow> bool" where
  "named b strs (Node n ps cs) \<longleftrightarrow> (\<forall>p \<in> set ps. names b (fst p) (strs (fst p))) \<and> list_all (named b strs) cs"

lemma word_holds_value:
  assumes "fits b" "holds b q v" "k + 4 \<le> length v"
  shows "fdt32_ld_i b (sbase b + q + int k) = Some (word_of v k)"
proof -
  define p where "p = sbase b + q"
  have p: "0 \<le> p" "p + int (length v) \<le> int (length (fdt_bytes b))"
    unfolding p_def using assms(1,2) by (auto simp: holds_def fits_def)
  have t: "take (length v) (from_ptr b p) = v" using assms(2) by (simp add: holds_def p_def)
  have n: "fdt_bytes b ! nat (p + int k + int j) = v ! (k + j)" if "j < 4" for j
  proof -
    have "v ! (k + j) = from_ptr b p ! (k + j)" using that assms(3) nth_take [of "k + j" "length v" "from_ptr b p"] by (simp add: t)
    then show ?thesis using p that by (simp add: from_ptr_def nat_add_distrib add.assoc)
  qed
  have "word_at b (p + int k) = word_of v k"
    using n [of 0] n [of 1] n [of 2] n [of 3] by (simp add: word_at_def word_of_def)
  then show ?thesis unfolding fdt32_ld_i_eq p_def [symmetric] using p assms(3) fdt32_ld_eq [of "p + int k" b] by simp
qed

lemma memory_reg_tree:
  assumes "fits b" "holds b q v"
  shows "memory_reg b (sbase b + q) (int (length v)) = Some (reg_top v)"
  using word_holds_value [OF assms, of 0] word_holds_value [OF assms, of 4] word_holds_value [OF assms, of 8]
    word_holds_value [OF assms, of 12]
  by (cases "16 \<le> length v"; cases "8 \<le> length v") (simp_all add: memory_reg_def reg_top_def)

lemma cstr_of_take: "0 \<notin> set n \<Longrightarrow> take (Suc (length n)) s = n @ [0] \<Longrightarrow> cstr s = n \<and> terminated s"
proof (induction n arbitrary: s)
  case Nil
  then show ?case by (cases s) auto
next
  case (Cons c n)
  then show ?case by (cases s) auto
qed

lemma cstr_memory: "cstr (cbytes ''memory'') = map of_char ''memory''" "take 3 (cbytes ''reg'') = map of_char ''reg''"
  by (simp_all add: cbytes_def of_char_def)

lemma memory_node_tree:
  assumes "readable b" "holds b offset (flat t)" "wf_tree t" "offset mod 4 = 0" "named b strs t"
  shows "memory_node b offset = Some (tree_node strs t)"
proof -
  obtain n ps cs where t: "t = Node n ps cs" by (cases t)
  have v: "v16 b" and f: "fits b" using assms(1) by (auto simp: readable_def v16_def)
  have wf: "0 \<notin> set n" using assms(3) t by simp
  note h = holds_node [OF v assms(2) [unfolded t] assms(4)]
  note g = get_name_tree [OF assms(1) h(1) wf assms(4)]
  have c: "cstr (from_ptr b (sbase b + offset + 4)) = n" "terminated (from_ptr b (sbase b + offset + 4))"
    using cstr_of_take [OF wf g(2)] by simp_all
  obtain r where r: "strncmp (from_ptr b (sbase b + offset + 4)) (cbytes ''memory'') 6 = Some r"
    "r = 0 \<longleftrightarrow> take 6 n = take 6 (map of_char ''memory'')"
    using strncmp_spec [of "from_ptr b (sbase b + offset + 4)" 6 "cbytes ''memory''"] c memory_bytes(3) cstr_memory(1) by auto
  have m6: "take 6 (map of_char ''memory'') = (map of_char ''memory'' :: u8 list)" by simp
  have "names b no (strs no)" if "no \<in> fst ` set ps" for no using assms(5) that t by auto
  then obtain x where x: "fdt_getprop_namelen b offset (cbytes ''reg'') (int 3) = Some x"
    "case find (\<lambda>p. strs (fst p) = map of_char ''reg'') ps of None \<Rightarrow> x = Inl (- FDT_ERR_NOTFOUND)
     | Some p \<Rightarrow> \<exists>q. x = Inr (sbase b + q, int (length (snd p))) \<and> holds b q (snd p)"
    using getprop_tree [OF assms(1) assms(2,3) [unfolded t] assms(4), of strs 3 "cbytes ''reg''"] memory_bytes(2)
    unfolding cstr_memory(2) by auto
  have gp: "fdt_getprop b offset (cbytes ''reg'') = Some x" using x(1) memory_bytes(1) by (simp add: fdt_getprop_def)
  show ?thesis
  proof (cases "find (\<lambda>p. strs (fst p) = map of_char ''reg'') ps")
    case None
    then show ?thesis using g(1) r gp x(2) t m6 by (simp add: memory_node_def tree_node_def tree_reg_def)
  next
    case (Some p)
    then obtain q where q: "x = Inr (sbase b + q, int (length (snd p)))" "holds b q (snd p)" using x(2) by auto
    then show ?thesis using g(1) r gp Some t m6 memory_reg_tree [OF f q(2)] by (simp add: memory_node_def tree_node_def tree_reg_def)
  qed
qed

lemma memory_loop_tree:
  assumes "readable b" "holds b offset (flats ts @ be FDT_END_NODE)" "list_all wf_tree ts" "offset mod 4 = 0"
    "list_all (named b strs) ts"
  shows "memory_loop b (if ts = [] then - FDT_ERR_NOTFOUND else offset) = Some (tree_memory_top strs ts)"
  using assms(2-5)
proof (induction ts arbitrary: offset)
  case Nil
  then show ?case by (subst memory_loop.simps) (simp add: fdt_errors)
next
  case (Cons t ts)
  have v: "v16 b" and f: "fits b" using assms(1) by (auto simp: readable_def v16_def)
  have h: "holds b offset (flat t)" "holds b (offset + int (length (flat t))) (flats ts @ be FDT_END_NODE)"
    using holds_append [of b offset "flat t" "flats ts @ be FDT_END_NODE"] Cons.prems(1) by simp_all
  have a: "(offset + int (length (flat t))) mod 4 = 0" using Cons.prems(3) by (intro aligned_add) simp_all
  have "memory_node b offset = Some (tree_node strs t)"
    using memory_node_tree [OF assms(1) h(1)] Cons.prems by simp
  moreover have "fdt_next_subnode b offset = Some (if ts = [] then - FDT_ERR_NOTFOUND else offset + int (length (flat t)))"
    using next_subnode_tree [OF v Cons.prems(1,2,3)] .
  ultimately have "memory_loop b offset = (case tree_node strs t of Some r \<Rightarrow> Some r
      | None \<Rightarrow> memory_loop b (if ts = [] then - FDT_ERR_NOTFOUND else offset + int (length (flat t))))"
    using holds_bounds(1) [OF f h(1)] by (subst memory_loop.simps) (simp split: option.split)
  then show ?case using Cons.IH [OF h(2) _ a] Cons.prems by (auto split: option.split)
qed

lemma memory_top_tree:
  assumes "readable b" "holds b 0 (flat t)" "wf_tree t" "named b strs t"
  shows "get_memory_top_from_fdt b = Some (tree_memory_top strs (dt_children t))"
proof -
  obtain n ps cs where t: "t = Node n ps cs" by (cases t)
  have v: "v16 b" and wf: "list_all wf_tree cs" "list_all (named b strs) cs"
    using assms(1,3,4) t unfolding t wf_tree_eq by (auto simp: readable_def)
  note h = holds_node [OF v assms(2) [unfolded t]]
  have "fdt_first_subnode b 0 = Some (if cs = [] then - FDT_ERR_NOTFOUND else children_at 0 (Node n ps cs))"
    using first_subnode_tree [OF v assms(2,3) [unfolded t]] by simp
  then show ?thesis using memory_loop_tree [OF assms(1) h(4) wf(1) h(6) wf(2)] t
    by (simp add: get_memory_top_from_fdt_def)
qed

section \<open>Properties\<close>





text \<open>
  C17: reading the end of memory from a flattened device tree computes, on the bytes, what it should on the
  tree: for every buffer that holds the encoding of a tree, the boot code returns the base plus the size of the first
  child of the root whose name starts with ``memory'' and which has a ``reg'' property, and panics exactly when there
  is none or its value is shorter than 8 bytes.
\<close>
theorem memory_top_refines:
  assumes "readable b" "holds b 0 (flat t)" "wf_tree t" "named b strs t"
  shows "get_memory_top_from_fdt b = Some (tree_memory_top strs (dt_children t))"
  by (rule memory_top_tree [OF assms])

theorem memory_top_refines_witness: "get_memory_top_from_fdt demo_fdt = Some (Done 0x88000000)"
proof -
  let ?strs = "\<lambda>_ :: u32. map of_char ''reg'' :: u8 list"
  have "take 3 (from_ptr demo_fdt 124) = map of_char ''reg''" by code_simp
  then have "named demo_fdt ?strs demo_tree" using demo_string by (auto simp: demo_tree_def names_def numeral_3_eq_3)
  moreover have "wf_tree demo_tree" by (simp add: demo_tree_def of_char_def)
  moreover have "tree_memory_top ?strs (dt_children demo_tree) = Done 0x88000000" by code_simp
  ultimately show ?thesis using memory_top_refines [OF demo_readable demo_holds, of ?strs] by simp
qed





end
