(* ===== verification/Fdt_Rw.thy ===== *)
theory Fdt_Rw
  imports Fdt_Ro
begin

text \<open>
  Changing a flattened device tree in place: \<open>src/clib/lib/libfdt/fdt_wip.c\<close>, \<open>fdt_rw.c\<close>, \<open>fdt_addresses.c\<close>, the full
  check of \<open>fdt_check.c\<close> and the error texts of \<open>fdt_strerror.c\<close>. An operation returns its result and the new buffer.
\<close>

section \<open>Writing in place\<close>

definition memcpy :: "blob \<Rightarrow> int \<Rightarrow> u8 list \<Rightarrow> nat \<Rightarrow> blob option" where
  "memcpy b dst src n = (if n = 0 then Some b else if n \<le> length src then wr b dst (take n src) else None)"

definition fdt_setprop_inplace_namelen_partial ::
  "blob \<Rightarrow> int \<Rightarrow> u8 list \<Rightarrow> int \<Rightarrow> u32 \<Rightarrow> u8 list \<Rightarrow> int \<Rightarrow> (int \<times> blob) option" where
  "fdt_setprop_inplace_namelen_partial b nodeoffset name namelen idx val len = do {
     r \<leftarrow> fdt_getprop_namelen b nodeoffset name namelen;
     case r of Inl err \<Rightarrow> Some (err, b)
     | Inr (propval, proplen) \<Rightarrow>
       if to_uint proplen < to_uint len + idx then Some (- FDT_ERR_NOSPACE, b) else do {
       b \<leftarrow> memcpy b (propval + uint idx) val (unat (word_of_int len :: u64));
       Some (0, b) } }"

definition fdt_setprop_inplace :: "blob \<Rightarrow> int \<Rightarrow> u8 list \<Rightarrow> u8 list \<Rightarrow> int \<Rightarrow> (int \<times> blob) option" where
  "fdt_setprop_inplace b nodeoffset name val len = do {
     r \<leftarrow> fdt_getprop b nodeoffset name;
     case r of Inl err \<Rightarrow> Some (err, b)
     | Inr (propval, proplen) \<Rightarrow>
       if proplen \<noteq> len then Some (- FDT_ERR_NOSPACE, b) else do {
       n \<leftarrow> strlen name;
       fdt_setprop_inplace_namelen_partial b nodeoffset name (int n) 0 val len } }"

function fdt_nop_region_i :: "blob \<Rightarrow> int \<Rightarrow> int \<Rightarrow> blob option" where
  "fdt_nop_region_i b p fin = (if p < fin then do { b \<leftarrow> store32 b p (cpu_to_fdt32 FDT_NOP); fdt_nop_region_i b (p + 4) fin }
     else Some b)"
  by pat_completeness auto
termination by (relation "measure (\<lambda>(b, p, fin). nat (fin - p))") auto

declare fdt_nop_region_i.simps [simp del]

definition fdt_nop_property :: "blob \<Rightarrow> int \<Rightarrow> u8 list \<Rightarrow> (int \<times> blob) option" where
  "fdt_nop_property b nodeoffset name = do {
     r \<leftarrow> fdt_get_property b nodeoffset name;
     case r of Inl err \<Rightarrow> Some (err, b)
     | Inr (prop, len) \<Rightarrow> do { b \<leftarrow> fdt_nop_region_i b prop (prop + to_int (len + 12)); Some (0, b) } }"

partial_function (option) node_end_loop :: "blob \<Rightarrow> int \<Rightarrow> int \<Rightarrow> int option" where
  "node_end_loop b offset depth =
    (if offset \<ge> 0 \<and> depth \<ge> 0 then do {
       (offset, d) \<leftarrow> fdt_next_node b offset (Some depth);
       node_end_loop b offset (the d) }
     else Some offset)"

declare node_end_loop.simps [code]

definition fdt_node_end_offset_i :: "blob \<Rightarrow> int \<Rightarrow> int option" where
  "fdt_node_end_offset_i b offset = node_end_loop b offset 0"

definition fdt_nop_node :: "blob \<Rightarrow> int \<Rightarrow> (int \<times> blob) option" where
  "fdt_nop_node b nodeoffset = do {
     endoffset \<leftarrow> fdt_node_end_offset_i b nodeoffset;
     if endoffset < 0 then Some (endoffset, b) else do {
     p \<leftarrow> fdt_offset_ptr b nodeoffset 0;
     p \<leftarrow> p;
     b \<leftarrow> fdt_nop_region_i b p (p + (endoffset - nodeoffset));
     Some (0, b) } }"

section \<open>Splicing\<close>

definition fdt_blocks_misordered_i :: "blob \<Rightarrow> int \<Rightarrow> int \<Rightarrow> bool option" where
  "fdt_blocks_misordered_i b mem_rsv_size struct_size = do {
     rsv \<leftarrow> fdt_off_mem_rsvmap b; st \<leftarrow> fdt_off_dt_struct b; str \<leftarrow> fdt_off_dt_strings b;
     z \<leftarrow> fdt_size_dt_strings b; total \<leftarrow> fdt_totalsize b;
     Some (ucast rsv < FDT_ALIGN 40 8 \<or> st < rsv + to_uint mem_rsv_size \<or> str < st + to_uint struct_size \<or> total < str + z) }"

definition fdt_rw_probe_i :: "blob \<Rightarrow> (int \<times> blob) option" where
  "fdt_rw_probe_i b = do {
     e \<leftarrow> fdt_ro_probe_i b;
     if e < 0 then Some (e, b) else do {
     v \<leftarrow> fdt_version b;
     if v < 17 then Some (- FDT_ERR_BADVERSION, b) else do {
     z \<leftarrow> fdt_size_dt_struct b;
     m \<leftarrow> fdt_blocks_misordered_i b 16 (to_int (uint z));
     if m then Some (- FDT_ERR_BADLAYOUT, b)
     else if v > 17 then do { b \<leftarrow> fdt_set_version b 17; Some (0, b) }
     else Some (0, b) } } }"

definition fdt_data_size_i :: "blob \<Rightarrow> u32 option" where
  "fdt_data_size_i b = do { o' \<leftarrow> fdt_off_dt_strings b; z \<leftarrow> fdt_size_dt_strings b; Some (o' + z) }"

definition fdt_splice_i :: "blob \<Rightarrow> int \<Rightarrow> int \<Rightarrow> int \<Rightarrow> (int \<times> blob) option" where
  "fdt_splice_i b p oldlen newlen = do {
     dsize \<leftarrow> fdt_data_size_i b;
     let soff = (word_of_int p :: u64);
     let uold = (word_of_int oldlen :: u64);
     if oldlen < 0 \<or> soff + uold < soff \<or> soff + uold > ucast dsize then Some (- FDT_ERR_BADOFFSET, b)
     else if p < 0 \<or> dsize + to_uint newlen < to_uint oldlen then Some (- FDT_ERR_BADOFFSET, b) else do {
     total \<leftarrow> fdt_totalsize b;
     if dsize - to_uint oldlen + to_uint newlen > total then Some (- FDT_ERR_NOSPACE, b) else do {
     b \<leftarrow> memmove b (p + newlen) (p + oldlen) (nat (uint dsize - (p + oldlen)));
     Some (0, b) } } }"

definition fdt_splice_mem_rsv_i :: "blob \<Rightarrow> int \<Rightarrow> int \<Rightarrow> int \<Rightarrow> (int \<times> blob) option" where
  "fdt_splice_mem_rsv_i b p oldn newn = do {
     let delta = to_uint ((newn - oldn) * 16);
     (err, b) \<leftarrow> fdt_splice_i b p (oldn * 16) (newn * 16);
     if err \<noteq> 0 then Some (err, b) else do {
     s \<leftarrow> fdt_off_dt_struct b; b \<leftarrow> fdt_set_off_dt_struct b (s + delta);
     t \<leftarrow> fdt_off_dt_strings b; b \<leftarrow> fdt_set_off_dt_strings b (t + delta);
     Some (0, b) } }"

definition fdt_splice_struct_i :: "blob \<Rightarrow> int \<Rightarrow> int \<Rightarrow> int \<Rightarrow> (int \<times> blob) option" where
  "fdt_splice_struct_i b p oldlen newlen = do {
     delta \<leftarrow> sub_int newlen oldlen;
     (err, b) \<leftarrow> fdt_splice_i b p oldlen newlen;
     if err \<noteq> 0 then Some (err, b) else do {
     s \<leftarrow> fdt_size_dt_struct b; b \<leftarrow> fdt_set_size_dt_struct b (s + to_uint delta);
     t \<leftarrow> fdt_off_dt_strings b; b \<leftarrow> fdt_set_off_dt_strings b (t + to_uint delta);
     Some (0, b) } }"

definition fdt_del_last_string_i :: "blob \<Rightarrow> u8 list \<Rightarrow> blob option" where
  "fdt_del_last_string_i b s = do {
     n \<leftarrow> strlen s; z \<leftarrow> fdt_size_dt_strings b; fdt_set_size_dt_strings b (z - of_nat (n + 1)) }"

definition fdt_splice_string_i :: "blob \<Rightarrow> int \<Rightarrow> (int \<times> blob) option" where
  "fdt_splice_string_i b newlen = do {
     o' \<leftarrow> fdt_off_dt_strings b; z \<leftarrow> fdt_size_dt_strings b;
     (err, b) \<leftarrow> fdt_splice_i b (uint o' + uint z) 0 newlen;
     if err \<noteq> 0 then Some (err, b) else do {
     z \<leftarrow> fdt_size_dt_strings b; b \<leftarrow> fdt_set_size_dt_strings b (z + to_uint newlen);
     Some (0, b) } }"

text \<open>The result is the offset in the string table or an error, and whether the string was added.\<close>

definition fdt_find_add_string_i :: "blob \<Rightarrow> u8 list \<Rightarrow> (int \<times> bool \<times> blob) option" where
  "fdt_find_add_string_i b s = do {
     strtab \<leftarrow> fdt_off_dt_strings b;
     n \<leftarrow> strlen s;
     let len = n + 1;
     z \<leftarrow> fdt_size_dt_strings b;
     p \<leftarrow> fdt_find_string_i (from_ptr b (uint strtab)) (to_int (uint z)) s;
     case p of Some k \<Rightarrow> Some (int k, False, b)
     | None \<Rightarrow> do {
       (err, b) \<leftarrow> fdt_splice_string_i b (int len);
       if err \<noteq> 0 then Some (err, False, b) else do {
       b \<leftarrow> memcpy b (uint strtab + uint z) s len;
       Some (uint z, True, b) } } }"

section \<open>Memory reservations\<close>

definition fdt_add_mem_rsv :: "blob \<Rightarrow> u64 \<Rightarrow> u64 \<Rightarrow> (int \<times> blob) option" where
  "fdt_add_mem_rsv b address sz = do {
     (e, b) \<leftarrow> fdt_rw_probe_i b;
     if e \<noteq> 0 then Some (e, b) else do {
     n \<leftarrow> fdt_num_mem_rsv b;
     re \<leftarrow> fdt_mem_rsv_i b n;
     (err, b) \<leftarrow> fdt_splice_mem_rsv_i b re 0 1;
     if err \<noteq> 0 then Some (err, b) else do {
     b \<leftarrow> store64 b re (cpu_to_fdt64 address);
     b \<leftarrow> store64 b (re + 8) (cpu_to_fdt64 sz);
     Some (0, b) } } }"

definition fdt_del_mem_rsv :: "blob \<Rightarrow> int \<Rightarrow> (int \<times> blob) option" where
  "fdt_del_mem_rsv b n = do {
     re \<leftarrow> fdt_mem_rsv_i b n;
     (e, b) \<leftarrow> fdt_rw_probe_i b;
     if e \<noteq> 0 then Some (e, b) else do {
     m \<leftarrow> fdt_num_mem_rsv b;
     if n \<ge> m then Some (- FDT_ERR_NOTFOUND, b) else fdt_splice_mem_rsv_i b re 1 0 } }"

section \<open>Properties\<close>

abbreviation tag_align :: "int \<Rightarrow> int" where
  "tag_align x \<equiv> size_to_int (FDT_TAGALIGN x)"

text \<open>The result is an error or the pointer to the property.\<close>

definition fdt_resize_property_i :: "blob \<Rightarrow> int \<Rightarrow> u8 list \<Rightarrow> int \<Rightarrow> ((int + int) \<times> blob) option" where
  "fdt_resize_property_i b nodeoffset name len = do {
     r \<leftarrow> fdt_get_property b nodeoffset name;
     case r of Inl oldlen \<Rightarrow> Some (Inl oldlen, b)
     | Inr (prop, oldlen) \<Rightarrow> do {
       (err, b) \<leftarrow> fdt_splice_struct_i b (prop + 12) (tag_align oldlen) (tag_align len);
       if err \<noteq> 0 then Some (Inl err, b) else do {
       b \<leftarrow> store32 b (prop + 4) (cpu_to_fdt32 (to_uint len));
       Some (Inr prop, b) } } }"

definition fdt_add_property_i :: "blob \<Rightarrow> int \<Rightarrow> u8 list \<Rightarrow> int \<Rightarrow> ((int + int) \<times> blob) option" where
  "fdt_add_property_i b nodeoffset name len = do {
     nextoffset \<leftarrow> fdt_check_node_offset_i b nodeoffset;
     if nextoffset < 0 then Some (Inl nextoffset, b) else do {
     (namestroff, allocated, b) \<leftarrow> fdt_find_add_string_i b name;
     if namestroff < 0 then Some (Inl namestroff, b) else do {
     prop \<leftarrow> fdt_offset_ptr_i b nextoffset;
     let proplen = size_to_int (12 + FDT_TAGALIGN len);
     (err, b) \<leftarrow> fdt_splice_struct_i b prop 0 proplen;
     if err \<noteq> 0 then do {
       b \<leftarrow> (if allocated then fdt_del_last_string_i b name else Some b);
       Some (Inl err, b) }
     else do {
       b \<leftarrow> store32 b prop (cpu_to_fdt32 FDT_PROP);
       b \<leftarrow> store32 b (prop + 8) (cpu_to_fdt32 (to_uint namestroff));
       b \<leftarrow> store32 b (prop + 4) (cpu_to_fdt32 (to_uint len));
       Some (Inr prop, b) } } } }"

definition fdt_set_name :: "blob \<Rightarrow> int \<Rightarrow> u8 list \<Rightarrow> (int \<times> blob) option" where
  "fdt_set_name b nodeoffset name = do {
     (e, b) \<leftarrow> fdt_rw_probe_i b;
     if e \<noteq> 0 then Some (e, b) else do {
     r \<leftarrow> fdt_get_name b nodeoffset;
     case r of Inl err \<Rightarrow> Some (err, b)
     | Inr (namep, oldlen) \<Rightarrow> do {
       newlen \<leftarrow> strlen name;
       (err, b) \<leftarrow> fdt_splice_struct_i b namep (tag_align (oldlen + 1)) (tag_align (int newlen + 1));
       if err \<noteq> 0 then Some (err, b) else do {
       b \<leftarrow> memcpy b namep name (newlen + 1);
       Some (0, b) } } } }"

definition fdt_setprop_placeholder :: "blob \<Rightarrow> int \<Rightarrow> u8 list \<Rightarrow> int \<Rightarrow> ((int + int) \<times> blob) option" where
  "fdt_setprop_placeholder b nodeoffset name len = do {
     (e, b) \<leftarrow> fdt_rw_probe_i b;
     if e \<noteq> 0 then Some (Inl e, b) else do {
     (r, b) \<leftarrow> fdt_resize_property_i b nodeoffset name len;
     (r, b) \<leftarrow> (if r = Inl (- FDT_ERR_NOTFOUND) then fdt_add_property_i b nodeoffset name len else Some (r, b));
     Some (case r of Inl err \<Rightarrow> Inl err | Inr prop \<Rightarrow> Inr (prop + 12), b) } }"

definition fdt_setprop :: "blob \<Rightarrow> int \<Rightarrow> u8 list \<Rightarrow> u8 list \<Rightarrow> int \<Rightarrow> (int \<times> blob) option" where
  "fdt_setprop b nodeoffset name val len = do {
     (r, b) \<leftarrow> fdt_setprop_placeholder b nodeoffset name len;
     case r of Inl err \<Rightarrow> Some (err, b)
     | Inr d \<Rightarrow> do {
       b \<leftarrow> (if len \<noteq> 0 then memcpy b d val (unat (word_of_int len :: u64)) else Some b);
       Some (0, b) } }"

definition fdt_appendprop :: "blob \<Rightarrow> int \<Rightarrow> u8 list \<Rightarrow> u8 list \<Rightarrow> int \<Rightarrow> (int \<times> blob) option" where
  "fdt_appendprop b nodeoffset name val len = do {
     (e, b) \<leftarrow> fdt_rw_probe_i b;
     if e \<noteq> 0 then Some (e, b) else do {
     r \<leftarrow> fdt_get_property b nodeoffset name;
     case r of Inr (prop, oldlen) \<Rightarrow> do {
       newlen \<leftarrow> add_int len oldlen;
       (err, b) \<leftarrow> fdt_splice_struct_i b (prop + 12) (tag_align oldlen) (tag_align newlen);
       if err \<noteq> 0 then Some (err, b) else do {
       b \<leftarrow> store32 b (prop + 4) (cpu_to_fdt32 (to_uint newlen));
       b \<leftarrow> memcpy b (prop + 12 + oldlen) val (unat (word_of_int len :: u64));
       Some (0, b) } }
     | Inl _ \<Rightarrow> do {
       (r, b) \<leftarrow> fdt_add_property_i b nodeoffset name len;
       case r of Inl err \<Rightarrow> Some (err, b)
       | Inr prop \<Rightarrow> do {
         b \<leftarrow> memcpy b (prop + 12) val (unat (word_of_int len :: u64));
         Some (0, b) } } } }"

definition fdt_delprop :: "blob \<Rightarrow> int \<Rightarrow> u8 list \<Rightarrow> (int \<times> blob) option" where
  "fdt_delprop b nodeoffset name = do {
     (e, b) \<leftarrow> fdt_rw_probe_i b;
     if e \<noteq> 0 then Some (e, b) else do {
     r \<leftarrow> fdt_get_property b nodeoffset name;
     case r of Inl err \<Rightarrow> Some (err, b)
     | Inr (prop, len) \<Rightarrow> fdt_splice_struct_i b prop (size_to_int (12 + FDT_TAGALIGN len)) 0 } }"

section \<open>Nodes\<close>

text \<open>The loop that places a new node behind the properties of its parent.\<close>

partial_function (option) after_props :: "blob \<Rightarrow> int \<Rightarrow> int option" where
  "after_props b offset = do {
     (tag, nextoffset) \<leftarrow> fdt_next_tag b offset;
     if tag = FDT_PROP \<or> tag = FDT_NOP then after_props b nextoffset else Some offset }"

declare after_props.simps [code]

definition fdt_add_subnode_namelen :: "blob \<Rightarrow> int \<Rightarrow> u8 list \<Rightarrow> int \<Rightarrow> (int \<times> blob) option" where
  "fdt_add_subnode_namelen b parentoffset name namelen = do {
     (e, b) \<leftarrow> fdt_rw_probe_i b;
     if e \<noteq> 0 then Some (e, b) else do {
     offset \<leftarrow> fdt_subnode_offset_namelen b parentoffset name namelen;
     if offset \<ge> 0 then Some (- FDT_ERR_EXISTS, b)
     else if offset \<noteq> - FDT_ERR_NOTFOUND then Some (offset, b) else do {
     (tag, nextoffset) \<leftarrow> fdt_next_tag b parentoffset;
     if tag \<noteq> FDT_BEGIN_NODE then Some (- FDT_ERR_INTERNAL, b) else do {
     offset \<leftarrow> after_props b nextoffset;
     nh \<leftarrow> fdt_offset_ptr_i b offset;
     let namesize = FDT_TAGALIGN (namelen + 1);
     let nodelen = size_to_int (4 + namesize + 4);
     (err, b) \<leftarrow> fdt_splice_struct_i b nh 0 nodelen;
     if err \<noteq> 0 then Some (err, b) else do {
     b \<leftarrow> store32 b nh (cpu_to_fdt32 FDT_BEGIN_NODE);
     b \<leftarrow> wr b (nh + 4) (replicate (unat namesize) 0);
     b \<leftarrow> memcpy b (nh + 4) name (unat (word_of_int namelen :: u64));
     b \<leftarrow> store32 b (nh + nodelen - FDT_TAGSIZE) (cpu_to_fdt32 FDT_END_NODE);
     Some (offset, b) } } } } }"

definition fdt_add_subnode :: "blob \<Rightarrow> int \<Rightarrow> u8 list \<Rightarrow> (int \<times> blob) option" where
  "fdt_add_subnode b parentoffset name = do { n \<leftarrow> strlen name; fdt_add_subnode_namelen b parentoffset name (int n) }"

definition fdt_del_node :: "blob \<Rightarrow> int \<Rightarrow> (int \<times> blob) option" where
  "fdt_del_node b nodeoffset = do {
     (e, b) \<leftarrow> fdt_rw_probe_i b;
     if e \<noteq> 0 then Some (e, b) else do {
     endoffset \<leftarrow> fdt_node_end_offset_i b nodeoffset;
     if endoffset < 0 then Some (endoffset, b) else do {
     p \<leftarrow> fdt_offset_ptr_i b nodeoffset;
     n \<leftarrow> sub_int endoffset nodeoffset;
     fdt_splice_struct_i b p n 0 } } }"

section \<open>Packing\<close>

text \<open>
  The blocks of \<open>old\<close> are moved into \<open>new\<close>. When both are the same buffer every step reads what the
  previous ones have written.
\<close>

definition move_block :: "blob option \<Rightarrow> blob \<Rightarrow> int \<Rightarrow> int \<Rightarrow> nat \<Rightarrow> blob option" where
  "move_block old new dst src n = (case old of None \<Rightarrow> memmove new dst src n
     | Some o' \<Rightarrow> memcpy new dst (from_ptr o' src) n)"

definition fdt_packblocks_i :: "blob option \<Rightarrow> blob \<Rightarrow> int \<Rightarrow> int \<Rightarrow> int \<Rightarrow> blob option" where
  "fdt_packblocks_i old new mem_rsv_size struct_size strings_size = do {
     let src = (\<lambda>new. case old of None \<Rightarrow> new | Some o' \<Rightarrow> o');
     let mem_rsv_off = size_to_int (FDT_ALIGN 40 8);
     let struct_off = mem_rsv_off + mem_rsv_size;
     let strings_off = struct_off + struct_size;
     o' \<leftarrow> fdt_off_mem_rsvmap (src new);
     new \<leftarrow> move_block old new mem_rsv_off (uint o') (nat mem_rsv_size);
     new \<leftarrow> fdt_set_off_mem_rsvmap new (to_uint mem_rsv_off);
     o' \<leftarrow> fdt_off_dt_struct (src new);
     new \<leftarrow> move_block old new struct_off (uint o') (nat struct_size);
     new \<leftarrow> fdt_set_off_dt_struct new (to_uint struct_off);
     new \<leftarrow> fdt_set_size_dt_struct new (to_uint struct_size);
     o' \<leftarrow> fdt_off_dt_strings (src new);
     new \<leftarrow> move_block old new strings_off (uint o') (nat strings_size);
     new \<leftarrow> fdt_set_off_dt_strings new (to_uint strings_off);
     z \<leftarrow> fdt_size_dt_strings (src new);
     fdt_set_size_dt_strings new z }"

definition fdt_pack :: "blob \<Rightarrow> (int \<times> blob) option" where
  "fdt_pack b = do {
     (e, b) \<leftarrow> fdt_rw_probe_i b;
     if e \<noteq> 0 then Some (e, b) else do {
     n \<leftarrow> fdt_num_mem_rsv b;
     let mem_rsv_size = (n + 1) * 16;
     st \<leftarrow> fdt_size_dt_struct b;
     str \<leftarrow> fdt_size_dt_strings b;
     b \<leftarrow> fdt_packblocks_i None b mem_rsv_size (to_int (uint st)) (to_int (uint str));
     d \<leftarrow> fdt_data_size_i b;
     b \<leftarrow> fdt_set_totalsize b d;
     Some (0, b) } }"

section \<open>The full check\<close>

partial_function (option) check_full_loop :: "blob \<Rightarrow> int \<Rightarrow> u32 \<Rightarrow> bool \<Rightarrow> int option" where
  "check_full_loop b offset depth expect_end = do {
     (tag, nextoffset) \<leftarrow> fdt_next_tag b offset;
     if nextoffset < 0 then Some nextoffset
     else if expect_end \<and> tag \<noteq> FDT_END then Some (- FDT_ERR_BADSTRUCTURE)
     else if tag = FDT_NOP then check_full_loop b nextoffset depth expect_end
     else if tag = FDT_END then Some (if depth \<noteq> 0 then - FDT_ERR_BADSTRUCTURE else 0)
     else if tag = FDT_BEGIN_NODE then
       (let depth = depth + 1 in
        if uint depth > INT_MAX then Some (- FDT_ERR_BADSTRUCTURE)
        else if depth = 1 then do {
          r \<leftarrow> fdt_get_name b offset;
          case r of Inl len \<Rightarrow> Some len
          | Inr (name, len) \<Rightarrow> do {
            c \<leftarrow> rd b name;
            if c \<noteq> 0 \<or> len \<noteq> 0 then Some (- FDT_ERR_BADSTRUCTURE)
            else check_full_loop b nextoffset depth expect_end } }
        else check_full_loop b nextoffset depth expect_end)
     else if tag = FDT_END_NODE then
       (if depth = 0 then Some (- FDT_ERR_BADSTRUCTURE)
        else check_full_loop b nextoffset (depth - 1) (depth - 1 = 0 \<or> expect_end))
     else if tag = FDT_PROP then do {
       r \<leftarrow> fdt_getprop_by_offset b offset;
       case r of Inl err \<Rightarrow> Some err
       | Inr _ \<Rightarrow> check_full_loop b nextoffset depth expect_end }
     else Some (- FDT_ERR_INTERNAL) }"

declare check_full_loop.simps [code]

definition fdt_check_full :: "blob \<Rightarrow> u64 \<Rightarrow> int option" where
  "fdt_check_full b bufsize =
    (if bufsize < ucast FDT_V1_SIZE then Some (- FDT_ERR_TRUNCATED) else do {
     hdr \<leftarrow> fdt_header_size b;
     if bufsize < ucast hdr then Some (- FDT_ERR_TRUNCATED) else do {
     err \<leftarrow> fdt_check_header b;
     if err \<noteq> 0 then Some err else do {
     total \<leftarrow> fdt_totalsize b;
     if bufsize < ucast total then Some (- FDT_ERR_TRUNCATED) else do {
     num_memrsv \<leftarrow> fdt_num_mem_rsv b;
     if num_memrsv < 0 then Some num_memrsv else check_full_loop b 0 0 False } } } })"

section \<open>Addresses\<close>

definition FDT_MAX_NCELLS :: u32 where "FDT_MAX_NCELLS = 4"

definition fdt_cells :: "blob \<Rightarrow> int \<Rightarrow> u8 list \<Rightarrow> int option" where
  "fdt_cells b nodeoffset name = do {
     c \<leftarrow> fdt_getprop b nodeoffset name;
     case c of Inl err \<Rightarrow> Some err
     | Inr (p, len) \<Rightarrow>
       if len \<noteq> 4 then Some (- FDT_ERR_BADNCELLS) else do {
       val \<leftarrow> fdt32_ld_i b p;
       Some (if val > FDT_MAX_NCELLS then - FDT_ERR_BADNCELLS else to_int (uint val)) } }"

definition fdt_address_cells :: "blob \<Rightarrow> int \<Rightarrow> int option" where
  "fdt_address_cells b nodeoffset = do {
     val \<leftarrow> fdt_cells b nodeoffset (cbytes ''#address-cells'');
     Some (if val = 0 then - FDT_ERR_BADNCELLS else if val = - FDT_ERR_NOTFOUND then 2 else val) }"

definition fdt_size_cells :: "blob \<Rightarrow> int \<Rightarrow> int option" where
  "fdt_size_cells b nodeoffset = do {
     val \<leftarrow> fdt_cells b nodeoffset (cbytes ''#size-cells'');
     Some (if val = - FDT_ERR_NOTFOUND then 1 else val) }"

text \<open>The bytes of the two cells; an address or size that does not fit gives an error.\<close>

definition be_bytes32 :: "u32 \<Rightarrow> u8 list" where
  "be_bytes32 v = [ucast (drop_bit 24 v), ucast (drop_bit 16 v AND 0xff), ucast (drop_bit 8 v AND 0xff), ucast (v AND 0xff)]"

definition be_bytes64 :: "u64 \<Rightarrow> u8 list" where
  "be_bytes64 v = be_bytes32 (ucast (drop_bit 32 v)) @ be_bytes32 (ucast v)"

definition addr_data :: "int \<Rightarrow> u64 \<Rightarrow> u64 \<Rightarrow> int + u8 list" where
  "addr_data addr_cells addr sz = (if addr_cells = 1 then
       (if addr > 0xffffffff \<or> 0xffffffff + 1 - addr < sz then Inl (- FDT_ERR_BADVALUE) else Inr (be_bytes32 (ucast addr)))
     else if addr_cells = 2 then Inr (be_bytes64 addr) else Inl (- FDT_ERR_BADNCELLS))"

definition size_data :: "int \<Rightarrow> u64 \<Rightarrow> int + u8 list" where
  "size_data size_cells sz = (if size_cells = 1 then
       (if sz > 0xffffffff then Inl (- FDT_ERR_BADVALUE) else Inr (be_bytes32 (ucast sz)))
     else if size_cells = 2 then Inr (be_bytes64 sz) else Inl (- FDT_ERR_BADNCELLS))"

definition fdt_appendprop_addrrange :: "blob \<Rightarrow> int \<Rightarrow> int \<Rightarrow> u8 list \<Rightarrow> u64 \<Rightarrow> u64 \<Rightarrow> (int \<times> blob) option" where
  "fdt_appendprop_addrrange b parent nodeoffset name addr sz = do {
     addr_cells \<leftarrow> fdt_address_cells b parent;
     if addr_cells < 0 then Some (addr_cells, b) else do {
     size_cells \<leftarrow> fdt_size_cells b parent;
     if size_cells < 0 then Some (size_cells, b)
     else (case addr_data addr_cells addr sz of Inl err \<Rightarrow> Some (err, b)
       | Inr d1 \<Rightarrow> (case size_data size_cells sz of Inl err \<Rightarrow> Some (err, b)
         | Inr d2 \<Rightarrow> fdt_appendprop b nodeoffset name (d1 @ d2) ((addr_cells + size_cells) * 4))) } }"

section \<open>Error texts\<close>

definition fdt_errtable :: "string option list" where
  "fdt_errtable = [None, Some ''FDT_ERR_NOTFOUND'', Some ''FDT_ERR_EXISTS'', Some ''FDT_ERR_NOSPACE'',
     Some ''FDT_ERR_BADOFFSET'', Some ''FDT_ERR_BADPATH'', Some ''FDT_ERR_BADPHANDLE'', Some ''FDT_ERR_BADSTATE'',
     Some ''FDT_ERR_TRUNCATED'', Some ''FDT_ERR_BADMAGIC'', Some ''FDT_ERR_BADVERSION'', Some ''FDT_ERR_BADSTRUCTURE'',
     Some ''FDT_ERR_BADLAYOUT'', Some ''FDT_ERR_INTERNAL'', Some ''FDT_ERR_BADNCELLS'', Some ''FDT_ERR_BADVALUE'',
     Some ''FDT_ERR_BADOVERLAY'', Some ''FDT_ERR_NOPHANDLES'', Some ''FDT_ERR_BADFLAGS'', Some ''FDT_ERR_ALIGNMENT'']"

definition fdt_strerror :: "int \<Rightarrow> string" where
  "fdt_strerror errval = (if errval > 0 then ''<valid offset/length>''
     else if errval = 0 then ''<no error>''
     else if - errval < int (length fdt_errtable)
     then (case fdt_errtable ! nat (- errval) of Some s \<Rightarrow> s | None \<Rightarrow> ''<unknown error>'')
     else ''<unknown error>'')"

end
