(* ===== verification/Fdt_Sw.thy ===== *)
theory Fdt_Sw
  imports Fdt_Rw
begin

text \<open>
  Writing a device tree sequentially: \<open>src/clib/lib/libfdt/fdt_sw.c\<close>. The state of the
  protocol is in the header of the unfinished tree: its magic number is \<open>FDT_SW_MAGIC\<close>, the offset of the strings is
  0 while memory reservations may be added and the total size while the structure block is written.
\<close>

definition FDT_CREATE_FLAG_NO_NAME_DEDUP :: u32 where "FDT_CREATE_FLAG_NO_NAME_DEDUP = 0x1"
definition FDT_CREATE_FLAGS_ALL :: u32 where "FDT_CREATE_FLAGS_ALL = FDT_CREATE_FLAG_NO_NAME_DEDUP"

section \<open>The states\<close>

definition fdt_sw_probe_i :: "blob \<Rightarrow> int option" where
  "fdt_sw_probe_i b = do {
     m \<leftarrow> fdt_magic b;
     Some (if m = FDT_MAGIC then - FDT_ERR_BADSTATE else if m \<noteq> FDT_SW_MAGIC then - FDT_ERR_BADMAGIC else 0) }"

definition fdt_sw_probe_memrsv_i :: "blob \<Rightarrow> int option" where
  "fdt_sw_probe_memrsv_i b = do {
     err \<leftarrow> fdt_sw_probe_i b;
     if err \<noteq> 0 then Some err else do {
     o' \<leftarrow> fdt_off_dt_strings b;
     Some (if o' \<noteq> 0 then - FDT_ERR_BADSTATE else 0) } }"

definition fdt_sw_probe_struct_i :: "blob \<Rightarrow> int option" where
  "fdt_sw_probe_struct_i b = do {
     err \<leftarrow> fdt_sw_probe_i b;
     if err \<noteq> 0 then Some err else do {
     o' \<leftarrow> fdt_off_dt_strings b;
     t \<leftarrow> fdt_totalsize b;
     Some (if o' \<noteq> t then - FDT_ERR_BADSTATE else 0) } }"

definition sw_flags :: "blob \<Rightarrow> u32 option" where
  "sw_flags b = fdt_last_comp_version b"

text \<open>The comparison is in \<open>size_t\<close>; the result is a pointer or null.\<close>

definition fdt_grab_space_i :: "blob \<Rightarrow> u64 \<Rightarrow> (int option \<times> blob) option" where
  "fdt_grab_space_i b len = do {
     offset \<leftarrow> fdt_size_dt_struct b;
     t \<leftarrow> fdt_totalsize b; s \<leftarrow> fdt_off_dt_struct b; z \<leftarrow> fdt_size_dt_strings b;
     let spaceleft = t - s - z;
     if ucast offset + len < ucast offset \<or> ucast offset + len > ucast spaceleft then Some (None, b) else do {
     b \<leftarrow> fdt_set_size_dt_struct b (ucast (ucast offset + len));
     p \<leftarrow> fdt_offset_ptr_i b (uint offset);
     Some (Some p, b) } }"

section \<open>Creating a tree\<close>

definition fdt_create_with_flags :: "blob \<Rightarrow> int \<Rightarrow> u32 \<Rightarrow> (int \<times> blob) option" where
  "fdt_create_with_flags b bufsize flags = (let hdrsize = size_to_int (FDT_ALIGN 40 16) in
     if bufsize < hdrsize then Some (- FDT_ERR_NOSPACE, b)
     else if flags AND NOT FDT_CREATE_FLAGS_ALL \<noteq> 0 then Some (- FDT_ERR_BADFLAGS, b) else do {
     b \<leftarrow> wr b 0 (replicate (nat bufsize) 0);
     b \<leftarrow> fdt_set_magic b FDT_SW_MAGIC;
     b \<leftarrow> fdt_set_version b FDT_LAST_SUPPORTED_VERSION;
     b \<leftarrow> fdt_set_last_comp_version b flags;
     b \<leftarrow> fdt_set_totalsize b (to_uint bufsize);
     b \<leftarrow> fdt_set_off_mem_rsvmap b (to_uint hdrsize);
     r \<leftarrow> fdt_off_mem_rsvmap b;
     b \<leftarrow> fdt_set_off_dt_struct b r;
     b \<leftarrow> fdt_set_off_dt_strings b 0;
     Some (0, b) })"

definition fdt_create :: "blob \<Rightarrow> int \<Rightarrow> (int \<times> blob) option" where
  "fdt_create b bufsize = fdt_create_with_flags b bufsize 0"

definition fdt_add_reservemap_entry :: "blob \<Rightarrow> u64 \<Rightarrow> u64 \<Rightarrow> (int \<times> blob) option" where
  "fdt_add_reservemap_entry b addr sz = do {
     err \<leftarrow> fdt_sw_probe_memrsv_i b;
     if err \<noteq> 0 then Some (err, b) else do {
     st \<leftarrow> fdt_off_dt_struct b;
     let offset = to_int (uint st);
     t \<leftarrow> fdt_totalsize b;
     if (word_of_int offset + 16 :: u64) > ucast t then Some (- FDT_ERR_NOSPACE, b) else do {
     b \<leftarrow> store64 b offset (cpu_to_fdt64 addr);
     b \<leftarrow> store64 b (offset + 8) (cpu_to_fdt64 sz);
     b \<leftarrow> fdt_set_off_dt_struct b (to_uint (offset + 16));
     Some (0, b) } } }"

definition fdt_finish_reservemap :: "blob \<Rightarrow> (int \<times> blob) option" where
  "fdt_finish_reservemap b = do {
     (err, b) \<leftarrow> fdt_add_reservemap_entry b 0 0;
     if err \<noteq> 0 then Some (err, b) else do {
     t \<leftarrow> fdt_totalsize b;
     b \<leftarrow> fdt_set_off_dt_strings b t;
     Some (0, b) } }"

section \<open>Nodes and properties\<close>

definition fdt_begin_node :: "blob \<Rightarrow> u8 list \<Rightarrow> (int \<times> blob) option" where
  "fdt_begin_node b name = do {
     err \<leftarrow> fdt_sw_probe_struct_i b;
     if err \<noteq> 0 then Some (err, b) else do {
     l \<leftarrow> strlen name;
     let namelen = l + 1;
     (nh, b) \<leftarrow> fdt_grab_space_i b (4 + FDT_TAGALIGN (int namelen));
     case nh of None \<Rightarrow> Some (- FDT_ERR_NOSPACE, b)
     | Some p \<Rightarrow> do {
       b \<leftarrow> store32 b p (cpu_to_fdt32 FDT_BEGIN_NODE);
       b \<leftarrow> memcpy b (p + 4) name namelen;
       Some (0, b) } } }"

definition fdt_end_node :: "blob \<Rightarrow> (int \<times> blob) option" where
  "fdt_end_node b = do {
     err \<leftarrow> fdt_sw_probe_struct_i b;
     if err \<noteq> 0 then Some (err, b) else do {
     (en, b) \<leftarrow> fdt_grab_space_i b 4;
     case en of None \<Rightarrow> Some (- FDT_ERR_NOSPACE, b)
     | Some p \<Rightarrow> do { b \<leftarrow> store32 b p (cpu_to_fdt32 FDT_END_NODE); Some (0, b) } } }"

definition fdt_add_string_i :: "blob \<Rightarrow> u8 list \<Rightarrow> (int \<times> blob) option" where
  "fdt_add_string_i b s = do {
     strtab \<leftarrow> fdt_totalsize b;
     strtabsize \<leftarrow> fdt_size_dt_strings b;
     l \<leftarrow> strlen s;
     let len = (of_nat (l + 1) :: u32);
     let offset = strtabsize + len;
     st \<leftarrow> fdt_off_dt_struct b; z \<leftarrow> fdt_size_dt_struct b;
     let struct_top = st + z;
     if strtab - offset < struct_top then Some (0, b) else do {
     b \<leftarrow> memcpy b (uint strtab - uint offset) s (unat len);
     b \<leftarrow> fdt_set_size_dt_strings b (strtabsize + len);
     Some (to_int (uint (- offset)), b) } }"

definition sw_del_last_string_i :: "blob \<Rightarrow> u8 list \<Rightarrow> blob option" where
  "sw_del_last_string_i b s = do {
     strtabsize \<leftarrow> fdt_size_dt_strings b;
     l \<leftarrow> strlen s;
     fdt_set_size_dt_strings b (to_uint (to_int (uint strtabsize) - int (l + 1))) }"

definition sw_find_add_string_i :: "blob \<Rightarrow> u8 list \<Rightarrow> (int \<times> bool \<times> blob) option" where
  "sw_find_add_string_i b s = do {
     strtab \<leftarrow> fdt_totalsize b;
     z \<leftarrow> fdt_size_dt_strings b;
     let strtabsize = to_int (uint z);
     p \<leftarrow> fdt_find_string_i (from_ptr b (uint strtab - strtabsize)) strtabsize s;
     case p of Some k \<Rightarrow> Some (int k - strtabsize, False, b)
     | None \<Rightarrow> do { (r, b) \<leftarrow> fdt_add_string_i b s; Some (r, True, b) } }"

text \<open>The result is an error or the pointer to the value.\<close>

definition fdt_property_placeholder :: "blob \<Rightarrow> u8 list \<Rightarrow> int \<Rightarrow> ((int + int) \<times> blob) option" where
  "fdt_property_placeholder b name len = do {
     err \<leftarrow> fdt_sw_probe_struct_i b;
     if err \<noteq> 0 then Some (Inl err, b) else do {
     fl \<leftarrow> sw_flags b;
     (nameoff, allocated, b) \<leftarrow> (if fl AND FDT_CREATE_FLAG_NO_NAME_DEDUP \<noteq> 0
       then do { (r, b) \<leftarrow> fdt_add_string_i b name; Some (r, True, b) }
       else sw_find_add_string_i b name);
     if nameoff = 0 then Some (Inl (- FDT_ERR_NOSPACE), b) else do {
     (prop, b) \<leftarrow> fdt_grab_space_i b (12 + FDT_TAGALIGN len);
     case prop of None \<Rightarrow> do {
       b \<leftarrow> (if allocated then sw_del_last_string_i b name else Some b);
       Some (Inl (- FDT_ERR_NOSPACE), b) }
     | Some p \<Rightarrow> do {
       b \<leftarrow> store32 b p (cpu_to_fdt32 FDT_PROP);
       b \<leftarrow> store32 b (p + 8) (cpu_to_fdt32 (to_uint nameoff));
       b \<leftarrow> store32 b (p + 4) (cpu_to_fdt32 (to_uint len));
       Some (Inr (p + 12), b) } } } }"

definition fdt_property :: "blob \<Rightarrow> u8 list \<Rightarrow> u8 list \<Rightarrow> int \<Rightarrow> (int \<times> blob) option" where
  "fdt_property b name val len = do {
     (r, b) \<leftarrow> fdt_property_placeholder b name len;
     case r of Inl err \<Rightarrow> Some (err, b)
     | Inr p \<Rightarrow> do { b \<leftarrow> memcpy b p val (unat (word_of_int len :: u64)); Some (0, b) } }"

section \<open>Finishing\<close>

text \<open>The walk that corrects the name offsets; the result is the last next offset.\<close>

partial_function (option) finish_loop :: "blob \<Rightarrow> int \<Rightarrow> (int \<times> blob) option" where
  "finish_loop b offset = do {
     (tag, nextoffset) \<leftarrow> fdt_next_tag b offset;
     if tag \<noteq> FDT_END then do {
       b \<leftarrow> (if tag = FDT_PROP then do {
           p \<leftarrow> fdt_offset_ptr_i b offset;
           n \<leftarrow> fdt32_ld_i b (p + 8);
           z \<leftarrow> fdt_size_dt_strings b;
           store32 b (p + 8) (cpu_to_fdt32 (n + z)) }
         else Some b);
       finish_loop b nextoffset }
     else Some (nextoffset, b) }"

declare finish_loop.simps [code]

definition fdt_finish :: "blob \<Rightarrow> (int \<times> blob) option" where
  "fdt_finish b = do {
     err \<leftarrow> fdt_sw_probe_struct_i b;
     if err \<noteq> 0 then Some (err, b) else do {
     (en, b) \<leftarrow> fdt_grab_space_i b 4;
     case en of None \<Rightarrow> Some (- FDT_ERR_NOSPACE, b)
     | Some p \<Rightarrow> do {
       b \<leftarrow> store32 b p (cpu_to_fdt32 FDT_END);
       t \<leftarrow> fdt_totalsize b; z \<leftarrow> fdt_size_dt_strings b;
       s \<leftarrow> fdt_off_dt_struct b; y \<leftarrow> fdt_size_dt_struct b;
       let oldstroffset = to_int (uint (t - z));
       let newstroffset = to_int (uint (s + y));
       b \<leftarrow> memmove b newstroffset oldstroffset (unat z);
       b \<leftarrow> fdt_set_off_dt_strings b (to_uint newstroffset);
       (nextoffset, b) \<leftarrow> finish_loop b 0;
       if nextoffset < 0 then Some (nextoffset, b) else do {
       z \<leftarrow> fdt_size_dt_strings b;
       b \<leftarrow> fdt_set_totalsize b (to_uint newstroffset + z);
       b \<leftarrow> fdt_set_last_comp_version b FDT_LAST_COMPATIBLE_VERSION;
       b \<leftarrow> fdt_set_magic b FDT_MAGIC;
       Some (0, b) } } } }"

end
