(* ===== verification/Bytes.thy ===== *)
theory Bytes
  imports KPrelude
begin

text \<open>
  Parts of byte buffers: \<open>chunk xs off n\<close> is the part of a buffer that starts at an offset, and
  \<open>patch xs off ys\<close> the buffer after a copy to that offset, which is \<open>memcpy\<close> in C and
  \<open>copy_from_slice\<close> in Rust where the range lies inside the buffer.
\<close>

definition chunk :: "'a list \<Rightarrow> nat \<Rightarrow> nat \<Rightarrow> 'a list" where
  "chunk xs off n = take n (drop off xs)"

definition patch :: "'a list \<Rightarrow> nat \<Rightarrow> 'a list \<Rightarrow> 'a list" where
  "patch xs off ys = take off xs @ ys @ drop (off + length ys) xs"

named_theorems buf \<open>lengths and parts of buffers\<close>

lemma length_chunk [simp, buf]: "off + n \<le> length xs \<Longrightarrow> length (chunk xs off n) = n"
  by (simp add: chunk_def)

lemma length_patch [simp, buf]: "off + length ys \<le> length xs \<Longrightarrow> length (patch xs off ys) = length xs"
  by (simp add: patch_def)

lemma chunk_0 [simp]: "chunk xs off 0 = []"
  by (simp add: chunk_def)

lemma patch_Nil [simp]: "patch xs off [] = xs"
  by (simp add: patch_def)

lemma chunk_all [simp]: "length xs = n \<Longrightarrow> chunk xs 0 n = xs"
  by (simp add: chunk_def)

lemma patch_all [simp]: "length ys = length xs \<Longrightarrow> patch xs 0 ys = ys"
  by (simp add: patch_def)

lemma nth_chunk [buf]: "i < n \<Longrightarrow> off + n \<le> length xs \<Longrightarrow> chunk xs off n ! i = xs ! (off + i)"
  by (simp add: chunk_def)

lemma nth_patch [buf]:
  "off + length ys \<le> length xs \<Longrightarrow> i < length xs \<Longrightarrow>
   patch xs off ys ! i = (if off \<le> i \<and> i < off + length ys then ys ! (i - off) else xs ! i)"
  by (auto simp: patch_def nth_append min_def)

lemma chunk_append: "chunk xs off (n + m) = chunk xs off n @ chunk xs (off + n) m"
  by (simp only: chunk_def take_add drop_drop add.commute [of n off])

lemma chunk_chunk: "a + n \<le> m \<Longrightarrow> chunk (chunk xs off m) a n = chunk xs (off + a) n"
  by (simp add: chunk_def drop_take add.commute min_def)

lemma take_chunk: "n \<le> m \<Longrightarrow> take n (chunk xs off m) = chunk xs off n"
  by (simp add: chunk_def min_def)

lemma chunk_patch_same [simp]:
  "off + length ys \<le> length xs \<Longrightarrow> length ys = n \<Longrightarrow> chunk (patch xs off ys) off n = ys"
  by (simp add: chunk_def patch_def min_def)

lemma chunk_eqI:
  "length xs = length ys \<Longrightarrow> off + n \<le> length xs \<Longrightarrow> (\<And>i. off \<le> i \<Longrightarrow> i < off + n \<Longrightarrow> xs ! i = ys ! i) \<Longrightarrow>
   chunk xs off n = chunk ys off n"
  by (rule nth_equalityI) (simp_all add: nth_chunk)

lemma chunk_patch_disjoint:
  "off + length ys \<le> length xs \<Longrightarrow> a + n \<le> length xs \<Longrightarrow> a + n \<le> off \<or> off + length ys \<le> a \<Longrightarrow>
   chunk (patch xs off ys) a n = chunk xs a n"
  by (rule chunk_eqI) (auto simp: nth_patch)

lemma patch_patch_adjacent:
  "off + length ys + length zs \<le> length xs \<Longrightarrow>
   patch (patch xs off ys) (off + length ys) zs = patch xs off (ys @ zs)"
  by (rule nth_equalityI) (auto simp: nth_patch nth_append)

lemma patch_same_place:
  "off + length ys \<le> length xs \<Longrightarrow> length zs = length ys \<Longrightarrow> patch (patch xs off ys) off zs = patch xs off zs"
  by (rule nth_equalityI) (auto simp: nth_patch)

lemma patch_chunk_inner:
  "off + n \<le> length xs \<Longrightarrow> a + length ys \<le> n \<Longrightarrow> patch xs off (patch (chunk xs off n) a ys) = patch xs (off + a) ys"
  by (rule nth_equalityI) (auto simp: nth_patch nth_chunk)

lemma patch_own_chunk [simp]: "off + n \<le> length xs \<Longrightarrow> patch xs off (chunk xs off n) = xs"
  by (rule nth_equalityI) (auto simp: nth_patch nth_chunk)

lemma patch_within:
  "off + length zs \<le> length xs \<Longrightarrow> a + length ys \<le> length zs \<Longrightarrow>
   patch (patch xs off zs) (off + a) ys = patch xs off (patch zs a ys)"
  by (rule nth_equalityI) (auto simp: nth_patch)

end
