(* ===== verification/Block_Driver.thy ===== *)
theory Block_Driver
  imports Bytes
begin

text \<open>
  The block drivers of the kernel (\<open>driver.rs\<close>, \<open>block/virtio/driver.rs\<close>) and the two layers that
  give lwext4 its device: \<open>BlockDeviceImpls\<close> of \<open>fs/ext4/superblock.rs\<close> and the callbacks
  \<open>dev_open\<close>, \<open>dev_bread\<close>, \<open>dev_bwrite\<close> and \<open>dev_close\<close> of \<open>lwext4_rust/src/blockdev.rs\<close>.

  A driver object \<open>Arc<dyn BlockDriverOps>\<close> is its table of methods with the object they work on.
  The two methods that reach the hardware, \<open>read_block\<close> and \<open>write_block\<close>, end in a third-party
  crate and are parameters: each returns whether it succeeded, the new contents of its buffer and
  the new state of the device. A panic of the Rust code is the value \<open>None\<close>.
\<close>

section \<open>Driver objects\<close>

record 'd block_driver =
  read_block :: "'d \<Rightarrow> u64 \<Rightarrow> u8 list \<Rightarrow> bool \<times> u8 list \<times> 'd"
  write_block :: "'d \<Rightarrow> u64 \<Rightarrow> u8 list \<Rightarrow> bool \<times> 'd"
  get_block_size :: u32
  get_block_count :: u64
  obj :: 'd

text \<open>
  The loop of \<open>read_at\<close>. The case of block size zero ends the recursion; the code never gets there,
  because the division in front of the loop panics.
\<close>

function read_loop ::
  "nat \<Rightarrow> 'd block_driver \<Rightarrow> u64 \<Rightarrow> u8 list \<Rightarrow> u8 list \<Rightarrow> nat \<Rightarrow> nat \<Rightarrow>
   (bool \<times> u8 list \<times> 'd block_driver) option" where
  "read_loop bs D block block_buf buf buf_offset len =
    (if len = 0 then Some (True, buf, D)
     else if bs = 0 then None
     else case read_block D (obj D) block block_buf of (ok, block_buf, x) \<Rightarrow>
       let D = D\<lparr>obj := x\<rparr>; read_size = min len bs in
       if \<not> ok then Some (False, buf, D)
       else if length block_buf < read_size \<or> length buf < buf_offset + read_size then None
       else read_loop bs D (block + 1) block_buf (patch buf buf_offset (take read_size block_buf))
              (buf_offset + read_size) (len - read_size))"
  by auto
termination by (relation "measure (\<lambda>(_, _, _, _, _, _, len). len)") auto

function write_loop ::
  "nat \<Rightarrow> 'd block_driver \<Rightarrow> u64 \<Rightarrow> u8 list \<Rightarrow> u8 list \<Rightarrow> nat \<Rightarrow> nat \<Rightarrow>
   (bool \<times> 'd block_driver) option" where
  "write_loop bs D block block_buf buf buf_offset len =
    (if len = 0 then Some (True, D)
     else if bs = 0 then None
     else case read_block D (obj D) block block_buf of (ok, block_buf, x) \<Rightarrow>
       let D = D\<lparr>obj := x\<rparr>; write_size = min len bs in
       if \<not> ok then Some (False, D)
       else if length block_buf < write_size \<or> length buf < buf_offset + write_size then None
       else
         let block_buf = patch block_buf 0 (chunk buf buf_offset write_size) in
         case write_block D (obj D) block block_buf of (ok, x) \<Rightarrow>
           let D = D\<lparr>obj := x\<rparr> in
           if \<not> ok then Some (False, D)
           else write_loop bs D (block + 1) block_buf buf (buf_offset + write_size) (len - write_size))"
  by auto
termination by (relation "measure (\<lambda>(_, _, _, _, _, _, len). len)") auto

declare read_loop.simps [simp del] write_loop.simps [simp del]

text \<open>The default methods \<open>read_at\<close> and \<open>write_at\<close> of the trait \<open>BlockDriverOps\<close>.\<close>

definition read_at :: "'d block_driver \<Rightarrow> u64 \<Rightarrow> u8 list \<Rightarrow> (bool \<times> u8 list \<times> 'd block_driver) option" where
  "read_at D offset buf =
    (let bs = unat (get_block_size D) in
     if bs = 0 then None else
     let len = length buf; block = offset div of_nat bs; block_buf = replicate 512 0;
         block_offset = unat offset mod bs
     in if block_offset \<noteq> 0
        then if 512 < bs then None else
          case read_block D (obj D) block (take bs block_buf) of (ok, part, x) \<Rightarrow>
          let D = D\<lparr>obj := x\<rparr>; read_size = min (bs - block_offset) len in
          if \<not> ok then Some (False, buf, D)
          else let block_buf = patch block_buf 0 part in
               if length block_buf < block_offset + read_size then None
               else read_loop bs D (block + 1) block_buf (patch buf 0 (chunk block_buf block_offset read_size))
                      read_size (len - read_size)
        else read_loop bs D block block_buf buf 0 len)"

definition write_at :: "'d block_driver \<Rightarrow> u64 \<Rightarrow> u8 list \<Rightarrow> (bool \<times> 'd block_driver) option" where
  "write_at D offset buf =
    (let bs = unat (get_block_size D) in
     if bs = 0 then None else
     let len = length buf; block = offset div of_nat bs; block_buf = replicate 512 0;
         block_offset = unat offset mod bs
     in if block_offset \<noteq> 0
        then case read_block D (obj D) block block_buf of (ok, block_buf, x) \<Rightarrow>
          let D = D\<lparr>obj := x\<rparr>; write_size = min (bs - block_offset) len in
          if \<not> ok then Some (False, D)
          else if length block_buf < block_offset + write_size then None
          else let block_buf = patch block_buf block_offset (chunk buf 0 write_size) in
            case write_block D (obj D) block block_buf of (ok, x) \<Rightarrow>
            let D = D\<lparr>obj := x\<rparr> in
            if \<not> ok then Some (False, D)
            else write_loop bs D (block + 1) block_buf buf write_size (len - write_size)
        else write_loop bs D block block_buf buf 0 len)"

section \<open>The device of the file system\<close>

definition EXT4_DEV_BSIZE :: u32 where "EXT4_DEV_BSIZE = 512"

definition EIO :: int where "EIO = 5"

definition num_blocks :: "'d block_driver \<Rightarrow> u64" where
  "num_blocks D = ucast (get_block_size D) * get_block_count D div ucast EXT4_DEV_BSIZE"

definition read_blocks :: "'d block_driver \<Rightarrow> u64 \<Rightarrow> u8 list \<Rightarrow> (bool \<times> u8 list \<times> 'd block_driver) option" where
  "read_blocks D block_id buf = read_at D (block_id * ucast EXT4_DEV_BSIZE) buf"

definition write_blocks :: "'d block_driver \<Rightarrow> u64 \<Rightarrow> u8 list \<Rightarrow> (bool \<times> 'd block_driver) option" where
  "write_blocks D block_id buf = write_at D (block_id * ucast EXT4_DEV_BSIZE) buf"

section \<open>What a driver promises\<close>

text \<open>
  \<open>driver_laws medium D\<close> states what the code relies on: blocks of 512 bytes, a read that leaves the
  medium alone and, when it succeeds, returns the block, a write that changes no other block and,
  when it succeeds, stores its buffer. A read or write that fails says nothing about the buffer or
  about the contents of the block.
\<close>

definition driver_laws :: "('d \<Rightarrow> u8 list) \<Rightarrow> 'd block_driver \<Rightarrow> bool" where
  "driver_laws medium D \<longleftrightarrow>
     get_block_size D = 512 \<and> unat (get_block_count D) * 512 < 2 ^ 63 \<and>
     (\<forall>x. length (medium x) = unat (get_block_count D) * 512) \<and>
     (\<forall>x b b_buf. b < get_block_count D \<longrightarrow> length b_buf = 512 \<longrightarrow>
        (case read_block D x b b_buf of (ok, b_buf', x') \<Rightarrow>
           medium x' = medium x \<and> length b_buf' = 512 \<and>
           (ok \<longrightarrow> b_buf' = chunk (medium x) (512 * unat b) 512))) \<and>
     (\<forall>x b b_buf. b < get_block_count D \<longrightarrow> length b_buf = 512 \<longrightarrow>
        (case write_block D x b b_buf of (ok, x') \<Rightarrow>
           \<exists>ys. length ys = 512 \<and> (ok \<longrightarrow> ys = b_buf) \<and> medium x' = patch (medium x) (512 * unat b) ys))"

lemma driver_laws_obj [simp]: "driver_laws m (D\<lparr>obj := x\<rparr>) = driver_laws m D"
  by (simp add: driver_laws_def)

lemma driver_size: "driver_laws m D \<Longrightarrow> get_block_size D = 512"
  by (simp add: driver_laws_def)

lemma driver_length: "driver_laws m D \<Longrightarrow> length (m x) = unat (get_block_count D) * 512"
  by (simp add: driver_laws_def)

lemma driver_length_bound: "driver_laws m D \<Longrightarrow> length (m x) < 2 ^ 63"
  by (simp add: driver_laws_def)

lemma driver_same_length: "driver_laws m D \<Longrightarrow> length (m x) = length (m y)"
  by (simp add: driver_laws_def)

lemma block_in_range:
  assumes "driver_laws m D" and "512 * unat b < length (m x)"
  shows "b < get_block_count D" and "512 * unat b + 512 \<le> length (m x)"
  using assms driver_length [OF assms(1), of x] by (auto simp: word_less_nat_alt)

lemma driver_read:
  assumes laws: "driver_laws m D" and b: "512 * unat b < length (m x)" and "length b_buf = 512"
  obtains ok b_buf' x' where "read_block D x b b_buf = (ok, b_buf', x')" and "m x' = m x"
    and "length b_buf' = 512" and "ok \<Longrightarrow> b_buf' = chunk (m x) (512 * unat b) 512"
proof -
  obtain ok b_buf' x' where r: "read_block D x b b_buf = (ok, b_buf', x')" by (metis prod_cases3)
  have "case read_block D x b b_buf of (ok, b_buf', x') \<Rightarrow>
      m x' = m x \<and> length b_buf' = 512 \<and> (ok \<longrightarrow> b_buf' = chunk (m x) (512 * unat b) 512)"
    using laws block_in_range(1) [OF laws b] assms(3) by (simp add: driver_laws_def)
  with r that show thesis by simp
qed

lemma driver_write:
  assumes laws: "driver_laws m D" and b: "512 * unat b < length (m x)" and "length b_buf = 512"
  obtains ok x' ys where "write_block D x b b_buf = (ok, x')" and "length ys = 512" and "ok \<Longrightarrow> ys = b_buf"
    and "m x' = patch (m x) (512 * unat b) ys"
proof -
  obtain ok x' where r: "write_block D x b b_buf = (ok, x')" by fastforce
  have "case write_block D x b b_buf of (ok, x') \<Rightarrow>
      \<exists>ys. length ys = 512 \<and> (ok \<longrightarrow> ys = b_buf) \<and> m x' = patch (m x) (512 * unat b) ys"
    using laws block_in_range(1) [OF laws b] assms(3) by (simp add: driver_laws_def)
  with r that show thesis by auto
qed

lemma unat_next_block:
  fixes b :: u64
  assumes "driver_laws m D" and "512 * unat b < length (m x)"
  shows "unat (b + 1) = unat b + 1"
  using block_in_range(1) [OF assms] unat_plus1_less by fastforce

section \<open>The loops read and write the medium\<close>

lemma read_loop_reads:
  assumes "driver_laws m D" and "512 * unat block + len \<le> length (m (obj D))" and "length block_buf = 512"
    and "buf_offset + len \<le> length b"
  shows "\<exists>ok b' x. read_loop 512 D block block_buf b buf_offset len = Some (ok, b', D\<lparr>obj := x\<rparr>) \<and>
      m x = m (obj D) \<and> length b' = length b \<and>
      (ok \<longrightarrow> b' = patch b buf_offset (chunk (m (obj D)) (512 * unat block) len))"
  using assms
proof (induction len arbitrary: D block block_buf b buf_offset rule: less_induct)
  case (less len)
  show ?case
  proof (cases "len = 0")
    case True
    then show ?thesis
      by (intro exI [of _ True] exI [of _ b] exI [of _ "obj D"]) (simp add: read_loop.simps)
  next
    case False
    let ?n = "min len 512"
    have lt: "512 * unat block < length (m (obj D))" using less.prems(2) False by linarith
    obtain ok bb x where r: "read_block D (obj D) block block_buf = (ok, bb, x)" "m x = m (obj D)" "length bb = 512"
      "ok \<Longrightarrow> bb = chunk (m (obj D)) (512 * unat block) 512"
      by (rule driver_read [OF less.prems(1) lt less.prems(3)]) blast
    show ?thesis
    proof (cases ok)
      case False
      with \<open>len \<noteq> 0\<close> r show ?thesis
        by (intro exI [of _ False] exI [of _ b] exI [of _ x]) (simp add: read_loop.simps)
    next
      case True
      have nb: "unat (block + 1) = unat block + 1" by (rule unat_next_block [OF less.prems(1) lt])
      let ?b = "patch b buf_offset (take ?n bb)"
      have lb: "length ?b = length b" using less.prems(4) r(3) by simp
      have fits: "\<not> length b < buf_offset + ?n" using less.prems(4) by simp
      have step: "read_loop 512 D block block_buf b buf_offset len =
          read_loop 512 (D\<lparr>obj := x\<rparr>) (block + 1) bb ?b (buf_offset + ?n) (len - ?n)"
        using \<open>len \<noteq> 0\<close> True r(1,3) fits by (subst read_loop.simps) (simp add: Let_def)
      have len_le: "512 * unat (block + 1) + (len - ?n) \<le> length (m x)"
        using nb r(2) less.prems(2) block_in_range(2) [OF less.prems(1) lt] by auto
      obtain ok' b' x' where IH: "read_loop 512 (D\<lparr>obj := x\<rparr>) (block + 1) bb ?b (buf_offset + ?n) (len - ?n) =
          Some (ok', b', D\<lparr>obj := x'\<rparr>)" "m x' = m x" "length b' = length b"
          "ok' \<longrightarrow> b' = patch ?b (buf_offset + ?n) (chunk (m x) (512 * unat (block + 1)) (len - ?n))"
        using less.IH [of "len - ?n" "D\<lparr>obj := x\<rparr>" "block + 1" bb "buf_offset + ?n" ?b]
          len_le \<open>len \<noteq> 0\<close> less.prems(1,4) r(3) lb by auto
      have "b' = patch b buf_offset (chunk (m (obj D)) (512 * unat block) len)" if ok'
      proof (cases "len \<le> 512")
        case True
        with IH(4) that r \<open>ok\<close> show ?thesis by (simp add: take_chunk)
      next
        case False
        then have eq: "chunk (m (obj D)) (512 * unat block) len =
            chunk (m (obj D)) (512 * unat block) 512 @ chunk (m (obj D)) (512 * unat (block + 1)) (len - 512)"
          using chunk_append [of "m (obj D)" "512 * unat block" 512 "len - 512"] nb by (simp add: add.commute)
        have l: "length (chunk (m (obj D)) (512 * unat block) 512) = 512"
          using less.prems(2) False by simp
        have l2: "length (chunk (m (obj D)) (512 * unat (block + 1)) (len - 512)) = len - 512"
          using less.prems(2) False nb by simp
        show ?thesis
          using IH(4) that r \<open>ok\<close> False patch_patch_adjacent [of buf_offset "chunk (m (obj D)) (512 * unat block) 512"
              "chunk (m (obj D)) (512 * unat (block + 1)) (len - 512)" b] less.prems(4) l l2
          by (simp add: eq min_def)
      qed
      with step IH r(2) show ?thesis by auto
    qed
  qed
qed


lemma write_loop_step:
  assumes laws: "driver_laws m D" and lt: "512 * unat block < length (m (obj D))" and "length block_buf = 512"
    and fits: "buf_offset + len \<le> length b" and "len \<noteq> 0"
  obtains (failed) x ys where "write_loop 512 D block block_buf b buf_offset len = Some (False, D\<lparr>obj := x\<rparr>)"
      and "length ys = 512" and "m x = patch (m (obj D)) (512 * unat block) ys"
    | (written) x bb where "write_loop 512 D block block_buf b buf_offset len =
        write_loop 512 (D\<lparr>obj := x\<rparr>) (block + 1) bb b (buf_offset + min len 512) (len - min len 512)"
      and "length bb = 512" and "m x = patch (m (obj D)) (512 * unat block) (chunk b buf_offset (min len 512))"
proof -
  let ?M = "m (obj D)" and ?o = "512 * unat block" and ?n = "min len 512"
  have sector: "?o + 512 \<le> length ?M" by (rule block_in_range(2) [OF laws lt])
  have in_b: "\<not> length b < buf_offset + ?n" using fits by simp
  obtain ok bb x where r: "read_block D (obj D) block block_buf = (ok, bb, x)" "m x = ?M" "length bb = 512"
    "ok \<Longrightarrow> bb = chunk ?M ?o 512"
    by (rule driver_read [OF laws lt assms(3)]) blast
  let ?bb = "patch bb 0 (chunk b buf_offset ?n)"
  have lbb: "length ?bb = 512" using r(3) fits by simp
  have lt': "?o < length (m x)" using lt r(2) by simp
  obtain ok' x' ys where w: "write_block D x block ?bb = (ok', x')" "length ys = 512" "ok' \<Longrightarrow> ys = ?bb"
    "m x' = patch (m x) ?o ys"
    by (rule driver_write [OF laws lt' lbb]) blast
  consider "\<not> ok" | "ok" "\<not> ok'" | "ok" "ok'" by blast
  then show thesis
  proof cases
    case 1
    with r \<open>len \<noteq> 0\<close> sector show thesis
      by (intro failed [of x "chunk ?M ?o 512"]) (simp_all add: write_loop.simps)
  next
    case 2
    with r w \<open>len \<noteq> 0\<close> in_b show thesis
      by (intro failed [of x' ys]) (simp_all add: write_loop.simps Let_def)
  next
    case 3
    have "patch ?M ?o (patch (chunk ?M ?o 512) 0 (chunk b buf_offset ?n)) = patch ?M (?o + 0) (chunk b buf_offset ?n)"
      using sector fits by (intro patch_chunk_inner) auto
    then have "m x' = patch ?M ?o (chunk b buf_offset ?n)" using 3 w(3,4) r(2,4) by simp
    moreover have "write_loop 512 D block block_buf b buf_offset len =
        write_loop 512 (D\<lparr>obj := x'\<rparr>) (block + 1) ?bb b (buf_offset + ?n) (len - ?n)"
      using 3 r(1,3) w(1) \<open>len \<noteq> 0\<close> in_b by (subst write_loop.simps) (simp add: Let_def)
    ultimately show thesis using lbb by (intro written [of x' ?bb])
  qed
qed

lemma patch_first_part:
  assumes "length ys = n" and "n \<le> len" and "off + len \<le> length M"
  shows "patch M off (ys @ chunk M (off + n) (len - n)) = patch M off ys"
    and "length (ys @ chunk M (off + n) (len - n)) = len"
proof -
  let ?P = "patch M off ys"
  have "chunk ?P (off + n) (len - n) = chunk M (off + n) (len - n)"
    using assms by (intro chunk_patch_disjoint) auto
  moreover have "patch ?P (off + n) (chunk ?P (off + n) (len - n)) = ?P"
    using assms by (intro patch_own_chunk) auto
  ultimately show "patch M off (ys @ chunk M (off + n) (len - n)) = ?P"
    using assms patch_patch_adjacent [of off ys "chunk M (off + n) (len - n)" M] by simp
qed (use assms in simp)

lemma patch_both_parts:
  assumes "length ys = min len 512" and "length zs = len - min len 512" and "512 * n + len \<le> length M"
  shows "patch (patch M (512 * n) ys) (512 * (n + 1)) zs = patch M (512 * n) (ys @ zs)"
proof (cases "len \<le> 512")
  case False
  then show ?thesis using assms patch_patch_adjacent [of "512 * n" ys zs M] by (simp add: add.commute)
qed (use assms in simp)

lemma write_loop_writes:
  assumes "driver_laws m D" and "512 * unat block + len \<le> length (m (obj D))" and "length block_buf = 512"
    and "buf_offset + len \<le> length b"
  shows "\<exists>ok x. write_loop 512 D block block_buf b buf_offset len = Some (ok, D\<lparr>obj := x\<rparr>) \<and>
      (ok \<longrightarrow> m x = patch (m (obj D)) (512 * unat block) (chunk b buf_offset len)) \<and>
      (512 dvd len \<longrightarrow> (\<exists>ys. length ys = len \<and> m x = patch (m (obj D)) (512 * unat block) ys))"
  using assms
proof (induction len arbitrary: D block block_buf buf_offset rule: less_induct)
  case (less len)
  show ?case
  proof (cases "len = 0")
    case True
    then show ?thesis
      by (intro exI [of _ True] exI [of _ "obj D"]) (simp add: write_loop.simps)
  next
    case False
    let ?n = "min len 512" and ?M = "m (obj D)" and ?o = "512 * unat block"
    have lt: "?o < length ?M" using less.prems(2) False by linarith
    show ?thesis
    proof (cases rule: write_loop_step [OF less.prems(1) lt less.prems(3,4) False])
      case (1 x ys)
      have "\<exists>zs. length zs = len \<and> m x = patch ?M ?o zs" if "512 dvd len"
      proof -
        have "512 \<le> len" using that False by (simp add: dvd_imp_le)
        from patch_first_part [OF 1(2) this less.prems(2)] 1(3) show ?thesis by metis
      qed
      with 1(1) show ?thesis by (intro exI [of _ False] exI [of _ x]) simp
    next
      case (2 x bb)
      have nb: "unat (block + 1) = unat block + 1" by (rule unat_next_block [OF less.prems(1) lt])
      have "512 * unat (block + 1) + (len - ?n) \<le> length (m x)"
        using nb less.prems(2) block_in_range(2) [OF less.prems(1) lt] driver_same_length [OF less.prems(1), of x "obj D"]
        by auto
      then obtain ok y where IH: "write_loop 512 (D\<lparr>obj := x\<rparr>) (block + 1) bb b (buf_offset + ?n) (len - ?n) =
            Some (ok, D\<lparr>obj := y\<rparr>)"
          "ok \<longrightarrow> m y = patch (m x) (512 * unat (block + 1)) (chunk b (buf_offset + ?n) (len - ?n))"
          "512 dvd len - ?n \<longrightarrow> (\<exists>ys. length ys = len - ?n \<and> m y = patch (m x) (512 * unat (block + 1)) ys)"
        using less.IH [of "len - ?n" "D\<lparr>obj := x\<rparr>" "block + 1" bb "buf_offset + ?n"] False less.prems(1,4) 2(2) by auto
      have join: "patch (m x) (512 * unat (block + 1)) zs = patch ?M ?o (chunk b buf_offset ?n @ zs)"
        if "length zs = len - ?n" for zs
        using patch_both_parts [of "chunk b buf_offset ?n" len zs "unat block" ?M] that less.prems(2,4) 2(3) nb by simp
      have good: "m y = patch ?M ?o (chunk b buf_offset len)" if ok
        using IH(2) that join [of "chunk b (buf_offset + ?n) (len - ?n)"] less.prems(4)
          chunk_append [of b buf_offset ?n "len - ?n"] by simp
      have any: "\<exists>ys. length ys = len \<and> m y = patch ?M ?o ys" if "512 dvd len"
      proof -
        have ge: "512 \<le> len" using that False by (simp add: dvd_imp_le)
        then have "512 dvd len - ?n" using that by (simp add: min_def dvd_diff_nat)
        with IH(3) obtain ys where ys: "length ys = len - ?n" "m y = patch (m x) (512 * unat (block + 1)) ys" by blast
        with join [of ys] ge less.prems(4) show ?thesis
          by (intro exI [of _ "chunk b buf_offset ?n @ ys"]) simp
      qed
      from 2(1) IH(1) good any show ?thesis by (intro exI [of _ ok] exI [of _ y]) simp
    qed
  qed
qed

lemma read_loop_from:
  assumes "driver_laws m D" and "512 * unat block + len \<le> length (m x)" and "length block_buf = 512"
    and "buf_offset + len \<le> length b"
  shows "\<exists>ok b' y. read_loop 512 (D\<lparr>obj := x\<rparr>) block block_buf b buf_offset len = Some (ok, b', D\<lparr>obj := y\<rparr>) \<and>
      m y = m x \<and> length b' = length b \<and>
      (ok \<longrightarrow> b' = patch b buf_offset (chunk (m x) (512 * unat block) len))"
  using read_loop_reads [of m "D\<lparr>obj := x\<rparr>" block len block_buf buf_offset b] assms by simp

lemma write_loop_from:
  assumes "driver_laws m D" and "512 * unat block + len \<le> length (m x)" and "length block_buf = 512"
    and "buf_offset + len \<le> length b"
  shows "\<exists>ok y. write_loop 512 (D\<lparr>obj := x\<rparr>) block block_buf b buf_offset len = Some (ok, D\<lparr>obj := y\<rparr>) \<and>
      (ok \<longrightarrow> m y = patch (m x) (512 * unat block) (chunk b buf_offset len)) \<and>
      (512 dvd len \<longrightarrow> (\<exists>ys. length ys = len \<and> m y = patch (m x) (512 * unat block) ys))"
  using write_loop_writes [of m "D\<lparr>obj := x\<rparr>" block len block_buf buf_offset b] assms by simp

text \<open>The first block of a range that does not start at a block boundary.\<close>

lemma first_block:
  fixes offset :: u64
  assumes laws: "driver_laws m D" and fits: "unat offset + len \<le> length (m x)" and off: "unat offset mod 512 \<noteq> 0"
  defines "block \<equiv> offset div of_nat 512" and "n \<equiv> min (512 - unat offset mod 512) len"
  shows "512 * unat block < length (m x)" and "512 * unat block + 512 \<le> length (m x)"
    and "unat (block + 1) = unat block + 1" and "512 * unat (block + 1) + (len - n) \<le> length (m x)"
    and "512 * unat block + unat offset mod 512 = unat offset"
    and "len - n \<noteq> 0 \<Longrightarrow> 512 * unat (block + 1) = unat offset + n"
proof -
  have eq: "512 * unat block + unat offset mod 512 = unat offset"
    by (simp add: block_def unat_div)
  then show "512 * unat block + unat offset mod 512 = unat offset" .
  have "512 dvd length (m x)" using driver_length [OF laws, of x] by simp
  moreover have "\<not> 512 dvd unat offset" using off by (simp add: mod_eq_0_iff_dvd)
  ultimately have "unat offset < length (m x)" using fits by (metis add_leD1 le_neq_implies_less)
  with eq show lt: "512 * unat block < length (m x)" by linarith
  show sector: "512 * unat block + 512 \<le> length (m x)" by (rule block_in_range(2) [OF laws lt])
  show nb: "unat (block + 1) = unat block + 1" by (rule unat_next_block [OF laws lt])
  show "512 * unat (block + 1) = unat offset + n" if "len - n \<noteq> 0"
    using that nb eq off by (simp add: n_def min_def split: if_splits)
  then show "512 * unat (block + 1) + (len - n) \<le> length (m x)"
    using nb sector fits by (cases "len - n = 0") (auto simp: n_def)
qed

lemma read_at_reads:
  assumes laws: "driver_laws m D" and fits: "unat offset + length b \<le> length (m (obj D))"
  shows "\<exists>ok b' x. read_at D offset b = Some (ok, b', D\<lparr>obj := x\<rparr>) \<and> m x = m (obj D) \<and>
      length b' = length b \<and> (ok \<longrightarrow> b' = chunk (m (obj D)) (unat offset) (length b))"
proof (cases "unat offset mod 512 = 0")
  case True
  then have "512 * (unat offset div 512) = unat offset" by (simp add: mod_eq_0_iff_dvd)
  with read_loop_reads [OF laws, of "offset div of_nat 512" "length b" "replicate 512 0" 0 b] fits True show ?thesis
    by (simp add: read_at_def driver_size [OF laws] unat_div Let_def)
next
  case off: False
  let ?M = "m (obj D)" and ?bo = "unat offset mod 512" and ?block = "offset div of_nat 512 :: u64"
  let ?n = "min (512 - ?bo) (length b)"
  note first = first_block [OF laws fits off]
  obtain ok bb x where r: "read_block D (obj D) ?block (replicate 512 0) = (ok, bb, x)" "m x = ?M" "length bb = 512"
    "ok \<Longrightarrow> bb = chunk ?M (512 * unat ?block) 512"
    by (rule driver_read [OF laws first(1), where b_buf = "replicate 512 0"]) auto
  have in_bb: "?bo + ?n \<le> 512" using mod_less_divisor [of 512 "unat offset"] by linarith
  show ?thesis
  proof (cases ok)
    case False
    then show ?thesis using r off
      by (intro exI [of _ False] exI [of _ b] exI [of _ x]) (simp add: read_at_def driver_size [OF laws] Let_def)
  next
    case True
    let ?b = "patch b 0 (chunk bb ?bo ?n)"
    have part: "chunk bb ?bo ?n = chunk ?M (unat offset) ?n"
      using r(4) [OF True] chunk_chunk [OF in_bb, of ?M "512 * unat ?block"] first(5) by simp
    have lb: "length ?b = length b" and ln: "length (chunk bb ?bo ?n) = ?n" using r(3) in_bb by simp_all
    have step: "read_at D offset b = read_loop 512 (D\<lparr>obj := x\<rparr>) (?block + 1) bb ?b ?n (length b - ?n)"
      using True r off in_bb by (simp add: read_at_def driver_size [OF laws] Let_def)
    have in_b: "?n + (length b - ?n) \<le> length ?b" using lb by simp
    obtain ok' b' y where loop: "read_loop 512 (D\<lparr>obj := x\<rparr>) (?block + 1) bb ?b ?n (length b - ?n) =
          Some (ok', b', D\<lparr>obj := y\<rparr>)" "m y = ?M" "length b' = length b"
        "ok' \<longrightarrow> b' = patch ?b ?n (chunk ?M (512 * unat (?block + 1)) (length b - ?n))"
      using read_loop_from [OF laws first(4) [folded r(2)] r(3) in_b] unfolding lb r(2) by blast
    have "b' = chunk ?M (unat offset) (length b)" if ok'
    proof -
      have tail: "chunk ?M (512 * unat (?block + 1)) (length b - ?n) = chunk ?M (unat offset + ?n) (length b - ?n)"
        using first(6) by (cases "length b - ?n = 0") simp_all
      have "b' = patch b 0 (chunk ?M (unat offset) ?n @ chunk ?M (unat offset + ?n) (length b - ?n))"
        using patch_patch_adjacent [of 0 "chunk bb ?bo ?n" "chunk ?M (unat offset + ?n) (length b - ?n)" b]
          loop(4) that tail ln part fits by simp
      also have "\<dots> = patch b 0 (chunk ?M (unat offset) (length b))"
        using chunk_append [of ?M "unat offset" ?n "length b - ?n"] by simp
      finally show ?thesis using fits by simp
    qed
    with step [unfolded loop(1)] loop(2,3) show ?thesis by blast
  qed
qed

lemma write_at_writes:
  assumes laws: "driver_laws m D" and fits: "unat offset + length b \<le> length (m (obj D))"
  shows "\<exists>ok x. write_at D offset b = Some (ok, D\<lparr>obj := x\<rparr>) \<and>
      (ok \<longrightarrow> m x = patch (m (obj D)) (unat offset) b) \<and>
      (512 dvd unat offset \<and> 512 dvd length b \<longrightarrow>
        (\<exists>ys. length ys = length b \<and> m x = patch (m (obj D)) (unat offset) ys))"
proof (cases "unat offset mod 512 = 0")
  case True
  then have "512 * (unat offset div 512) = unat offset" by (simp add: mod_eq_0_iff_dvd)
  with write_loop_writes [OF laws, of "offset div of_nat 512" "length b" "replicate 512 0" 0 b] fits True show ?thesis
    by (simp add: write_at_def driver_size [OF laws] unat_div Let_def mod_eq_0_iff_dvd)
next
  case off: False
  let ?M = "m (obj D)" and ?bo = "unat offset mod 512" and ?block = "offset div of_nat 512 :: u64"
  let ?n = "min (512 - ?bo) (length b)"
  let ?o = "512 * unat ?block"
  note first = first_block [OF laws fits off]
  have unaligned: "\<not> 512 dvd unat offset" using off by (simp add: mod_eq_0_iff_dvd)
  obtain ok bb x where r: "read_block D (obj D) ?block (replicate 512 0) = (ok, bb, x)" "m x = ?M" "length bb = 512"
    "ok \<Longrightarrow> bb = chunk ?M ?o 512"
    by (rule driver_read [OF laws first(1), where b_buf = "replicate 512 0"]) auto
  have in_bb: "?bo + ?n \<le> 512" using mod_less_divisor [of 512 "unat offset"] by linarith
  let ?bb = "patch bb ?bo (chunk b 0 ?n)"
  have lbb: "length ?bb = 512" and lt: "?o < length (m x)" using r(2,3) in_bb first(1) by simp_all
  obtain ok' y ys where w: "write_block D x ?block ?bb = (ok', y)" "length ys = 512" "ok' \<Longrightarrow> ys = ?bb"
    "m y = patch (m x) ?o ys"
    by (rule driver_write [OF laws lt lbb]) blast
  consider "\<not> ok" | "ok" "\<not> ok'" | "ok" "ok'" by blast
  then show ?thesis
  proof cases
    case 1
    with r(1) off unaligned show ?thesis
      by (intro exI [of _ False] exI [of _ x]) (simp add: write_at_def driver_size [OF laws] Let_def)
  next
    case 2
    with r(1,3) w(1) off in_bb unaligned show ?thesis
      by (intro exI [of _ False] exI [of _ y]) (simp add: write_at_def driver_size [OF laws] Let_def)
  next
    case 3
    have my: "m y = patch ?M (unat offset) (chunk b 0 ?n)"
      using 3 w(3,4) r(2,4) patch_chunk_inner [of ?o 512 ?M ?bo "chunk b 0 ?n"] first(2,5) in_bb by simp
    have ly: "length (m y) = length ?M" by (rule driver_same_length [OF laws])
    have step: "write_at D offset b = write_loop 512 (D\<lparr>obj := y\<rparr>) (?block + 1) ?bb b ?n (length b - ?n)"
      using 3 r(1,3) w(1) off in_bb by (simp add: write_at_def driver_size [OF laws] Let_def)
    have in_b: "?n + (length b - ?n) \<le> length b" by simp
    obtain ok2 z where loop: "write_loop 512 (D\<lparr>obj := y\<rparr>) (?block + 1) ?bb b ?n (length b - ?n) = Some (ok2, D\<lparr>obj := z\<rparr>)"
        "ok2 \<longrightarrow> m z = patch (m y) (512 * unat (?block + 1)) (chunk b ?n (length b - ?n))"
      using write_loop_from [OF laws first(4) [folded ly] lbb in_b] by blast
    have "m z = patch ?M (unat offset) b" if ok2
    proof -
      have "m z = patch (m y) (unat offset + ?n) (chunk b ?n (length b - ?n))"
        using loop(2) that first(6) by (cases "length b - ?n = 0") simp_all
      also have "\<dots> = patch ?M (unat offset) (chunk b 0 ?n @ chunk b ?n (length b - ?n))"
        using patch_patch_adjacent [of "unat offset" "chunk b 0 ?n" "chunk b ?n (length b - ?n)" ?M] fits my by simp
      also have "chunk b 0 ?n @ chunk b ?n (length b - ?n) = b"
        using chunk_append [of b 0 ?n "length b - ?n"] by simp
      finally show ?thesis .
    qed
    with step [unfolded loop(1)] unaligned show ?thesis by blast
  qed
qed

end
