(* ===== verification/Ext4_Blockdev.thy ===== *)
theory Ext4_Blockdev
  imports Block_Driver
begin

text \<open>
  The block device and the buffer cache of lwext4 (\<open>ext4_blockdev.c\<close>, \<open>ext4_bcache.c\<close>,
  \<open>ext4_trans.c\<close>) on top of the callbacks of \<open>lwext4_rust/src/blockdev.rs\<close>.

  The state holds the device interface, the cache and the heap of buffers: a pointer to a
  \<open>struct ext4_buf\<close> is an address of that heap, and freeing a buffer removes it. The two
  red-black trees of the cache are the sequences of their nodes in order, and the dirty list is the
  list of its nodes. \<open>None\<close> is a panic, undefined behaviour, an assertion of the source that does
  not hold, or a loop that does not end. The kernel opens no journal, so no buffer has an
  \<open>end_write\<close> callback and a block is made dirty at once.
\<close>

section \<open>State\<close>

record 'd ext4_blockdev_iface =
  ph_bsize :: u32
  ph_bcnt :: u64
  ph_bbuf :: "u8 list"
  ph_refctr :: u32
  bread_ctr :: u32
  bwrite_ctr :: u32
  p_user :: "'d block_driver"

record ext4_buf =
  buf_flags :: u32
  lba :: u64
  buf_data :: "u8 list"
  lru_id :: u32
  refctr :: u32
  on_dirty_list :: bool

record ext4_bcache =
  bc_cnt :: u32
  itemsize :: u32
  lru_ctr :: u32
  ref_blocks :: u32
  max_ref_blocks :: u32
  dont_shake :: bool
  lba_root :: "nat list"
  lru_root :: "nat list"
  dirty_list :: "nat list"

text \<open>
  \<open>bufs\<close> is the heap of buffers and \<open>buf_next\<close> the next free address. \<open>buf_mem\<close> gives the outcome
  of the allocations to come: nothing when \<open>ext4_malloc\<close> fails, and otherwise what the new memory
  happens to hold.
\<close>

record 'd ext4_blockdev =
  bdif :: "'d ext4_blockdev_iface"
  part_offset :: u64
  part_size :: u64
  bc :: ext4_bcache
  lg_bsize :: u32
  lg_bcnt :: u64
  cache_write_back :: u32
  bufs :: "nat \<Rightarrow> ext4_buf option"
  buf_next :: nat
  buf_mem :: "nat \<Rightarrow> (nat \<Rightarrow> u8) option"

record ext4_block =
  lb_id :: u64
  b_buf :: "nat option"

definition EOK :: int where "EOK = 0"
definition ENXIO :: int where "ENXIO = 6"
definition ENOMEM :: int where "ENOMEM = 12"
definition EINVAL :: int where "EINVAL = 22"

section \<open>Callbacks of the device\<close>

definition dev_open :: "'d ext4_blockdev \<Rightarrow> int \<times> 'd ext4_blockdev" where
  "dev_open s =
    (let n = num_blocks (p_user (bdif s)) in
     (EOK, s\<lparr>bdif := (bdif s)\<lparr>ph_bcnt := n\<rparr>, part_offset := 0, part_size := n * ucast (ph_bsize (bdif s))\<rparr>))"

definition dev_bread ::
  "'d ext4_blockdev \<Rightarrow> u8 list \<Rightarrow> u64 \<Rightarrow> u32 \<Rightarrow> (int \<times> u8 list \<times> 'd ext4_blockdev) option" where
  "dev_bread s buf blk_id blk_cnt =
    (if blk_cnt = 0 then Some (EOK, buf, s) else
     let buf_len = unat (ph_bsize (bdif s) * blk_cnt) in
     if length buf < buf_len then None else do {
       (ok, part, D) \<leftarrow> read_blocks (p_user (bdif s)) blk_id (take buf_len buf);
       Some (if ok then EOK else EIO, patch buf 0 part, s\<lparr>bdif := (bdif s)\<lparr>p_user := D\<rparr>\<rparr>) })"

definition dev_bwrite ::
  "'d ext4_blockdev \<Rightarrow> u8 list \<Rightarrow> u64 \<Rightarrow> u32 \<Rightarrow> (int \<times> 'd ext4_blockdev) option" where
  "dev_bwrite s buf blk_id blk_cnt =
    (if blk_cnt = 0 then Some (EOK, s) else
     let buf_len = unat (ph_bsize (bdif s) * blk_cnt) in
     if length buf < buf_len then None else do {
       (ok, D) \<leftarrow> write_blocks (p_user (bdif s)) blk_id (take buf_len buf);
       Some (if ok then EOK else EIO, s\<lparr>bdif := (bdif s)\<lparr>p_user := D\<rparr>\<rparr>) })"

definition dev_close :: "'d ext4_blockdev \<Rightarrow> int" where
  "dev_close s = EOK"

section \<open>Block device\<close>

definition ext4_bdif_bread ::
  "'d ext4_blockdev \<Rightarrow> u8 list \<Rightarrow> u64 \<Rightarrow> u32 \<Rightarrow> (int \<times> u8 list \<times> 'd ext4_blockdev) option" where
  "ext4_bdif_bread s buf blk_id blk_cnt = do {
     (r, buf, s) \<leftarrow> dev_bread s buf blk_id blk_cnt;
     Some (r, buf, s\<lparr>bdif := (bdif s)\<lparr>bread_ctr := bread_ctr (bdif s) + 1\<rparr>\<rparr>) }"

definition ext4_bdif_bwrite ::
  "'d ext4_blockdev \<Rightarrow> u8 list \<Rightarrow> u64 \<Rightarrow> u32 \<Rightarrow> (int \<times> 'd ext4_blockdev) option" where
  "ext4_bdif_bwrite s buf blk_id blk_cnt = do {
     (r, s) \<leftarrow> dev_bwrite s buf blk_id blk_cnt;
     Some (r, s\<lparr>bdif := (bdif s)\<lparr>bwrite_ctr := bwrite_ctr (bdif s) + 1\<rparr>\<rparr>) }"

definition ext4_block_init :: "'d ext4_blockdev \<Rightarrow> int \<times> 'd ext4_blockdev" where
  "ext4_block_init s =
    (if ph_refctr (bdif s) \<noteq> 0
     then (EOK, s\<lparr>bdif := (bdif s)\<lparr>ph_refctr := ph_refctr (bdif s) + 1\<rparr>\<rparr>)
     else case dev_open s of (rc, s) \<Rightarrow>
       if rc \<noteq> EOK then (rc, s) else (EOK, s\<lparr>bdif := (bdif s)\<lparr>ph_refctr := 1\<rparr>\<rparr>))"

definition ext4_block_set_lb_size :: "'d ext4_blockdev \<Rightarrow> u32 \<Rightarrow> 'd ext4_blockdev option" where
  "ext4_block_set_lb_size s lb_bsize =
    (if ph_bsize (bdif s) = 0 \<or> lb_bsize = 0 \<or> lb_bsize mod ph_bsize (bdif s) \<noteq> 0 then None
     else Some (s\<lparr>lg_bsize := lb_bsize, lg_bcnt := part_size s div ucast lb_bsize\<rparr>))"

definition ext4_block_fini :: "'d ext4_blockdev \<Rightarrow> int \<times> 'd ext4_blockdev" where
  "ext4_block_fini s =
    (if ph_refctr (bdif s) = 0 then (EOK, s)
     else let s = s\<lparr>bdif := (bdif s)\<lparr>ph_refctr := ph_refctr (bdif s) - 1\<rparr>\<rparr> in
          if ph_refctr (bdif s) \<noteq> 0 then (EOK, s) else (dev_close s, s))"

definition ext4_blocks_get_direct ::
  "'d ext4_blockdev \<Rightarrow> u8 list \<Rightarrow> u64 \<Rightarrow> u32 \<Rightarrow> (int \<times> u8 list \<times> 'd ext4_blockdev) option" where
  "ext4_blocks_get_direct s buf lb cnt =
    (if ph_bsize (bdif s) = 0 then None else
     let pba = (lb * ucast (lg_bsize s) + part_offset s) div ucast (ph_bsize (bdif s));
         pb_cnt = lg_bsize s div ph_bsize (bdif s)
     in ext4_bdif_bread s buf pba (pb_cnt * cnt))"

definition ext4_blocks_set_direct ::
  "'d ext4_blockdev \<Rightarrow> u8 list \<Rightarrow> u64 \<Rightarrow> u32 \<Rightarrow> (int \<times> 'd ext4_blockdev) option" where
  "ext4_blocks_set_direct s buf lb cnt =
    (if ph_bsize (bdif s) = 0 then None else
     let pba = (lb * ucast (lg_bsize s) + part_offset s) div ucast (ph_bsize (bdif s));
         pb_cnt = lg_bsize s div ph_bsize (bdif s)
     in ext4_bdif_bwrite s buf pba (pb_cnt * cnt))"

text \<open>
  The two steps that the byte functions repeat: changing a part of one physical block through the
  buffer \<open>ph_bbuf\<close>, and reading a part of one.
\<close>

definition rmw_block :: "'d ext4_blockdev \<Rightarrow> u64 \<Rightarrow> nat \<Rightarrow> u8 list \<Rightarrow> (int \<times> 'd ext4_blockdev) option" where
  "rmw_block s block_idx off xs = do {
     (r, bb, s) \<leftarrow> ext4_bdif_bread s (ph_bbuf (bdif s)) block_idx 1;
     let s = s\<lparr>bdif := (bdif s)\<lparr>ph_bbuf := bb\<rparr>\<rparr>;
     if r \<noteq> EOK then Some (r, s)
     else if length bb < off + length xs then None
     else let bb = patch bb off xs
          in ext4_bdif_bwrite (s\<lparr>bdif := (bdif s)\<lparr>ph_bbuf := bb\<rparr>\<rparr>) bb block_idx 1 }"

definition read_part ::
  "'d ext4_blockdev \<Rightarrow> u64 \<Rightarrow> nat \<Rightarrow> nat \<Rightarrow> (int \<times> u8 list \<times> 'd ext4_blockdev) option" where
  "read_part s block_idx off n = do {
     (r, bb, s) \<leftarrow> ext4_bdif_bread s (ph_bbuf (bdif s)) block_idx 1;
     let s = s\<lparr>bdif := (bdif s)\<lparr>ph_bbuf := bb\<rparr>\<rparr>;
     if r \<noteq> EOK then Some (r, [], s)
     else if length bb < off + n then None
     else Some (r, chunk bb off n, s) }"

text \<open>
  The byte functions run in three steps: the first block if the range starts inside it, the blocks
  that lie in the range, and the rest. Between the steps they carry the position \<open>p\<close> in the buffer,
  the bytes left and the number of the next block.
\<close>

definition unalg_of :: "'d ext4_blockdev \<Rightarrow> u64 \<Rightarrow> u32" where
  "unalg_of s off = ucast (off AND ucast (ph_bsize (bdif s) - 1))"

definition write_head ::
  "'d ext4_blockdev \<Rightarrow> u64 \<Rightarrow> u8 list \<Rightarrow> u32 \<Rightarrow> (int \<times> 'd ext4_blockdev \<times> nat \<times> u32 \<times> u64) option" where
  "write_head s off buf len =
    (let bsize = ph_bsize (bdif s); block_idx = (off + part_offset s) div ucast bsize; unalg = unalg_of s off in
     if unalg \<noteq> 0 then do {
       let wlen = (if bsize - unalg > len then len else bsize - unalg);
       (r, s) \<leftarrow> rmw_block s block_idx (unat unalg) (take (unat wlen) buf);
       Some (r, s, unat wlen, len - wlen, block_idx + 1) }
     else Some (EOK, s, 0, len, block_idx))"

definition write_body ::
  "'d ext4_blockdev \<Rightarrow> u8 list \<Rightarrow> nat \<Rightarrow> u32 \<Rightarrow> u64 \<Rightarrow> (int \<times> 'd ext4_blockdev \<times> nat \<times> u32 \<times> u64) option" where
  "write_body s buf p len block_idx =
    (let bsize = ph_bsize (bdif s); blen = len div bsize in
     if blen \<noteq> 0 then do {
       (r, s) \<leftarrow> ext4_bdif_bwrite s (drop p buf) block_idx blen;
       Some (r, s, p + unat (bsize * blen), len - bsize * blen, block_idx + ucast blen) }
     else Some (EOK, s, p, len, block_idx))"

definition ext4_block_writebytes ::
  "'d ext4_blockdev \<Rightarrow> u64 \<Rightarrow> u8 list \<Rightarrow> u32 \<Rightarrow> (int \<times> 'd ext4_blockdev) option" where
  "ext4_block_writebytes s off buf len =
    (if ph_refctr (bdif s) = 0 then Some (EIO, s)
     else if off + ucast len > part_size s then Some (EINVAL, s)
     else if ph_bsize (bdif s) = 0 \<or> length buf < unat len then None
     else do {
       (r, s, p, len, block_idx) \<leftarrow> write_head s off buf len;
       if r \<noteq> EOK then Some (r, s) else do {
         (r, s, p, len, block_idx) \<leftarrow> write_body s buf p len block_idx;
         if r \<noteq> EOK then Some (r, s)
         else if len \<noteq> 0 then rmw_block s block_idx 0 (chunk buf p (unat len))
         else Some (r, s) } })"

definition read_head ::
  "'d ext4_blockdev \<Rightarrow> u64 \<Rightarrow> u8 list \<Rightarrow> u32 \<Rightarrow> (int \<times> u8 list \<times> 'd ext4_blockdev \<times> nat \<times> u32 \<times> u64) option" where
  "read_head s off buf len =
    (let bsize = ph_bsize (bdif s); block_idx = (off + part_offset s) div ucast bsize; unalg = unalg_of s off in
     if unalg \<noteq> 0 then do {
       let rlen = (if bsize - unalg > len then len else bsize - unalg);
       (r, xs, s) \<leftarrow> read_part s block_idx (unat unalg) (unat rlen);
       Some (r, patch buf 0 xs, s, unat rlen, len - rlen, block_idx + 1) }
     else Some (EOK, buf, s, 0, len, block_idx))"

definition read_body ::
  "'d ext4_blockdev \<Rightarrow> u8 list \<Rightarrow> nat \<Rightarrow> u32 \<Rightarrow> u64 \<Rightarrow> (int \<times> u8 list \<times> 'd ext4_blockdev \<times> nat \<times> u32 \<times> u64) option" where
  "read_body s buf p len block_idx =
    (let bsize = ph_bsize (bdif s); blen = len div bsize in
     if blen \<noteq> 0 then do {
       (r, xs, s) \<leftarrow> ext4_bdif_bread s (drop p buf) block_idx blen;
       Some (r, patch buf p xs, s, p + unat (bsize * blen), len - bsize * blen, block_idx + ucast blen) }
     else Some (EOK, buf, s, p, len, block_idx))"

definition ext4_block_readbytes ::
  "'d ext4_blockdev \<Rightarrow> u64 \<Rightarrow> u8 list \<Rightarrow> u32 \<Rightarrow> (int \<times> u8 list \<times> 'd ext4_blockdev) option" where
  "ext4_block_readbytes s off buf len =
    (if ph_refctr (bdif s) = 0 then Some (EIO, buf, s)
     else if off + ucast len > part_size s then Some (EINVAL, buf, s)
     else if ph_bsize (bdif s) = 0 \<or> length buf < unat len then None
     else do {
       (r, buf, s, p, len, block_idx) \<leftarrow> read_head s off buf len;
       if r \<noteq> EOK then Some (r, buf, s) else do {
         (r, buf, s, p, len, block_idx) \<leftarrow> read_body s buf p len block_idx;
         if r \<noteq> EOK then Some (r, buf, s)
         else if len \<noteq> 0 then do {
           (r, xs, s) \<leftarrow> read_part s block_idx 0 (unat len);
           Some (r, patch buf p xs, s) }
         else Some (r, buf, s) } })"

section \<open>Trees and lists of buffers\<close>

text \<open>
  A tree of \<open>misc/tree.h\<close> as the sequence of its nodes in the order of a key. \<open>RB_INSERT\<close> leaves the
  tree alone when it has a node with the same key. Removing a node that is not in the tree or in the
  list writes through dangling links.
\<close>

definition rb_insert :: "(nat \<Rightarrow> 'k::linorder) \<Rightarrow> nat \<Rightarrow> nat list \<Rightarrow> nat list" where
  "rb_insert key a xs = (if key a \<in> key ` set xs then xs else insort_key key a xs)"

definition unlink_node :: "nat \<Rightarrow> nat list \<Rightarrow> nat list option" where
  "unlink_node a xs = (if a \<in> set xs then Some (remove1 a xs) else None)"

definition lba_key :: "'d ext4_blockdev \<Rightarrow> nat \<Rightarrow> u64" where
  "lba_key s a = (case bufs s a of None \<Rightarrow> 0 | Some b \<Rightarrow> lba b)"

definition lru_key :: "'d ext4_blockdev \<Rightarrow> nat \<Rightarrow> u32" where
  "lru_key s a = (case bufs s a of None \<Rightarrow> 0 | Some b \<Rightarrow> lru_id b)"

definition upd_buf :: "'d ext4_blockdev \<Rightarrow> nat \<Rightarrow> (ext4_buf \<Rightarrow> ext4_buf) \<Rightarrow> 'd ext4_blockdev" where
  "upd_buf s a f = s\<lparr>bufs := (bufs s)(a := map_option f (bufs s a))\<rparr>"

section \<open>Flags and the dirty list\<close>

definition BC_UPTODATE :: nat where "BC_UPTODATE = 0"
definition BC_DIRTY :: nat where "BC_DIRTY = 1"
definition BC_FLUSH :: nat where "BC_FLUSH = 2"
definition BC_TMP :: nat where "BC_TMP = 3"

definition ext4_bcache_set_flag :: "nat \<Rightarrow> ext4_buf \<Rightarrow> ext4_buf" where
  "ext4_bcache_set_flag n b = b\<lparr>buf_flags := buf_flags b OR push_bit n 1\<rparr>"

definition ext4_bcache_clear_flag :: "nat \<Rightarrow> ext4_buf \<Rightarrow> ext4_buf" where
  "ext4_bcache_clear_flag n b = b\<lparr>buf_flags := buf_flags b AND NOT (push_bit n 1)\<rparr>"

definition ext4_bcache_test_flag :: "ext4_buf \<Rightarrow> nat \<Rightarrow> bool" where
  "ext4_bcache_test_flag b n = (drop_bit n (buf_flags b AND push_bit n 1) \<noteq> 0)"

definition ext4_bcache_set_dirty :: "ext4_buf \<Rightarrow> ext4_buf" where
  "ext4_bcache_set_dirty b = ext4_bcache_set_flag BC_DIRTY (ext4_bcache_set_flag BC_UPTODATE b)"

definition ext4_bcache_clear_dirty :: "ext4_buf \<Rightarrow> ext4_buf" where
  "ext4_bcache_clear_dirty b = ext4_bcache_clear_flag BC_DIRTY (ext4_bcache_clear_flag BC_UPTODATE b)"

definition ext4_bcache_insert_dirty_node :: "'d ext4_blockdev \<Rightarrow> nat \<Rightarrow> 'd ext4_blockdev option" where
  "ext4_bcache_insert_dirty_node s a = do {
     b \<leftarrow> bufs s a;
     if on_dirty_list b then Some s
     else Some (upd_buf (s\<lparr>bc := (bc s)\<lparr>dirty_list := a # dirty_list (bc s)\<rparr>\<rparr>) a (on_dirty_list_update (\<lambda>_. True))) }"

definition ext4_bcache_remove_dirty_node :: "'d ext4_blockdev \<Rightarrow> nat \<Rightarrow> 'd ext4_blockdev option" where
  "ext4_bcache_remove_dirty_node s a = do {
     b \<leftarrow> bufs s a;
     if on_dirty_list b then do {
       l \<leftarrow> unlink_node a (dirty_list (bc s));
       Some (upd_buf (s\<lparr>bc := (bc s)\<lparr>dirty_list := l\<rparr>\<rparr>) a (on_dirty_list_update (\<lambda>_. False))) }
     else Some s }"

section \<open>Buffers\<close>

definition ext4_bcache_init_dynamic :: "u32 \<Rightarrow> u32 \<Rightarrow> ext4_bcache option" where
  "ext4_bcache_init_dynamic cnt isize =
    (if cnt = 0 \<or> isize = 0 then None
     else Some \<lparr>bc_cnt = cnt, itemsize = isize, lru_ctr = 0, ref_blocks = 0, max_ref_blocks = 0,
       dont_shake = False, lba_root = [], lru_root = [], dirty_list = []\<rparr>)"

definition ext4_bcache_fini_dynamic :: ext4_bcache where
  "ext4_bcache_fini_dynamic = \<lparr>bc_cnt = 0, itemsize = 0, lru_ctr = 0, ref_blocks = 0, max_ref_blocks = 0,
     dont_shake = False, lba_root = [], lru_root = [], dirty_list = []\<rparr>"

definition ext4_buf_alloc :: "'d ext4_blockdev \<Rightarrow> u64 \<Rightarrow> (nat option \<times> 'd ext4_blockdev)" where
  "ext4_buf_alloc s lb =
    (let a = buf_next s; s = s\<lparr>buf_next := Suc a\<rparr> in
     case buf_mem s a of
       None \<Rightarrow> (None, s)
     | Some mem \<Rightarrow> (Some a, s\<lparr>bufs := (bufs s)(a \<mapsto>
         \<lparr>buf_flags = 0, lba = lb, buf_data = map mem [0..<unat (itemsize (bc s))],
          lru_id = 0, refctr = 0, on_dirty_list = False\<rparr>)\<rparr>))"

definition ext4_buf_free :: "'d ext4_blockdev \<Rightarrow> nat \<Rightarrow> 'd ext4_blockdev" where
  "ext4_buf_free s a = s\<lparr>bufs := (bufs s)(a := None)\<rparr>"

definition ext4_buf_lookup :: "'d ext4_blockdev \<Rightarrow> u64 \<Rightarrow> nat option" where
  "ext4_buf_lookup s lb = find (\<lambda>a. lba_key s a = lb) (lba_root (bc s))"

definition ext4_buf_lowest_lru :: "'d ext4_blockdev \<Rightarrow> nat option" where
  "ext4_buf_lowest_lru s = (case lru_root (bc s) of [] \<Rightarrow> None | a # _ \<Rightarrow> Some a)"

definition ext4_bcache_is_full :: "ext4_bcache \<Rightarrow> bool" where
  "ext4_bcache_is_full c = (bc_cnt c \<le> ref_blocks c)"

definition ext4_bcache_drop_buf :: "'d ext4_blockdev \<Rightarrow> nat \<Rightarrow> 'd ext4_blockdev option" where
  "ext4_bcache_drop_buf s a = do {
     b \<leftarrow> bufs s a;
     s \<leftarrow> (if refctr b \<noteq> 0 then Some s
          else do { l \<leftarrow> unlink_node a (lru_root (bc s)); Some (s\<lparr>bc := (bc s)\<lparr>lru_root := l\<rparr>\<rparr>) });
     l \<leftarrow> unlink_node a (lba_root (bc s));
     let s = s\<lparr>bc := (bc s)\<lparr>lba_root := l\<rparr>\<rparr>;
     s \<leftarrow> (if ext4_bcache_test_flag b BC_DIRTY then ext4_bcache_remove_dirty_node s a else Some s);
     let s = ext4_buf_free s a;
     Some (s\<lparr>bc := (bc s)\<lparr>ref_blocks := ref_blocks (bc s) - 1\<rparr>\<rparr>) }"

definition ext4_bcache_invalidate_buf :: "'d ext4_blockdev \<Rightarrow> nat \<Rightarrow> 'd ext4_blockdev option" where
  "ext4_bcache_invalidate_buf s a = do {
     b \<leftarrow> bufs s a;
     s \<leftarrow> (if ext4_bcache_test_flag b BC_DIRTY then ext4_bcache_remove_dirty_node s a else Some s);
     Some (upd_buf s a ext4_bcache_clear_dirty) }"

fun invalidate_from :: "'d ext4_blockdev \<Rightarrow> u64 \<Rightarrow> nat list \<Rightarrow> 'd ext4_blockdev option" where
  "invalidate_from s e [] = Some s"
| "invalidate_from s e (a # as) =
    (if lba_key s a > e then Some s
     else do { s \<leftarrow> ext4_bcache_invalidate_buf s a; invalidate_from s e as })"

definition ext4_bcache_invalidate_lba :: "'d ext4_blockdev \<Rightarrow> u64 \<Rightarrow> u32 \<Rightarrow> 'd ext4_blockdev option" where
  "ext4_bcache_invalidate_lba s from cnt =
    (let e = from + ucast cnt - 1 in
     case ext4_buf_lookup s from of
       None \<Rightarrow> Some s
     | Some a \<Rightarrow> invalidate_from s e (dropWhile (\<lambda>x. x \<noteq> a) (lba_root (bc s))))"

definition ext4_bcache_find_get ::
  "'d ext4_blockdev \<Rightarrow> ext4_block \<Rightarrow> u64 \<Rightarrow> (nat option \<times> ext4_block \<times> 'd ext4_blockdev) option" where
  "ext4_bcache_find_get s b lb =
    (case ext4_buf_lookup s lb of
       None \<Rightarrow> Some (None, b, s)
     | Some a \<Rightarrow> do {
         bf \<leftarrow> bufs s a;
         s \<leftarrow> (if refctr bf = 0 then do {
                let s = s\<lparr>bc := (bc s)\<lparr>lru_ctr := lru_ctr (bc s) + 1\<rparr>\<rparr>;
                let s = upd_buf s a (lru_id_update (\<lambda>_. lru_ctr (bc s)));
                l \<leftarrow> unlink_node a (lru_root (bc s));
                let s = s\<lparr>bc := (bc s)\<lparr>lru_root := l\<rparr>\<rparr>;
                if ext4_bcache_test_flag bf BC_DIRTY then ext4_bcache_remove_dirty_node s a else Some s }
              else Some s);
         Some (Some a, b\<lparr>lb_id := lb, b_buf := Some a\<rparr>, upd_buf s a (\<lambda>bf. bf\<lparr>refctr := refctr bf + 1\<rparr>)) })"

definition ext4_bcache_alloc ::
  "'d ext4_blockdev \<Rightarrow> ext4_block \<Rightarrow> (int \<times> bool \<times> ext4_block \<times> 'd ext4_blockdev) option" where
  "ext4_bcache_alloc s b = do {
     (found, b, s) \<leftarrow> ext4_bcache_find_get s b (lb_id b);
     if found \<noteq> None then Some (EOK, False, b, s)
     else case ext4_buf_alloc s (lb_id b) of
       (None, s) \<Rightarrow> Some (ENOMEM, False, b, s)
     | (Some a, s) \<Rightarrow>
         let c = bc s;
             c = c\<lparr>lba_root := rb_insert (lba_key s) a (lba_root c), ref_blocks := ref_blocks c + 1\<rparr>;
             c = (if max_ref_blocks c < ref_blocks c then c\<lparr>max_ref_blocks := ref_blocks c\<rparr> else c);
             c = c\<lparr>lru_ctr := lru_ctr c + 1\<rparr>;
             s = upd_buf (s\<lparr>bc := c\<rparr>) a (\<lambda>bf. bf\<lparr>refctr := refctr bf + 1, lru_id := lru_ctr c\<rparr>)
         in Some (EOK, True, b\<lparr>b_buf := Some a\<rparr>, s) }"

section \<open>Flushing\<close>

definition ext4_block_flush_buf :: "'d ext4_blockdev \<Rightarrow> nat \<Rightarrow> (int \<times> 'd ext4_blockdev) option" where
  "ext4_block_flush_buf s a = do {
     b \<leftarrow> bufs s a;
     if ext4_bcache_test_flag b BC_DIRTY \<and> ext4_bcache_test_flag b BC_UPTODATE then do {
       (r, s) \<leftarrow> ext4_blocks_set_direct s (buf_data b) (lba b) 1;
       if r \<noteq> EOK then Some (r, s) else do {
         s \<leftarrow> ext4_bcache_remove_dirty_node s a;
         Some (EOK, upd_buf s a (ext4_bcache_clear_flag BC_DIRTY)) } }
     else Some (EOK, s) }"

definition ext4_bcache_free :: "'d ext4_blockdev \<Rightarrow> ext4_block \<Rightarrow> (int \<times> ext4_block \<times> 'd ext4_blockdev) option" where
  "ext4_bcache_free s b = do {
     a \<leftarrow> b_buf b;
     bf \<leftarrow> bufs s a;
     if lb_id b = 0 \<or> refctr bf = 0 then None else do {
     let s = upd_buf s a (\<lambda>bf. bf\<lparr>refctr := refctr bf - 1\<rparr>);
     s \<leftarrow> (if refctr bf = 1 then do {
            let s = s\<lparr>bc := (bc s)\<lparr>lru_root := rb_insert (lru_key s) a (lru_root (bc s))\<rparr>\<rparr>;
            s \<leftarrow> (if ext4_bcache_test_flag bf BC_DIRTY \<and> ext4_bcache_test_flag bf BC_UPTODATE
                 then if cache_write_back s \<noteq> 0 \<and> \<not> ext4_bcache_test_flag bf BC_FLUSH \<and> \<not> ext4_bcache_test_flag bf BC_TMP
                      then ext4_bcache_insert_dirty_node s a
                      else do { (r, s) \<leftarrow> ext4_block_flush_buf s a; Some (upd_buf s a (ext4_bcache_clear_flag BC_FLUSH)) }
                 else Some s);
            if \<not> ext4_bcache_test_flag bf BC_UPTODATE \<or> ext4_bcache_test_flag bf BC_TMP
            then ext4_bcache_drop_buf s a else Some s }
          else Some s);
     Some (EOK, b\<lparr>lb_id := 0\<rparr>, s) } }"

definition ext4_block_flush_lba :: "'d ext4_blockdev \<Rightarrow> u64 \<Rightarrow> (int \<times> 'd ext4_blockdev) option" where
  "ext4_block_flush_lba s lb = do {
     (found, b, s) \<leftarrow> ext4_bcache_find_get s \<lparr>lb_id = 0, b_buf = None\<rparr> lb;
     case found of
       None \<Rightarrow> Some (EOK, s)
     | Some a \<Rightarrow> do {
         (r, s) \<leftarrow> ext4_block_flush_buf s a;
         (r', b, s) \<leftarrow> ext4_bcache_free s b;
         Some (r, s) } }"

partial_function (option) shake_loop :: "'d ext4_blockdev \<Rightarrow> (int \<times> 'd ext4_blockdev) option" where
  "shake_loop s =
    (case lru_root (bc s) of
       [] \<Rightarrow> Some (EOK, s)
     | a # _ \<Rightarrow>
       if \<not> ext4_bcache_is_full (bc s) then Some (EOK, s) else do {
         b \<leftarrow> bufs s a;
         (r, s) \<leftarrow> (if ext4_bcache_test_flag b BC_DIRTY then ext4_block_flush_buf s a else Some (EOK, s));
         if r \<noteq> EOK then Some (r, s) else do {
           s \<leftarrow> ext4_bcache_drop_buf s a;
           shake_loop s } })"

definition ext4_block_cache_shake :: "'d ext4_blockdev \<Rightarrow> (int \<times> 'd ext4_blockdev) option" where
  "ext4_block_cache_shake s =
    (if dont_shake (bc s) then Some (EOK, s)
     else do {
       (r, s) \<leftarrow> shake_loop (s\<lparr>bc := (bc s)\<lparr>dont_shake := True\<rparr>\<rparr>);
       Some (r, s\<lparr>bc := (bc s)\<lparr>dont_shake := False\<rparr>\<rparr>) })"

partial_function (option) ext4_block_cache_flush :: "'d ext4_blockdev \<Rightarrow> (int \<times> 'd ext4_blockdev) option" where
  "ext4_block_cache_flush s =
    (case dirty_list (bc s) of
       [] \<Rightarrow> Some (EOK, s)
     | a # _ \<Rightarrow> do {
         (r, s) \<leftarrow> ext4_block_flush_buf s a;
         if r \<noteq> EOK then Some (r, s) else ext4_block_cache_flush s })"

definition ext4_block_cache_write_back :: "'d ext4_blockdev \<Rightarrow> u8 \<Rightarrow> (int \<times> 'd ext4_blockdev) option" where
  "ext4_block_cache_write_back s on_off =
    (let s = (if on_off \<noteq> 0 then s\<lparr>cache_write_back := cache_write_back s + 1\<rparr>
              else if cache_write_back s \<noteq> 0 then s\<lparr>cache_write_back := cache_write_back s - 1\<rparr> else s)
     in if cache_write_back s \<noteq> 0 then Some (EOK, s) else ext4_block_cache_flush s)"

fun cleanup_bufs :: "'d ext4_blockdev \<Rightarrow> nat list \<Rightarrow> 'd ext4_blockdev option" where
  "cleanup_bufs s [] = Some s"
| "cleanup_bufs s (a # as) = do {
     (r, s) \<leftarrow> ext4_block_flush_buf s a;
     s \<leftarrow> ext4_bcache_drop_buf s a;
     cleanup_bufs s as }"

definition ext4_bcache_cleanup :: "'d ext4_blockdev \<Rightarrow> 'd ext4_blockdev option" where
  "ext4_bcache_cleanup s = cleanup_bufs s (lba_root (bc s))"

section \<open>Blocks through the cache\<close>

definition ext4_block_get_noread ::
  "'d ext4_blockdev \<Rightarrow> ext4_block \<Rightarrow> u64 \<Rightarrow> (int \<times> ext4_block \<times> 'd ext4_blockdev) option" where
  "ext4_block_get_noread s b lb =
    (if ph_refctr (bdif s) = 0 then Some (EIO, b, s)
     else if \<not> lb < lg_bcnt s then Some (ENXIO, b, s)
     else do {
       let b = b\<lparr>lb_id := lb\<rparr>;
       (r, s) \<leftarrow> ext4_block_cache_shake s;
       if r \<noteq> EOK then Some (r, b, s) else do {
         (r, is_new, b, s) \<leftarrow> ext4_bcache_alloc s b;
         Some (r, b, s) } })"

definition ext4_block_get ::
  "'d ext4_blockdev \<Rightarrow> ext4_block \<Rightarrow> u64 \<Rightarrow> (int \<times> ext4_block \<times> 'd ext4_blockdev) option" where
  "ext4_block_get s b lb = do {
     (r, b, s) \<leftarrow> ext4_block_get_noread s b lb;
     if r \<noteq> EOK then Some (r, b, s) else do {
       a \<leftarrow> b_buf b;
       bf \<leftarrow> bufs s a;
       if ext4_bcache_test_flag bf BC_UPTODATE then Some (EOK, b, s) else do {
         (r, xs, s) \<leftarrow> ext4_blocks_get_direct s (buf_data bf) lb 1;
         let s = upd_buf s a (buf_data_update (\<lambda>_. xs));
         if r \<noteq> EOK then do { (r', b, s) \<leftarrow> ext4_bcache_free s b; Some (r, b\<lparr>lb_id := 0\<rparr>, s) }
         else Some (EOK, b, upd_buf s a (ext4_bcache_set_flag BC_UPTODATE)) } } }"

definition ext4_block_set :: "'d ext4_blockdev \<Rightarrow> ext4_block \<Rightarrow> (int \<times> ext4_block \<times> 'd ext4_blockdev) option" where
  "ext4_block_set s b =
    (if b_buf b = None then None
     else if ph_refctr (bdif s) = 0 then Some (EIO, b, s)
     else ext4_bcache_free s b)"

section \<open>Transactions without a journal\<close>

definition ext4_trans_set_block_dirty :: "'d ext4_blockdev \<Rightarrow> nat \<Rightarrow> int \<times> 'd ext4_blockdev" where
  "ext4_trans_set_block_dirty s a = (EOK, upd_buf s a ext4_bcache_set_dirty)"

definition ext4_trans_block_get_noread ::
  "'d ext4_blockdev \<Rightarrow> ext4_block \<Rightarrow> u64 \<Rightarrow> (int \<times> ext4_block \<times> 'd ext4_blockdev) option" where
  "ext4_trans_block_get_noread s b lb = ext4_block_get_noread s b lb"

definition ext4_trans_block_get ::
  "'d ext4_blockdev \<Rightarrow> ext4_block \<Rightarrow> u64 \<Rightarrow> (int \<times> ext4_block \<times> 'd ext4_blockdev) option" where
  "ext4_trans_block_get s b lb = ext4_block_get s b lb"

definition ext4_trans_try_revoke_block :: "'d ext4_blockdev \<Rightarrow> u64 \<Rightarrow> int \<times> 'd ext4_blockdev" where
  "ext4_trans_try_revoke_block s lb = (EOK, s)"

end
