(* ===== verification/Ext4_Device.thy ===== *)
theory Ext4_Device
  imports Ext4_Blockdev
begin

text \<open>
  What the block device of lwext4 does to the medium: reads leave it alone, writes change the blocks
  they name, and the byte functions \<open>ext4_block_readbytes\<close> and \<open>ext4_block_writebytes\<close> read and
  write exactly the bytes of their range, whatever its alignment.
\<close>

section \<open>The medium behind the device\<close>

abbreviation disk :: "('d \<Rightarrow> u8 list) \<Rightarrow> 'd ext4_blockdev \<Rightarrow> u8 list" where
  "disk m s \<equiv> m (obj (p_user (bdif s)))"

definition dev_ok :: "('d \<Rightarrow> u8 list) \<Rightarrow> 'd ext4_blockdev \<Rightarrow> bool" where
  "dev_ok m s \<longleftrightarrow> driver_laws m (p_user (bdif s)) \<and> ph_bsize (bdif s) = 512 \<and> length (ph_bbuf (bdif s)) = 512 \<and>
     512 dvd unat (part_offset s) \<and> unat (part_offset s) + unat (part_size s) \<le> length (disk m s)"

text \<open>Two states of the interface that differ at most in the object, the block buffer and the counters.\<close>

definition same_dev :: "'d ext4_blockdev_iface \<Rightarrow> 'd ext4_blockdev_iface \<Rightarrow> bool" where
  "same_dev i j \<longleftrightarrow> ph_bsize j = ph_bsize i \<and> ph_bcnt j = ph_bcnt i \<and> ph_refctr j = ph_refctr i \<and>
     length (ph_bbuf j) = length (ph_bbuf i) \<and> (\<exists>x. p_user j = (p_user i)\<lparr>obj := x\<rparr>)"

lemma same_dev_refl [simp]: "same_dev i i"
  by (simp add: same_dev_def) (metis block_driver.surjective block_driver.update_convs(5))

lemma same_dev_trans [trans]: "same_dev i j \<Longrightarrow> same_dev j k \<Longrightarrow> same_dev i k"
  by (auto simp: same_dev_def)

lemma same_dev_upd [simp]:
  "same_dev i (j\<lparr>bread_ctr := n\<rparr>) = same_dev i j" "same_dev i (j\<lparr>bwrite_ctr := n\<rparr>) = same_dev i j"
  by (simp_all add: same_dev_def)

lemma same_dev_bbuf: "same_dev i j \<Longrightarrow> length b = length (ph_bbuf i) \<Longrightarrow> same_dev i (j\<lparr>ph_bbuf := b\<rparr>)"
  by (simp add: same_dev_def)

lemma same_dev_obj [simp]: "same_dev i (i\<lparr>p_user := (p_user i)\<lparr>obj := x\<rparr>\<rparr>)"
  by (auto simp: same_dev_def)

lemma dev_ok_same:
  assumes ok: "dev_ok m s" and "same_dev (bdif s) j"
  shows "dev_ok m (s\<lparr>bdif := j\<rparr>)"
proof -
  obtain x where "p_user j = (p_user (bdif s))\<lparr>obj := x\<rparr>" using assms(2) by (auto simp: same_dev_def)
  moreover have "length (m x) = length (disk m s)"
    using driver_same_length [of m "p_user (bdif s)"] ok by (simp add: dev_ok_def)
  ultimately show ?thesis using assms by (simp add: dev_ok_def same_dev_def)
qed

lemma dev_ok_bounds:
  assumes "dev_ok m s"
  shows "length (disk m s) < 2 ^ 63" and "ph_bsize (bdif s) = 512" and "length (ph_bbuf (bdif s)) = 512"
    and "driver_laws m (p_user (bdif s))" and "512 dvd unat (part_offset s)"
    and "unat (part_offset s) + unat (part_size s) \<le> length (disk m s)"
  using assms driver_length_bound [of m "p_user (bdif s)"] by (auto simp: dev_ok_def)

section \<open>Physical blocks\<close>

lemma unat_times_512:
  "512 * unat w < 2 ^ 64 \<Longrightarrow> unat (w * 512) = 512 * unat w" "512 * unat v < 2 ^ 32 \<Longrightarrow> unat (512 * v) = 512 * unat v"
  for w :: u64 and v :: u32
  by (simp_all add: unat_word_ariths mult.commute)

lemma bread_reads:
  assumes ok: "dev_ok m s" and cnt: "512 * unat cnt < 2 ^ 32" "512 * unat cnt \<le> length b"
    and fits: "512 * unat blk + 512 * unat cnt \<le> length (disk m s)"
  shows "\<exists>r b' j. ext4_bdif_bread s b blk cnt = Some (r, b', s\<lparr>bdif := j\<rparr>) \<and> same_dev (bdif s) j \<and>
      ph_bbuf j = ph_bbuf (bdif s) \<and> m (obj (p_user j)) = disk m s \<and> length b' = length b \<and>
      (r = EOK \<longrightarrow> b' = patch b 0 (chunk (disk m s) (512 * unat blk) (512 * unat cnt)))"
proof (cases "cnt = 0")
  case True
  then show ?thesis
    by (intro exI [of _ EOK] exI [of _ b] exI [of _ "(bdif s)\<lparr>bread_ctr := bread_ctr (bdif s) + 1\<rparr>"])
      (simp add: ext4_bdif_bread_def dev_bread_def)
next
  case False
  note d = dev_ok_bounds [OF ok]
  let ?n = "512 * unat cnt" and ?D = "p_user (bdif s)"
  have len: "unat (ph_bsize (bdif s) * cnt) = ?n" using cnt(1) d(2) by (simp add: unat_times_512)
  have off: "unat (blk * ucast EXT4_DEV_BSIZE) = 512 * unat blk"
    using fits d(1) by (simp add: EXT4_DEV_BSIZE_def unat_times_512)
  have l: "length (take ?n b) = ?n" using cnt(2) by simp
  have "unat (blk * ucast EXT4_DEV_BSIZE) + length (take ?n b) \<le> length (disk m s)"
    using fits off l by simp
  from read_at_reads [OF d(4) this] off l obtain r part x where
    r: "read_at ?D (blk * ucast EXT4_DEV_BSIZE) (take ?n b) = Some (r, part, ?D\<lparr>obj := x\<rparr>)" "m x = disk m s"
      "length part = ?n" "r \<longrightarrow> part = chunk (disk m s) (512 * unat blk) ?n"
    by auto
  let ?j = "(bdif s)\<lparr>p_user := ?D\<lparr>obj := x\<rparr>, bread_ctr := bread_ctr (bdif s) + 1\<rparr>"
  have "ext4_bdif_bread s b blk cnt = Some (if r then EOK else EIO, patch b 0 part, s\<lparr>bdif := ?j\<rparr>)"
    using False cnt(2) r(1) by (simp add: ext4_bdif_bread_def dev_bread_def len read_blocks_def)
  with r cnt(2) show ?thesis
    by (intro exI [of _ "if r then EOK else EIO"] exI [of _ "patch b 0 part"] exI [of _ ?j])
      (simp add: EOK_def EIO_def)
qed

lemma bwrite_writes:
  assumes ok: "dev_ok m s" and cnt: "512 * unat cnt < 2 ^ 32" "512 * unat cnt \<le> length b"
    and fits: "512 * unat blk + 512 * unat cnt \<le> length (disk m s)"
  shows "\<exists>r j ys. ext4_bdif_bwrite s b blk cnt = Some (r, s\<lparr>bdif := j\<rparr>) \<and> same_dev (bdif s) j \<and>
      ph_bbuf j = ph_bbuf (bdif s) \<and> length ys = 512 * unat cnt \<and>
      m (obj (p_user j)) = patch (disk m s) (512 * unat blk) ys \<and> (r = EOK \<longrightarrow> ys = take (512 * unat cnt) b)"
proof (cases "cnt = 0")
  case True
  then show ?thesis
    by (intro exI [of _ EOK] exI [of _ "(bdif s)\<lparr>bwrite_ctr := bwrite_ctr (bdif s) + 1\<rparr>"] exI [of _ "[]"])
      (simp add: ext4_bdif_bwrite_def dev_bwrite_def)
next
  case False
  note d = dev_ok_bounds [OF ok]
  let ?n = "512 * unat cnt" and ?D = "p_user (bdif s)"
  have len: "unat (ph_bsize (bdif s) * cnt) = ?n" using cnt(1) d(2) by (simp add: unat_times_512)
  have off: "unat (blk * ucast EXT4_DEV_BSIZE) = 512 * unat blk"
    using fits d(1) by (simp add: EXT4_DEV_BSIZE_def unat_times_512)
  have l: "length (take ?n b) = ?n" using cnt(2) by simp
  have "unat (blk * ucast EXT4_DEV_BSIZE) + length (take ?n b) \<le> length (disk m s)"
    using fits off l by simp
  from write_at_writes [OF d(4) this, unfolded off l] obtain r x where
    w: "write_at ?D (blk * ucast EXT4_DEV_BSIZE) (take ?n b) = Some (r, ?D\<lparr>obj := x\<rparr>)"
      "r \<longrightarrow> m x = patch (disk m s) (512 * unat blk) (take ?n b)"
      and any: "512 dvd 512 * unat blk \<and> 512 dvd ?n \<longrightarrow> (\<exists>ys. length ys = ?n \<and> m x = patch (disk m s) (512 * unat blk) ys)"
    by blast
  from any obtain ys where ys: "length ys = ?n" "m x = patch (disk m s) (512 * unat blk) ys" by auto
  let ?j = "(bdif s)\<lparr>p_user := ?D\<lparr>obj := x\<rparr>, bwrite_ctr := bwrite_ctr (bdif s) + 1\<rparr>"
  let ?ys = "if r then take ?n b else ys"
  have "ext4_bdif_bwrite s b blk cnt = Some (if r then EOK else EIO, s\<lparr>bdif := ?j\<rparr>)"
    using False cnt(2) w(1) by (simp add: ext4_bdif_bwrite_def dev_bwrite_def len write_blocks_def)
  with w ys l show ?thesis
    by (intro exI [of _ "if r then EOK else EIO"] exI [of _ ?j] exI [of _ ?ys]) (simp add: EOK_def EIO_def)
qed

section \<open>Logical blocks\<close>

abbreviation bsz :: "'d ext4_blockdev \<Rightarrow> nat" where
  "bsz s \<equiv> unat (lg_bsize s)"

definition geom_ok :: "'d ext4_blockdev \<Rightarrow> bool" where
  "geom_ok s \<longleftrightarrow> lg_bsize s \<noteq> 0 \<and> 512 dvd bsz s \<and> unat (lg_bcnt s) * bsz s \<le> unat (part_size s)"

definition lb_off :: "'d ext4_blockdev \<Rightarrow> u64 \<Rightarrow> nat" where
  "lb_off s lb = unat (part_offset s) + unat lb * bsz s"

definition dblk :: "('d \<Rightarrow> u8 list) \<Rightarrow> 'd ext4_blockdev \<Rightarrow> u64 \<Rightarrow> u8 list" where
  "dblk m s lb = chunk (disk m s) (lb_off s lb) (bsz s)"

lemma blocks_in_part:
  assumes "dev_ok m s" "geom_ok s" "n + k \<le> unat (lg_bcnt s)"
  shows "unat (part_offset s) + n * bsz s + k * bsz s \<le> length (disk m s)"
proof -
  have "(n + k) * bsz s \<le> unat (lg_bcnt s) * bsz s" using assms(3) by (rule mult_le_mono1)
  with assms(1,2) show ?thesis by (auto simp: dev_ok_def geom_ok_def distrib_right)
qed

lemma direct_address:
  assumes ok: "dev_ok m s" "geom_ok s" and fits: "unat lb + unat cnt \<le> unat (lg_bcnt s)" and small: "unat cnt * bsz s < 2 ^ 32"
  shows "512 * unat ((lb * ucast (lg_bsize s) + part_offset s) div ucast (ph_bsize (bdif s))) = lb_off s lb"
    and "512 * unat (lg_bsize s div ph_bsize (bdif s) * cnt) = unat cnt * bsz s"
    and "lb_off s lb + unat cnt * bsz s \<le> length (disk m s)"
proof -
  note d = dev_ok_bounds [OF ok(1)]
  have b: "unat (part_offset s) + unat lb * bsz s + unat cnt * bsz s \<le> length (disk m s)"
    by (rule blocks_in_part [OF ok fits])
  then show "lb_off s lb + unat cnt * bsz s \<le> length (disk m s)" by (simp add: lb_off_def)
  have u: "unat (ucast (lg_bsize s) :: u64) = bsz s" by (simp add: unat_ucast_up)
  have m: "unat (lb * ucast (lg_bsize s)) = unat lb * bsz s"
    using b d(1) by (simp add: unat_word_ariths u)
  have "unat (lb * ucast (lg_bsize s) + part_offset s) = unat lb * bsz s + unat (part_offset s)"
    using b d(1) by (simp add: unat_word_ariths(1) m)
  moreover have "512 dvd unat lb * bsz s + unat (part_offset s)"
    using ok(2) d(5) by (auto simp: geom_ok_def)
  ultimately show "512 * unat ((lb * ucast (lg_bsize s) + part_offset s) div ucast (ph_bsize (bdif s))) = lb_off s lb"
    by (simp add: d(2) unat_div lb_off_def)
  have dvd: "512 dvd bsz s" using ok(2) by (simp add: geom_ok_def)
  then obtain q where q: "bsz s = 512 * q" ..
  have "unat (lg_bsize s div ph_bsize (bdif s)) = q" by (simp add: d(2) unat_div q)
  then have "unat (lg_bsize s div ph_bsize (bdif s) * cnt) = (q * unat cnt) mod 2 ^ 32" by (simp add: unat_word_ariths(2))
  moreover have "q * unat cnt < 2 ^ 32" using small q by simp
  ultimately show "512 * unat (lg_bsize s div ph_bsize (bdif s) * cnt) = unat cnt * bsz s" by (simp add: q)
qed

lemma get_direct_reads:
  assumes ok: "dev_ok m s" "geom_ok s" and fits: "unat lb + unat cnt \<le> unat (lg_bcnt s)" and small: "unat cnt * bsz s < 2 ^ 32"
    and "length b = unat cnt * bsz s"
  shows "\<exists>r b' j. ext4_blocks_get_direct s b lb cnt = Some (r, b', s\<lparr>bdif := j\<rparr>) \<and> same_dev (bdif s) j \<and>
      m (obj (p_user j)) = disk m s \<and> length b' = length b \<and>
      (r = EOK \<longrightarrow> b' = chunk (disk m s) (lb_off s lb) (unat cnt * bsz s))"
proof -
  note a = direct_address [OF ok fits small]
  have "\<exists>r b' j. ext4_blocks_get_direct s b lb cnt = Some (r, b', s\<lparr>bdif := j\<rparr>) \<and> same_dev (bdif s) j \<and>
      ph_bbuf j = ph_bbuf (bdif s) \<and> m (obj (p_user j)) = disk m s \<and> length b' = length b \<and>
      (r = EOK \<longrightarrow> b' = patch b 0 (chunk (disk m s) (lb_off s lb) (unat cnt * bsz s)))"
    using bread_reads [OF ok(1), of "lg_bsize s div ph_bsize (bdif s) * cnt" b
        "(lb * ucast (lg_bsize s) + part_offset s) div ucast (ph_bsize (bdif s))"] small assms(5) a
    unfolding ext4_blocks_get_direct_def Let_def a(1,2) using dev_ok_bounds(2) [OF ok(1)] by simp
  then show ?thesis using assms(5) a(3) by fastforce
qed

lemma set_direct_writes:
  assumes ok: "dev_ok m s" "geom_ok s" and fits: "unat lb + unat cnt \<le> unat (lg_bcnt s)" and small: "unat cnt * bsz s < 2 ^ 32"
    and "length b = unat cnt * bsz s"
  shows "\<exists>r j ys. ext4_blocks_set_direct s b lb cnt = Some (r, s\<lparr>bdif := j\<rparr>) \<and> same_dev (bdif s) j \<and>
      length ys = unat cnt * bsz s \<and> m (obj (p_user j)) = patch (disk m s) (lb_off s lb) ys \<and> (r = EOK \<longrightarrow> ys = b)"
proof -
  note a = direct_address [OF ok fits small]
  have "\<exists>r j ys. ext4_blocks_set_direct s b lb cnt = Some (r, s\<lparr>bdif := j\<rparr>) \<and> same_dev (bdif s) j \<and>
      ph_bbuf j = ph_bbuf (bdif s) \<and> length ys = unat cnt * bsz s \<and>
      m (obj (p_user j)) = patch (disk m s) (lb_off s lb) ys \<and> (r = EOK \<longrightarrow> ys = take (unat cnt * bsz s) b)"
    using bwrite_writes [OF ok(1), of "lg_bsize s div ph_bsize (bdif s) * cnt" b
        "(lb * ucast (lg_bsize s) + part_offset s) div ucast (ph_bsize (bdif s))"] small assms(5) a
    unfolding ext4_blocks_set_direct_def Let_def a(1,2) using dev_ok_bounds(2) [OF ok(1)] by simp
  then show ?thesis using assms(5) by fastforce
qed

section \<open>Ranges of bytes\<close>

lemma rmw_block_writes:
  assumes ok: "dev_ok m s" and xs: "off + length xs \<le> 512" and fits: "512 * unat blk + 512 \<le> length (disk m s)"
  shows "\<exists>r j. rmw_block s blk off xs = Some (r, s\<lparr>bdif := j\<rparr>) \<and> same_dev (bdif s) j \<and>
      (r = EOK \<longrightarrow> m (obj (p_user j)) = patch (disk m s) (512 * unat blk + off) xs)"
proof -
  let ?bb = "ph_bbuf (bdif s)"
  have l: "length ?bb = 512" by (rule dev_ok_bounds(3) [OF ok])
  obtain r b' j where rd: "ext4_bdif_bread s ?bb blk 1 = Some (r, b', s\<lparr>bdif := j\<rparr>)" "same_dev (bdif s) j"
    "m (obj (p_user j)) = disk m s" "length b' = 512"
    "r = EOK \<longrightarrow> b' = patch ?bb 0 (chunk (disk m s) (512 * unat blk) 512)"
    using bread_reads [OF ok, of 1 ?bb blk] fits l by auto
  show ?thesis
  proof (cases "r = EOK")
    case False
    with rd l show ?thesis
      by (intro exI [of _ r] exI [of _ "j\<lparr>ph_bbuf := b'\<rparr>"]) (simp add: rmw_block_def same_dev_bbuf)
  next
    case True
    let ?b = "patch b' off xs"
    let ?j = "j\<lparr>ph_bbuf := ?b\<rparr>"
    have b': "b' = chunk (disk m s) (512 * unat blk) 512" using rd(5) True l fits by simp
    have lb: "length ?b = 512" using xs rd(4) by simp
    have same: "same_dev (bdif s) ?j" by (rule same_dev_bbuf [OF rd(2)]) (simp add: lb l)
    have ok': "dev_ok m (s\<lparr>bdif := ?j\<rparr>)" by (rule dev_ok_same [OF ok same])
    obtain r' k ys where wr: "ext4_bdif_bwrite (s\<lparr>bdif := ?j\<rparr>) ?b blk 1 = Some (r', s\<lparr>bdif := k\<rparr>)" "same_dev ?j k"
      "m (obj (p_user k)) = patch (disk m s) (512 * unat blk) ys" "r' = EOK \<longrightarrow> ys = ?b"
      using bwrite_writes [OF ok', of 1 ?b blk] fits lb rd(3) by auto
    have "patch (disk m s) (512 * unat blk) ?b = patch (disk m s) (512 * unat blk + off) xs"
      unfolding b' by (rule patch_chunk_inner [OF fits xs])
    moreover have "rmw_block s blk off xs = Some (r', s\<lparr>bdif := k\<rparr>)"
      using rd(1,4) True xs wr(1) by (simp add: rmw_block_def Let_def)
    ultimately show ?thesis using wr(3,4) same_dev_trans [OF same wr(2)] by auto
  qed
qed

lemma read_part_reads:
  assumes ok: "dev_ok m s" and n: "off + n \<le> 512" and fits: "512 * unat blk + 512 \<le> length (disk m s)"
  shows "\<exists>r xs j. read_part s blk off n = Some (r, xs, s\<lparr>bdif := j\<rparr>) \<and> same_dev (bdif s) j \<and>
      m (obj (p_user j)) = disk m s \<and> length xs \<le> n \<and> (r = EOK \<longrightarrow> xs = chunk (disk m s) (512 * unat blk + off) n)"
proof -
  let ?bb = "ph_bbuf (bdif s)"
  have l: "length ?bb = 512" by (rule dev_ok_bounds(3) [OF ok])
  obtain r b' j where rd: "ext4_bdif_bread s ?bb blk 1 = Some (r, b', s\<lparr>bdif := j\<rparr>)" "same_dev (bdif s) j"
    "m (obj (p_user j)) = disk m s" "length b' = 512"
    "r = EOK \<longrightarrow> b' = patch ?bb 0 (chunk (disk m s) (512 * unat blk) 512)"
    using bread_reads [OF ok, of 1 ?bb blk] fits l by auto
  have b': "b' = chunk (disk m s) (512 * unat blk) 512" if "r = EOK" using rd(5) that l fits by simp
  have same: "same_dev (bdif s) (j\<lparr>ph_bbuf := b'\<rparr>)" by (rule same_dev_bbuf [OF rd(2)]) (simp add: rd(4) l)
  show ?thesis
  proof (cases "r = EOK")
    case False
    with rd same show ?thesis
      by (intro exI [of _ r] exI [of _ "[]"] exI [of _ "j\<lparr>ph_bbuf := b'\<rparr>"]) (simp add: read_part_def)
  next
    case True
    with rd(1,3,4) same n b' [OF True] chunk_chunk [OF n] show ?thesis
      by (intro exI [of _ r] exI [of _ "chunk b' off n"] exI [of _ "j\<lparr>ph_bbuf := b'\<rparr>"]) (simp add: read_part_def)
  qed
qed

text \<open>Where a range starts, and what one of its steps leaves to do.\<close>

lemma unat_unalg:
  assumes "dev_ok m s"
  shows "unat (unalg_of s off) = (unat (part_offset s) + unat off) mod 512"
proof -
  have "(ucast (511 :: u32) :: u64) = mask 9" by (simp add: mask_eq_exp_minus_1)
  then have "unalg_of s off = ucast (off AND mask 9)"
    using dev_ok_bounds(2) [OF assms] by (simp add: unalg_of_def)
  then have "unat (unalg_of s off) = unat off mod 512"
    by (simp add: unat_ucast_mod unat_and_mask mod_mod_trivial)
  also have "\<dots> = (unat (part_offset s) + unat off) mod 512"
    using dev_ok_bounds(5) [OF assms] by (metis mod_add_left_eq dvd_imp_mod_0 add_0)
  finally show ?thesis .
qed

lemma range_start:
  assumes ok: "dev_ok m s" and fits: "unat off + unat len \<le> unat (part_size s)"
  defines "A \<equiv> unat (part_offset s) + unat off" and "idx \<equiv> (off + part_offset s) div ucast (ph_bsize (bdif s))"
  shows "unat idx = A div 512" and "A + unat len \<le> length (disk m s)"
    and "A mod 512 \<noteq> 0 \<Longrightarrow> 512 * unat idx + 512 \<le> length (disk m s)"
    and "A mod 512 \<noteq> 0 \<Longrightarrow> unat (idx + 1) = A div 512 + 1"
proof -
  note d = dev_ok_bounds [OF ok]
  show in_disk: "A + unat len \<le> length (disk m s)" using fits d(6) by (simp add: A_def)
  have "unat off + unat (part_offset s) < 2 ^ 64" using in_disk d(1) unfolding A_def by simp
  then have "unat (off + part_offset s) = A"
    by (simp only: unat_word_ariths(1) A_def) simp
  then show idx: "unat idx = A div 512" by (simp add: idx_def d(2) unat_div)
  assume A: "A mod 512 \<noteq> 0"
  have "512 dvd length (disk m s)" using driver_length [OF d(4)] by simp
  then have "A \<noteq> length (disk m s)" using A by (auto simp: mod_eq_0_iff_dvd)
  with in_disk have "A < length (disk m s)" by simp
  then have "512 * unat idx < length (disk m s)" using idx by (metis div_times_less_eq_dividend le_less_trans mult.commute)
  from block_in_range(2) [OF d(4) this] unat_next_block [OF d(4) this] idx
  show "512 * unat idx + 512 \<le> length (disk m s)" "unat (idx + 1) = A div 512 + 1" by simp_all
qed

lemma block_end:
  fixes A n :: nat
  assumes "n + A mod 512 = 512"
  shows "512 * (A div 512 + 1) = A + n"
proof -
  define q r where "q = A div 512" and "r = A mod 512"
  have "A = 512 * q + r" by (simp add: q_def r_def)
  with assms show ?thesis unfolding q_def [symmetric] r_def [symmetric] by simp
qed

lemma head_length:
  fixes u len :: u32
  assumes "unat u = A mod 512" and "u \<noteq> 0"
  defines "n \<equiv> (if 512 - u > len then len else 512 - u)"
  shows "unat n = min (512 - A mod 512) (unat len)" and "unat (len - n) = unat len - unat n"
    and "unat len - unat n \<noteq> 0 \<Longrightarrow> 512 * (A div 512 + 1) = A + unat n" and "A mod 512 + unat n \<le> 512"
proof -
  have lt: "A mod 512 < 512" by simp
  have "unat (512 - u) = 512 - A mod 512"
    using assms(1) lt unat_minus_le [of u 512] by (simp add: word_le_nat_alt)
  then show n: "unat n = min (512 - A mod 512) (unat len)" by (simp add: n_def word_less_nat_alt)
  then show "unat (len - n) = unat len - unat n" by (simp add: unat_minus_le word_le_nat_alt)
  show "A mod 512 + unat n \<le> 512" using n lt by linarith
  show "512 * (A div 512 + 1) = A + unat n" if "unat len - unat n \<noteq> 0"
  proof -
    from that n have "unat n = 512 - A mod 512" by linarith
    with lt have "unat n + A mod 512 = 512" by simp
    then show ?thesis by (rule block_end)
  qed
qed

lemma write_head_writes:
  assumes ok: "dev_ok m s" and fits: "unat off + unat len \<le> unat (part_size s)" and l: "unat len \<le> length b"
  defines "A \<equiv> unat (part_offset s) + unat off"
  shows "\<exists>r j p n idx. write_head s off b len = Some (r, s\<lparr>bdif := j\<rparr>, p, n, idx) \<and> same_dev (bdif s) j \<and>
      (r = EOK \<longrightarrow> p + unat n = unat len \<and> (unat n \<noteq> 0 \<longrightarrow> 512 * unat idx = A + p) \<and>
        m (obj (p_user j)) = patch (disk m s) A (take p b))"
proof -
  let ?idx = "(off + part_offset s) div ucast (ph_bsize (bdif s))" and ?u = "unalg_of s off"
  note start = range_start [OF ok fits, folded A_def] and bs = dev_ok_bounds(2) [OF ok]
  have u: "unat ?u = A mod 512" using unat_unalg [OF ok] by (simp add: A_def)
  show ?thesis
  proof (cases "?u = 0")
    case True
    then have "A mod 512 = 0" using u by simp
    then have "512 * unat ?idx = A" using start(1) by (simp add: mod_eq_0_iff_dvd)
    with True show ?thesis
      by (intro exI [of _ EOK] exI [of _ "bdif s"] exI [of _ 0] exI [of _ len] exI [of _ ?idx])
        (simp add: write_head_def Let_def)
  next
    case False
    then have A: "A mod 512 \<noteq> 0" using u by (metis unat_eq_zero)
    define n where "n = (if 512 - ?u > len then len else 512 - ?u)"
    note h = head_length [OF u False, of len, folded n_def]
    have "length (take (unat n) b) \<le> unat n" by simp
    then have xs: "unat ?u + length (take (unat n) b) \<le> 512" using h(4) u by linarith
    obtain r j where w: "rmw_block s ?idx (unat ?u) (take (unat n) b) = Some (r, s\<lparr>bdif := j\<rparr>)" "same_dev (bdif s) j"
      "r = EOK \<longrightarrow> m (obj (p_user j)) = patch (disk m s) (512 * unat ?idx + unat ?u) (take (unat n) b)"
      using rmw_block_writes [OF ok xs start(3) [OF A]] by blast
    have at: "512 * unat ?idx + unat ?u = A" using start(1) u by simp
    have "write_head s off b len = Some (r, s\<lparr>bdif := j\<rparr>, unat n, len - n, ?idx + 1)"
      using False w(1) by (simp add: write_head_def Let_def bs flip: n_def)
    moreover have "unat n + unat (len - n) = unat len" using h(1,2) by linarith
    moreover have "unat (len - n) \<noteq> 0 \<longrightarrow> 512 * unat (?idx + 1) = A + unat n"
      using h(2,3) start(4) [OF A] by metis
    ultimately show ?thesis using w(2,3) at by blast
  qed
qed

text \<open>The blocks inside the range: how many there are and where the rest starts.\<close>

lemma body_position:
  fixes n :: u32 and idx :: u64
  assumes "unat n \<noteq> 0 \<longrightarrow> 512 * unat idx = Q" and "Q + unat n < 2 ^ 63" and "n div 512 \<noteq> 0"
  shows "512 * unat (n div 512) < 2 ^ 32" and "512 * unat (n div 512) \<le> unat n"
    and "512 * unat idx + 512 * unat (n div 512) = Q + unat (512 * (n div 512))"
    and "unat (512 * (n div 512)) = 512 * unat (n div 512)"
    and "unat (n - 512 * (n div 512)) = unat n - 512 * unat (n div 512)" and "unat (n - 512 * (n div 512)) < 512"
    and "512 * unat (idx + ucast (n div 512)) = Q + 512 * unat (n div 512)"
proof -
  have k: "unat (n div 512) = unat n div 512" by (simp add: unat_div)
  have n: "unat n < 2 ^ 32" using unat_lt_pow2 [of n] by simp
  show le: "512 * unat (n div 512) \<le> unat n" using k by simp
  then show lt: "512 * unat (n div 512) < 2 ^ 32" using n by linarith
  then show e: "unat (512 * (n div 512)) = 512 * unat (n div 512)" by (rule unat_times_512(2))
  have "unat n \<noteq> 0" using assms(3) k by (metis div_0 unat_eq_zero)
  then have Q: "512 * unat idx = Q" using assms(1) by simp
  then show "512 * unat idx + 512 * unat (n div 512) = Q + unat (512 * (n div 512))" using e by simp
  show m: "unat (n - 512 * (n div 512)) = unat n - 512 * unat (n div 512)"
    using unat_minus_le [of "512 * (n div 512)" n] le e by (simp add: word_le_nat_alt)
  show "unat (n - 512 * (n div 512)) < 512" unfolding m k by (simp add: minus_mult_div_eq_mod)
  have "unat (ucast (n div 512) :: u64) = unat (n div 512)" by (simp add: unat_ucast_up)
  moreover have "unat idx + unat (n div 512) < 2 ^ 64" using Q assms(2) le by simp
  ultimately have "unat (idx + ucast (n div 512)) = unat idx + unat (n div 512)"
    by (simp only: unat_word_ariths(1)) simp
  then show "512 * unat (idx + ucast (n div 512)) = Q + 512 * unat (n div 512)" using Q by simp
qed

lemma write_body_writes:
  assumes ok: "dev_ok m s" and at: "unat n \<noteq> 0 \<longrightarrow> 512 * unat idx = A + p" and len: "p + unat n \<le> length b"
    and fits: "A + p + unat n \<le> length (disk m s)"
  shows "\<exists>r j q n' idx'. write_body s b p n idx = Some (r, s\<lparr>bdif := j\<rparr>, p + q, n', idx') \<and> same_dev (bdif s) j \<and>
      (r = EOK \<longrightarrow> q + unat n' = unat n \<and> unat n' < 512 \<and> (unat n' \<noteq> 0 \<longrightarrow> 512 * unat idx' = A + p + q) \<and>
        m (obj (p_user j)) = patch (disk m s) (A + p) (chunk b p q))"
proof (cases "n div 512 = 0")
  case True
  moreover have "unat (n div 512) = unat n div 512" by (simp add: unat_div)
  ultimately have "unat n div 512 = 0" by simp
  then have "unat n < 512" by (simp add: div_eq_0_iff)
  with True dev_ok_bounds(2) [OF ok] at show ?thesis
    by (intro exI [of _ EOK] exI [of _ "bdif s"] exI [of _ 0] exI [of _ n] exI [of _ idx]) (simp add: write_body_def)
next
  case False
  let ?k = "n div 512"
  have "A + p + unat n < 2 ^ 63" using fits dev_ok_bounds(1) [OF ok] by simp
  note pos = body_position [OF at this False]
  have "512 * unat ?k \<le> length (drop p b)" "512 * unat idx + 512 * unat ?k \<le> length (disk m s)"
    using pos(2,3,4) len fits by simp_all
  from bwrite_writes [OF ok pos(1) this] obtain r j where w:
    "ext4_bdif_bwrite s (drop p b) idx ?k = Some (r, s\<lparr>bdif := j\<rparr>)" "same_dev (bdif s) j"
    "r = EOK \<longrightarrow> m (obj (p_user j)) = patch (disk m s) (512 * unat idx) (take (512 * unat ?k) (drop p b))"
    by blast
  have "write_body s b p n idx = Some (r, s\<lparr>bdif := j\<rparr>, p + 512 * unat ?k, n - 512 * ?k, idx + ucast ?k)"
    using False w(1) dev_ok_bounds(2) [OF ok] pos(4) by (simp add: write_body_def Let_def)
  moreover have "512 * unat idx = A + p" using pos(3,4) by simp
  ultimately show ?thesis using w(2,3) pos(2,5,6,7)
    by (intro exI [of _ r] exI [of _ j] exI [of _ "512 * unat ?k"] exI [of _ "n - 512 * ?k"] exI [of _ "idx + ucast ?k"])
      (simp add: chunk_def)
qed

lemma three_patches:
  assumes "p + q + k = length b" and "A + length b \<le> length M"
  shows "patch (patch (patch M A (take p b)) (A + p) (chunk b p q)) (A + p + q) (chunk b (p + q) k) = patch M A b"
proof -
  let ?M = "patch M A (take p b)"
  have l: "length ?M = length M" using assms by simp
  have "patch (patch ?M (A + p) (chunk b p q)) (A + p + q) (chunk b (p + q) k) = patch ?M (A + p) (chunk b p (q + k))"
    using patch_patch_adjacent [of "A + p" "chunk b p q" "chunk b (p + q) k" ?M] assms l by (simp add: chunk_append)
  also have "\<dots> = patch M A (take p b @ chunk b p (q + k))"
    using patch_patch_adjacent [of A "take p b" "chunk b p (q + k)" M] assms by simp
  also have "take p b @ chunk b p (q + k) = b" using assms by (simp add: chunk_def)
  finally show ?thesis .
qed

lemma in_range_check:
  fixes len :: u32
  assumes "dev_ok m s" and "unat off + unat len \<le> unat (part_size s)"
  shows "\<not> off + ucast len > part_size s"
proof -
  have "unat off + unat len < 2 ^ 64" using assms dev_ok_bounds(1,6) [OF assms(1)] by simp
  moreover have "unat (ucast len :: u64) = unat len" by (simp add: unat_ucast_up)
  ultimately have "unat (off + ucast len) = unat off + unat len" by (simp only: unat_word_ariths(1)) simp
  with assms(2) show ?thesis by (simp add: word_less_nat_alt)
qed

lemma write_rest_writes:
  assumes ok: "dev_ok m s" and at: "unat n \<noteq> 0 \<longrightarrow> 512 * unat idx = Q" and "unat n < 512" and "length xs = unat n"
    and fits: "Q + unat n \<le> length (disk m s)"
  shows "\<exists>r j. (if n \<noteq> 0 then rmw_block s idx 0 xs else Some (EOK, s)) = Some (r, s\<lparr>bdif := j\<rparr>) \<and> same_dev (bdif s) j \<and>
      (r = EOK \<longrightarrow> m (obj (p_user j)) = patch (disk m s) Q xs)"
proof (cases "n = 0")
  case True
  with assms(4) show ?thesis by (intro exI [of _ EOK] exI [of _ "bdif s"]) simp
next
  case False
  then have pos: "0 < unat n" by (simp add: unat_gt_0)
  with at fits have Q: "512 * unat idx = Q" and "512 * unat idx < length (disk m s)" by simp_all
  from block_in_range(2) [OF dev_ok_bounds(4) [OF ok] this(2)] have "512 * unat idx + 512 \<le> length (disk m s)" .
  with rmw_block_writes [OF ok, of 0 xs idx] assms(3,4) Q False show ?thesis by simp
qed

lemma writebytes_writes:
  assumes ok: "dev_ok m s" and open_dev: "ph_refctr (bdif s) \<noteq> 0" and fits: "unat off + unat len \<le> unat (part_size s)"
    and l: "length b = unat len"
  shows "\<exists>r j. ext4_block_writebytes s off b len = Some (r, s\<lparr>bdif := j\<rparr>) \<and> same_dev (bdif s) j \<and>
      (r = EOK \<longrightarrow> m (obj (p_user j)) = patch (disk m s) (unat (part_offset s) + unat off) b)"
proof -
  let ?A = "unat (part_offset s) + unat off"
  have in_disk: "?A + unat len \<le> length (disk m s)" using fits dev_ok_bounds(6) [OF ok] by simp
  obtain r j p n idx where h: "write_head s off b len = Some (r, s\<lparr>bdif := j\<rparr>, p, n, idx)" "same_dev (bdif s) j"
    "r = EOK \<longrightarrow> p + unat n = unat len \<and> (unat n \<noteq> 0 \<longrightarrow> 512 * unat idx = ?A + p) \<and>
       m (obj (p_user j)) = patch (disk m s) ?A (take p b)"
    using write_head_writes [OF ok fits] l by (metis order_refl)
  note start = open_dev in_range_check [OF ok fits] dev_ok_bounds(2) [OF ok] l h(1)
  show ?thesis
  proof (cases "r = EOK")
    case False
    with start h(2) show ?thesis by (auto simp: ext4_block_writebytes_def)
  next
    case r: True
    let ?s = "s\<lparr>bdif := j\<rparr>"
    have n: "p + unat n = unat len" and at: "unat n \<noteq> 0 \<longrightarrow> 512 * unat idx = ?A + p"
      and d1: "disk m ?s = patch (disk m s) ?A (take p b)" using h(3) r by simp_all
    have l1: "length (disk m ?s) = length (disk m s)" unfolding d1 using in_disk l n by simp
    have "p + unat n \<le> length b" "?A + p + unat n \<le> length (disk m ?s)" using n l in_disk l1 by simp_all
    from write_body_writes [OF dev_ok_same [OF ok h(2)] at this] obtain r2 k q n2 idx2 where
      w: "write_body ?s b p n idx = Some (r2, s\<lparr>bdif := k\<rparr>, p + q, n2, idx2)" "same_dev j k"
      "r2 = EOK \<longrightarrow> q + unat n2 = unat n \<and> unat n2 < 512 \<and> (unat n2 \<noteq> 0 \<longrightarrow> 512 * unat idx2 = ?A + p + q) \<and>
         m (obj (p_user k)) = patch (disk m ?s) (?A + p) (chunk b p q)"
      by auto
    have sk: "same_dev (bdif s) k" by (rule same_dev_trans [OF h(2) w(2)])
    show ?thesis
    proof (cases "r2 = EOK")
      case False
      with start r w(1) sk show ?thesis by (auto simp: ext4_block_writebytes_def)
    next
      case r2: True
      let ?xs = "chunk b (p + q) (unat n2)"
      have q: "q + unat n2 = unat n" "unat n2 < 512" and at2: "unat n2 \<noteq> 0 \<longrightarrow> 512 * unat idx2 = ?A + p + q"
        and d2: "m (obj (p_user k)) = patch (disk m ?s) (?A + p) (chunk b p q)" using w(3) r2 by simp_all
      have all: "patch (m (obj (p_user k))) (?A + p + q) ?xs = patch (disk m s) ?A b"
        unfolding d2 d1 using n q(1) l in_disk by (intro three_patches) simp_all
      have "length ?xs = unat n2" "?A + p + q + unat n2 \<le> length (disk m (s\<lparr>bdif := k\<rparr>))"
        using n q l in_disk d2 l1 by simp_all
      from write_rest_writes [OF dev_ok_same [OF ok sk] at2 q(2) this] obtain r3 i where
        "(if n2 \<noteq> 0 then rmw_block (s\<lparr>bdif := k\<rparr>) idx2 0 ?xs else Some (EOK, s\<lparr>bdif := k\<rparr>)) = Some (r3, s\<lparr>bdif := i\<rparr>)"
        "same_dev k i" "r3 = EOK \<longrightarrow> m (obj (p_user i)) = patch (disk m s) ?A b"
        using all by auto
      with start r r2 w(1) same_dev_trans [OF sk] show ?thesis by (auto simp: ext4_block_writebytes_def split: if_splits)
    qed
  qed
qed

lemma read_head_reads:
  assumes ok: "dev_ok m s" and fits: "unat off + unat len \<le> unat (part_size s)" and l: "unat len \<le> length b"
  defines "A \<equiv> unat (part_offset s) + unat off"
  shows "\<exists>r b' j p n idx. read_head s off b len = Some (r, b', s\<lparr>bdif := j\<rparr>, p, n, idx) \<and> same_dev (bdif s) j \<and>
      m (obj (p_user j)) = disk m s \<and> length b' = length b \<and>
      (r = EOK \<longrightarrow> p + unat n = unat len \<and> (unat n \<noteq> 0 \<longrightarrow> 512 * unat idx = A + p) \<and> b' = patch b 0 (chunk (disk m s) A p))"
proof -
  let ?idx = "(off + part_offset s) div ucast (ph_bsize (bdif s))" and ?u = "unalg_of s off"
  note start = range_start [OF ok fits, folded A_def] and bs = dev_ok_bounds(2) [OF ok]
  have u: "unat ?u = A mod 512" using unat_unalg [OF ok] by (simp add: A_def)
  show ?thesis
  proof (cases "?u = 0")
    case True
    then have "A mod 512 = 0" using u by simp
    then have "512 * unat ?idx = A" using start(1) by (simp add: mod_eq_0_iff_dvd)
    with True show ?thesis
      by (intro exI [of _ EOK] exI [of _ b] exI [of _ "bdif s"] exI [of _ 0] exI [of _ len] exI [of _ ?idx])
        (simp add: read_head_def Let_def)
  next
    case False
    then have A: "A mod 512 \<noteq> 0" using u by (metis unat_eq_zero)
    define n where "n = (if 512 - ?u > len then len else 512 - ?u)"
    note h = head_length [OF u False, of len, folded n_def]
    have "unat ?u + unat n \<le> 512" using h(4) u by simp
    from read_part_reads [OF ok this start(3) [OF A]] obtain r xs j where
      rd: "read_part s ?idx (unat ?u) (unat n) = Some (r, xs, s\<lparr>bdif := j\<rparr>)" "same_dev (bdif s) j"
      "m (obj (p_user j)) = disk m s" "length xs \<le> unat n" "r = EOK \<longrightarrow> xs = chunk (disk m s) (512 * unat ?idx + unat ?u) (unat n)"
      by blast
    have at: "512 * unat ?idx + unat ?u = A" using start(1) u by simp
    have "read_head s off b len = Some (r, patch b 0 xs, s\<lparr>bdif := j\<rparr>, unat n, len - n, ?idx + 1)"
      using False rd(1) by (simp add: read_head_def Let_def bs flip: n_def)
    moreover have "unat n + unat (len - n) = unat len" using h(1,2) by linarith
    moreover have "unat (len - n) \<noteq> 0 \<longrightarrow> 512 * unat (?idx + 1) = A + unat n"
      using h(2,3) start(4) [OF A] by metis
    moreover have "length (patch b 0 xs) = length b" using rd(4) h(1) l by (intro length_patch) simp
    ultimately show ?thesis using rd(2,3,5) unfolding at by blast
  qed
qed

lemma patch_drop: "p + length ys \<le> length b \<Longrightarrow> patch b p (patch (drop p b) 0 ys) = patch b p ys"
  using patch_chunk_inner [of p "length b - p" b 0 ys] by (simp add: chunk_def)

lemma read_body_reads:
  assumes ok: "dev_ok m s" and at: "unat n \<noteq> 0 \<longrightarrow> 512 * unat idx = A + p" and len: "p + unat n \<le> length b"
    and fits: "A + p + unat n \<le> length (disk m s)"
  shows "\<exists>r b' j q n' idx'. read_body s b p n idx = Some (r, b', s\<lparr>bdif := j\<rparr>, p + q, n', idx') \<and> same_dev (bdif s) j \<and>
      m (obj (p_user j)) = disk m s \<and> length b' = length b \<and>
      (r = EOK \<longrightarrow> q + unat n' = unat n \<and> unat n' < 512 \<and> (unat n' \<noteq> 0 \<longrightarrow> 512 * unat idx' = A + p + q) \<and>
        b' = patch b p (chunk (disk m s) (A + p) q))"
proof (cases "n div 512 = 0")
  case True
  moreover have "unat (n div 512) = unat n div 512" by (simp add: unat_div)
  ultimately have "unat n div 512 = 0" by simp
  then have "unat n < 512" by (simp add: div_eq_0_iff)
  with True dev_ok_bounds(2) [OF ok] at show ?thesis
    by (intro exI [of _ EOK] exI [of _ b] exI [of _ "bdif s"] exI [of _ 0] exI [of _ n] exI [of _ idx])
      (simp add: read_body_def)
next
  case False
  let ?k = "n div 512"
  have "A + p + unat n < 2 ^ 63" using fits dev_ok_bounds(1) [OF ok] by simp
  note pos = body_position [OF at this False]
  have fit: "512 * unat ?k \<le> length (drop p b)" "512 * unat idx + 512 * unat ?k \<le> length (disk m s)"
    using pos(2,3,4) len fits by simp_all
  from bread_reads [OF ok pos(1) fit] obtain r xs j where rd:
    "ext4_bdif_bread s (drop p b) idx ?k = Some (r, xs, s\<lparr>bdif := j\<rparr>)" "same_dev (bdif s) j"
    "m (obj (p_user j)) = disk m s" "length xs = length (drop p b)"
    "r = EOK \<longrightarrow> xs = patch (drop p b) 0 (chunk (disk m s) (512 * unat idx) (512 * unat ?k))"
    by blast
  have "read_body s b p n idx = Some (r, patch b p xs, s\<lparr>bdif := j\<rparr>, p + 512 * unat ?k, n - 512 * ?k, idx + ucast ?k)"
    using False rd(1) dev_ok_bounds(2) [OF ok] pos(4) by (simp add: read_body_def Let_def)
  moreover have idx: "512 * unat idx = A + p" using pos(3,4) by simp
  moreover have "length (patch b p xs) = length b" using rd(4) len by simp
  moreover have "patch b p xs = patch b p (chunk (disk m s) (A + p) (512 * unat ?k))" if "r = EOK"
    using rd(5) that fit idx len pos(2) by (simp add: patch_drop)
  ultimately show ?thesis using rd(2,3) pos(2,5,6,7)
    by (intro exI [of _ r] exI [of _ "patch b p xs"] exI [of _ j] exI [of _ "512 * unat ?k"] exI [of _ "n - 512 * ?k"]
        exI [of _ "idx + ucast ?k"]) simp
qed

lemma read_rest_reads:
  assumes ok: "dev_ok m s" and at: "unat n \<noteq> 0 \<longrightarrow> 512 * unat idx = Q" and "unat n < 512"
    and fits: "Q + unat n \<le> length (disk m s)"
  shows "\<exists>r xs j. (if n \<noteq> 0 then read_part s idx 0 (unat n) else Some (EOK, [], s)) = Some (r, xs, s\<lparr>bdif := j\<rparr>) \<and>
      same_dev (bdif s) j \<and> m (obj (p_user j)) = disk m s \<and> length xs \<le> unat n \<and> (r = EOK \<longrightarrow> xs = chunk (disk m s) Q (unat n))"
proof (cases "n = 0")
  case True
  then show ?thesis by (intro exI [of _ EOK] exI [of _ "[]"] exI [of _ "bdif s"]) simp
next
  case False
  then have pos: "0 < unat n" by (simp add: unat_gt_0)
  with at fits have Q: "512 * unat idx = Q" and "512 * unat idx < length (disk m s)" by simp_all
  from block_in_range(2) [OF dev_ok_bounds(4) [OF ok] this(2)] have "512 * unat idx + 512 \<le> length (disk m s)" .
  with read_part_reads [OF ok, of 0 "unat n" idx] assms(3) Q False show ?thesis by simp
qed

lemma three_chunks:
  assumes "p + q + k = length b" and "A + length b \<le> length M" and "length xs = k" and "xs = chunk M (A + p + q) k"
  shows "patch (patch (patch b 0 (chunk M A p)) p (chunk M (A + p) q)) (p + q) xs = chunk M A (length b)"
proof -
  let ?b = "patch b 0 (chunk M A p)"
  have l: "length ?b = length b" using assms by simp
  have "patch (patch ?b p (chunk M (A + p) q)) (p + q) xs = patch ?b p (chunk M (A + p) (q + k))"
    using patch_patch_adjacent [of p "chunk M (A + p) q" xs ?b] assms l by (simp add: chunk_append)
  also have "\<dots> = patch b 0 (chunk M A (p + (q + k)))"
    using patch_patch_adjacent [of 0 "chunk M A p" "chunk M (A + p) (q + k)" b] assms
    by (simp add: chunk_append [of M A p])
  also have "p + (q + k) = length b" using assms(1) by simp
  finally show ?thesis using assms(2) by simp
qed

lemma readbytes_reads:
  assumes ok: "dev_ok m s" and open_dev: "ph_refctr (bdif s) \<noteq> 0" and fits: "unat off + unat len \<le> unat (part_size s)"
    and l: "length b = unat len"
  shows "\<exists>r b' j. ext4_block_readbytes s off b len = Some (r, b', s\<lparr>bdif := j\<rparr>) \<and> same_dev (bdif s) j \<and>
      m (obj (p_user j)) = disk m s \<and> length b' = length b \<and>
      (r = EOK \<longrightarrow> b' = chunk (disk m s) (unat (part_offset s) + unat off) (unat len))"
proof -
  let ?A = "unat (part_offset s) + unat off" and ?M = "disk m s"
  have in_disk: "?A + unat len \<le> length ?M" using fits dev_ok_bounds(6) [OF ok] by simp
  have "unat len \<le> length b" using l by simp
  from read_head_reads [OF ok fits this] obtain r b1 j p n idx where
    h: "read_head s off b len = Some (r, b1, s\<lparr>bdif := j\<rparr>, p, n, idx)" "same_dev (bdif s) j" "m (obj (p_user j)) = ?M"
    "length b1 = length b"
    "r = EOK \<longrightarrow> p + unat n = unat len \<and> (unat n \<noteq> 0 \<longrightarrow> 512 * unat idx = ?A + p) \<and> b1 = patch b 0 (chunk ?M ?A p)"
    by blast
  note start = open_dev in_range_check [OF ok fits] dev_ok_bounds(2) [OF ok] l h(1)
  show ?thesis
  proof (cases "r = EOK")
    case False
    with start h(2,3,4) show ?thesis by (auto simp: ext4_block_readbytes_def)
  next
    case r: True
    have n: "p + unat n = unat len" and at: "unat n \<noteq> 0 \<longrightarrow> 512 * unat idx = ?A + p" and b1: "b1 = patch b 0 (chunk ?M ?A p)"
      using h(5) r by simp_all
    have "p + unat n \<le> length b1" "?A + p + unat n \<le> length (disk m (s\<lparr>bdif := j\<rparr>))" using n l in_disk h(3,4) by simp_all
    from read_body_reads [OF dev_ok_same [OF ok h(2)] at this] h(3) obtain r2 b2 k q n2 idx2 where
      w: "read_body (s\<lparr>bdif := j\<rparr>) b1 p n idx = Some (r2, b2, s\<lparr>bdif := k\<rparr>, p + q, n2, idx2)" "same_dev j k"
      "m (obj (p_user k)) = ?M" "length b2 = length b1"
      "r2 = EOK \<longrightarrow> q + unat n2 = unat n \<and> unat n2 < 512 \<and> (unat n2 \<noteq> 0 \<longrightarrow> 512 * unat idx2 = ?A + p + q) \<and>
         b2 = patch b1 p (chunk ?M (?A + p) q)"
      by auto
    have sk: "same_dev (bdif s) k" by (rule same_dev_trans [OF h(2) w(2)])
    show ?thesis
    proof (cases "r2 = EOK")
      case False
      with start r w(1,3,4) h(4) sk show ?thesis by (auto simp: ext4_block_readbytes_def)
    next
      case r2: True
      have q: "q + unat n2 = unat n" "unat n2 < 512" and at2: "unat n2 \<noteq> 0 \<longrightarrow> 512 * unat idx2 = ?A + p + q"
        and b2: "b2 = patch b1 p (chunk ?M (?A + p) q)" using w(5) r2 by simp_all
      have "?A + p + q + unat n2 \<le> length (disk m (s\<lparr>bdif := k\<rparr>))" using n q in_disk w(3) by simp
      from read_rest_reads [OF dev_ok_same [OF ok sk] at2 q(2) this] w(3) obtain r3 xs i where
        rest: "(if n2 \<noteq> 0 then read_part (s\<lparr>bdif := k\<rparr>) idx2 0 (unat n2) else Some (EOK, [], s\<lparr>bdif := k\<rparr>)) = Some (r3, xs, s\<lparr>bdif := i\<rparr>)"
        "same_dev k i" "m (obj (p_user i)) = ?M" "length xs \<le> unat n2" "r3 = EOK \<longrightarrow> xs = chunk ?M (?A + p + q) (unat n2)"
        by auto
      have "ext4_block_readbytes s off b len = Some (r3, patch b2 (p + q) xs, s\<lparr>bdif := i\<rparr>)"
        using start r r2 w(1) rest(1) by (auto simp: ext4_block_readbytes_def split: if_splits)
      moreover have "length (patch b2 (p + q) xs) = length b" using rest(4) n q w(4) h(4) l by simp
      moreover have "patch b2 (p + q) xs = chunk ?M ?A (unat len)" if "r3 = EOK"
        unfolding b2 b1 using three_chunks [of p q "unat n2" b ?A ?M xs] n q in_disk l rest(5) that by simp
      ultimately show ?thesis using rest(3) same_dev_trans [OF sk rest(2)] by auto
    qed
  qed
qed

section \<open>A disk in memory\<close>

text \<open>
  A driver that meets the laws: a disk whose blocks are kept in memory, with the outcome of the
  writes to come (a write that fails leaves the medium alone).
\<close>

definition ram_read :: "nat \<Rightarrow> (nat \<Rightarrow> u8) \<times> bool list \<Rightarrow> u64 \<Rightarrow> u8 list \<Rightarrow> bool \<times> u8 list \<times> ((nat \<Rightarrow> u8) \<times> bool list)" where
  "ram_read n x b bb = (True, map (\<lambda>i. fst x (512 * unat b + i)) [0..<512], x)"

definition ram_write :: "nat \<Rightarrow> (nat \<Rightarrow> u8) \<times> bool list \<Rightarrow> u64 \<Rightarrow> u8 list \<Rightarrow> bool \<times> ((nat \<Rightarrow> u8) \<times> bool list)" where
  "ram_write n x b bb =
    (if snd x \<noteq> [] \<and> hd (snd x) then (False, (fst x, tl (snd x)))
     else (True, (\<lambda>i. if 512 * unat b \<le> i \<and> i < 512 * unat b + 512 then bb ! (i - 512 * unat b) else fst x i, tl (snd x))))"

definition ram_medium :: "nat \<Rightarrow> (nat \<Rightarrow> u8) \<times> bool list \<Rightarrow> u8 list" where
  "ram_medium n x = map (fst x) [0..<512 * n]"

definition ram_driver :: "nat \<Rightarrow> (nat \<Rightarrow> u8) \<times> bool list \<Rightarrow> ((nat \<Rightarrow> u8) \<times> bool list) block_driver" where
  "ram_driver n x = \<lparr>read_block = ram_read n, write_block = ram_write n, get_block_size = 512, get_block_count = of_nat n, obj = x\<rparr>"

lemma ram_driver_laws:
  assumes "n < 2 ^ 54"
  shows "driver_laws (ram_medium n) (ram_driver n x)"
proof -
  have n: "unat (of_nat n :: u64) = n" using assms by (intro unat_of_nat_small) simp
  have lt: "512 * unat b + 512 \<le> 512 * n" if "b < of_nat n" for b :: u64
    using that n by (simp add: word_less_nat_alt)
  have rd: "map (\<lambda>i. fst y (512 * unat b + i)) [0..<512] = chunk (ram_medium n y) (512 * unat b) 512"
    if "b < of_nat n" for y and b :: u64
    using lt [OF that] by (intro nth_equalityI) (simp_all add: ram_medium_def nth_chunk)
  have wr: "map (\<lambda>i. if 512 * unat b \<le> i \<and> i < 512 * unat b + 512 then bb ! (i - 512 * unat b) else fst y i) [0..<512 * n] =
      patch (ram_medium n y) (512 * unat b) bb" if "b < of_nat n" "length bb = 512" for y bb and b :: u64
    using lt [OF that(1)] that(2) by (intro nth_equalityI) (auto simp: ram_medium_def nth_patch)
  have same: "ram_medium n y = patch (ram_medium n y) (512 * unat b) (chunk (ram_medium n y) (512 * unat b) 512)"
    if "b < of_nat n" for y and b :: u64 using lt [OF that] by (simp add: ram_medium_def)
  show ?thesis
    unfolding driver_laws_def
  proof (intro conjI allI impI)
    fix y :: "(nat \<Rightarrow> u8) \<times> bool list" and b :: u64 and bb :: "u8 list"
    assume "b < get_block_count (ram_driver n x)" and l: "length bb = 512"
    then have b: "b < of_nat n" by (simp add: ram_driver_def)
    show "case read_block (ram_driver n x) y b bb of (ok, bb', y') \<Rightarrow> ram_medium n y' = ram_medium n y \<and> length bb' = 512 \<and>
        (ok \<longrightarrow> bb' = chunk (ram_medium n y) (512 * unat b) 512)"
      using rd [OF b, of y, symmetric] by (simp add: ram_driver_def ram_read_def)
    show "case write_block (ram_driver n x) y b bb of (ok, y') \<Rightarrow>
        \<exists>ys. length ys = 512 \<and> (ok \<longrightarrow> ys = bb) \<and> ram_medium n y' = patch (ram_medium n y) (512 * unat b) ys"
    proof (cases "snd y \<noteq> [] \<and> hd (snd y)")
      case True
      then show ?thesis using same [OF b, of y] lt [OF b]
        by (auto simp: ram_driver_def ram_write_def ram_medium_def intro: exI [of _ "chunk (ram_medium n y) (512 * unat b) 512"])
    next
      case False
      then show ?thesis using wr [OF b l, of y] l by (auto simp: ram_driver_def ram_write_def ram_medium_def)
    qed
  qed (use assms n in \<open>simp_all add: ram_driver_def ram_medium_def\<close>)
qed

definition ram_dev :: "nat \<Rightarrow> (nat \<Rightarrow> u8) \<times> bool list \<Rightarrow> ((nat \<Rightarrow> u8) \<times> bool list) ext4_blockdev" where
  "ram_dev n x = \<lparr>bdif = \<lparr>ph_bsize = 512, ph_bcnt = of_nat n, ph_bbuf = replicate 512 0, ph_refctr = 1, bread_ctr = 0,
       bwrite_ctr = 0, p_user = ram_driver n x\<rparr>,
     part_offset = 0, part_size = of_nat (512 * n),
     bc = \<lparr>bc_cnt = 16, itemsize = 1024, lru_ctr = 0, ref_blocks = 0, max_ref_blocks = 0,
       dont_shake = False, lba_root = [], lru_root = [], dirty_list = []\<rparr>,
     lg_bsize = 1024, lg_bcnt = of_nat (n div 2), cache_write_back = 1, bufs = Map.empty, buf_next = 0,
     buf_mem = (\<lambda>_. Some (\<lambda>_. 0))\<rparr>"

lemma ram_dev_ok: "n < 2 ^ 54 \<Longrightarrow> dev_ok (ram_medium n) (ram_dev n x)"
  using unat_of_nat_small [of "512 * n", where 'a = 64]
  by (simp add: dev_ok_def ram_dev_def ram_driver_laws) (simp add: ram_driver_def ram_medium_def)

lemma ram_dev_geom: "n < 2 ^ 54 \<Longrightarrow> geom_ok (ram_dev n x)"
  using unat_of_nat_small [of "512 * n", where 'a = 64] unat_of_nat_small [of "n div 2", where 'a = 64]
  by (simp add: geom_ok_def ram_dev_def)

section \<open>The device as an array of bytes\<close>

text \<open>The bytes of the partition.\<close>

definition part_bytes :: "('d \<Rightarrow> u8 list) \<Rightarrow> 'd ext4_blockdev \<Rightarrow> u8 list" where
  "part_bytes m s = chunk (disk m s) (unat (part_offset s)) (unat (part_size s))"

lemma part_bytes_patch:
  assumes "dev_ok m s" and "k + length b \<le> unat (part_size s)" and "m (obj (p_user j)) = patch (disk m s) (unat (part_offset s) + k) b"
  shows "part_bytes m (s\<lparr>bdif := j\<rparr>) = patch (part_bytes m s) k b"
  using assms dev_ok_bounds(6) [OF assms(1)]
  by (intro nth_equalityI) (auto simp: part_bytes_def nth_chunk nth_patch)

end
