(* ===== verification/Ext4_Cache.thy ===== *)
theory Ext4_Cache
  imports Ext4_Device
begin

text \<open>
  Correctness of the buffer cache: the invariant of its trees, lists and buffers, and the view of
  the device through the cache, in which a block has the contents of its buffer when the buffer is
  up to date and the contents of the medium otherwise. Getting and releasing blocks, shaking and
  flushing the cache keep the view, and changing a buffer changes one block of it.
\<close>

section \<open>Flags of a buffer\<close>

abbreviation uptodate :: "ext4_buf \<Rightarrow> bool" where "uptodate b \<equiv> ext4_bcache_test_flag b BC_UPTODATE"
abbreviation dirty :: "ext4_buf \<Rightarrow> bool" where "dirty b \<equiv> ext4_bcache_test_flag b BC_DIRTY"
abbreviation tmp :: "ext4_buf \<Rightarrow> bool" where "tmp b \<equiv> ext4_bcache_test_flag b BC_TMP"
abbreviation flush_now :: "ext4_buf \<Rightarrow> bool" where "flush_now b \<equiv> ext4_bcache_test_flag b BC_FLUSH"

named_theorems cache \<open>flags and fields of buffers after an update\<close>

lemma test_flag_bit: "ext4_bcache_test_flag b n = bit (buf_flags b) n"
proof -
  have "drop_bit n (buf_flags b AND push_bit n 1) = (if bit (buf_flags b) n then 1 else 0)"
    by (rule bit_word_eqI) (auto simp: bit_simps dest: bit_imp_le_length intro!: gr0I)
  then show ?thesis by (simp add: ext4_bcache_test_flag_def)
qed

lemma test_set_flag [cache]:
  "k < 32 \<Longrightarrow> ext4_bcache_test_flag (ext4_bcache_set_flag k b) n = (n = k \<or> ext4_bcache_test_flag b n)"
  by (auto simp: test_flag_bit ext4_bcache_set_flag_def bit_simps)

lemma test_clear_flag [cache]:
  "ext4_bcache_test_flag (ext4_bcache_clear_flag k b) n = (n \<noteq> k \<and> ext4_bcache_test_flag b n)"
  by (auto simp: test_flag_bit ext4_bcache_clear_flag_def bit_simps dest: bit_imp_le_length)

lemma test_flag_upd [cache]:
  "ext4_bcache_test_flag (b\<lparr>lba := x\<rparr>) n = ext4_bcache_test_flag b n"
  "ext4_bcache_test_flag (b\<lparr>buf_data := d\<rparr>) n = ext4_bcache_test_flag b n"
  "ext4_bcache_test_flag (b\<lparr>lru_id := i\<rparr>) n = ext4_bcache_test_flag b n"
  "ext4_bcache_test_flag (b\<lparr>refctr := r\<rparr>) n = ext4_bcache_test_flag b n"
  "ext4_bcache_test_flag (b\<lparr>on_dirty_list := l\<rparr>) n = ext4_bcache_test_flag b n"
  by (simp_all add: ext4_bcache_test_flag_def)

lemma flag_fields [cache]:
  "lba (ext4_bcache_set_flag k b) = lba b" "lba (ext4_bcache_clear_flag k b) = lba b"
  "buf_data (ext4_bcache_set_flag k b) = buf_data b" "buf_data (ext4_bcache_clear_flag k b) = buf_data b"
  "lru_id (ext4_bcache_set_flag k b) = lru_id b" "lru_id (ext4_bcache_clear_flag k b) = lru_id b"
  "refctr (ext4_bcache_set_flag k b) = refctr b" "refctr (ext4_bcache_clear_flag k b) = refctr b"
  "on_dirty_list (ext4_bcache_set_flag k b) = on_dirty_list b" "on_dirty_list (ext4_bcache_clear_flag k b) = on_dirty_list b"
  by (simp_all add: ext4_bcache_set_flag_def ext4_bcache_clear_flag_def)

lemma bc_bits [cache]: "BC_UPTODATE = 0" "BC_DIRTY = 1" "BC_FLUSH = 2" "BC_TMP = 3"
  by (simp_all add: BC_UPTODATE_def BC_DIRTY_def BC_FLUSH_def BC_TMP_def)

lemma bc_distinct [simp]:
  "BC_UPTODATE \<noteq> BC_DIRTY" "BC_UPTODATE \<noteq> BC_FLUSH" "BC_UPTODATE \<noteq> BC_TMP" "BC_DIRTY \<noteq> BC_UPTODATE"
  "BC_DIRTY \<noteq> BC_FLUSH" "BC_DIRTY \<noteq> BC_TMP" "BC_FLUSH \<noteq> BC_UPTODATE" "BC_FLUSH \<noteq> BC_DIRTY" "BC_FLUSH \<noteq> BC_TMP"
  "BC_TMP \<noteq> BC_UPTODATE" "BC_TMP \<noteq> BC_DIRTY" "BC_TMP \<noteq> BC_FLUSH" "BC_UPTODATE < 32" "BC_DIRTY < 32"
  by (simp_all add: bc_bits)

section \<open>Trees and lists\<close>

definition hlba :: "(nat \<Rightarrow> ext4_buf option) \<Rightarrow> nat \<Rightarrow> u64" where
  "hlba h a = (case h a of None \<Rightarrow> 0 | Some b \<Rightarrow> lba b)"

definition hlru :: "(nat \<Rightarrow> ext4_buf option) \<Rightarrow> nat \<Rightarrow> u32" where
  "hlru h a = (case h a of None \<Rightarrow> 0 | Some b \<Rightarrow> lru_id b)"

lemma lba_key_eq: "lba_key s = hlba (bufs s)"
  by (rule ext) (simp add: lba_key_def hlba_def)

lemma lru_key_eq: "lru_key s = hlru (bufs s)"
  by (rule ext) (simp add: lru_key_def hlru_def)

definition lba_ok :: "(nat \<Rightarrow> ext4_buf option) \<Rightarrow> nat list \<Rightarrow> u32 \<Rightarrow> nat \<Rightarrow> bool" where
  "lba_ok h xs n nx \<longleftrightarrow> dom h = set xs \<and> sorted_wrt (<) (map (hlba h) xs) \<and> n = of_nat (length xs) \<and> (\<forall>a \<in> set xs. a < nx)"

definition lru_ok :: "(nat \<Rightarrow> ext4_buf option) \<Rightarrow> nat list \<Rightarrow> bool" where
  "lru_ok h xs \<longleftrightarrow> set xs = {a. \<exists>b. h a = Some b \<and> refctr b = 0} \<and> sorted_wrt (<) (map (hlru h) xs) \<and> inj_on (hlru h) (dom h)"

definition dirt_ok :: "(nat \<Rightarrow> ext4_buf option) \<Rightarrow> nat list \<Rightarrow> bool" where
  "dirt_ok h xs \<longleftrightarrow> set xs = {a. \<exists>b. h a = Some b \<and> on_dirty_list b} \<and> distinct xs"

lemma strict_map_distinct: "sorted_wrt (<) (map f xs) \<Longrightarrow> distinct xs \<and> inj_on f (set xs)"
  for f :: "'a \<Rightarrow> 'b::linorder"
  using strict_sorted_iff [of "map f xs"] by (simp add: distinct_map)

lemma strict_map_cong:
  "(\<And>x. x \<in> set xs \<Longrightarrow> f x = g x) \<Longrightarrow> sorted_wrt (<) (map f xs) \<Longrightarrow> sorted_wrt (<) (map g xs)"
  for f g :: "'a \<Rightarrow> 'b::linorder"
  by (metis map_cong)

lemma strict_map_remove1:
  fixes f :: "'a \<Rightarrow> 'b::linorder"
  assumes "sorted_wrt (<) (map f xs)"
  shows "sorted_wrt (<) (map f (remove1 a xs))"
proof -
  have "remove1 a xs = filter ((\<noteq>) a) xs"
    using strict_map_distinct [OF assms] by (simp add: distinct_remove1_removeAll removeAll_filter_not_eq)
  with assms show ?thesis by (simp add: sorted_wrt_map sorted_wrt_filter)
qed

lemma strict_map_rb_insert:
  assumes "sorted_wrt (<) (map f xs)" and "f a \<notin> f ` set xs"
  shows "sorted_wrt (<) (map f (rb_insert f a xs))" and "set (rb_insert f a xs) = insert a (set xs)"
    and "length (rb_insert f a xs) = Suc (length xs)"
proof -
  have s: "sorted (map f xs)" "distinct (map f xs)" using assms(1) by (simp_all add: strict_sorted_iff)
  have eq: "rb_insert f a xs = insort_key f a xs" using assms(2) by (simp add: rb_insert_def)
  then show "set (rb_insert f a xs) = insert a (set xs)" "length (rb_insert f a xs) = Suc (length xs)"
    by (simp_all add: set_insort_key)
  have "distinct (map f (insort_key f a xs))"
    using s(2) assms(2) by (auto simp: distinct_map distinct_insort set_insort_key)
  then show "sorted_wrt (<) (map f (rb_insert f a xs))"
    using s(1) by (simp add: eq strict_sorted_iff sorted_insort_key)
qed


subsection \<open>Changing one buffer\<close>

lemma hlba_upd [simp]: "h a = Some b \<Longrightarrow> lba b' = lba b \<Longrightarrow> hlba (h(a \<mapsto> b')) = hlba h"
  by (rule ext) (simp add: hlba_def)

lemma hlru_upd [simp]: "h a = Some b \<Longrightarrow> lru_id b' = lru_id b \<Longrightarrow> hlru (h(a \<mapsto> b')) = hlru h"
  by (rule ext) (simp add: hlru_def)

lemma dom_upd_in [simp]: "h a = Some b \<Longrightarrow> insert a (dom h) = dom h"
  by auto

lemma lba_ok_upd: "lba_ok h xs n nx \<Longrightarrow> h a = Some b \<Longrightarrow> lba b' = lba b \<Longrightarrow> lba_ok (h(a \<mapsto> b')) xs n nx"
  by (auto simp: lba_ok_def)

lemma lru_ok_upd:
  "lru_ok h xs \<Longrightarrow> h a = Some b \<Longrightarrow> lru_id b' = lru_id b \<Longrightarrow> (refctr b' = 0) = (refctr b = 0) \<Longrightarrow> lru_ok (h(a \<mapsto> b')) xs"
  by (auto simp: lru_ok_def)

lemma dirt_ok_upd:
  "dirt_ok h xs \<Longrightarrow> h a = Some b \<Longrightarrow> on_dirty_list b' = on_dirty_list b \<Longrightarrow> dirt_ok (h(a \<mapsto> b')) xs"
  by (auto simp: dirt_ok_def)

lemma dirt_ok_remove:
  "dirt_ok h xs \<Longrightarrow> h a = Some b \<Longrightarrow> \<not> on_dirty_list b' \<Longrightarrow> dirt_ok (h(a \<mapsto> b')) (remove1 a xs)"
  by (auto simp: dirt_ok_def)

lemma dirt_ok_insert:
  "dirt_ok h xs \<Longrightarrow> h a = Some b \<Longrightarrow> \<not> on_dirty_list b \<Longrightarrow> on_dirty_list b' \<Longrightarrow> dirt_ok (h(a \<mapsto> b')) (a # xs)"
  by (auto simp: dirt_ok_def)

lemma lru_ok_release:
  assumes "lru_ok h xs" and "h a = Some b" and "lru_id b' = lru_id b" and "refctr b \<noteq> 0" and "refctr b' = 0"
  shows "lru_ok (h(a \<mapsto> b')) (rb_insert (hlru (h(a \<mapsto> b'))) a xs)"
proof -
  have a: "a \<notin> set xs" using assms(1,2,4) by (auto simp: lru_ok_def)
  have "hlru h a \<notin> hlru h ` set xs"
  proof
    assume "hlru h a \<in> hlru h ` set xs"
    then obtain x where x: "x \<in> set xs" "hlru h x = hlru h a" by auto
    moreover have "x \<in> dom h" "a \<in> dom h" using assms(1,2) x(1) by (auto simp: lru_ok_def)
    ultimately have "x = a" using assms(1) by (auto simp: lru_ok_def dest: inj_onD)
    with x a show False by simp
  qed
  with strict_map_rb_insert [of "hlru h" xs a] assms show ?thesis by (auto simp: lru_ok_def)
qed

lemma lru_ok_acquire:
  assumes "lru_ok h xs" and "h a = Some b" and "refctr b' \<noteq> 0" and fresh: "\<And>x c. h x = Some c \<Longrightarrow> lru_id c < lru_id b'"
  shows "lru_ok (h(a \<mapsto> b')) (remove1 a xs)"
proof -
  have other: "hlru (h(a \<mapsto> b')) x = hlru h x" if "x \<noteq> a" for x using that by (simp add: hlru_def)
  have d: "distinct xs" using assms(1) strict_map_distinct by (auto simp: lru_ok_def)
  have "sorted_wrt (<) (map (hlru h) (remove1 a xs))"
    using assms(1) by (auto simp: lru_ok_def intro: strict_map_remove1)
  then have "sorted_wrt (<) (map (hlru (h(a \<mapsto> b'))) (remove1 a xs))"
    by (rule strict_map_cong [rotated]) (use d in \<open>auto simp: other\<close>)
  moreover have "inj_on (hlru (h(a \<mapsto> b'))) (dom h)"
  proof (rule inj_onI)
    fix x y assume xy: "x \<in> dom h" "y \<in> dom h" "hlru (h(a \<mapsto> b')) x = hlru (h(a \<mapsto> b')) y"
    have less: "hlru h z < lru_id b'" if "z \<in> dom h" for z using that fresh by (auto simp: hlru_def)
    have at: "hlru (h(a \<mapsto> b')) a = lru_id b'" by (simp add: hlru_def)
    consider "x = a" "y = a" | "x = a" "y \<noteq> a" | "x \<noteq> a" "y = a" | "x \<noteq> a" "y \<noteq> a" by blast
    then show "x = y"
    proof cases
      case 4
      with xy assms(1) show ?thesis by (auto simp: other lru_ok_def dest: inj_onD)
    qed (use xy less at other in force)+
  qed
  ultimately show ?thesis using assms(1,2,3) d by (auto simp: lru_ok_def)
qed

subsection \<open>Adding and dropping a buffer\<close>

lemma lba_ok_new:
  assumes "lba_ok h xs n nx" and "\<And>x c. h x = Some c \<Longrightarrow> lba c \<noteq> lba b" and "h nx = None"
  shows "lba_ok (h(nx \<mapsto> b)) (rb_insert (hlba (h(nx \<mapsto> b))) nx xs) (n + 1) (Suc nx)"
proof -
  let ?k = "hlba (h(nx \<mapsto> b))"
  have nx: "nx \<notin> set xs" using assms(1,3) by (auto simp: lba_ok_def)
  have same: "?k x = hlba h x" if "x \<in> set xs" for x using that nx by (auto simp: hlba_def)
  have sx: "sorted_wrt (<) (map (hlba h) xs)" using assms(1) by (simp add: lba_ok_def)
  have "sorted_wrt (<) (map ?k xs)" by (rule strict_map_cong [OF _ sx]) (rule same [symmetric])
  moreover have "?k nx \<notin> ?k ` set xs"
  proof
    assume "?k nx \<in> ?k ` set xs"
    then obtain x where x: "x \<in> set xs" "?k x = lba b" by (auto simp: hlba_def)
    then obtain c where "h x = Some c" using assms(1) by (auto simp: lba_ok_def)
    with assms(2) x nx show False by (auto simp: hlba_def split: if_splits)
  qed
  ultimately show ?thesis
    using strict_map_rb_insert [of ?k xs nx] assms(1) by (auto simp: lba_ok_def)
qed

lemma lru_ok_new:
  assumes "lru_ok h xs" and "h a = None" and "refctr b \<noteq> 0" and "\<And>x c. h x = Some c \<Longrightarrow> lru_id c < lru_id b"
  shows "lru_ok (h(a \<mapsto> b)) xs"
proof -
  have other: "hlru (h(a \<mapsto> b)) x = hlru h x" if "x \<noteq> a" for x using that by (simp add: hlru_def)
  have a: "a \<notin> set xs" using assms(1,2) by (auto simp: lru_ok_def)
  have sx: "sorted_wrt (<) (map (hlru h) xs)" using assms(1) by (simp add: lru_ok_def)
  have "sorted_wrt (<) (map (hlru (h(a \<mapsto> b))) xs)"
    by (rule strict_map_cong [OF _ sx]) (metis a other)
  moreover have "inj_on (hlru (h(a \<mapsto> b))) (insert a (dom h))"
  proof -
    have "hlru (h(a \<mapsto> b)) x = hlru h x" if "x \<in> dom h" for x
      using that assms(2) by (intro other) auto
    then have "inj_on (hlru (h(a \<mapsto> b))) (dom h) = inj_on (hlru h) (dom h)" by (rule inj_on_cong)
    then have "inj_on (hlru (h(a \<mapsto> b))) (dom h)" using assms(1) by (simp add: lru_ok_def)
    moreover have "hlru (h(a \<mapsto> b)) x \<noteq> lru_id b" if "x \<in> dom h - {a}" for x
      using that assms(4) [of x] by (auto simp: hlru_def)
    then have "hlru (h(a \<mapsto> b)) a \<notin> hlru (h(a \<mapsto> b)) ` (dom h - {a})"
      by (force simp: hlru_def [of "h(a \<mapsto> b)" a])
    ultimately show ?thesis by (simp add: inj_on_insert)
  qed
  ultimately show ?thesis using assms(1,2,3) by (auto simp: lru_ok_def)
qed

lemma dirt_ok_new: "dirt_ok h xs \<Longrightarrow> h a = None \<Longrightarrow> \<not> on_dirty_list b \<Longrightarrow> dirt_ok (h(a \<mapsto> b)) xs"
  by (auto simp: dirt_ok_def)

lemma lba_ok_drop:
  assumes "lba_ok h xs n nx" and "h a = Some b"
  shows "lba_ok (h(a := None)) (remove1 a xs) (n - 1) nx"
proof -
  have a: "a \<in> set xs" and d: "distinct xs"
    using assms strict_map_distinct by (auto simp: lba_ok_def)
  have "sorted_wrt (<) (map (hlba h) (remove1 a xs))"
    using assms(1) by (auto simp: lba_ok_def intro: strict_map_remove1)
  then have "sorted_wrt (<) (map (hlba (h(a := None))) (remove1 a xs))"
    by (rule strict_map_cong [rotated]) (use d in \<open>auto simp: hlba_def\<close>)
  moreover have "(of_nat (length (remove1 a xs)) :: u32) = of_nat (length xs) - 1"
  proof -
    have "length xs = Suc (length (remove1 a xs))" using a length_pos_if_in_set [of a xs] by (simp add: length_remove1)
    then show ?thesis by simp
  qed
  ultimately show ?thesis using assms d by (auto simp: lba_ok_def)
qed

lemma lru_ok_drop:
  assumes "lru_ok h xs" and "h a = Some b"
  shows "lru_ok (h(a := None)) (remove1 a xs)"
proof -
  have d: "distinct xs" using assms(1) strict_map_distinct by (auto simp: lru_ok_def)
  have "sorted_wrt (<) (map (hlru h) (remove1 a xs))"
    using assms(1) by (auto simp: lru_ok_def intro: strict_map_remove1)
  then have "sorted_wrt (<) (map (hlru (h(a := None))) (remove1 a xs))"
    by (rule strict_map_cong [rotated]) (use d in \<open>auto simp: hlru_def\<close>)
  moreover have "inj_on (hlru (h(a := None))) (dom h - {a})"
    using assms(1) by (auto simp: lru_ok_def inj_on_def hlru_def split: option.splits)
  ultimately show ?thesis using assms d by (auto simp: lru_ok_def)
qed

lemma dirt_ok_drop: "dirt_ok h xs \<Longrightarrow> h a = Some b \<Longrightarrow> dirt_ok (h(a := None)) (remove1 a xs)"
  by (auto simp: dirt_ok_def)

section \<open>The invariant and the view\<close>

definition buf_ok :: "('d \<Rightarrow> u8 list) \<Rightarrow> 'd ext4_blockdev \<Rightarrow> ext4_buf \<Rightarrow> bool" where
  "buf_ok m s b \<longleftrightarrow> length (buf_data b) = bsz s \<and> lba b < lg_bcnt s \<and> lru_id b \<le> lru_ctr (bc s) \<and> \<not> tmp b \<and> \<not> flush_now b \<and>
     (dirty b \<longrightarrow> uptodate b) \<and> (on_dirty_list b \<longrightarrow> dirty b \<and> refctr b = 0) \<and>
     (uptodate b \<and> \<not> dirty b \<longrightarrow> buf_data b = dblk m s (lba b))"

definition cache_ok :: "('d \<Rightarrow> u8 list) \<Rightarrow> 'd ext4_blockdev \<Rightarrow> bool" where
  "cache_ok m s \<longleftrightarrow> dev_ok m s \<and> geom_ok s \<and> itemsize (bc s) = lg_bsize s \<and> (\<forall>a b. bufs s a = Some b \<longrightarrow> buf_ok m s b) \<and>
     lba_ok (bufs s) (lba_root (bc s)) (ref_blocks (bc s)) (buf_next s) \<and>
     lru_ok (bufs s) (lru_root (bc s)) \<and> dirt_ok (bufs s) (dirty_list (bc s))"

definition cview :: "('d \<Rightarrow> u8 list) \<Rightarrow> 'd ext4_blockdev \<Rightarrow> u64 \<Rightarrow> u8 list" where
  "cview m s x =
    (case ext4_buf_lookup s x of
       None \<Rightarrow> dblk m s x
     | Some a \<Rightarrow> (case bufs s a of None \<Rightarrow> dblk m s x | Some b \<Rightarrow> if uptodate b then buf_data b else dblk m s x))"

lemma lookup_iff:
  assumes "lba_ok (bufs s) (lba_root (bc s)) n nx"
  shows "ext4_buf_lookup s x = Some a \<longleftrightarrow> (\<exists>b. bufs s a = Some b \<and> lba b = x)"
proof
  assume "ext4_buf_lookup s x = Some a"
  then obtain i where "i < length (lba_root (bc s))" "lba_root (bc s) ! i = a" "hlba (bufs s) a = x"
    by (auto simp: ext4_buf_lookup_def find_Some_iff lba_key_eq)
  moreover from this have "a \<in> dom (bufs s)" using assms by (auto simp: lba_ok_def)
  ultimately show "\<exists>b. bufs s a = Some b \<and> lba b = x" by (auto simp: hlba_def)
next
  assume "\<exists>b. bufs s a = Some b \<and> lba b = x"
  then obtain b where b: "bufs s a = Some b" "lba b = x" by blast
  let ?xs = "lba_root (bc s)"
  have inj: "inj_on (hlba (bufs s)) (set ?xs)" and dom: "dom (bufs s) = set ?xs"
    using assms strict_map_distinct by (auto simp: lba_ok_def)
  have a: "a \<in> set ?xs" using b dom by auto
  have key: "hlba (bufs s) a = x" using b by (simp add: hlba_def)
  then obtain c where c: "ext4_buf_lookup s x = Some c"
    using a by (cases "ext4_buf_lookup s x") (auto simp: ext4_buf_lookup_def find_None_iff lba_key_eq)
  then have "c \<in> set ?xs" "hlba (bufs s) c = x"
    by (auto simp: ext4_buf_lookup_def find_Some_iff lba_key_eq)
  with inj a key have "c = a" by (auto dest: inj_onD)
  with c show "ext4_buf_lookup s x = Some a" by simp
qed

lemma cache_okD:
  assumes "cache_ok m s"
  shows "dev_ok m s" "geom_ok s" "itemsize (bc s) = lg_bsize s" "bufs s a = Some b \<Longrightarrow> buf_ok m s b"
    "lba_ok (bufs s) (lba_root (bc s)) (ref_blocks (bc s)) (buf_next s)"
    "lru_ok (bufs s) (lru_root (bc s))" "dirt_ok (bufs s) (dirty_list (bc s))"
  using assms by (auto simp: cache_ok_def)

lemma lookup_cache: "cache_ok m s \<Longrightarrow> ext4_buf_lookup s x = Some a \<longleftrightarrow> (\<exists>b. bufs s a = Some b \<and> lba b = x)"
  by (rule lookup_iff [OF cache_okD(5)])

lemma cview_in:
  assumes "cache_ok m s" and "bufs s a = Some b"
  shows "cview m s (lba b) = (if uptodate b then buf_data b else dblk m s (lba b))"
proof -
  have "ext4_buf_lookup s (lba b) = Some a" using lookup_cache [OF assms(1)] assms(2) by auto
  with assms(2) show ?thesis by (simp add: cview_def)
qed

lemma cview_out:
  assumes "cache_ok m s" and "\<And>a b. bufs s a = Some b \<Longrightarrow> lba b \<noteq> x"
  shows "cview m s x = dblk m s x"
proof -
  have "ext4_buf_lookup s x = None" using lookup_cache [OF assms(1), of x] assms(2) by (metis option.exhaust)
  then show ?thesis by (simp add: cview_def)
qed

text \<open>The same contents follow from the same up-to-date buffers and the same medium.\<close>

lemma cview_cong:
  assumes "cache_ok m s" "cache_ok m s'" and "dblk m s' x = dblk m s x"
    and "\<And>a b. bufs s a = Some b \<Longrightarrow> lba b = x \<Longrightarrow> uptodate b \<Longrightarrow> \<exists>a' b'. bufs s' a' = Some b' \<and> lba b' = x \<and> uptodate b' \<and> buf_data b' = buf_data b"
    and "\<And>a b. bufs s' a = Some b \<Longrightarrow> lba b = x \<Longrightarrow> uptodate b \<Longrightarrow> \<exists>a' b'. bufs s a' = Some b' \<and> lba b' = x \<and> uptodate b'"
  shows "cview m s' x = cview m s x"
proof (cases "\<exists>a b. bufs s a = Some b \<and> lba b = x \<and> uptodate b")
  case True
  then obtain a b where b: "bufs s a = Some b" "lba b = x" "uptodate b" by blast
  from assms(4) [OF this] obtain a' b' where b': "bufs s' a' = Some b'" "lba b' = x" "uptodate b'" "buf_data b' = buf_data b" by blast
  from cview_in [OF assms(1) b(1)] cview_in [OF assms(2) b'(1)] b b' show ?thesis by simp
next
  case False
  have "cview m t x = dblk m t x" if "cache_ok m t" "\<nexists>a b. bufs t a = Some b \<and> lba b = x \<and> uptodate b" for t
    using cview_in [OF that(1)] cview_out [OF that(1)] that(2) by (metis (full_types))
  moreover have "\<nexists>a b. bufs s' a = Some b \<and> lba b = x \<and> uptodate b" using False assms(5) by blast
  ultimately show ?thesis using False assms(1,2,3) by simp
qed

lemma cview_upd_other:
  assumes ok: "cache_ok m s" "cache_ok m t" and b: "bufs s a = Some b" and t: "bufs t = (bufs s)(a \<mapsto> b')"
    and "lba b' = lba b" and x: "x \<noteq> lba b" and "dblk m t x = dblk m s x"
  shows "cview m t x = cview m s x"
proof (rule cview_cong [OF ok assms(7)])
  fix k c assume c: "bufs s k = Some c" "lba c = x" "uptodate c"
  then have "k \<noteq> a" using b x by auto
  with c t show "\<exists>a' b'. bufs t a' = Some b' \<and> lba b' = x \<and> uptodate b' \<and> buf_data b' = buf_data c" by auto
next
  fix k c assume c: "bufs t k = Some c" "lba c = x" "uptodate c"
  then have "k \<noteq> a" using t assms(5) x by auto
  with c t show "\<exists>a' b'. bufs s a' = Some b' \<and> lba b' = x \<and> uptodate b'" by auto
qed

text \<open>What an operation keeps: the invariant, the geometry, the view, and the referenced buffers outside \<open>A\<close>.\<close>

definition keeps :: "('d \<Rightarrow> u8 list) \<Rightarrow> nat set \<Rightarrow> 'd ext4_blockdev \<Rightarrow> 'd ext4_blockdev \<Rightarrow> bool" where
  "keeps m A s t \<longleftrightarrow> cache_ok m t \<and> lg_bcnt t = lg_bcnt s \<and> lg_bsize t = lg_bsize s \<and> ph_refctr (bdif t) = ph_refctr (bdif s) \<and>
     cache_write_back t = cache_write_back s \<and> (\<forall>x < lg_bcnt s. cview m t x = cview m s x) \<and>
     (\<forall>a b. a \<notin> A \<longrightarrow> refctr b \<noteq> 0 \<longrightarrow> bufs t a = Some b \<longleftrightarrow> bufs s a = Some b) \<and>
     (\<forall>a b. a \<notin> A \<longrightarrow> dirty b \<longrightarrow> bufs t a = Some b \<longrightarrow> bufs s a = Some b)"

lemma cache_keeps_refl: "cache_ok m s \<Longrightarrow> keeps m A s s"
  by (simp add: keeps_def)

lemma cache_keeps_trans: "keeps m A s t \<Longrightarrow> keeps m B t u \<Longrightarrow> keeps m (A \<union> B) s u"
  by (auto simp: keeps_def)

lemma keeps_mono: "keeps m A s t \<Longrightarrow> A \<subseteq> B \<Longrightarrow> keeps m B s t"
  by (auto simp: keeps_def)

lemma keepsD:
  assumes "keeps m A s t"
  shows "cache_ok m t" "lg_bcnt t = lg_bcnt s" "lg_bsize t = lg_bsize s" "ph_refctr (bdif t) = ph_refctr (bdif s)"
    "cache_write_back t = cache_write_back s" "x < lg_bcnt s \<Longrightarrow> cview m t x = cview m s x"
    "a \<notin> A \<Longrightarrow> refctr b \<noteq> 0 \<Longrightarrow> bufs t a = Some b \<longleftrightarrow> bufs s a = Some b"
    "a \<notin> A \<Longrightarrow> dirty b \<Longrightarrow> bufs t a = Some b \<Longrightarrow> bufs s a = Some b"
  using assms by (auto simp: keeps_def)

lemma cache_buf:
  assumes "cache_ok m s" and "bufs s a = Some b"
  shows "length (buf_data b) = bsz s" "lba b < lg_bcnt s" "lru_id b \<le> lru_ctr (bc s)" "\<not> tmp b" "dirty b \<Longrightarrow> uptodate b"
    "on_dirty_list b \<Longrightarrow> dirty b" "on_dirty_list b \<Longrightarrow> refctr b = 0" "uptodate b \<Longrightarrow> \<not> dirty b \<Longrightarrow> buf_data b = dblk m s (lba b)"
    "a \<in> set (lba_root (bc s))" "a < buf_next s"
    "a \<in> set (lru_root (bc s)) \<longleftrightarrow> refctr b = 0" "a \<in> set (dirty_list (bc s)) \<longleftrightarrow> on_dirty_list b"
    "\<not> flush_now b"
  using cache_okD(4) [OF assms] cache_okD(5,6,7) [OF assms(1)] assms(2)
  by (auto simp: buf_ok_def lba_ok_def lru_ok_def dirt_ok_def)

lemma cache_lba_inj:
  "cache_ok m s \<Longrightarrow> bufs s a = Some b \<Longrightarrow> bufs s c = Some d \<Longrightarrow> lba b = lba d \<Longrightarrow> a = c"
  using lookup_cache [of m s "lba b"] by (metis option.inject)

section \<open>The medium under the cache\<close>

lemma dblk_upd [simp]:
  "dblk m (s\<lparr>bc := c\<rparr>) x = dblk m s x" "dblk m (s\<lparr>bufs := h\<rparr>) x = dblk m s x" "dblk m (s\<lparr>buf_next := n\<rparr>) x = dblk m s x"
  "dblk m (s\<lparr>cache_write_back := w\<rparr>) x = dblk m s x"
  by (simp_all add: dblk_def lb_off_def)

lemma dev_ok_upd [simp]:
  "dev_ok m (s\<lparr>bc := c\<rparr>) = dev_ok m s" "dev_ok m (s\<lparr>bufs := h\<rparr>) = dev_ok m s" "dev_ok m (s\<lparr>buf_next := n\<rparr>) = dev_ok m s"
  "dev_ok m (s\<lparr>cache_write_back := w\<rparr>) = dev_ok m s"
  by (simp_all add: dev_ok_def)

lemma geom_ok_upd [simp]:
  "geom_ok (s\<lparr>bc := c\<rparr>) = geom_ok s" "geom_ok (s\<lparr>bufs := h\<rparr>) = geom_ok s" "geom_ok (s\<lparr>buf_next := n\<rparr>) = geom_ok s"
  "geom_ok (s\<lparr>cache_write_back := w\<rparr>) = geom_ok s" "geom_ok (s\<lparr>bdif := j\<rparr>) = geom_ok s"
  by (simp_all add: geom_ok_def)

lemma block_bounds:
  assumes "dev_ok m s" "geom_ok s" "x < lg_bcnt s"
  shows "lb_off s x + bsz s \<le> length (disk m s)"
  using blocks_in_part [OF assms(1,2), of "unat x" 1] assms(3) by (simp add: lb_off_def word_less_nat_alt)

lemma dblk_written:
  assumes "dev_ok m s" "geom_ok s" "y < lg_bcnt s" "x < lg_bcnt s" and "length ys = bsz s"
    and "m (obj (p_user j)) = patch (disk m s) (lb_off s y) ys"
  shows "dblk m (s\<lparr>bdif := j\<rparr>) x = (if x = y then ys else dblk m s x)"
proof (cases "x = y")
  case True
  then show ?thesis using assms block_bounds [OF assms(1,2,3)] by (simp add: dblk_def lb_off_def)
next
  case False
  then have "unat x < unat y \<or> unat y < unat x" using nat_neq_iff unsigned_word_eqI by blast
  then have "lb_off s x + bsz s \<le> lb_off s y \<or> lb_off s y + bsz s \<le> lb_off s x"
  proof
    assume "unat x < unat y"
    then have "Suc (unat x) * bsz s \<le> unat y * bsz s" by (intro mult_le_mono1) simp
    then show ?thesis by (simp add: lb_off_def)
  next
    assume "unat y < unat x"
    then have "Suc (unat y) * bsz s \<le> unat x * bsz s" by (intro mult_le_mono1) simp
    then show ?thesis by (simp add: lb_off_def)
  qed
  with False assms block_bounds [OF assms(1,2,3)] block_bounds [OF assms(1,2,4)] show ?thesis
    using chunk_patch_disjoint [of "lb_off s y" ys "disk m s" "lb_off s x" "bsz s"] by (simp add: dblk_def lb_off_def)
qed

lemma set_direct_one:
  assumes "dev_ok m s" "geom_ok s" "y < lg_bcnt s" "length b = bsz s"
  shows "\<exists>r j. ext4_blocks_set_direct s b y 1 = Some (r, s\<lparr>bdif := j\<rparr>) \<and> same_dev (bdif s) j \<and>
      (\<forall>x < lg_bcnt s. x \<noteq> y \<longrightarrow> dblk m (s\<lparr>bdif := j\<rparr>) x = dblk m s x) \<and> (r = EOK \<longrightarrow> dblk m (s\<lparr>bdif := j\<rparr>) y = b)"
proof -
  have "unat y + unat (1 :: u32) \<le> unat (lg_bcnt s)" "unat (1 :: u32) * bsz s < 2 ^ 32" "length b = unat (1 :: u32) * bsz s"
    using assms(3,4) unat_lt_pow2 [of "lg_bsize s"] by (simp_all add: word_less_nat_alt)
  from set_direct_writes [OF assms(1,2) this] obtain r j ys where w:
    "ext4_blocks_set_direct s b y 1 = Some (r, s\<lparr>bdif := j\<rparr>)" "same_dev (bdif s) j" "length ys = bsz s"
    "m (obj (p_user j)) = patch (disk m s) (lb_off s y) ys" "r = EOK \<longrightarrow> ys = b" by auto
  with dblk_written [OF assms(1,2,3) _ w(3,4)] assms(3) show ?thesis
    by (intro exI [of _ r] exI [of _ j]) simp
qed

lemma get_direct_one:
  assumes "dev_ok m s" "geom_ok s" "y < lg_bcnt s" "length b = bsz s"
  shows "\<exists>r b' j. ext4_blocks_get_direct s b y 1 = Some (r, b', s\<lparr>bdif := j\<rparr>) \<and> same_dev (bdif s) j \<and>
      dblk m (s\<lparr>bdif := j\<rparr>) = dblk m s \<and> length b' = bsz s \<and> (r = EOK \<longrightarrow> b' = dblk m s y)"
proof -
  have "unat y + unat (1 :: u32) \<le> unat (lg_bcnt s)" "unat (1 :: u32) * bsz s < 2 ^ 32" "length b = unat (1 :: u32) * bsz s"
    using assms(3,4) unat_lt_pow2 [of "lg_bsize s"] by (simp_all add: word_less_nat_alt)
  from get_direct_reads [OF assms(1,2) this] obtain r b' j where w:
    "ext4_blocks_get_direct s b y 1 = Some (r, b', s\<lparr>bdif := j\<rparr>)" "same_dev (bdif s) j" "length b' = bsz s"
    "m (obj (p_user j)) = disk m s" "r = EOK \<longrightarrow> b' = chunk (disk m s) (lb_off s y) (bsz s)" using assms(4) by auto
  moreover have "dblk m (s\<lparr>bdif := j\<rparr>) = dblk m s" using w(4) by (intro ext) (simp add: dblk_def lb_off_def)
  ultimately show ?thesis by (auto simp: dblk_def)
qed

section \<open>The dirty list and flushing a buffer\<close>

lemma update_same [simp]:
  "s\<lparr>bc := bc s\<rparr> = s" "s\<lparr>bufs := bufs s\<rparr> = s" "s\<lparr>bdif := bdif s\<rparr> = s"
  "c\<lparr>dirty_list := dirty_list c\<rparr> = c" "c\<lparr>lru_root := lru_root c\<rparr> = c"
  for s :: "'d ext4_blockdev" and c :: ext4_bcache
  by simp_all

lemma upd_order [simp]: "s\<lparr>bufs := h, bc := c\<rparr> = s\<lparr>bc := c, bufs := h\<rparr>"
  by simp

lemma off_list [simp]: "\<not> on_dirty_list b \<Longrightarrow> b\<lparr>on_dirty_list := False\<rparr> = b"
  by (cases b) simp

lemma upd_buf_eq: "bufs s a = Some b \<Longrightarrow> upd_buf s a f = s\<lparr>bufs := (bufs s)(a \<mapsto> f b)\<rparr>"
  by (simp add: upd_buf_def)

lemma remove_dirty_node_eq:
  assumes "dirt_ok (bufs s) (dirty_list (bc s))" and "bufs s a = Some b"
  shows "ext4_bcache_remove_dirty_node s a =
    Some (s\<lparr>bc := (bc s)\<lparr>dirty_list := remove1 a (dirty_list (bc s))\<rparr>, bufs := (bufs s)(a \<mapsto> b\<lparr>on_dirty_list := False\<rparr>)\<rparr>)"
proof (cases "on_dirty_list b")
  case True
  then have "a \<in> set (dirty_list (bc s))" using assms by (auto simp: dirt_ok_def)
  with True assms(2) show ?thesis by (simp add: ext4_bcache_remove_dirty_node_def unlink_node_def upd_buf_eq)
next
  case False
  then have "remove1 a (dirty_list (bc s)) = dirty_list (bc s)"
    using assms by (intro remove1_idem) (auto simp: dirt_ok_def)
  with False assms(2) show ?thesis by (simp add: ext4_bcache_remove_dirty_node_def map_upd_triv)
qed

lemma insert_dirty_node_eq:
  assumes "bufs s a = Some b" and "\<not> on_dirty_list b"
  shows "ext4_bcache_insert_dirty_node s a =
    Some (s\<lparr>bc := (bc s)\<lparr>dirty_list := a # dirty_list (bc s)\<rparr>, bufs := (bufs s)(a \<mapsto> b\<lparr>on_dirty_list := True\<rparr>)\<rparr>)"
  using assms by (simp add: ext4_bcache_insert_dirty_node_def upd_buf_eq)

text \<open>A change of the medium at one block, whose buffer is dirty, and of that buffer.\<close>

lemma medium_changed:
  assumes ok: "cache_ok m s" and b: "bufs s a = Some b" and j: "same_dev (bdif s) j"
    and others: "\<forall>x < lg_bcnt s. x \<noteq> lba b \<longrightarrow> dblk m (s\<lparr>bdif := j\<rparr>) x = dblk m s x" and up: "uptodate b"
    and b': "lba b' = lba b" "buf_data b' = buf_data b" "uptodate b'" "refctr b' = refctr b" "lru_id b' = lru_id b" "\<not> tmp b'" "\<not> flush_now b'"
    and coh: "dirty b' \<or> dblk m (s\<lparr>bdif := j\<rparr>) (lba b) = buf_data b" and dl: "on_dirty_list b' \<longrightarrow> dirty b' \<and> refctr b = 0"
    and xs: "dirt_ok ((bufs s)(a \<mapsto> b')) xs"
  shows "keeps m {a} s (s\<lparr>bdif := j, bc := (bc s)\<lparr>dirty_list := xs\<rparr>, bufs := (bufs s)(a \<mapsto> b')\<rparr>)" (is "keeps m _ s ?t")
proof -
  have d: "dblk m ?t x = dblk m (s\<lparr>bdif := j\<rparr>) x" for x by (simp add: dblk_def lb_off_def)
  have bo: "buf_ok m ?t c" if "bufs ?t k = Some c" for k c
  proof (cases "k = a")
    case True
    with that have "c = b'" by simp
    with b' coh dl cache_buf [OF ok b] d show ?thesis by (auto simp: buf_ok_def)
  next
    case False
    with that have c: "bufs s k = Some c" by simp
    have "lba c \<noteq> lba b" using cache_lba_inj [OF ok c b] False by blast
    then have "dblk m ?t (lba c) = dblk m s (lba c)" using others d cache_buf(2) [OF ok c] by simp
    with cache_okD(4) [OF ok c] show ?thesis by (simp add: buf_ok_def)
  qed
  have dv: "dev_ok m ?t" using dev_ok_same [OF cache_okD(1) [OF ok] j] by (simp add: dev_ok_def)
  have ok': "cache_ok m ?t"
    unfolding cache_ok_def using dv bo xs cache_okD(2,3,5,6) [OF ok] b b' lba_ok_upd lru_ok_upd
    by (auto simp: geom_ok_def)
  have v: "cview m ?t x = cview m s x" if x: "x < lg_bcnt s" for x
  proof (cases "x = lba b")
    case True
    have "bufs ?t a = Some b'" by simp
    from cview_in [OF ok' this] cview_in [OF ok b] True b' up show ?thesis by simp
  next
    case False
    have "dblk m ?t x = dblk m s x" using others d x False by simp
    from cview_upd_other [OF ok ok' b _ b'(1) False this] show ?thesis by simp
  qed
  show ?thesis using ok' v j by (auto simp: keeps_def same_dev_def)
qed

lemma flush_buf_keeps:
  assumes ok: "cache_ok m s" and b: "bufs s a = Some b"
  shows "\<exists>r t b'. ext4_block_flush_buf s a = Some (r, t) \<and> keeps m {a} s t \<and> bufs t = (bufs s)(a \<mapsto> b') \<and>
      lba b' = lba b \<and> buf_data b' = buf_data b \<and> refctr b' = refctr b \<and> uptodate b' = uptodate b \<and>
      bc t = (bc s)\<lparr>dirty_list := dirty_list (bc t)\<rparr> \<and>
      (r = EOK \<longrightarrow> \<not> dirty b' \<and> \<not> on_dirty_list b' \<and> dirty_list (bc t) = remove1 a (dirty_list (bc s))) \<and>
      (r \<noteq> EOK \<longrightarrow> b' = b \<and> dirty_list (bc t) = dirty_list (bc s))"
proof (cases "dirty b")
  case False
  then have "\<not> on_dirty_list b" using cache_buf(6) [OF ok b] by blast
  then have "remove1 a (dirty_list (bc s)) = dirty_list (bc s)" using cache_buf(12) [OF ok b] by (simp add: remove1_idem)
  with False b \<open>\<not> on_dirty_list b\<close> cache_keeps_refl [OF ok] show ?thesis
    by (intro exI [of _ EOK] exI [of _ s] exI [of _ b]) (simp add: ext4_block_flush_buf_def map_upd_triv)
next
  case True
  then have up: "uptodate b" by (rule cache_buf(5) [OF ok b])
  obtain r j where w: "ext4_blocks_set_direct s (buf_data b) (lba b) 1 = Some (r, s\<lparr>bdif := j\<rparr>)" "same_dev (bdif s) j"
    "\<forall>x < lg_bcnt s. x \<noteq> lba b \<longrightarrow> dblk m (s\<lparr>bdif := j\<rparr>) x = dblk m s x"
    "r = EOK \<longrightarrow> dblk m (s\<lparr>bdif := j\<rparr>) (lba b) = buf_data b"
    using set_direct_one [OF cache_okD(1,2) [OF ok] cache_buf(2,1) [OF ok b]] by blast
  note dirt = cache_okD(7) [OF ok] and facts = cache_buf [OF ok b]
  show ?thesis
  proof (cases "r = EOK")
    case False
    have "keeps m {a} s (s\<lparr>bdif := j, bc := (bc s)\<lparr>dirty_list := dirty_list (bc s)\<rparr>, bufs := (bufs s)(a \<mapsto> b)\<rparr>)"
      using True up facts(4,6,7,13) dirt b
      by (intro medium_changed [OF ok b w(2,3)]) (simp_all add: map_upd_triv)
    with False True up w(1) b show ?thesis
      by (intro exI [of _ r] exI [of _ "s\<lparr>bdif := j\<rparr>"] exI [of _ b])
        (simp add: ext4_block_flush_buf_def map_upd_triv)
  next
    case r: True
    let ?b = "ext4_bcache_clear_flag BC_DIRTY (b\<lparr>on_dirty_list := False\<rparr>)"
    let ?xs = "remove1 a (dirty_list (bc s))"
    let ?t = "s\<lparr>bdif := j, bc := (bc s)\<lparr>dirty_list := ?xs\<rparr>, bufs := (bufs s)(a \<mapsto> ?b)\<rparr>"
    have eq: "ext4_block_flush_buf s a = Some (EOK, ?t)"
      using True up w(1) b r remove_dirty_node_eq [of "s\<lparr>bdif := j\<rparr>" a b] dirt
      by (simp add: ext4_block_flush_buf_def upd_buf_eq)
    have "keeps m {a} s ?t"
      using up facts(4,13) dirt b w(4) r
      by (intro medium_changed [OF ok b w(2,3)]) (simp_all add: cache dirt_ok_remove)
    with eq up show ?thesis
      by (intro exI [of _ EOK] exI [of _ ?t] exI [of _ ?b]) (simp add: cache)
  qed
qed

section \<open>Changing, dropping and adding a buffer\<close>

lemma buf_changed:
  assumes ok: "cache_ok m s" and b: "bufs s a = Some b" and lb: "lba b' = lba b"
    and c: "itemsize c = itemsize (bc s)" "lba_root c = lba_root (bc s)" "ref_blocks c = ref_blocks (bc s)" "lru_ctr (bc s) \<le> lru_ctr c"
    and lists: "lru_ok ((bufs s)(a \<mapsto> b')) (lru_root c)" "dirt_ok ((bufs s)(a \<mapsto> b')) (dirty_list c)"
    and b': "buf_ok m (s\<lparr>bc := c\<rparr>) b'"
    and v: "(if uptodate b' then buf_data b' else dblk m s (lba b)) = cview m s (lba b)"
  shows "keeps m {a} s (s\<lparr>bc := c, bufs := (bufs s)(a \<mapsto> b')\<rparr>)" (is "keeps m _ s ?t")
proof -
  have bo: "buf_ok m ?t d" if "bufs ?t k = Some d" for k d
  proof (cases "k = a")
    case True
    with that b' show ?thesis by (simp add: buf_ok_def)
  next
    case False
    with that have "bufs s k = Some d" by simp
    from cache_okD(4) [OF ok this] c(4) show ?thesis by (auto simp: buf_ok_def)
  qed
  have ok': "cache_ok m ?t"
    unfolding cache_ok_def using bo lists c cache_okD(1,2,3) [OF ok] lba_ok_upd [OF cache_okD(5) [OF ok] b lb] by auto
  have "cview m ?t x = cview m s x" for x
  proof (cases "x = lba b")
    case True
    have "bufs ?t a = Some b'" by simp
    from cview_in [OF ok' this] v True lb show ?thesis by (cases "uptodate b'") simp_all
  next
    case False
    from cview_upd_other [OF ok ok' b _ lb False] show ?thesis by simp
  qed
  with ok' show ?thesis by (simp add: keeps_def)
qed

lemma drop_buf_eq:
  assumes ok: "cache_ok m s" and b: "bufs s a = Some b"
  shows "ext4_bcache_drop_buf s a = Some (s\<lparr>bc := (bc s)\<lparr>lru_root := remove1 a (lru_root (bc s)),
      lba_root := remove1 a (lba_root (bc s)), dirty_list := remove1 a (dirty_list (bc s)), ref_blocks := ref_blocks (bc s) - 1\<rparr>,
      bufs := (bufs s)(a := None)\<rparr>)"
proof -
  note f = cache_buf [OF ok b]
  let ?c = "(bc s)\<lparr>lru_root := remove1 a (lru_root (bc s)), lba_root := remove1 a (lba_root (bc s))\<rparr>"
  have lru: "(if refctr b \<noteq> 0 then Some s
      else do { l \<leftarrow> unlink_node a (lru_root (bc s)); Some (s\<lparr>bc := (bc s)\<lparr>lru_root := l\<rparr>\<rparr>) }) =
      Some (s\<lparr>bc := (bc s)\<lparr>lru_root := remove1 a (lru_root (bc s))\<rparr>\<rparr>)"
    using f(11) by (simp add: unlink_node_def remove1_idem)
  have "dirt_ok (bufs (s\<lparr>bc := ?c\<rparr>)) (dirty_list (bc (s\<lparr>bc := ?c\<rparr>)))" using cache_okD(7) [OF ok] by simp
  note rm = remove_dirty_node_eq [OF this, of a b]
  have dl: "(if dirty b then ext4_bcache_remove_dirty_node (s\<lparr>bc := ?c\<rparr>) a else Some (s\<lparr>bc := ?c\<rparr>)) =
      Some (s\<lparr>bc := ?c\<lparr>dirty_list := remove1 a (dirty_list (bc s))\<rparr>, bufs := (bufs s)(a \<mapsto> b\<lparr>on_dirty_list := False\<rparr>)\<rparr>)"
  proof (cases "dirty b")
    case True
    with rm b show ?thesis by simp
  next
    case False
    then have "\<not> on_dirty_list b" using f(6) by blast
    with False f(12) b show ?thesis by (simp add: remove1_idem map_upd_triv)
  qed
  have lb: "unlink_node a (lba_root (bc (s\<lparr>bc := (bc s)\<lparr>lru_root := remove1 a (lru_root (bc s))\<rparr>\<rparr>))) = Some (remove1 a (lba_root (bc s)))"
    by (simp add: unlink_node_def f(9))
  show ?thesis
    unfolding ext4_bcache_drop_buf_def b bind.bind_lunit lru lb Let_def
    using dl by (simp add: ext4_buf_free_def cong: if_cong split del: if_split)
qed

lemma drop_buf_keeps:
  assumes ok: "cache_ok m s" and b: "bufs s a = Some b" and clean: "\<not> dirty b"
  shows "\<exists>t. ext4_bcache_drop_buf s a = Some t \<and> keeps m {a} s t \<and> bufs t = (bufs s)(a := None) \<and>
      lru_root (bc t) = remove1 a (lru_root (bc s)) \<and> dirty_list (bc t) = remove1 a (dirty_list (bc s)) \<and> lru_ctr (bc t) = lru_ctr (bc s) \<and>
      dont_shake (bc t) = dont_shake (bc s)"
proof -
  let ?t = "s\<lparr>bc := (bc s)\<lparr>lru_root := remove1 a (lru_root (bc s)),
      lba_root := remove1 a (lba_root (bc s)), dirty_list := remove1 a (dirty_list (bc s)), ref_blocks := ref_blocks (bc s) - 1\<rparr>,
      bufs := (bufs s)(a := None)\<rparr>"
  have bo: "buf_ok m ?t d" if "bufs ?t k = Some d" for k d
  proof -
    from that have "bufs s k = Some d" by (simp split: if_splits)
    from cache_okD(4) [OF ok this] show ?thesis by (simp add: buf_ok_def)
  qed
  have ok': "cache_ok m ?t"
    unfolding cache_ok_def using bo cache_okD(1,2,3) [OF ok] lba_ok_drop [OF cache_okD(5) [OF ok] b]
      lru_ok_drop [OF cache_okD(6) [OF ok] b] dirt_ok_drop [OF cache_okD(7) [OF ok] b] by simp
  have "cview m ?t x = cview m s x" for x
  proof (cases "x = lba b")
    case True
    have "cview m s x = dblk m s x"
      using cview_in [OF ok b] cache_buf(8) [OF ok b] clean True by (cases "uptodate b") simp_all
    moreover have "lba d \<noteq> x" if "bufs ?t k = Some d" for k d
      using that cache_lba_inj [OF ok _ b, of k d] True by (auto split: if_splits)
    then have "cview m ?t x = dblk m ?t x" by (rule cview_out [OF ok'])
    ultimately show ?thesis by simp
  next
    case False
    show ?thesis
    proof (rule cview_cong [OF ok ok'])
      fix k d assume d: "bufs s k = Some d" "lba d = x" "uptodate d"
      then have "k \<noteq> a" using b False by auto
      with d show "\<exists>a' b'. bufs ?t a' = Some b' \<and> lba b' = x \<and> uptodate b' \<and> buf_data b' = buf_data d" by auto
    qed (auto split: if_splits)
  qed
  with ok' have "keeps m {a} s ?t" by (simp add: keeps_def)
  with drop_buf_eq [OF ok b] show ?thesis by (intro exI [of _ ?t]) simp
qed

lemma keeps_unref:
  assumes k: "keeps m {a} s t" and "bufs s a = Some b" "refctr b = 0" and t: "\<And>b'. bufs t a = Some b' \<Longrightarrow> refctr b' = 0 \<and> (dirty b' \<longrightarrow> b' = b)"
  shows "keeps m {} s t"
proof -
  have "bufs t c = Some d \<longleftrightarrow> bufs s c = Some d" if "refctr d \<noteq> 0" for c d
    using keepsD(7) [OF k] that assms(2-4) by (cases "c = a") auto
  moreover have "bufs s c = Some d" if "dirty d" "bufs t c = Some d" for c d
    using keepsD(8) [OF k] that assms(2) t by (cases "c = a") auto
  ultimately show ?thesis using k by (simp add: keeps_def)
qed

lemma flush_and_drop:
  assumes ok: "cache_ok m s" and b: "bufs s a = Some b" and r0: "refctr b = 0"
  shows "\<exists>r t. (if dirty b then ext4_block_flush_buf s a else Some (EOK, s)) = Some (r, t) \<and> keeps m {} s t \<and>
      lru_ctr (bc t) = lru_ctr (bc s) \<and> dont_shake (bc t) = dont_shake (bc s) \<and>
      (r = EOK \<longrightarrow> (\<exists>u. ext4_bcache_drop_buf t a = Some u \<and> keeps m {} s u \<and> lru_ctr (bc u) = lru_ctr (bc s) \<and>
        dont_shake (bc u) = dont_shake (bc s) \<and> lru_root (bc u) = remove1 a (lru_root (bc s))))"
proof -
  obtain r t b' where f: "ext4_block_flush_buf s a = Some (r, t)" "keeps m {a} s t" "bufs t a = Some b'" "refctr b' = 0"
    "bc t = (bc s)\<lparr>dirty_list := dirty_list (bc t)\<rparr>" "r = EOK \<longrightarrow> \<not> dirty b'" "dirty b' \<longrightarrow> b' = b"
    using flush_buf_keeps [OF ok b] r0 by fastforce
  have same: "lru_ctr (bc t) = lru_ctr (bc s)" "dont_shake (bc t) = dont_shake (bc s)" "lru_root (bc t) = lru_root (bc s)"
    using arg_cong [OF f(5), of lru_ctr] arg_cong [OF f(5), of dont_shake] arg_cong [OF f(5), of lru_root] by simp_all
  show ?thesis
  proof (cases "dirty b")
    case True
    have "\<exists>u. ext4_bcache_drop_buf t a = Some u \<and> keeps m {} s u \<and> lru_ctr (bc u) = lru_ctr (bc s) \<and>
        dont_shake (bc u) = dont_shake (bc s) \<and> lru_root (bc u) = remove1 a (lru_root (bc s))" if "r = EOK"
    proof -
      obtain u where u: "ext4_bcache_drop_buf t a = Some u" "keeps m {a} t u" "lru_ctr (bc u) = lru_ctr (bc t)"
        "dont_shake (bc u) = dont_shake (bc t)" "lru_root (bc u) = remove1 a (lru_root (bc t))" "bufs u = (bufs t)(a := None)"
        using drop_buf_keeps [OF keepsD(1) [OF f(2)] f(3)] f(6) \<open>r = EOK\<close> by blast
      have "keeps m {a} s u" using cache_keeps_trans [OF f(2) u(2)] by simp
      from keeps_unref [OF this b r0] u same show ?thesis by auto
    qed
    with True f(1) keeps_unref [OF f(2) b r0] f(3,4,7) same show ?thesis by auto
  next
    case False
    with drop_buf_keeps [OF ok b] cache_keeps_refl [OF ok] keeps_unref [OF _ b r0] show ?thesis by fastforce
  qed
qed

section \<open>Making room\<close>

lemma shake_loop_keeps:
  assumes "cache_ok m s"
  shows "\<exists>r t. shake_loop s = Some (r, t) \<and> keeps m {} s t \<and> lru_ctr (bc t) = lru_ctr (bc s) \<and> dont_shake (bc t) = dont_shake (bc s) \<and>
      (r = EOK \<longrightarrow> lru_root (bc t) = [] \<or> \<not> ext4_bcache_is_full (bc t))"
  using assms
proof (induction "length (lru_root (bc s))" arbitrary: s rule: less_induct)
  case less
  show ?case
  proof (cases "lru_root (bc s) = [] \<or> \<not> ext4_bcache_is_full (bc s)")
    case True
    then show ?thesis using cache_keeps_refl [OF less.prems]
      by (intro exI [of _ EOK] exI [of _ s]) (auto simp: shake_loop.simps split: list.splits)
  next
    case False
    then obtain a as where lru: "lru_root (bc s) = a # as" by (cases "lru_root (bc s)") auto
    then obtain b where b: "bufs s a = Some b" "refctr b = 0"
      using cache_okD(6) [OF less.prems] by (auto simp: lru_ok_def)
    from flush_and_drop [OF less.prems b] obtain r t where
      f: "(if dirty b then ext4_block_flush_buf s a else Some (EOK, s)) = Some (r, t)" "keeps m {} s t"
      "lru_ctr (bc t) = lru_ctr (bc s)" "dont_shake (bc t) = dont_shake (bc s)"
      and g: "r = EOK \<longrightarrow> (\<exists>u. ext4_bcache_drop_buf t a = Some u \<and> keeps m {} s u \<and> lru_ctr (bc u) = lru_ctr (bc s) \<and>
        dont_shake (bc u) = dont_shake (bc s) \<and> lru_root (bc u) = remove1 a (lru_root (bc s)))"
      by blast
    have step: "shake_loop s = (if r \<noteq> EOK then Some (r, t) else do { u \<leftarrow> ext4_bcache_drop_buf t a; shake_loop u })"
      using lru False b(1) f(1) by (subst shake_loop.simps) simp
    show ?thesis
    proof (cases "r = EOK")
      case True
      with g obtain u where u: "ext4_bcache_drop_buf t a = Some u" "keeps m {} s u" "lru_ctr (bc u) = lru_ctr (bc s)"
        "dont_shake (bc u) = dont_shake (bc s)" "lru_root (bc u) = as" using lru by auto
      from less.hyps [of u] keepsD(1) [OF u(2)] u(5) lru obtain r' w where
        "shake_loop u = Some (r', w)" "keeps m {} u w" "lru_ctr (bc w) = lru_ctr (bc u)" "dont_shake (bc w) = dont_shake (bc u)"
        "r' = EOK \<longrightarrow> lru_root (bc w) = [] \<or> \<not> ext4_bcache_is_full (bc w)" by auto
      with step True u cache_keeps_trans [OF u(2), of "{}" w] show ?thesis by simp
    next
      case False
      with step f show ?thesis by auto
    qed
  qed
qed

lemma cache_ok_shake [simp]: "cache_ok m (s\<lparr>bc := (bc s)\<lparr>dont_shake := d\<rparr>\<rparr>) = cache_ok m s"
  by (simp add: cache_ok_def buf_ok_def)

lemma cview_shake [simp]: "cview m (s\<lparr>bc := (bc s)\<lparr>dont_shake := d\<rparr>\<rparr>) x = cview m s x"
  by (simp add: cview_def ext4_buf_lookup_def lba_key_def split: option.split)

lemma keeps_shake [simp]:
  "keeps m A s (t\<lparr>bc := (bc t)\<lparr>dont_shake := d\<rparr>\<rparr>) = keeps m A s t" "keeps m A (s\<lparr>bc := (bc s)\<lparr>dont_shake := d\<rparr>\<rparr>) t = keeps m A s t"
  by (simp_all add: keeps_def)

lemma cache_shake_keeps:
  assumes "cache_ok m s"
  shows "\<exists>r t. ext4_block_cache_shake s = Some (r, t) \<and> keeps m {} s t \<and> lru_ctr (bc t) = lru_ctr (bc s) \<and>
      (r = EOK \<longrightarrow> dont_shake (bc s) \<or> lru_root (bc t) = [] \<or> \<not> ext4_bcache_is_full (bc t))"
proof (cases "dont_shake (bc s)")
  case True
  then show ?thesis using cache_keeps_refl [OF assms] by (simp add: ext4_block_cache_shake_def)
next
  case False
  let ?s = "s\<lparr>bc := (bc s)\<lparr>dont_shake := True\<rparr>\<rparr>"
  have "cache_ok m ?s" using assms by simp
  from shake_loop_keeps [OF this] obtain r t where "shake_loop ?s = Some (r, t)" "keeps m {} s t"
    "lru_ctr (bc t) = lru_ctr (bc s)" "r = EOK \<longrightarrow> lru_root (bc t) = [] \<or> \<not> ext4_bcache_is_full (bc t)" by auto
  with False show ?thesis by (simp add: ext4_block_cache_shake_def ext4_bcache_is_full_def)
qed

section \<open>Taking a reference\<close>

lemma word_succ_less: "x + 1 \<noteq> 0 \<Longrightarrow> x < x + 1" for x :: "'a::len word"
  using unatSuc [of x] by (simp add: word_less_nat_alt add.commute)

lemma cview_own: "cache_ok m s \<Longrightarrow> bufs s a = Some b \<Longrightarrow> uptodate b' = uptodate b \<Longrightarrow> buf_data b' = buf_data b \<Longrightarrow>
  (if uptodate b' then buf_data b' else dblk m s (lba b)) = cview m s (lba b)"
  using cview_in [of m s a b] by simp

lemma find_get_unref:
  assumes ok: "cache_ok m s" and b: "bufs s a = Some b" and r0: "refctr b = 0" and ctr: "lru_ctr (bc s) + 1 \<noteq> 0"
  defines "c \<equiv> (bc s)\<lparr>lru_ctr := lru_ctr (bc s) + 1, lru_root := remove1 a (lru_root (bc s)), dirty_list := remove1 a (dirty_list (bc s))\<rparr>"
    and "b' \<equiv> b\<lparr>lru_id := lru_ctr (bc s) + 1, on_dirty_list := False, refctr := 1\<rparr>"
  shows "ext4_bcache_find_get s blk (lba b) = Some (Some a, blk\<lparr>lb_id := lba b, b_buf := Some a\<rparr>, s\<lparr>bc := c, bufs := (bufs s)(a \<mapsto> b')\<rparr>)"
    and "keeps m {a} s (s\<lparr>bc := c, bufs := (bufs s)(a \<mapsto> b')\<rparr>)"
proof -
  note f = cache_buf [OF ok b]
  have look: "ext4_buf_lookup s (lba b) = Some a" using lookup_cache [OF ok] b by auto
  let ?b1 = "b\<lparr>lru_id := lru_ctr (bc s) + 1\<rparr>"
  let ?c1 = "(bc s)\<lparr>lru_ctr := lru_ctr (bc s) + 1, lru_root := remove1 a (lru_root (bc s))\<rparr>"
  let ?s1 = "s\<lparr>bc := ?c1, bufs := (bufs s)(a \<mapsto> ?b1)\<rparr>"
  have "dirt_ok (bufs ?s1) (dirty_list (bc ?s1))" using cache_okD(7) [OF ok] b by (auto intro: dirt_ok_upd)
  note rm = remove_dirty_node_eq [OF this, of a ?b1]
  have dl: "(if dirty b then ext4_bcache_remove_dirty_node ?s1 a else Some ?s1) =
      Some (s\<lparr>bc := c, bufs := (bufs s)(a \<mapsto> ?b1\<lparr>on_dirty_list := False\<rparr>)\<rparr>)"
  proof (cases "dirty b")
    case True
    with rm show ?thesis by (simp add: c_def)
  next
    case False
    then have "\<not> on_dirty_list b" using f(6) by blast
    with False f(12) show ?thesis by (simp add: remove1_idem c_def)
  qed
  show "ext4_bcache_find_get s blk (lba b) = Some (Some a, blk\<lparr>lb_id := lba b, b_buf := Some a\<rparr>, s\<lparr>bc := c, bufs := (bufs s)(a \<mapsto> b')\<rparr>)"
    using f(11) r0 b dl
    by (simp add: ext4_bcache_find_get_def look unlink_node_def upd_buf_eq b'_def Let_def cong: if_cong split del: if_split)
  have "lru_ok ((bufs s)(a \<mapsto> b')) (remove1 a (lru_root (bc s)))"
  proof (rule lru_ok_acquire [OF cache_okD(6) [OF ok] b])
    fix x d assume "bufs s x = Some d"
    from cache_buf(3) [OF ok this] show "lru_id d < lru_id b'"
      using word_succ_less [OF ctr] by (simp add: b'_def)
  qed (simp add: b'_def)
  moreover have "dirt_ok ((bufs s)(a \<mapsto> b')) (remove1 a (dirty_list (bc s)))"
    by (rule dirt_ok_remove [OF cache_okD(7) [OF ok] b]) (simp add: b'_def)
  moreover have "buf_ok m (s\<lparr>bc := c\<rparr>) b'"
    using cache_okD(4) [OF ok b] by (simp add: buf_ok_def b'_def c_def cache)
  moreover have "lru_ctr (bc s) \<le> lru_ctr c" using word_succ_less [OF ctr] by (simp add: c_def)
  ultimately show "keeps m {a} s (s\<lparr>bc := c, bufs := (bufs s)(a \<mapsto> b')\<rparr>)"
    using cview_own [OF ok b, of b']
    by (intro buf_changed [OF ok b]) (simp_all add: b'_def c_def cache)
qed

lemma find_get_ref:
  assumes ok: "cache_ok m s" and b: "bufs s a = Some b" and r: "refctr b \<noteq> 0" "refctr b + 1 \<noteq> 0"
  defines "b' \<equiv> b\<lparr>refctr := refctr b + 1\<rparr>"
  shows "ext4_bcache_find_get s blk (lba b) = Some (Some a, blk\<lparr>lb_id := lba b, b_buf := Some a\<rparr>, s\<lparr>bufs := (bufs s)(a \<mapsto> b')\<rparr>)"
    and "keeps m {a} s (s\<lparr>bufs := (bufs s)(a \<mapsto> b')\<rparr>)"
proof -
  have look: "ext4_buf_lookup s (lba b) = Some a" using lookup_cache [OF ok] b by auto
  show "ext4_bcache_find_get s blk (lba b) = Some (Some a, blk\<lparr>lb_id := lba b, b_buf := Some a\<rparr>, s\<lparr>bufs := (bufs s)(a \<mapsto> b')\<rparr>)"
    using r b by (simp add: ext4_bcache_find_get_def look upd_buf_eq b'_def)
  have nd: "\<not> on_dirty_list b" using cache_buf(7) [OF ok b] r(1) by blast
  have "keeps m {a} s (s\<lparr>bc := bc s, bufs := (bufs s)(a \<mapsto> b')\<rparr>)"
  proof (rule buf_changed [OF ok b])
    show "lru_ok ((bufs s)(a \<mapsto> b')) (lru_root (bc s))"
      by (rule lru_ok_upd [OF cache_okD(6) [OF ok] b]) (simp_all add: b'_def r)
    show "dirt_ok ((bufs s)(a \<mapsto> b')) (dirty_list (bc s))"
      by (rule dirt_ok_upd [OF cache_okD(7) [OF ok] b]) (simp add: b'_def)
    show "buf_ok m (s\<lparr>bc := bc s\<rparr>) b'" using cache_okD(4) [OF ok b] nd by (simp add: buf_ok_def b'_def cache)
    show "(if uptodate b' then buf_data b' else dblk m s (lba b)) = cview m s (lba b)"
      by (rule cview_own [OF ok b]) (simp_all add: b'_def cache)
  qed (simp_all add: b'_def)
  then show "keeps m {a} s (s\<lparr>bufs := (bufs s)(a \<mapsto> b')\<rparr>)" by simp
qed

lemma cache_fresh: "cache_ok m s \<Longrightarrow> bufs s (buf_next s) = None"
  using cache_buf(10) [of m s "buf_next s"] by (cases "bufs s (buf_next s)") auto

lemma alloc_failed:
  assumes ok: "cache_ok m s" and new: "\<And>a b. bufs s a = Some b \<Longrightarrow> lba b \<noteq> lb_id blk" and mem: "buf_mem s (buf_next s) = None"
  shows "ext4_bcache_alloc s blk = Some (ENOMEM, False, blk, s\<lparr>buf_next := Suc (buf_next s)\<rparr>)"
    and "keeps m {} s (s\<lparr>buf_next := Suc (buf_next s)\<rparr>)"
proof -
  let ?t = "s\<lparr>buf_next := Suc (buf_next s)\<rparr>"
  have look: "ext4_buf_lookup s (lb_id blk) = None" using lookup_cache [OF ok] new by (metis option.exhaust)
  then show "ext4_bcache_alloc s blk = Some (ENOMEM, False, blk, ?t)"
    using mem by (simp add: ext4_bcache_alloc_def ext4_bcache_find_get_def ext4_buf_alloc_def Let_def)
  have "cache_ok m ?t" using ok by (auto simp: cache_ok_def buf_ok_def lba_ok_def)
  moreover from this have "cview m ?t x = cview m s x" for x by (intro cview_cong [OF ok]) auto
  ultimately show "keeps m {} s ?t" by (simp add: keeps_def)
qed

lemma alloc_new:
  assumes ok: "cache_ok m s" and new: "\<And>a b. bufs s a = Some b \<Longrightarrow> lba b \<noteq> lb_id blk" and mem: "buf_mem s (buf_next s) = Some f"
    and lb: "lb_id blk < lg_bcnt s" and ctr: "lru_ctr (bc s) + 1 \<noteq> 0"
  defines "b \<equiv> \<lparr>buf_flags = 0, lba = lb_id blk, buf_data = map f [0..<bsz s], lru_id = lru_ctr (bc s) + 1, refctr = 1, on_dirty_list = False\<rparr>"
  shows "\<exists>c. ext4_bcache_alloc s blk = Some (EOK, True, blk\<lparr>b_buf := Some (buf_next s)\<rparr>,
        s\<lparr>buf_next := Suc (buf_next s), bc := c, bufs := (bufs s)(buf_next s \<mapsto> b)\<rparr>) \<and>
      keeps m {buf_next s} s (s\<lparr>buf_next := Suc (buf_next s), bc := c, bufs := (bufs s)(buf_next s \<mapsto> b)\<rparr>) \<and> lru_ctr c = lru_ctr (bc s) + 1"
proof -
  let ?a = "buf_next s" and ?h = "(bufs s)(buf_next s \<mapsto> b)"
  let ?b0 = "b\<lparr>lru_id := 0, refctr := 0\<rparr>"
  let ?xs = "rb_insert (hlba ?h) ?a (lba_root (bc s))" and ?n = "ref_blocks (bc s) + 1"
  define c where "c = (bc s)\<lparr>lba_root := ?xs, ref_blocks := ?n,
    max_ref_blocks := if max_ref_blocks (bc s) < ?n then ?n else max_ref_blocks (bc s), lru_ctr := lru_ctr (bc s) + 1\<rparr>"
  let ?t = "s\<lparr>buf_next := Suc ?a, bc := c, bufs := ?h\<rparr>"
  have fresh: "bufs s ?a = None" by (rule cache_fresh [OF ok])
  have look: "ext4_buf_lookup s (lb_id blk) = None" using lookup_cache [OF ok] new by (metis option.exhaust)
  have keys: "lba_key (s\<lparr>buf_next := Suc ?a, bufs := (bufs s)(?a \<mapsto> ?b0)\<rparr>) = hlba ?h"
    by (rule ext) (simp add: lba_key_def hlba_def)
  have al: "ext4_buf_alloc s (lb_id blk) = (Some ?a, s\<lparr>buf_next := Suc ?a, bufs := (bufs s)(?a \<mapsto> ?b0)\<rparr>)"
    using mem cache_okD(3) [OF ok] by (simp add: ext4_buf_alloc_def b_def Let_def)
  have bb: "b\<lparr>refctr := 1, lru_id := lru_ctr (bc s) + 1\<rparr> = b" by (simp add: b_def)
  have run: "ext4_bcache_alloc s blk = Some (EOK, True, blk\<lparr>b_buf := Some ?a\<rparr>, ?t)"
    by (simp add: ext4_bcache_alloc_def ext4_bcache_find_get_def look al keys Let_def upd_buf_def c_def bb)
  have bo: "buf_ok m ?t d" if "bufs ?t k = Some d" for k d
  proof (cases "k = ?a")
    case True
    with that have "d = b" by simp
    with lb show ?thesis by (simp add: buf_ok_def b_def c_def test_flag_bit)
  next
    case False
    with that have "bufs s k = Some d" by simp
    from cache_okD(4) [OF ok this] word_succ_less [OF ctr] show ?thesis by (auto simp: buf_ok_def c_def)
  qed
  have "lba_ok ?h ?xs ?n (Suc ?a)" by (rule lba_ok_new [OF cache_okD(5) [OF ok] _ fresh]) (use new in \<open>auto simp: b_def\<close>)
  moreover have "lru_ok ?h (lru_root (bc s))"
  proof (rule lru_ok_new [OF cache_okD(6) [OF ok] fresh])
    fix x d assume "bufs s x = Some d"
    from cache_buf(3) [OF ok this] show "lru_id d < lru_id b" using word_succ_less [OF ctr] by (simp add: b_def)
  qed (simp add: b_def)
  moreover have "dirt_ok ?h (dirty_list (bc s))"
    by (rule dirt_ok_new [OF cache_okD(7) [OF ok] fresh]) (simp add: b_def)
  ultimately have ok': "cache_ok m ?t"
    using bo cache_okD(1,2,3) [OF ok] by (simp add: cache_ok_def c_def)
  have "cview m ?t x = cview m s x" for x
  proof (rule cview_cong [OF ok ok'])
    fix k d assume "bufs s k = Some d" "lba d = x" "uptodate d"
    then show "\<exists>a' b'. bufs ?t a' = Some b' \<and> lba b' = x \<and> uptodate b' \<and> buf_data b' = buf_data d"
      using fresh by (intro exI [of _ k] exI [of _ d]) auto
  next
    fix k d assume "bufs ?t k = Some d" "lba d = x" "uptodate d"
    then show "\<exists>a' b'. bufs s a' = Some b' \<and> lba b' = x \<and> uptodate b'"
      by (intro exI [of _ k] exI [of _ d]) (auto simp: b_def test_flag_bit split: if_splits)
  qed simp
  then have "keeps m {?a} s ?t" using ok' by (simp add: keeps_def)
  with run show ?thesis by (intro exI [of _ c]) (simp add: c_def)
qed

section \<open>Releasing a reference\<close>

lemma flags_changed:
  assumes ok: "cache_ok m s" and b: "bufs s a = Some b" and "b' = b\<lparr>buf_flags := buf_flags b'\<rparr>"
    and "uptodate b' = uptodate b" "dirty b' = dirty b" "tmp b' = tmp b" "flush_now b' = flush_now b"
  shows "keeps m {a} s (s\<lparr>bufs := (bufs s)(a \<mapsto> b')\<rparr>)"
proof -
  have f: "lba b' = lba b" "buf_data b' = buf_data b" "lru_id b' = lru_id b" "refctr b' = refctr b" "on_dirty_list b' = on_dirty_list b"
    by (subst assms(3), simp)+
  have "keeps m {a} s (s\<lparr>bc := bc s, bufs := (bufs s)(a \<mapsto> b')\<rparr>)"
  proof (rule buf_changed [OF ok b])
    show "lru_ok ((bufs s)(a \<mapsto> b')) (lru_root (bc s))" by (rule lru_ok_upd [OF cache_okD(6) [OF ok] b]) (simp_all add: f)
    show "dirt_ok ((bufs s)(a \<mapsto> b')) (dirty_list (bc s))" by (rule dirt_ok_upd [OF cache_okD(7) [OF ok] b]) (simp add: f)
    show "buf_ok m (s\<lparr>bc := bc s\<rparr>) b'" using cache_okD(4) [OF ok b] assms(4-7) f by (simp add: buf_ok_def)
    show "(if uptodate b' then buf_data b' else dblk m s (lba b)) = cview m s (lba b)"
      by (rule cview_own [OF ok b]) (simp_all add: assms(4) f)
  qed (simp_all add: f)
  then show ?thesis by simp
qed

lemma release_keeps:
  assumes ok: "cache_ok m s" and b: "bufs s a = Some b" and r: "refctr b \<noteq> 0"
  defines "b' \<equiv> b\<lparr>refctr := refctr b - 1\<rparr>"
    and "c \<equiv> (if refctr b = 1 then (bc s)\<lparr>lru_root := rb_insert (hlru ((bufs s)(a \<mapsto> b\<lparr>refctr := refctr b - 1\<rparr>))) a (lru_root (bc s))\<rparr> else bc s)"
  shows "keeps m {a} s (s\<lparr>bc := c, bufs := (bufs s)(a \<mapsto> b')\<rparr>)"
proof (rule buf_changed [OF ok b])
  have nd: "\<not> on_dirty_list b" using cache_buf(7) [OF ok b] r by blast
  show "lru_ok ((bufs s)(a \<mapsto> b')) (lru_root c)"
  proof (cases "refctr b = 1")
    case True
    with lru_ok_release [OF cache_okD(6) [OF ok] b, of b'] show ?thesis by (simp add: b'_def c_def)
  next
    case False
    then have "refctr b - 1 \<noteq> 0" by (metis eq_iff_diff_eq_0)
    with r have "lru_ok ((bufs s)(a \<mapsto> b')) (lru_root (bc s))"
      by (intro lru_ok_upd [OF cache_okD(6) [OF ok] b]) (simp_all add: b'_def)
    with False show ?thesis by (simp add: c_def)
  qed
  have "dirty_list c = dirty_list (bc s)" by (simp add: c_def)
  then show "dirt_ok ((bufs s)(a \<mapsto> b')) (dirty_list c)"
    using dirt_ok_upd [OF cache_okD(7) [OF ok] b, of b'] by (simp only:) (simp add: b'_def)
  show "buf_ok m (s\<lparr>bc := c\<rparr>) b'" using cache_okD(4) [OF ok b] nd by (simp add: buf_ok_def b'_def c_def cache)
  show "(if uptodate b' then buf_data b' else dblk m s (lba b)) = cview m s (lba b)"
    by (rule cview_own [OF ok b]) (simp_all add: b'_def cache)
qed (simp_all add: b'_def c_def)

lemma insert_dirty_keeps:
  assumes ok: "cache_ok m s" and b: "bufs s a = Some b" and "dirty b" "\<not> on_dirty_list b" "refctr b = 0"
  shows "\<exists>t. ext4_bcache_insert_dirty_node s a = Some t \<and> keeps m {a} s t \<and> bufs t a = Some (b\<lparr>on_dirty_list := True\<rparr>) \<and>
    lru_ctr (bc t) = lru_ctr (bc s)"
proof -
  let ?b = "b\<lparr>on_dirty_list := True\<rparr>" and ?c = "(bc s)\<lparr>dirty_list := a # dirty_list (bc s)\<rparr>"
  have "keeps m {a} s (s\<lparr>bc := ?c, bufs := (bufs s)(a \<mapsto> ?b)\<rparr>)"
  proof (rule buf_changed [OF ok b])
    show "lru_ok ((bufs s)(a \<mapsto> ?b)) (lru_root ?c)" using lru_ok_upd [OF cache_okD(6) [OF ok] b, of ?b] by simp
    show "dirt_ok ((bufs s)(a \<mapsto> ?b)) (dirty_list ?c)" using dirt_ok_insert [OF cache_okD(7) [OF ok] b, of ?b] assms(4) by simp
    show "buf_ok m (s\<lparr>bc := ?c\<rparr>) ?b" using cache_okD(4) [OF ok b] assms(3,5) by (simp add: buf_ok_def cache)
    show "(if uptodate ?b then buf_data ?b else dblk m s (lba b)) = cview m s (lba b)"
      by (rule cview_own [OF ok b]) (simp_all add: cache)
  qed simp_all
  with insert_dirty_node_eq [OF b assms(4)] show ?thesis by (intro exI) auto
qed

lemma settle_keeps:
  assumes ok: "cache_ok m s" and b: "bufs s a = Some b" and r0: "refctr b = 0" and nl: "\<not> on_dirty_list b"
  shows "\<exists>t b'. (if dirty b \<and> uptodate b
      then if w then ext4_bcache_insert_dirty_node s a
           else do { (r, s) \<leftarrow> ext4_block_flush_buf s a; Some (upd_buf s a (ext4_bcache_clear_flag BC_FLUSH)) }
      else Some s) = Some t \<and> keeps m {a} s t \<and> bufs t a = Some b' \<and> uptodate b' = uptodate b \<and> refctr b' = 0 \<and>
      (dirty b' \<longrightarrow> dirty b) \<and> (w \<longrightarrow> dirty b' \<longrightarrow> on_dirty_list b') \<and> lru_ctr (bc t) = lru_ctr (bc s)"
proof (cases "dirty b")
  case False
  with cache_keeps_refl [OF ok] b r0 show ?thesis by simp
next
  case d: True
  then have up: "uptodate b" by (rule cache_buf(5) [OF ok b])
  show ?thesis
  proof (cases w)
    case True
    with insert_dirty_keeps [OF ok b d nl r0] d up r0 show ?thesis by (auto simp: cache)
  next
    case False
    obtain r t b' where f: "ext4_block_flush_buf s a = Some (r, t)" "keeps m {a} s t" "bufs t a = Some b'" "refctr b' = 0"
      "bc t = (bc s)\<lparr>dirty_list := dirty_list (bc t)\<rparr>" "uptodate b' = uptodate b"
      using flush_buf_keeps [OF ok b] r0 by fastforce
    let ?b = "ext4_bcache_clear_flag BC_FLUSH b'"
    have "keeps m {a} t (t\<lparr>bufs := (bufs t)(a \<mapsto> ?b)\<rparr>)"
      by (rule flags_changed [OF keepsD(1) [OF f(2)] f(3)], simp add: ext4_bcache_clear_flag_def)
        (simp_all add: test_clear_flag cache_buf(13) [OF keepsD(1) [OF f(2)] f(3)])
    from cache_keeps_trans [OF f(2) this] have "keeps m {a} s (t\<lparr>bufs := (bufs t)(a \<mapsto> ?b)\<rparr>)" by simp
    moreover have "lru_ctr (bc t) = lru_ctr (bc s)" using arg_cong [OF f(5), of lru_ctr] by simp
    ultimately show ?thesis using False d up f by (simp add: upd_buf_eq cache)
  qed
qed

lemma free_keeps:
  assumes ok: "cache_ok m s" and b: "bufs s a = Some b" and r: "refctr b \<noteq> 0" and blk: "b_buf blk = Some a" "lb_id blk \<noteq> 0"
  shows "\<exists>t. ext4_bcache_free s blk = Some (EOK, blk\<lparr>lb_id := 0\<rparr>, t) \<and> keeps m {a} s t \<and> lru_ctr (bc t) = lru_ctr (bc s) \<and>
      (refctr b \<noteq> 1 \<longrightarrow> bufs t a = Some (b\<lparr>refctr := refctr b - 1\<rparr>)) \<and>
      (refctr b = 1 \<longrightarrow> (\<forall>c. bufs t a = Some c \<longrightarrow> refctr c = 0 \<and> (dirty c \<longrightarrow> dirty b) \<and>
        (cache_write_back s \<noteq> 0 \<longrightarrow> dirty c \<longrightarrow> on_dirty_list c)))"
proof (cases "refctr b = 1")
  case False
  with release_keeps [OF ok b r] blk b r show ?thesis
    by (intro exI [of _ "s\<lparr>bufs := (bufs s)(a \<mapsto> b\<lparr>refctr := refctr b - 1\<rparr>)\<rparr>"])
      (simp add: ext4_bcache_free_def upd_buf_eq)
next
  case True
  let ?b = "b\<lparr>refctr := 0\<rparr>" and ?h = "(bufs s)(a \<mapsto> b\<lparr>refctr := 0\<rparr>)"
  let ?s1 = "s\<lparr>bc := (bc s)\<lparr>lru_root := rb_insert (hlru ?h) a (lru_root (bc s))\<rparr>, bufs := ?h\<rparr>"
  let ?w = "cache_write_back s \<noteq> 0 \<and> \<not> ext4_bcache_test_flag b BC_FLUSH \<and> \<not> tmp b"
  have k1: "keeps m {a} s ?s1" using release_keeps [OF ok b r] True by simp
  have nl: "\<not> on_dirty_list b" using cache_buf(7) [OF ok b] r by blast
  have "bufs ?s1 a = Some ?b" "refctr ?b = 0" "\<not> on_dirty_list ?b" using nl by simp_all
  from settle_keeps [OF keepsD(1) [OF k1] this, of ?w] obtain t b' where
    t: "(if dirty b \<and> uptodate b then if ?w then ext4_bcache_insert_dirty_node ?s1 a
           else do { (r, s) \<leftarrow> ext4_block_flush_buf ?s1 a; Some (upd_buf s a (ext4_bcache_clear_flag BC_FLUSH)) }
        else Some ?s1) = Some t" "keeps m {a} ?s1 t" "bufs t a = Some b'" "uptodate b' = uptodate b" "lru_ctr (bc t) = lru_ctr (bc s)" "refctr b' = 0"
      "dirty b' \<longrightarrow> dirty b" "?w \<longrightarrow> dirty b' \<longrightarrow> on_dirty_list b'"
    by (simp add: cache split del: if_split cong: if_cong) blast
  have lk: "lru_key (s\<lparr>bufs := ?h\<rparr>) = hlru ?h" by (simp add: lru_key_eq)
  have run: "ext4_bcache_free s blk = do { u \<leftarrow> (if \<not> uptodate b then ext4_bcache_drop_buf t a else Some t); Some (EOK, blk\<lparr>lb_id := 0\<rparr>, u) }"
    using blk b r True t(1) cache_buf(4) [OF ok b]
    by (simp add: ext4_bcache_free_def upd_buf_eq lk Let_def split del: if_split cong: if_cong)
  have kt: "keeps m {a} s t" using cache_keeps_trans [OF k1 t(2)] by simp
  show ?thesis
  proof (cases "uptodate b")
    case True
    with run kt t(3,5-8) \<open>refctr b = 1\<close> cache_buf(4,13) [OF ok b] show ?thesis by simp
  next
    case False
    then have "\<not> dirty b'" using cache_buf(5) [OF keepsD(1) [OF kt] t(3)] t(4) by blast
    from drop_buf_keeps [OF keepsD(1) [OF kt] t(3) this] obtain u where
      "ext4_bcache_drop_buf t a = Some u" "keeps m {a} t u" "lru_ctr (bc u) = lru_ctr (bc t)" "bufs u = (bufs t)(a := None)" by blast
    with run False kt t(5) cache_keeps_trans [OF kt, of "{a}" u] True show ?thesis by simp
  qed
qed

section \<open>Getting a block\<close>

text \<open>The number of references to a buffer, and what an operation does to it.\<close>

definition refs :: "'d ext4_blockdev \<Rightarrow> nat \<Rightarrow> u32" where
  "refs s a = (case bufs s a of None \<Rightarrow> 0 | Some b \<Rightarrow> refctr b)"

lemma keeps_refs:
  assumes "keeps m A s t" and "a \<notin> A"
  shows "refs t a = refs s a"
proof (cases "refs s a = 0")
  case False
  then obtain b where "bufs s a = Some b" "refctr b \<noteq> 0" by (auto simp: refs_def split: option.splits)
  with keepsD(7) [OF assms, of b] show ?thesis by (simp add: refs_def)
next
  case True
  then show ?thesis using keepsD(7) [OF assms] by (auto simp: refs_def split: option.splits)
qed

definition room :: "'d ext4_blockdev \<Rightarrow> bool" where
  "room s \<longleftrightarrow> lru_ctr (bc s) + 1 \<noteq> 0 \<and> (\<forall>a. refs s a + 1 \<noteq> 0)"

lemma alloc_keeps:
  assumes ok: "cache_ok m s" and lb: "lb_id blk < lg_bcnt s" and room: "room s"
  shows "\<exists>r n a t. ext4_bcache_alloc s blk = Some (r, n, if r = EOK then blk\<lparr>b_buf := Some a\<rparr> else blk, t) \<and> (lru_ctr (bc t) = lru_ctr (bc s) \<or> lru_ctr (bc t) = lru_ctr (bc s) + 1) \<and>
      (r \<noteq> EOK \<longrightarrow> keeps m {} s t) \<and>
      (r = EOK \<longrightarrow> keeps m {a} s t \<and> refs t a = refs s a + 1 \<and> (\<exists>b. bufs t a = Some b \<and> lba b = lb_id blk))"
proof (cases "\<exists>a b. bufs s a = Some b \<and> lba b = lb_id blk")
  case True
  then obtain a b where b: "bufs s a = Some b" and lba: "lb_id blk = lba b" by auto
  have run: "ext4_bcache_alloc s blk = Some (EOK, False, blk\<lparr>lb_id := lba b, b_buf := Some a\<rparr>, t)"
    if "ext4_bcache_find_get s blk (lba b) = Some (Some a, blk\<lparr>lb_id := lba b, b_buf := Some a\<rparr>, t)" for t
    using that by (simp add: ext4_bcache_alloc_def lba)
  have same: "blk\<lparr>lb_id := lba b, b_buf := Some a\<rparr> = blk\<lparr>b_buf := Some a\<rparr>" using lba by (cases blk) simp
  show ?thesis
  proof (cases "refctr b = 0")
    case True
    have "lru_ctr (bc s) + 1 \<noteq> 0" using room by (simp add: room_def)
    from run [OF find_get_unref(1) [OF ok b True this]] find_get_unref(2) [OF ok b True this] True b lba show ?thesis
      unfolding same by (intro exI [of _ EOK] exI [of _ False] exI [of _ a] exI) (auto simp: refs_def)
  next
    case False
    have "refctr b + 1 \<noteq> 0" using room b by (auto simp: room_def refs_def dest: spec [of _ a])
    from run [OF find_get_ref(1) [OF ok b False this]] find_get_ref(2) [OF ok b False this] b lba show ?thesis
      unfolding same by (intro exI [of _ EOK] exI [of _ False] exI [of _ a] exI) (auto simp: refs_def)
  qed
next
  case False
  then have new: "\<And>a b. bufs s a = Some b \<Longrightarrow> lba b \<noteq> lb_id blk" by blast
  show ?thesis
  proof (cases "buf_mem s (buf_next s)")
    case None
    from alloc_failed [OF ok new None] show ?thesis
      by (intro exI [of _ ENOMEM] exI [of _ False] exI [of _ 0] exI) (auto simp: ENOMEM_def EOK_def)
  next
    case (Some f)
    have ctr: "lru_ctr (bc s) + 1 \<noteq> 0" using room by (simp add: room_def)
    have "refs s (buf_next s) = 0" using cache_fresh [OF ok] by (simp add: refs_def)
    moreover obtain c where "ext4_bcache_alloc s blk = Some (EOK, True, blk\<lparr>b_buf := Some (buf_next s)\<rparr>,
        s\<lparr>buf_next := Suc (buf_next s), bc := c, bufs := (bufs s)(buf_next s \<mapsto> \<lparr>buf_flags = 0, lba = lb_id blk,
          buf_data = map f [0..<bsz s], lru_id = lru_ctr (bc s) + 1, refctr = 1, on_dirty_list = False\<rparr>)\<rparr>)"
      "keeps m {buf_next s} s (s\<lparr>buf_next := Suc (buf_next s), bc := c, bufs := (bufs s)(buf_next s \<mapsto> \<lparr>buf_flags = 0, lba = lb_id blk,
          buf_data = map f [0..<bsz s], lru_id = lru_ctr (bc s) + 1, refctr = 1, on_dirty_list = False\<rparr>)\<rparr>)"
      "lru_ctr c = lru_ctr (bc s) + 1"
      using alloc_new [where s = s and blk = blk and m = m and f = f] ok new Some lb ctr by blast
    ultimately show ?thesis
      by (intro exI [of _ EOK] exI [of _ True] exI [of _ "buf_next s"] exI) (auto simp: refs_def)
  qed
qed

lemma keeps_refs_upd: "keeps m {a} s t \<Longrightarrow> refs t = (refs s)(a := refs t a)"
  by (rule ext) (simp add: keeps_refs)

lemma keeps_refs_all: "keeps m {} s t \<Longrightarrow> refs t = refs s"
  by (rule ext) (simp add: keeps_refs)

lemma get_noread_keeps:
  assumes ok: "cache_ok m s" and "ph_refctr (bdif s) \<noteq> 0" and lb: "lb < lg_bcnt s" and room: "room s"
  shows "\<exists>r blk' a t. ext4_block_get_noread s blk lb = Some (r, blk', t) \<and>
      (lru_ctr (bc t) = lru_ctr (bc s) \<or> lru_ctr (bc t) = lru_ctr (bc s) + 1) \<and> (r \<noteq> EOK \<longrightarrow> keeps m {} s t) \<and>
      (r = EOK \<longrightarrow> blk' = \<lparr>lb_id = lb, b_buf = Some a\<rparr> \<and> keeps m {a} s t \<and> refs t a = refs s a + 1 \<and>
        (\<exists>b. bufs t a = Some b \<and> lba b = lb))"
proof -
  obtain r t where sh: "ext4_block_cache_shake s = Some (r, t)" "keeps m {} s t" "lru_ctr (bc t) = lru_ctr (bc s)"
    using cache_shake_keeps [OF ok] by blast
  show ?thesis
  proof (cases "r = EOK")
    case False
    with sh assms(2) lb show ?thesis by (simp add: ext4_block_get_noread_def)
  next
    case True
    let ?blk = "blk\<lparr>lb_id := lb\<rparr>"
    have "lb_id ?blk < lg_bcnt t" "room t"
      using lb keepsD(2) [OF sh(2)] room keeps_refs_all [OF sh(2)] sh(3) by (simp_all add: room_def)
    from alloc_keeps [OF keepsD(1) [OF sh(2)] this] obtain r2 n a u where
      al: "ext4_bcache_alloc t ?blk = Some (r2, n, if r2 = EOK then ?blk\<lparr>b_buf := Some a\<rparr> else ?blk, u)"
      "lru_ctr (bc u) = lru_ctr (bc t) \<or> lru_ctr (bc u) = lru_ctr (bc t) + 1" "r2 \<noteq> EOK \<longrightarrow> keeps m {} t u"
      "r2 = EOK \<longrightarrow> keeps m {a} t u \<and> refs u a = refs t a + 1 \<and> (\<exists>b. bufs u a = Some b \<and> lba b = lb_id ?blk)"
      by blast
    have run: "ext4_block_get_noread s blk lb = Some (r2, if r2 = EOK then ?blk\<lparr>b_buf := Some a\<rparr> else ?blk, u)"
      using True sh(1) assms(2) lb al(1) by (simp add: ext4_block_get_noread_def)
    have eq: "?blk\<lparr>b_buf := Some a\<rparr> = \<lparr>lb_id = lb, b_buf = Some a\<rparr>" by (cases blk) simp
    show ?thesis
    proof (cases "r2 = EOK")
      case True
      with run al(2,4) sh(3) cache_keeps_trans [OF sh(2), of "{a}" u] keeps_refs_all [OF sh(2)] eq show ?thesis
        by (intro exI [of _ r2] exI [of _ "\<lparr>lb_id = lb, b_buf = Some a\<rparr>"] exI [of _ a] exI [of _ u]) simp
    next
      case False
      with run al(2,3) sh(3) cache_keeps_trans [OF sh(2), of "{}" u] show ?thesis by simp
    qed
  qed
qed

text \<open>Filling a buffer that is not up to date.\<close>

lemma fill_keeps:
  assumes ok: "cache_ok m s" and b: "bufs s a = Some b" and "\<not> uptodate b" and "length xs = bsz s"
    and full: "f \<longrightarrow> xs = dblk m s (lba b)"
  defines "b' \<equiv> (if f then ext4_bcache_set_flag BC_UPTODATE (b\<lparr>buf_data := xs\<rparr>) else b\<lparr>buf_data := xs\<rparr>)"
  shows "keeps m {a} s (s\<lparr>bufs := (bufs s)(a \<mapsto> b')\<rparr>)"
proof -
  have nd: "\<not> dirty b" using cache_buf(5) [OF ok b] assms(3) by blast
  have fl: "uptodate b' = f" "\<not> dirty b'" "tmp b' = tmp b" "flush_now b' = flush_now b" using assms(3) nd by (simp_all add: b'_def cache)
  have fld: "lba b' = lba b" "lru_id b' = lru_id b" "refctr b' = refctr b" "on_dirty_list b' = on_dirty_list b" "buf_data b' = xs"
    by (simp_all add: b'_def cache)
  have "keeps m {a} s (s\<lparr>bc := bc s, bufs := (bufs s)(a \<mapsto> b')\<rparr>)"
  proof (rule buf_changed [OF ok b])
    show "lru_ok ((bufs s)(a \<mapsto> b')) (lru_root (bc s))" by (rule lru_ok_upd [OF cache_okD(6) [OF ok] b]) (simp_all add: fld)
    show "dirt_ok ((bufs s)(a \<mapsto> b')) (dirty_list (bc s))" by (rule dirt_ok_upd [OF cache_okD(7) [OF ok] b]) (simp add: fld)
    show "buf_ok m (s\<lparr>bc := bc s\<rparr>) b'" using cache_okD(4) [OF ok b] nd fl fld assms(4,5) by (simp add: buf_ok_def)
    show "(if uptodate b' then buf_data b' else dblk m s (lba b)) = cview m s (lba b)"
      using cview_in [OF ok b] assms(3,5) fl fld by simp
  qed (simp_all add: fld)
  then show ?thesis by simp
qed

lemma device_read_keeps:
  assumes ok: "cache_ok m s" and j: "same_dev (bdif s) j" and same: "dblk m (s\<lparr>bdif := j\<rparr>) = dblk m s"
  shows "keeps m {} s (s\<lparr>bdif := j\<rparr>)"
proof -
  let ?t = "s\<lparr>bdif := j\<rparr>"
  have ok': "cache_ok m ?t"
    using ok dev_ok_same [OF cache_okD(1) [OF ok] j] same by (simp add: cache_ok_def buf_ok_def)
  have "cview m ?t x = cview m s x" for x
    using same by (intro cview_cong [OF ok ok']) (auto dest: fun_cong)
  with ok' j show ?thesis by (simp add: keeps_def same_dev_def)
qed

lemma get_keeps:
  assumes ok: "cache_ok m s" and op: "ph_refctr (bdif s) \<noteq> 0" and lb: "lb < lg_bcnt s" "lb \<noteq> 0" and room: "room s"
  shows "\<exists>r blk' a t. ext4_block_get s blk lb = Some (r, blk', t) \<and>
      (lru_ctr (bc t) = lru_ctr (bc s) \<or> lru_ctr (bc t) = lru_ctr (bc s) + 1) \<and> keeps m {a} s t \<and>
      (r \<noteq> EOK \<longrightarrow> refs t = refs s \<and> (\<forall>b. bufs t a = Some b \<longrightarrow> dirty b \<longrightarrow> bufs s a = Some b)) \<and>
      (r = EOK \<longrightarrow> blk' = \<lparr>lb_id = lb, b_buf = Some a\<rparr> \<and> refs t = (refs s)(a := refs s a + 1) \<and>
        (\<exists>b. bufs t a = Some b \<and> lba b = lb \<and> uptodate b \<and> buf_data b = cview m s lb))"
proof -
  from get_noread_keeps [OF ok op lb(1) room, of blk] obtain r blk' a t where
    g: "ext4_block_get_noread s blk lb = Some (r, blk', t)" "lru_ctr (bc t) = lru_ctr (bc s) \<or> lru_ctr (bc t) = lru_ctr (bc s) + 1"
    "r \<noteq> EOK \<longrightarrow> keeps m {} s t"
    "r = EOK \<longrightarrow> blk' = \<lparr>lb_id = lb, b_buf = Some a\<rparr> \<and> keeps m {a} s t \<and> refs t a = refs s a + 1 \<and> (\<exists>b. bufs t a = Some b \<and> lba b = lb)"
    by blast
  show ?thesis
  proof (cases "r = EOK")
    case False
    with g keeps_refs_all [of m s t] keeps_mono [of m "{}" s t "{a}"] keepsD(8) [of m "{}" s t] show ?thesis
      by (intro exI [of _ r] exI [of _ blk'] exI [of _ a] exI [of _ t]) (simp add: ext4_block_get_def)
  next
    case r: True
    with g obtain b where blk': "blk' = \<lparr>lb_id = lb, b_buf = Some a\<rparr>" and kt: "keeps m {a} s t" and rf: "refs t a = refs s a + 1"
      and b: "bufs t a = Some b" "lba b = lb" by blast
    note okt = keepsD(1) [OF kt]
    have refs_t: "refs t = (refs s)(a := refs s a + 1)" using keeps_refs_upd [OF kt] rf by simp
    have v: "cview m t lb = cview m s lb" by (rule keepsD(6) [OF kt lb(1)])
    show ?thesis
    proof (cases "uptodate b")
      case True
      with cview_in [OF okt b(1)] v b g(1,2) r blk' kt refs_t show ?thesis
        by (intro exI [of _ r] exI [of _ blk'] exI [of _ a] exI [of _ t]) (simp add: ext4_block_get_def)
    next
      case nu: False
      have lbt: "lb < lg_bcnt t" using lb keepsD(2) [OF kt] by simp
      from get_direct_one [OF cache_okD(1,2) [OF okt] lbt cache_buf(1) [OF okt b(1)]] obtain r2 xs j where
        rd: "ext4_blocks_get_direct t (buf_data b) lb 1 = Some (r2, xs, t\<lparr>bdif := j\<rparr>)" "same_dev (bdif t) j"
        "dblk m (t\<lparr>bdif := j\<rparr>) = dblk m t" "length xs = bsz t" "r2 = EOK \<longrightarrow> xs = dblk m t lb" by blast
      let ?t = "t\<lparr>bdif := j\<rparr>"
      have kj: "keeps m {a} s ?t"
        using cache_keeps_trans [OF kt device_read_keeps [OF okt rd(2,3)]] by simp
      have bj: "bufs ?t a = Some b" "length xs = bsz ?t" using b rd(4) by simp_all
      define b' where "b' = (if r2 = EOK then ext4_bcache_set_flag BC_UPTODATE (b\<lparr>buf_data := xs\<rparr>) else b\<lparr>buf_data := xs\<rparr>)"
      let ?u = "?t\<lparr>bufs := (bufs ?t)(a \<mapsto> b')\<rparr>"
      have "keeps m {a} ?t ?u"
        unfolding b'_def by (rule fill_keeps [OF keepsD(1) [OF kj] bj(1) nu bj(2)]) (use rd(3,5) b(2) in simp)
      from cache_keeps_trans [OF kj this] have ku: "keeps m {a} s ?u" by simp
      have b'f: "refctr b' = refctr b" "buf_data b' = xs" "lba b' = lb" "r2 = EOK \<longrightarrow> uptodate b'"
        using b(2) by (simp_all add: b'_def cache)
      have rb: "refctr b = refs s a + 1" using rf b by (simp add: refs_def)
      have refs_u: "refs ?u = (refs s)(a := refs s a + 1)"
        using keeps_refs_upd [OF ku] b'f(1) rb by (simp add: refs_def)
      show ?thesis
      proof (cases "r2 = EOK")
        case True
        then have "ext4_block_get s blk lb = Some (EOK, blk', ?u)"
          using g(1) r blk' b(1) nu rd(1) by (simp add: ext4_block_get_def upd_buf_eq b'_def)
        moreover have "xs = cview m s lb" using cview_in [OF okt b(1)] nu v b(2) rd(5) True by simp
        ultimately show ?thesis using ku refs_u blk' b'f g(2) True
          by (intro exI [of _ EOK] exI [of _ blk'] exI [of _ a] exI [of _ ?u]) simp
      next
        case False
        have "bufs ?u a = Some b'" "refctr b' \<noteq> 0" "b_buf blk' = Some a" "lb_id blk' \<noteq> 0"
          using b'f(1) rb room blk' lb(2) by (auto simp: room_def)
        note bu = this
        from free_keeps [OF keepsD(1) [OF ku] bu] obtain w where
          w: "ext4_bcache_free ?u blk' = Some (EOK, blk'\<lparr>lb_id := 0\<rparr>, w)" "keeps m {a} ?u w" "lru_ctr (bc w) = lru_ctr (bc ?u)"
          "refctr b' \<noteq> 1 \<longrightarrow> bufs w a = Some (b'\<lparr>refctr := refctr b' - 1\<rparr>)" "refctr b' = 1 \<longrightarrow> (\<forall>c. bufs w a = Some c \<longrightarrow> refctr c = 0 \<and> (dirty c \<longrightarrow> dirty b'))"
          by blast
        have "\<not> dirty b'" using nu cache_buf(5) [OF okt b(1)] False by (auto simp: b'_def cache)
        then have nd: "\<forall>c. bufs w a = Some c \<longrightarrow> \<not> dirty c"
          using w(4,5) by (cases "refctr b' = 1") (auto simp: cache)
        have kw: "keeps m {a} s w" using cache_keeps_trans [OF ku w(2)] by simp
        have "refs w a = refs s a"
          using w(4,5) b'f(1) rb by (cases "refctr b' = 1") (auto simp: refs_def split: option.split)
        then have "refs w = refs s" using keeps_refs_upd [OF kw] by simp
        moreover have "ext4_block_get s blk lb = Some (r2, blk'\<lparr>lb_id := 0\<rparr>, w)"
          using False g(1) r blk' b(1) nu rd(1) w(1) by (simp add: ext4_block_get_def upd_buf_eq b'_def)
        ultimately show ?thesis using kw w(3) g(2) False nd
          by (intro exI [of _ r2] exI [of _ "blk'\<lparr>lb_id := 0\<rparr>"] exI [of _ a] exI [of _ w]) simp
      qed
    qed
  qed
qed

end
