(* ===== verification/Ext4_Live.thy ===== *)
theory Ext4_Live
  imports Ext4_Cache
begin

text \<open>
  When the block device and its cache succeed: if no call of the driver fails and memory does not
  run out, no operation reports an error.
\<close>

section \<open>The driver\<close>

text \<open>No call of the driver fails from the present state of its object on.\<close>

definition never_fails :: "'d block_driver \<Rightarrow> bool" where
  "never_fails D \<longleftrightarrow> (\<exists>I. obj D \<in> I \<and> (\<forall>x \<in> I. \<forall>b xs.
     (case read_block D x b xs of (ok, ys, y) \<Rightarrow> ok \<and> y \<in> I) \<and> (case write_block D x b xs of (ok, y) \<Rightarrow> ok \<and> y \<in> I)))"

lemma never_fails_calls:
  assumes "never_fails (D\<lparr>obj := x\<rparr>)"
  shows "read_block D x b xs = (ok, ys, y) \<Longrightarrow> ok \<and> never_fails (D\<lparr>obj := y\<rparr>)"
    and "write_block D x b xs = (ok, y) \<Longrightarrow> ok \<and> never_fails (D\<lparr>obj := y\<rparr>)"
proof -
  obtain I where I: "x \<in> I" "\<forall>x \<in> I. \<forall>b xs. (case read_block D x b xs of (ok, ys, y) \<Rightarrow> ok \<and> y \<in> I) \<and>
      (case write_block D x b xs of (ok, y) \<Rightarrow> ok \<and> y \<in> I)"
    using assms by (auto simp: never_fails_def)
  have nf: "never_fails (D\<lparr>obj := z\<rparr>)" if "z \<in> I" for z
    unfolding never_fails_def using that I(2) by (intro exI [of _ I]) simp
  have at: "(case read_block D x b xs of (ok, ys, y) \<Rightarrow> ok \<and> y \<in> I) \<and> (case write_block D x b xs of (ok, y) \<Rightarrow> ok \<and> y \<in> I)"
    by (rule bspec [OF I(2,1), rule_format])
  show "ok \<and> never_fails (D\<lparr>obj := y\<rparr>)" if "read_block D x b xs = (ok, ys, y)" using at that nf by simp
  show "ok \<and> never_fails (D\<lparr>obj := y\<rparr>)" if "write_block D x b xs = (ok, y)" using at that nf by simp
qed

lemma read_loop_succeeds:
  "read_loop bs D block bb b off len = Some (ok, b', D') \<Longrightarrow> never_fails D \<Longrightarrow> ok \<and> never_fails D'"
proof (induction len arbitrary: D block bb b off rule: less_induct)
  case (less len)
  obtain ok1 cc x where r: "read_block D (obj D) block bb = (ok1, cc, x)" by (metis prod_cases3)
  have ok: "ok1 \<and> never_fails (D\<lparr>obj := x\<rparr>)" using never_fails_calls(1) [OF _ r] less.prems(2) by simp
  show ?case
  proof (cases "len = 0 \<or> bs = 0")
    case True
    with less.prems show ?thesis by (auto simp: read_loop.simps split: if_splits)
  next
    case False
    with less.prems(1) r ok less.IH [of "len - min len bs" "D\<lparr>obj := x\<rparr>"] show ?thesis
      by (simp add: read_loop.simps [of bs D] Let_def split: if_splits) blast
  qed
qed

lemma write_loop_succeeds:
  "write_loop bs D block bb b off len = Some (ok, D') \<Longrightarrow> never_fails D \<Longrightarrow> ok \<and> never_fails D'"
proof (induction len arbitrary: D block bb off rule: less_induct)
  case (less len)
  obtain ok1 cc x where r: "read_block D (obj D) block bb = (ok1, cc, x)" by (metis prod_cases3)
  obtain ok2 y where w: "write_block D x block (patch cc 0 (chunk b off (min len bs))) = (ok2, y)" by fastforce
  have ok: "ok1 \<and> never_fails (D\<lparr>obj := x\<rparr>)" using never_fails_calls(1) [OF _ r] less.prems(2) by simp
  then have ok': "ok2 \<and> never_fails (D\<lparr>obj := y\<rparr>)" using never_fails_calls(2) [OF _ w] by blast
  show ?case
  proof (cases "len = 0 \<or> bs = 0")
    case True
    with less.prems show ?thesis by (auto simp: write_loop.simps split: if_splits)
  next
    case False
    with less.prems(1) r w ok ok' less.IH [of "len - min len bs" "D\<lparr>obj := y\<rparr>"] show ?thesis
      by (simp add: write_loop.simps [of bs D] Let_def split: if_splits) blast
  qed
qed

lemma read_at_succeeds:
  assumes "read_at D off b = Some (ok, b', D')" "never_fails D"
  shows "ok \<and> never_fails D'"
proof -
  obtain ok1 cc x where r: "read_block D (obj D) (off div ucast (get_block_size D)) (take (unat (get_block_size D)) (replicate 512 0)) = (ok1, cc, x)"
    by (metis prod_cases3)
  have "ok1 \<and> never_fails (D\<lparr>obj := x\<rparr>)" using never_fails_calls(1) [OF _ r] assms(2) by simp
  with assms r read_loop_succeeds [of _ "D\<lparr>obj := x\<rparr>"] read_loop_succeeds [of _ D] show ?thesis
    by (simp add: read_at_def Let_def split: if_splits) blast+
qed

lemma write_at_succeeds:
  assumes "write_at D off b = Some (ok, D')" "never_fails D"
  shows "ok \<and> never_fails D'"
proof -
  let ?o = "unat off mod unat (get_block_size D)" and ?block = "off div ucast (get_block_size D)"
  obtain ok1 cc x where r: "read_block D (obj D) ?block (replicate 512 0) = (ok1, cc, x)" by (metis prod_cases3)
  let ?cc = "patch cc ?o (chunk b 0 (min (unat (get_block_size D) - ?o) (length b)))"
  obtain ok2 y where w: "write_block D x ?block ?cc = (ok2, y)" by fastforce
  have ok: "ok1 \<and> never_fails (D\<lparr>obj := x\<rparr>)" using never_fails_calls(1) [OF _ r] assms(2) by simp
  then have "ok2 \<and> never_fails (D\<lparr>obj := y\<rparr>)" using never_fails_calls(2) [OF _ w] by blast
  with ok assms r w write_loop_succeeds [of _ "D\<lparr>obj := y\<rparr>"] write_loop_succeeds [of _ D] show ?thesis
    by (simp add: write_at_def Let_def split: if_splits) blast+
qed

section \<open>The block device\<close>

abbreviation dev_never_fails :: "'d ext4_blockdev \<Rightarrow> bool" where
  "dev_never_fails s \<equiv> never_fails (p_user (bdif s))"

lemma bread_succeeds:
  "ext4_bdif_bread s b blk cnt = Some (r, b', t) \<Longrightarrow> dev_never_fails s \<Longrightarrow> r = EOK \<and> dev_never_fails t"
  by (auto simp: ext4_bdif_bread_def dev_bread_def read_blocks_def Let_def dest: read_at_succeeds split: if_splits bind_splits)

lemma bwrite_succeeds:
  "ext4_bdif_bwrite s b blk cnt = Some (r, t) \<Longrightarrow> dev_never_fails s \<Longrightarrow> r = EOK \<and> dev_never_fails t"
  by (auto simp: ext4_bdif_bwrite_def dev_bwrite_def write_blocks_def Let_def dest: write_at_succeeds split: if_splits bind_splits)

lemma direct_succeeds:
  "ext4_blocks_get_direct s b lb cnt = Some (r, b', t) \<Longrightarrow> dev_never_fails s \<Longrightarrow> r = EOK \<and> dev_never_fails t"
  "ext4_blocks_set_direct s b lb cnt = Some (r, t) \<Longrightarrow> dev_never_fails s \<Longrightarrow> r = EOK \<and> dev_never_fails t"
  by (auto simp: ext4_blocks_get_direct_def ext4_blocks_set_direct_def Let_def dest: bread_succeeds bwrite_succeeds split: if_splits)

lemma part_succeeds:
  "rmw_block s idx o1 xs = Some (r, t) \<Longrightarrow> dev_never_fails s \<Longrightarrow> r = EOK \<and> dev_never_fails t"
  "read_part s idx o1 n = Some (r, ys, t) \<Longrightarrow> dev_never_fails s \<Longrightarrow> r = EOK \<and> dev_never_fails t"
  by (auto simp: rmw_block_def read_part_def Let_def dest!: bread_succeeds bwrite_succeeds split: if_splits bind_splits)

lemma head_succeeds:
  "write_head s off b len = Some (r, t, w) \<Longrightarrow> dev_never_fails s \<Longrightarrow> r = EOK \<and> dev_never_fails t"
  "read_head s off b len = Some (r, b', t, w) \<Longrightarrow> dev_never_fails s \<Longrightarrow> r = EOK \<and> dev_never_fails t"
  by (auto simp: write_head_def read_head_def Let_def dest!: part_succeeds split: if_splits bind_splits)

lemma body_succeeds:
  "write_body s b p len idx = Some (r, t, w) \<Longrightarrow> dev_never_fails s \<Longrightarrow> r = EOK \<and> dev_never_fails t"
  "read_body s b p len idx = Some (r, b', t, w) \<Longrightarrow> dev_never_fails s \<Longrightarrow> r = EOK \<and> dev_never_fails t"
  by (auto simp: write_body_def read_body_def Let_def dest!: bread_succeeds bwrite_succeeds split: if_splits bind_splits)

lemma bytes_succeed:
  assumes "dev_never_fails s" "ph_refctr (bdif s) \<noteq> 0" "\<not> off + ucast len > part_size s"
  shows "ext4_block_writebytes s off b len = Some (r, t) \<Longrightarrow> r = EOK"
    and "ext4_block_readbytes s off b len = Some (r, b', t) \<Longrightarrow> r = EOK"
  using assms
  by (auto simp: ext4_block_writebytes_def ext4_block_readbytes_def
      dest!: head_succeeds body_succeeds part_succeeds split: if_splits bind_splits)

section \<open>The cache\<close>

definition live :: "'d ext4_blockdev \<Rightarrow> bool" where
  "live s \<longleftrightarrow> dev_never_fails s \<and> (\<forall>a. buf_mem s a \<noteq> None)"

lemma direct_mem:
  "ext4_blocks_get_direct s b lb cnt = Some (r, b', t) \<Longrightarrow> buf_mem t = buf_mem s"
  "ext4_blocks_set_direct s b lb cnt = Some (r, t) \<Longrightarrow> buf_mem t = buf_mem s"
  by (auto simp: ext4_blocks_get_direct_def ext4_blocks_set_direct_def ext4_bdif_bread_def ext4_bdif_bwrite_def
      dev_bread_def dev_bwrite_def Let_def split: if_splits bind_splits)

lemma direct_live:
  "ext4_blocks_get_direct s b lb cnt = Some (r, b', t) \<Longrightarrow> live s \<Longrightarrow> r = EOK \<and> live t"
  "ext4_blocks_set_direct s b lb cnt = Some (r, t) \<Longrightarrow> live s \<Longrightarrow> r = EOK \<and> live t"
  unfolding live_def by (metis direct_succeeds direct_mem)+

lemma live_upd [simp]:
  "live (s\<lparr>bc := c\<rparr>) = live s" "live (s\<lparr>bufs := h\<rparr>) = live s" "live (s\<lparr>buf_next := n\<rparr>) = live s" "live (upd_buf s a f) = live s"
  by (simp_all add: live_def upd_buf_def)

lemma dirty_node_live:
  "ext4_bcache_remove_dirty_node s a = Some t \<Longrightarrow> live t = live s"
  "ext4_bcache_insert_dirty_node s a = Some t \<Longrightarrow> live t = live s"
  by (auto simp: ext4_bcache_remove_dirty_node_def ext4_bcache_insert_dirty_node_def split: if_splits bind_splits)

lemma flush_buf_live: "ext4_block_flush_buf s a = Some (r, t) \<Longrightarrow> live s \<Longrightarrow> r = EOK \<and> live t"
  by (auto simp: ext4_block_flush_buf_def dirty_node_live dest!: direct_live split: if_splits bind_splits)

lemma drop_buf_live: "ext4_bcache_drop_buf s a = Some t \<Longrightarrow> live t = live s"
  by (auto simp: ext4_bcache_drop_buf_def Let_def ext4_buf_free_def dirty_node_live split: if_splits bind_splits)

lemma shake_loop_live:
  assumes "shake_loop s = Some (r, t)" "live s"
  shows "r = EOK \<and> live t"
proof -
  have "live s \<longrightarrow> fst (r, t) = EOK \<and> live (snd (r, t))"
    using assms(1)
  proof (rule shake_loop.raw_induct [rotated])
    fix f :: "'a ext4_blockdev \<Rightarrow> (int \<times> 'a ext4_blockdev) option" and s y
    assume IH: "\<And>s y. f s = Some y \<Longrightarrow> live s \<longrightarrow> fst y = EOK \<and> live (snd y)"
    assume "(case lru_root (bc s) of [] \<Rightarrow> Some (EOK, s)
     | a # _ \<Rightarrow>
       if \<not> ext4_bcache_is_full (bc s) then Some (EOK, s) else do {
         b \<leftarrow> bufs s a;
         (r, s) \<leftarrow> (if ext4_bcache_test_flag b BC_DIRTY then ext4_block_flush_buf s a else Some (EOK, s));
         if r \<noteq> EOK then Some (r, s) else do {
           s \<leftarrow> ext4_bcache_drop_buf s a;
           f s } }) = Some y"
    then show "live s \<longrightarrow> fst y = EOK \<and> live (snd y)"
      by (auto simp: drop_buf_live dest!: flush_buf_live IH split: if_splits bind_splits list.splits)
  qed
  with assms(2) show ?thesis by simp
qed

lemma cache_shake_live: "ext4_block_cache_shake s = Some (r, t) \<Longrightarrow> live s \<Longrightarrow> r = EOK \<and> live t"
  by (auto simp: ext4_block_cache_shake_def dest!: shake_loop_live split: if_splits bind_splits)

lemma find_get_live: "ext4_bcache_find_get s blk lb = Some (f, blk', t) \<Longrightarrow> live t = live s"
  by (auto simp: ext4_bcache_find_get_def Let_def dirty_node_live split: if_splits bind_splits option.splits)

lemma live_mem: "live s \<Longrightarrow> buf_mem s a \<noteq> None"
  by (simp add: live_def)

lemma alloc_live: "ext4_bcache_alloc s blk = Some (r, n, blk', t) \<Longrightarrow> live s \<Longrightarrow> r = EOK \<and> live t"
  by (auto simp: ext4_bcache_alloc_def ext4_buf_alloc_def Let_def split: if_splits bind_splits option.splits prod.splits
      dest: find_get_live live_mem)

lemma free_live: "ext4_bcache_free s blk = Some (r, blk', t) \<Longrightarrow> live s \<Longrightarrow> r = EOK \<and> live t"
  by (auto simp: ext4_bcache_free_def Let_def dirty_node_live drop_buf_live dest!: flush_buf_live split: if_splits bind_splits)

lemma get_noread_live:
  assumes "ext4_block_get_noread s blk lb = Some (r, blk', t)" "live s" "ph_refctr (bdif s) \<noteq> 0" "lb < lg_bcnt s"
  shows "r = EOK \<and> live t"
  using assms by (auto simp: ext4_block_get_noread_def Let_def dest!: cache_shake_live alloc_live split: if_splits bind_splits)

lemma get_live:
  assumes "ext4_block_get s blk lb = Some (r, blk', t)" "live s" "ph_refctr (bdif s) \<noteq> 0" "lb < lg_bcnt s"
  shows "r = EOK \<and> live t"
  using assms by (auto simp: ext4_block_get_def Let_def dest!: get_noread_live direct_live split: if_splits bind_splits)

end
