(* ===== verification/Ext4_Store.thy ===== *)
theory Ext4_Store
  imports Ext4_Live
begin

text \<open>
  The cached block device as a store of blocks. A client gets a block, reads or changes its data,
  marks it dirty and releases it; seen through the cache these are the reads and updates of an array
  of blocks, and flushing the cache brings the medium to that array.
\<close>

section \<open>Dirty buffers are on the dirty list\<close>

definition listed :: "'d ext4_blockdev \<Rightarrow> bool" where
  "listed s \<longleftrightarrow> (\<forall>a b. bufs s a = Some b \<longrightarrow> dirty b \<longrightarrow> refctr b = 0 \<longrightarrow> on_dirty_list b)"

lemma listed_keeps:
  assumes k: "keeps m A s t" and "listed s"
    and own: "\<And>a b. a \<in> A \<Longrightarrow> bufs t a = Some b \<Longrightarrow> dirty b \<Longrightarrow> refctr b = 0 \<Longrightarrow> on_dirty_list b"
  shows "listed t"
  unfolding listed_def
proof (intro allI impI)
  fix a b assume b: "bufs t a = Some b" "dirty b" "refctr b = 0"
  show "on_dirty_list b"
  proof (cases "a \<in> A")
    case True
    with own b show ?thesis by blast
  next
    case False
    with keepsD(8) [OF k] b assms(2) show ?thesis by (auto simp: listed_def)
  qed
qed

section \<open>Writing a block that is held\<close>

lemma write_held:
  assumes ok: "cache_ok m s" and b: "bufs s a = Some b" and r: "refctr b \<noteq> 0" and d: "length d = bsz s"
  defines "t \<equiv> s\<lparr>bufs := (bufs s)(a \<mapsto> ext4_bcache_set_dirty (b\<lparr>buf_data := d\<rparr>))\<rparr>"
  shows "cache_ok m t" and "cview m t x = (if x = lba b then d else cview m s x)"
proof -
  let ?b = "ext4_bcache_set_dirty (b\<lparr>buf_data := d\<rparr>)"
  have fl: "uptodate ?b" "dirty ?b" "tmp ?b = tmp b" "flush_now ?b = flush_now b"
    by (simp_all add: ext4_bcache_set_dirty_def cache)
  have fld: "lba ?b = lba b" "lru_id ?b = lru_id b" "refctr ?b = refctr b" "on_dirty_list ?b = on_dirty_list b" "buf_data ?b = d"
    by (simp_all add: ext4_bcache_set_dirty_def cache)
  have "buf_ok m t c" if "bufs t k = Some c" for k c
  proof (cases "k = a")
    case True
    with that have "c = ?b" by (simp add: t_def)
    with cache_okD(4) [OF ok b] fl fld d show ?thesis by (simp add: buf_ok_def t_def)
  next
    case False
    with that have "bufs s k = Some c" by (simp add: t_def)
    from cache_okD(4) [OF ok this] show ?thesis by (simp add: buf_ok_def t_def)
  qed
  moreover have "lba_ok (bufs t) (lba_root (bc t)) (ref_blocks (bc t)) (buf_next t)"
    using lba_ok_upd [OF cache_okD(5) [OF ok] b fld(1)] by (simp add: t_def)
  moreover have "lru_ok (bufs t) (lru_root (bc t))"
    using lru_ok_upd [OF cache_okD(6) [OF ok] b] fld by (simp add: t_def)
  moreover have "dirt_ok (bufs t) (dirty_list (bc t))"
    using dirt_ok_upd [OF cache_okD(7) [OF ok] b] fld by (simp add: t_def)
  ultimately show ok': "cache_ok m t" using cache_okD(1,2,3) [OF ok] unfolding cache_ok_def by (simp add: t_def)
  have bt: "bufs t a = Some ?b" by (simp add: t_def)
  show "cview m t x = (if x = lba b then d else cview m s x)"
  proof (cases "x = lba b")
    case True
    with cview_in [OF ok' bt] fl fld show ?thesis by simp
  next
    case False
    with cview_upd_other [OF ok ok' b _ fld(1) False] show ?thesis by (simp add: t_def)
  qed
qed

section \<open>Flushing the cache\<close>

lemma cache_flush_keeps:
  assumes "cache_ok m s"
  shows "\<exists>r t. ext4_block_cache_flush s = Some (r, t) \<and> keeps m {} s t \<and> lru_ctr (bc t) = lru_ctr (bc s) \<and>
      (r = EOK \<longrightarrow> dirty_list (bc t) = []) \<and> (live s \<longrightarrow> r = EOK \<and> live t)"
  using assms
proof (induction "length (dirty_list (bc s))" arbitrary: s)
  case 0
  then show ?case
    by (intro exI [of _ EOK] exI [of _ s]) (simp add: ext4_block_cache_flush.simps cache_keeps_refl)
next
  case (Suc n)
  then obtain a as where l: "dirty_list (bc s) = a # as" by (cases "dirty_list (bc s)") auto
  have "a \<in> set (dirty_list (bc s))" using l by simp
  then obtain b where b: "bufs s a = Some b" "on_dirty_list b" using cache_okD(7) [OF Suc.prems] by (auto simp: dirt_ok_def)
  have r0: "refctr b = 0" by (rule cache_buf(7) [OF Suc.prems b])
  obtain r t b' where f: "ext4_block_flush_buf s a = Some (r, t)" "keeps m {a} s t" "bufs t a = Some b'" "refctr b' = 0"
    "bc t = (bc s)\<lparr>dirty_list := dirty_list (bc t)\<rparr>" "dirty b' \<longrightarrow> b' = b"
    "r = EOK \<longrightarrow> dirty_list (bc t) = remove1 a (dirty_list (bc s))"
    using flush_buf_keeps [OF Suc.prems b(1)] r0 by fastforce
  have k: "keeps m {} s t" using keeps_unref [OF f(2) b(1) r0] f(3,4,6) by simp
  have ctr: "lru_ctr (bc t) = lru_ctr (bc s)" using arg_cong [OF f(5), of lru_ctr] by simp
  note lv = flush_buf_live [OF f(1)]
  show ?case
  proof (cases "r = EOK")
    case False
    then have "ext4_block_cache_flush s = Some (r, t)" using f(1) l by (simp add: ext4_block_cache_flush.simps)
    with False k ctr lv show ?thesis by blast
  next
    case True
    then have "n = length (dirty_list (bc t))" using f(7) l Suc.hyps(2) by simp
    from Suc.hyps(1) [OF this keepsD(1) [OF k]] obtain r2 u where
      u: "ext4_block_cache_flush t = Some (r2, u)" "keeps m {} t u" "lru_ctr (bc u) = lru_ctr (bc t)"
      "r2 = EOK \<longrightarrow> dirty_list (bc u) = []" "live t \<longrightarrow> r2 = EOK \<and> live u" by blast
    have "ext4_block_cache_flush s = ext4_block_cache_flush t"
      using f(1) l True by (subst ext4_block_cache_flush.simps) simp
    with u cache_keeps_trans [OF k u(2)] ctr lv show ?thesis by auto
  qed
qed

lemma flushed_medium:
  assumes ok: "cache_ok m s" and "listed s" and "dirty_list (bc s) = []"
    and free: "\<And>a b. bufs s a = Some b \<Longrightarrow> lba b = x \<Longrightarrow> refctr b = 0"
  shows "dblk m s x = cview m s x"
proof (cases "\<exists>a b. bufs s a = Some b \<and> lba b = x")
  case False
  with cview_out [OF ok] show ?thesis by metis
next
  case True
  then obtain a b where b: "bufs s a = Some b" "lba b = x" by blast
  have "\<not> dirty b"
  proof
    assume "dirty b"
    with assms(2) b free [OF b] have "on_dirty_list b" by (auto simp: listed_def)
    with cache_buf(12) [OF ok b(1)] assms(3) show False by simp
  qed
  with cview_in [OF ok b(1)] cache_buf(8) [OF ok b(1)] b(2) show ?thesis by simp
qed

section \<open>Releasing a block that is held\<close>

lemma release_held:
  assumes ok: "cache_ok m s" and b: "bufs s a = Some b" and r: "refctr b \<noteq> 0" and op: "ph_refctr (bdif s) \<noteq> 0" and lb: "lb \<noteq> 0"
  shows "\<exists>blk' t. ext4_block_set s \<lparr>lb_id = lb, b_buf = Some a\<rparr> = Some (EOK, blk', t) \<and> keeps m {a} s t \<and>
      lru_ctr (bc t) = lru_ctr (bc s) \<and> refs t = (refs s)(a := refs s a - 1) \<and>
      (cache_write_back s \<noteq> 0 \<longrightarrow> (\<forall>c. bufs t a = Some c \<longrightarrow> dirty c \<longrightarrow> refctr c = 0 \<longrightarrow> on_dirty_list c)) \<and> (live s \<longrightarrow> live t)"
proof -
  let ?blk = "\<lparr>lb_id = lb, b_buf = Some a\<rparr>"
  obtain t where t: "ext4_bcache_free s ?blk = Some (EOK, ?blk\<lparr>lb_id := 0\<rparr>, t)" "keeps m {a} s t" "lru_ctr (bc t) = lru_ctr (bc s)"
    "refctr b \<noteq> 1 \<longrightarrow> bufs t a = Some (b\<lparr>refctr := refctr b - 1\<rparr>)"
    "refctr b = 1 \<longrightarrow> (\<forall>c. bufs t a = Some c \<longrightarrow> refctr c = 0 \<and> (cache_write_back s \<noteq> 0 \<longrightarrow> dirty c \<longrightarrow> on_dirty_list c))"
    using free_keeps [OF ok b r, of ?blk] lb by auto
  have "refs t a = refs s a - 1"
    using t(4,5) b by (cases "refctr b = 1") (auto simp: refs_def split: option.split)
  then have "refs t = (refs s)(a := refs s a - 1)" using keeps_refs_upd [OF t(2)] by simp
  moreover have "\<forall>c. bufs t a = Some c \<longrightarrow> dirty c \<longrightarrow> refctr c = 0 \<longrightarrow> on_dirty_list c" if "cache_write_back s \<noteq> 0"
    using t(4,5) that by (cases "refctr b = 1") auto
  ultimately show ?thesis using t(1-3) op free_live [OF t(1)] by (simp add: ext4_block_set_def)
qed

section \<open>Clients\<close>

text \<open>
  The use every client makes of a block: get it, read or change its data, mark it dirty when it has
  been changed, release it.
\<close>

definition read_through :: "'d ext4_blockdev \<Rightarrow> u64 \<Rightarrow> (int \<times> u8 list \<times> 'd ext4_blockdev) option" where
  "read_through s lb = do {
     (r, b, s) \<leftarrow> ext4_trans_block_get s \<lparr>lb_id = 0, b_buf = None\<rparr> lb;
     if r \<noteq> EOK then Some (r, [], s) else do {
       a \<leftarrow> b_buf b;
       bf \<leftarrow> bufs s a;
       (r, b, s) \<leftarrow> ext4_block_set s b;
       Some (r, buf_data bf, s) } }"

definition change_through :: "'d ext4_blockdev \<Rightarrow> u64 \<Rightarrow> (u8 list \<Rightarrow> u8 list) \<Rightarrow> (int \<times> 'd ext4_blockdev) option" where
  "change_through s lb f = do {
     (r, b, s) \<leftarrow> ext4_trans_block_get s \<lparr>lb_id = 0, b_buf = None\<rparr> lb;
     if r \<noteq> EOK then Some (r, s) else do {
       a \<leftarrow> b_buf b;
       let s = upd_buf s a (\<lambda>bf. bf\<lparr>buf_data := f (buf_data bf)\<rparr>);
       let (r, s) = ext4_trans_set_block_dirty s a;
       (r, b, s) \<leftarrow> ext4_block_set s b;
       Some (r, s) } }"

text \<open>
  A cache that can serve \<open>n\<close> more operations: the counter that orders the buffers by their last use
  has 32 bits and must not wrap, nor must the reference count of a buffer.
\<close>

definition store_ok :: "('d \<Rightarrow> u8 list) \<Rightarrow> nat \<Rightarrow> 'd ext4_blockdev \<Rightarrow> bool" where
  "store_ok m n s \<longleftrightarrow> cache_ok m s \<and> ph_refctr (bdif s) \<noteq> 0 \<and> cache_write_back s \<noteq> 0 \<and> listed s \<and>
     unat (lru_ctr (bc s)) + n < 2 ^ 32 \<and> (\<forall>a. refs s a + 1 \<noteq> 0)"

lemma store_okD:
  assumes "store_ok m n s"
  shows "cache_ok m s" "ph_refctr (bdif s) \<noteq> 0" "cache_write_back s \<noteq> 0" "listed s" "\<forall>a. refs s a + 1 \<noteq> 0"
    "n \<noteq> 0 \<Longrightarrow> room s"
proof -
  show "room s" if "n \<noteq> 0"
  proof -
    have "lru_ctr (bc s) + 1 \<noteq> 0"
    proof
      assume "lru_ctr (bc s) + 1 = 0"
      then have "lru_ctr (bc s) = - 1" by (simp add: eq_neg_iff_add_eq_0)
      moreover have "unat (- 1 :: u32) = 2 ^ 32 - 1" by (simp add: unsigned_minus_1_eq_mask mask_eq_exp_minus_1)
      ultimately show False using assms that by (simp add: store_ok_def)
    qed
    then show ?thesis using assms by (simp add: room_def store_ok_def)
  qed
qed (use assms in \<open>simp_all add: store_ok_def\<close>)

lemma store_ok_after:
  assumes ok: "store_ok m (Suc n) s" and t: "cache_ok m t" "ph_refctr (bdif t) = ph_refctr (bdif s)"
    "cache_write_back t = cache_write_back s" "listed t" "refs t = refs s"
    and ctr: "lru_ctr (bc t) = lru_ctr (bc s) \<or> lru_ctr (bc t) = lru_ctr (bc s) + 1"
  shows "store_ok m n t"
proof -
  have "unat (x + 1) \<le> unat x + 1" for x :: u32 by (simp add: unat_word_ariths(1) mod_less_eq_dividend)
  then have "unat (lru_ctr (bc t)) \<le> unat (lru_ctr (bc s)) + 1" using ctr by auto
  with ok t show ?thesis by (simp add: store_ok_def)
qed

text \<open>What one operation of a client does to the store.\<close>

lemma get_held:
  assumes ok: "store_ok m (Suc n) s" and lb: "lb < lg_bcnt s" "lb \<noteq> 0"
  obtains (failed) r blk t where "ext4_trans_block_get s blk0 lb = Some (r, blk, t)" "r \<noteq> EOK" "store_ok m n t" "keeps m UNIV s t"
      "refs t = refs s" "\<not> live s"
    | (held) a b t where "ext4_trans_block_get s blk0 lb = Some (EOK, \<lparr>lb_id = lb, b_buf = Some a\<rparr>, t)" "keeps m {a} s t"
      "refs t = (refs s)(a := refs s a + 1)" "bufs t a = Some b" "lba b = lb" "buf_data b = cview m s lb"
      "lru_ctr (bc t) = lru_ctr (bc s) \<or> lru_ctr (bc t) = lru_ctr (bc s) + 1" "live s \<Longrightarrow> live t"
proof -
  note s = store_okD [OF ok]
  have room: "room s" using s(6) by simp
  from get_keeps [OF s(1,2) lb room, of blk0] obtain r blk a t where g: "ext4_block_get s blk0 lb = Some (r, blk, t)"
    "lru_ctr (bc t) = lru_ctr (bc s) \<or> lru_ctr (bc t) = lru_ctr (bc s) + 1" "keeps m {a} s t"
    "r \<noteq> EOK \<longrightarrow> refs t = refs s \<and> (\<forall>b. bufs t a = Some b \<longrightarrow> dirty b \<longrightarrow> bufs s a = Some b)"
    "r = EOK \<longrightarrow> blk = \<lparr>lb_id = lb, b_buf = Some a\<rparr> \<and> refs t = (refs s)(a := refs s a + 1) \<and>
       (\<exists>b. bufs t a = Some b \<and> lba b = lb \<and> uptodate b \<and> buf_data b = cview m s lb)"
    by (elim exE conjE)
  note lv = get_live [OF g(1) _ s(2) lb(1)]
  show thesis
  proof (cases "r = EOK")
    case False
    have "listed t" by (rule listed_keeps [OF g(3) s(4)]) (use g(4) False s(4) in \<open>auto simp: listed_def\<close>)
    from store_ok_after [OF ok keepsD(1,4,5) [OF g(3)] this _ g(2)] g(4) False have "store_ok m n t" by simp
    moreover have "\<not> live s" using lv False by blast
    ultimately show thesis
      using failed [of r blk t] g(1,4) False keeps_mono [OF g(3), of UNIV] by (simp add: ext4_trans_block_get_def)
  next
    case True
    with g(5) obtain b where b: "bufs t a = Some b" "lba b = lb" "buf_data b = cview m s lb" by blast
    have "ext4_trans_block_get s blk0 lb = Some (EOK, \<lparr>lb_id = lb, b_buf = Some a\<rparr>, t)" "refs t = (refs s)(a := refs s a + 1)"
      using g(1,5) True by (simp_all add: ext4_trans_block_get_def)
    from held [OF this(1) g(3) this(2) b g(2)] lv show thesis by blast
  qed
qed

lemma read_through_reads:
  assumes ok: "store_ok m (Suc n) s" and lb: "lb < lg_bcnt s" "lb \<noteq> 0"
  shows "\<exists>r xs t. read_through s lb = Some (r, xs, t) \<and> store_ok m n t \<and> keeps m UNIV s t \<and> refs t = refs s \<and>
      (r = EOK \<longrightarrow> xs = cview m s lb) \<and> (live s \<longrightarrow> r = EOK \<and> live t)"
proof (cases rule: get_held [OF ok lb, of "\<lparr>lb_id = 0, b_buf = None\<rparr>"])
  case (1 r blk t)
  then show ?thesis by (simp add: read_through_def)
next
  case (2 a b t)
  note s = store_okD [OF ok]
  have rb: "refctr b = refs s a + 1" using fun_cong [OF 2(3), of a] 2(4) by (simp add: refs_def)
  then have "refctr b \<noteq> 0" using s(5) by simp
  from release_held [OF keepsD(1) [OF 2(2)] 2(4) this _ lb(2)] obtain blk u where
    u: "ext4_block_set t \<lparr>lb_id = lb, b_buf = Some a\<rparr> = Some (EOK, blk, u)" "keeps m {a} t u" "lru_ctr (bc u) = lru_ctr (bc t)"
    "refs u = (refs t)(a := refs t a - 1)"
    "cache_write_back t \<noteq> 0 \<longrightarrow> (\<forall>c. bufs u a = Some c \<longrightarrow> dirty c \<longrightarrow> refctr c = 0 \<longrightarrow> on_dirty_list c)" "live t \<longrightarrow> live u"
    using s(2) keepsD(4) [OF 2(2)] by auto
  have k: "keeps m {a} s u" using cache_keeps_trans [OF 2(2) u(2)] by simp
  have rf: "refs u = refs s" using u(4) 2(3) by auto
  have "listed u" by (rule listed_keeps [OF k s(4)]) (use u(5) s(3) keepsD(5) [OF 2(2)] in auto)
  from store_ok_after [OF ok keepsD(1,4,5) [OF k] this rf] 2(7) u(3) have "store_ok m n u" by simp
  with 2(1,4,6,8) u(1,6) rf keeps_mono [OF k, of UNIV] show ?thesis by (simp add: read_through_def)
qed

lemma change_through_changes:
  assumes ok: "store_ok m (Suc n) s" and lb: "lb < lg_bcnt s" "lb \<noteq> 0" and f: "length (f (cview m s lb)) = bsz s"
  shows "\<exists>r t. change_through s lb f = Some (r, t) \<and> store_ok m n t \<and> lg_bcnt t = lg_bcnt s \<and> lg_bsize t = lg_bsize s \<and> refs t = refs s \<and>
      (\<forall>x < lg_bcnt s. cview m t x = (if r = EOK \<and> x = lb then f (cview m s lb) else cview m s x)) \<and>
      (live s \<longrightarrow> r = EOK \<and> live t)"
proof (cases rule: get_held [OF ok lb, of "\<lparr>lb_id = 0, b_buf = None\<rparr>"])
  case (1 r blk t)
  with keepsD(2,3,6) [OF 1(4)] show ?thesis by (simp add: change_through_def)
next
  case (2 a b t)
  note s = store_okD [OF ok] and k = keepsD [OF 2(2)]
  let ?b = "ext4_bcache_set_dirty (b\<lparr>buf_data := f (buf_data b)\<rparr>)"
  let ?t = "t\<lparr>bufs := (bufs t)(a \<mapsto> ?b)\<rparr>"
  have rb: "refctr b = refs s a + 1" using fun_cong [OF 2(3), of a] 2(4) by (simp add: refs_def)
  then have r0: "refctr b \<noteq> 0" using s(5) by simp
  have "length (f (buf_data b)) = bsz t" using f 2(6) k(3) by simp
  note w = write_held [OF k(1) 2(4) r0 this]
  have rb': "refctr ?b = refctr b" by (simp add: ext4_bcache_set_dirty_def cache)
  have bt: "bufs ?t a = Some ?b" "refctr ?b \<noteq> 0" "ph_refctr (bdif ?t) \<noteq> 0" using r0 rb' s(2) k(4) by simp_all
  from release_held [OF w(1) bt lb(2)] obtain blk u where
    u: "ext4_block_set ?t \<lparr>lb_id = lb, b_buf = Some a\<rparr> = Some (EOK, blk, u)" "keeps m {a} ?t u" "lru_ctr (bc u) = lru_ctr (bc t)"
    "refs u = (refs ?t)(a := refs ?t a - 1)"
    "cache_write_back t \<noteq> 0 \<longrightarrow> (\<forall>c. bufs u a = Some c \<longrightarrow> dirty c \<longrightarrow> refctr c = 0 \<longrightarrow> on_dirty_list c)" "live t \<longrightarrow> live u"
    by auto
  note ku = keepsD [OF u(2)]
  have "refs ?t = refs t" using 2(4) rb' by (auto simp: refs_def)
  then have rf: "refs u = refs s" using u(4) 2(3) by auto
  have run: "change_through s lb f = Some (EOK, u)"
    using 2(1,4) u(1) by (simp add: change_through_def upd_buf_eq ext4_trans_set_block_dirty_def)
  have v: "cview m u x = (if x = lb then f (cview m s lb) else cview m s x)" if "x < lg_bcnt s" for x
    using ku(6) [of x] w(2) [of x] 2(5,6) k(2) k(6) [OF that] that by simp
  have l: "listed u"
    unfolding listed_def
  proof (intro allI impI)
    fix c d assume d: "bufs u c = Some d" "dirty d" "refctr d = 0"
    show "on_dirty_list d"
    proof (cases "c = a")
      case True
      with u(5) s(3) k(5) d show ?thesis by simp
    next
      case False
      with ku(8) [of c d] d have "bufs t c = Some d" by simp
      with False k(8) [of c d] d s(4) show ?thesis by (auto simp: listed_def)
    qed
  qed
  have "store_ok m n u"
    by (rule store_ok_after [OF ok ku(1) _ _ l rf]) (use ku(4,5) k(4,5) 2(7) u(3) in simp_all)
  with run v rf ku(2,3) k(2,3) 2(8) u(6) show ?thesis by simp
qed

section \<open>Stores of blocks\<close>

text \<open>
  Commands of a client, how a store runs them, and what they mean for an array of blocks: a read
  that succeeds returns the block, a change that succeeds updates it, a command that fails does
  nothing.
\<close>

datatype cmd = Read u64 | Change u64 "u8 list \<Rightarrow> u8 list"

fun block_of :: "cmd \<Rightarrow> u64" where
  "block_of (Read x) = x"
| "block_of (Change x f) = x"

fun run_cmds ::
  "('s \<Rightarrow> u64 \<Rightarrow> (int \<times> u8 list \<times> 's) option) \<Rightarrow> ('s \<Rightarrow> u64 \<Rightarrow> (u8 list \<Rightarrow> u8 list) \<Rightarrow> (int \<times> 's) option) \<Rightarrow>
   's \<Rightarrow> cmd list \<Rightarrow> ((int \<times> u8 list) list \<times> 's) option" where
  "run_cmds rd ch s [] = Some ([], s)"
| "run_cmds rd ch s (Read x # cs) = do {
     (r, xs, s) \<leftarrow> rd s x;
     (outs, s) \<leftarrow> run_cmds rd ch s cs;
     Some ((r, xs) # outs, s) }"
| "run_cmds rd ch s (Change x f # cs) = do {
     (r, s) \<leftarrow> ch s x f;
     (outs, s) \<leftarrow> run_cmds rd ch s cs;
     Some ((r, []) # outs, s) }"

fun array_run :: "(u64 \<Rightarrow> u8 list) \<Rightarrow> cmd list \<Rightarrow> (int \<times> u8 list) list \<Rightarrow> (u64 \<Rightarrow> u8 list)" where
  "array_run A (Change x f # cs) ((r, xs) # outs) = array_run (if r = EOK then A(x := f (A x)) else A) cs outs"
| "array_run A (Read x # cs) (out # outs) = array_run A cs outs"
| "array_run A _ _ = A"

fun array_agrees :: "(u64 \<Rightarrow> u8 list) \<Rightarrow> cmd list \<Rightarrow> (int \<times> u8 list) list \<Rightarrow> bool" where
  "array_agrees A [] outs = (outs = [])"
| "array_agrees A (Read x # cs) ((r, xs) # outs) = ((r = EOK \<longrightarrow> xs = A x) \<and> array_agrees A cs outs)"
| "array_agrees A (Change x f # cs) ((r, xs) # outs) = array_agrees (if r = EOK then A(x := f (A x)) else A) cs outs"
| "array_agrees A (c # cs) [] = False"

definition same_size :: "nat \<Rightarrow> cmd \<Rightarrow> bool" where
  "same_size n c = (case c of Read x \<Rightarrow> True | Change x f \<Rightarrow> \<forall>d. length d = n \<longrightarrow> length (f d) = n)"

text \<open>
  What a store promises. \<open>good\<close> states that nothing will fail. A change that fails says nothing about
  the block it was to change; in an atomic store it leaves the block alone.
\<close>

locale block_store =
  fixes inv :: "nat \<Rightarrow> 's \<Rightarrow> bool" and good :: "'s \<Rightarrow> bool" and has :: "'s \<Rightarrow> u64 \<Rightarrow> bool" and bs :: "'s \<Rightarrow> nat"
    and view :: "'s \<Rightarrow> u64 \<Rightarrow> u8 list"
    and rd :: "'s \<Rightarrow> u64 \<Rightarrow> (int \<times> u8 list \<times> 's) option"
    and ch :: "'s \<Rightarrow> u64 \<Rightarrow> (u8 list \<Rightarrow> u8 list) \<Rightarrow> (int \<times> 's) option"
  assumes view_size: "inv n s \<Longrightarrow> has s x \<Longrightarrow> length (view s x) = bs s"
    and reads: "inv (Suc n) s \<Longrightarrow> has s x \<Longrightarrow> \<exists>r xs t. rd s x = Some (r, xs, t) \<and> inv n t \<and> has t = has s \<and> bs t = bs s \<and>
      (\<forall>y. has s y \<longrightarrow> view t y = view s y) \<and> (r = EOK \<longrightarrow> xs = view s x) \<and> (good s \<longrightarrow> r = EOK \<and> good t)"
    and changes: "inv (Suc n) s \<Longrightarrow> has s x \<Longrightarrow> length (f (view s x)) = bs s \<Longrightarrow>
      \<exists>r t. ch s x f = Some (r, t) \<and> inv n t \<and> has t = has s \<and> bs t = bs s \<and>
      (\<forall>y. has s y \<longrightarrow> y \<noteq> x \<longrightarrow> view t y = view s y) \<and> (r = EOK \<longrightarrow> view t x = f (view s x)) \<and> (good s \<longrightarrow> r = EOK \<and> good t)"
begin

lemma array_run_cong:
  "\<forall>y. has s y \<longrightarrow> A y = B y \<Longrightarrow> \<forall>c \<in> set cs. has s (block_of c) \<Longrightarrow> has s x \<Longrightarrow> array_run A cs outs x = array_run B cs outs x"
  by (induction A cs outs arbitrary: B rule: array_run.induct) simp_all

lemma array_agrees_cong:
  "\<forall>y. has s y \<longrightarrow> A y = B y \<Longrightarrow> \<forall>c \<in> set cs. has s (block_of c) \<Longrightarrow> array_agrees A cs outs = array_agrees B cs outs"
proof (induction A cs outs arbitrary: B rule: array_agrees.induct)
  case (2 A x cs r xs outs)
  from 2(1) [OF 2(2)] 2(2,3) show ?case by simp
qed simp_all

lemma run_store:
  assumes "inv (length cs) s" and "\<forall>c \<in> set cs. has s (block_of c) \<and> same_size (bs s) c"
    and "good s \<or> (\<forall>n s x f r t. inv (Suc n) s \<longrightarrow> has s x \<longrightarrow> length (f (view s x)) = bs s \<longrightarrow> ch s x f = Some (r, t) \<longrightarrow> r \<noteq> EOK \<longrightarrow> view t x = view s x)"
      (is "_ \<or> ?atomic")
  shows "\<exists>outs t. run_cmds rd ch s cs = Some (outs, t) \<and> inv 0 t \<and> has t = has s \<and> array_agrees (view s) cs outs \<and>
      (\<forall>x. has s x \<longrightarrow> view t x = array_run (view s) cs outs x) \<and> (good s \<longrightarrow> good t \<and> (\<forall>out \<in> set outs. fst out = EOK))"
  using assms
proof (induction cs arbitrary: s)
  case Nil
  then show ?case by simp
next
  case (Cons c cs)
  have x: "has s (block_of c)" and sz: "same_size (bs s) c" and i: "inv (Suc (length cs)) s" using Cons.prems by simp_all
  obtain r xs t A where step: "\<And>outs u. run_cmds rd ch t cs = Some (outs, u) \<Longrightarrow> run_cmds rd ch s (c # cs) = Some ((r, xs) # outs, u)"
    and t: "inv (length cs) t" "has t = has s" "bs t = bs s" "good s \<longrightarrow> r = EOK \<and> good t"
    and A: "\<And>outs. array_run (view s) (c # cs) ((r, xs) # outs) = array_run A cs outs"
      "\<And>outs. array_agrees A cs outs \<Longrightarrow> array_agrees (view s) (c # cs) ((r, xs) # outs)"
      "\<forall>y. has s y \<longrightarrow> view t y = A y"
  proof (cases c)
    case (Read x)
    from reads [OF i, of x] x Read obtain r xs t where "rd s x = Some (r, xs, t)" "inv (length cs) t" "has t = has s" "bs t = bs s"
      "\<forall>y. has s y \<longrightarrow> view t y = view s y" "r = EOK \<longrightarrow> xs = view s x" "good s \<longrightarrow> r = EOK \<and> good t" by auto
    with Read show thesis by (intro that [of t r xs "view s"]) simp_all
  next
    case (Change x f)
    then have l: "length (f (view s x)) = bs s" and hx: "has s x" using sz view_size [OF i] x by (simp_all add: same_size_def)
    from changes [where f = f, OF i hx l] obtain r t where c: "ch s x f = Some (r, t)" "inv (length cs) t" "has t = has s" "bs t = bs s"
      "\<forall>y. has s y \<longrightarrow> y \<noteq> x \<longrightarrow> view t y = view s y" "r = EOK \<longrightarrow> view t x = f (view s x)" "good s \<longrightarrow> r = EOK \<and> good t"
      by (elim exE conjE)
    have "view t x = view s x" if "r \<noteq> EOK" using Cons.prems(3) c(1,7) that i hx l by blast
    with c(5,6) have "view t y = (if r = EOK then (view s)(x := f (view s x)) else view s) y" if "has s y" for y
      using that by (cases "y = x") simp_all
    with c show thesis using Change
      by (intro that [of t r "[]" "if r = EOK then (view s)(x := f (view s x)) else view s"]) simp_all
  qed
  have "good t \<or> ?atomic"
    using Cons.prems(3) t(4) by blast
  from Cons.IH [OF t(1) _ this] Cons.prems(2) t(2,3) obtain outs u where
    u: "run_cmds rd ch t cs = Some (outs, u)" "inv 0 u" "has u = has t" "array_agrees (view t) cs outs"
    "\<forall>x. has t x \<longrightarrow> view u x = array_run (view t) cs outs x" "good t \<longrightarrow> good u \<and> (\<forall>out \<in> set outs. fst out = EOK)" by auto
  have in_s: "\<forall>c \<in> set cs. has s (block_of c)" using Cons.prems(2) by simp
  have "array_agrees (view s) (c # cs) ((r, xs) # outs)"
    using array_agrees_cong [OF A(3) in_s] u(4) A(2) by blast
  moreover have "view u x = array_run (view s) (c # cs) ((r, xs) # outs) x" if "has s x" for x
    using u(5) that t(2) array_run_cong [OF A(3) in_s that] by (simp add: A(1))
  ultimately show ?case using step [OF u(1)] u(2,3,6) t(2,4) by auto
qed

end

locale atomic_block_store = block_store +
  assumes failed: "ch s x f = Some (r, t) \<Longrightarrow> r \<noteq> EOK \<Longrightarrow> inv (Suc n) s \<Longrightarrow> has s x \<Longrightarrow> length (f (view s x)) = bs s \<Longrightarrow> view t x = view s x"
begin

lemma run_atomic:
  assumes "inv (length cs) s" and "\<forall>c \<in> set cs. has s (block_of c) \<and> same_size (bs s) c"
  shows "\<exists>outs t. run_cmds rd ch s cs = Some (outs, t) \<and> inv 0 t \<and> has t = has s \<and> array_agrees (view s) cs outs \<and>
      (\<forall>x. has s x \<longrightarrow> view t x = array_run (view s) cs outs x) \<and> (good s \<longrightarrow> good t \<and> (\<forall>out \<in> set outs. fst out = EOK))"
  using run_store [OF assms] failed by blast

end

section \<open>The cached device is an atomic store\<close>

abbreviation has_block :: "'d ext4_blockdev \<Rightarrow> u64 \<Rightarrow> bool" where
  "has_block s x \<equiv> x < lg_bcnt s \<and> x \<noteq> 0"

lemma dblk_length:
  assumes "dev_ok m s" "geom_ok s" "x < lg_bcnt s"
  shows "length (dblk m s x) = bsz s"
proof -
  have "unat x + 1 \<le> unat (lg_bcnt s)" using assms(3) by (simp add: word_less_nat_alt)
  from blocks_in_part [OF assms(1,2) this] show ?thesis by (simp add: dblk_def lb_off_def)
qed

lemma cview_length:
  assumes ok: "cache_ok m s" and x: "x < lg_bcnt s"
  shows "length (cview m s x) = bsz s"
  using dblk_length [OF cache_okD(1,2) [OF ok] x] cache_buf(1) [OF ok]
  by (auto simp: cview_def split: option.split)

text \<open>The store with the references that other clients hold.\<close>

definition shared_ok :: "('d \<Rightarrow> u8 list) \<Rightarrow> (nat \<Rightarrow> u32) \<Rightarrow> nat \<Rightarrow> 'd ext4_blockdev \<Rightarrow> bool" where
  "shared_ok m R n s \<longleftrightarrow> store_ok m n s \<and> refs s = R"

interpretation cached: atomic_block_store "shared_ok m R" live has_block bsz "cview m" read_through change_through for m R
proof
  fix n s x assume "shared_ok m R n s" "has_block s x"
  then show "length (cview m s x) = bsz s" using cview_length by (auto simp: store_ok_def shared_ok_def)
next
  fix n s x assume "shared_ok m R (Suc n) s" and x: "has_block s x"
  then have ok: "store_ok m (Suc n) s" "refs s = R" by (simp_all add: shared_ok_def)
  with x obtain r xs t where "read_through s x = Some (r, xs, t)" "store_ok m n t" "keeps m UNIV s t" "refs t = R"
    "r = EOK \<longrightarrow> xs = cview m s x" "live s \<longrightarrow> r = EOK \<and> live t" using read_through_reads [OF ok(1)] by blast
  with keepsD(2,3,6) [of m UNIV s t] show "\<exists>r xs t. read_through s x = Some (r, xs, t) \<and> shared_ok m R n t \<and> has_block t = has_block s \<and> bsz t = bsz s \<and>
      (\<forall>y. has_block s y \<longrightarrow> cview m t y = cview m s y) \<and> (r = EOK \<longrightarrow> xs = cview m s x) \<and> (live s \<longrightarrow> r = EOK \<and> live t)"
    by (simp add: shared_ok_def)
next
  fix n s x and f :: "u8 list \<Rightarrow> u8 list" assume "shared_ok m R (Suc n) s" and x: "has_block s x" "length (f (cview m s x)) = bsz s"
  then have "store_ok m (Suc n) s" "refs s = R" by (simp_all add: shared_ok_def)
  with x obtain r t where "change_through s x f = Some (r, t)" "store_ok m n t" "lg_bcnt t = lg_bcnt s" "lg_bsize t = lg_bsize s" "refs t = R"
    "\<forall>y < lg_bcnt s. cview m t y = (if r = EOK \<and> y = x then f (cview m s x) else cview m s y)" "live s \<longrightarrow> r = EOK \<and> live t"
    using change_through_changes [of m n s x f] by blast
  with x(1) show "\<exists>r t. change_through s x f = Some (r, t) \<and> shared_ok m R n t \<and> has_block t = has_block s \<and> bsz t = bsz s \<and>
      (\<forall>y. has_block s y \<longrightarrow> y \<noteq> x \<longrightarrow> cview m t y = cview m s y) \<and> (r = EOK \<longrightarrow> cview m t x = f (cview m s x)) \<and> (live s \<longrightarrow> r = EOK \<and> live t)"
    by (simp add: shared_ok_def)
next
  fix s x f r t n
  assume "change_through s x f = Some (r, t)" "r \<noteq> EOK" "shared_ok m R (Suc n) s" "has_block s x" "length (f (cview m s x)) = bsz s"
  with change_through_changes [of m n s x f] show "cview m t x = cview m s x" by (auto simp: shared_ok_def)
qed

section \<open>The device without the cache\<close>

definition read_direct :: "'d ext4_blockdev \<Rightarrow> u64 \<Rightarrow> (int \<times> u8 list \<times> 'd ext4_blockdev) option" where
  "read_direct s lb = ext4_blocks_get_direct s (replicate (bsz s) 0) lb 1"

definition change_direct :: "'d ext4_blockdev \<Rightarrow> u64 \<Rightarrow> (u8 list \<Rightarrow> u8 list) \<Rightarrow> (int \<times> 'd ext4_blockdev) option" where
  "change_direct s lb f = do {
     (r, xs, s) \<leftarrow> read_direct s lb;
     if r \<noteq> EOK then Some (r, s) else ext4_blocks_set_direct s (f xs) lb 1 }"

lemma read_direct_reads:
  assumes ok: "dev_ok m s" "geom_ok s" and lb: "lb < lg_bcnt s"
  shows "\<exists>r xs j. read_direct s lb = Some (r, xs, s\<lparr>bdif := j\<rparr>) \<and> same_dev (bdif s) j \<and> dblk m (s\<lparr>bdif := j\<rparr>) = dblk m s \<and>
      (r = EOK \<longrightarrow> xs = dblk m s lb)"
  using get_direct_one [OF ok lb, of "replicate (bsz s) 0"] by (auto simp: read_direct_def)

lemma change_direct_changes:
  assumes ok: "dev_ok m s" "geom_ok s" and lb: "lb < lg_bcnt s" and f: "length (f (dblk m s lb)) = bsz s"
  shows "\<exists>r j. change_direct s lb f = Some (r, s\<lparr>bdif := j\<rparr>) \<and> same_dev (bdif s) j \<and>
      (\<forall>x < lg_bcnt s. x \<noteq> lb \<longrightarrow> dblk m (s\<lparr>bdif := j\<rparr>) x = dblk m s x) \<and> (r = EOK \<longrightarrow> dblk m (s\<lparr>bdif := j\<rparr>) lb = f (dblk m s lb))"
proof -
  obtain r xs j where rd: "read_direct s lb = Some (r, xs, s\<lparr>bdif := j\<rparr>)" "same_dev (bdif s) j" "dblk m (s\<lparr>bdif := j\<rparr>) = dblk m s"
    "r = EOK \<longrightarrow> xs = dblk m s lb" using read_direct_reads [OF ok lb] by blast
  show ?thesis
  proof (cases "r = EOK")
    case False
    with rd show ?thesis by (intro exI [of _ r] exI [of _ j]) (simp add: change_direct_def)
  next
    case True
    let ?s = "s\<lparr>bdif := j\<rparr>"
    have "dev_ok m ?s" "geom_ok ?s" "lb < lg_bcnt ?s" "length (f xs) = bsz ?s"
      using dev_ok_same [OF ok(1) rd(2)] ok(2) lb f True rd(4) by (simp_all add: geom_ok_def)
    from set_direct_one [OF this] obtain r2 k where "ext4_blocks_set_direct ?s (f xs) lb 1 = Some (r2, ?s\<lparr>bdif := k\<rparr>)" "same_dev j k"
      "\<forall>x < lg_bcnt s. x \<noteq> lb \<longrightarrow> dblk m (?s\<lparr>bdif := k\<rparr>) x = dblk m s x" "r2 = EOK \<longrightarrow> dblk m (?s\<lparr>bdif := k\<rparr>) lb = f xs"
      using rd(3) by auto
    with rd True same_dev_trans [OF rd(2)] show ?thesis
      by (intro exI [of _ r2] exI [of _ k]) (simp add: change_direct_def)
  qed
qed

lemma direct_store_succeeds:
  "read_direct s lb = Some (r, xs, t) \<Longrightarrow> dev_never_fails s \<Longrightarrow> r = EOK \<and> dev_never_fails t"
  "change_direct s lb f = Some (r, t) \<Longrightarrow> dev_never_fails s \<Longrightarrow> r = EOK \<and> dev_never_fails t"
  by (auto simp: read_direct_def change_direct_def dest!: direct_succeeds split: if_splits bind_splits)

interpretation direct: block_store "\<lambda>_ s. dev_ok m s \<and> geom_ok s" dev_never_fails has_block bsz "dblk m" read_direct change_direct for m
proof
  fix s x assume "dev_ok m s \<and> geom_ok s" "has_block s x"
  then show "length (dblk m s x) = bsz s" using dblk_length by blast
next
  fix s x assume ok: "dev_ok m s \<and> geom_ok s" "has_block s x"
  then obtain r xs j where rd: "read_direct s x = Some (r, xs, s\<lparr>bdif := j\<rparr>)" "same_dev (bdif s) j" "dblk m (s\<lparr>bdif := j\<rparr>) = dblk m s"
    "r = EOK \<longrightarrow> xs = dblk m s x" using read_direct_reads by blast
  with ok(1) dev_ok_same [of m s j] direct_store_succeeds(1) [OF rd(1)]
  show "\<exists>r xs t. read_direct s x = Some (r, xs, t) \<and> (dev_ok m t \<and> geom_ok t) \<and> has_block t = has_block s \<and> bsz t = bsz s \<and>
      (\<forall>y. has_block s y \<longrightarrow> dblk m t y = dblk m s y) \<and> (r = EOK \<longrightarrow> xs = dblk m s x) \<and> (dev_never_fails s \<longrightarrow> r = EOK \<and> dev_never_fails t)"
    by (intro exI [of _ r] exI [of _ xs] exI [of _ "s\<lparr>bdif := j\<rparr>"]) (simp add: geom_ok_def)
next
  fix s x and f :: "u8 list \<Rightarrow> u8 list" assume ok: "dev_ok m s \<and> geom_ok s" "has_block s x" "length (f (dblk m s x)) = bsz s"
  then obtain r j where c: "change_direct s x f = Some (r, s\<lparr>bdif := j\<rparr>)" "same_dev (bdif s) j"
    "\<forall>y < lg_bcnt s. y \<noteq> x \<longrightarrow> dblk m (s\<lparr>bdif := j\<rparr>) y = dblk m s y" "r = EOK \<longrightarrow> dblk m (s\<lparr>bdif := j\<rparr>) x = f (dblk m s x)"
    using change_direct_changes [of m s x f] by blast
  with ok(1) dev_ok_same [of m s j] direct_store_succeeds(2) [OF c(1)]
  show "\<exists>r t. change_direct s x f = Some (r, t) \<and> (dev_ok m t \<and> geom_ok t) \<and> has_block t = has_block s \<and> bsz t = bsz s \<and>
      (\<forall>y. has_block s y \<longrightarrow> y \<noteq> x \<longrightarrow> dblk m t y = dblk m s y) \<and> (r = EOK \<longrightarrow> dblk m t x = f (dblk m s x)) \<and>
      (dev_never_fails s \<longrightarrow> r = EOK \<and> dev_never_fails t)"
    by (intro exI [of _ r] exI [of _ "s\<lparr>bdif := j\<rparr>"]) (simp add: geom_ok_def)
qed

section \<open>Invalidating a range\<close>

lemma invalidate_buf_eq:
  assumes ok: "cache_ok m s" and b: "bufs s a = Some b"
  shows "ext4_bcache_invalidate_buf s a = Some (s\<lparr>bc := (bc s)\<lparr>dirty_list := remove1 a (dirty_list (bc s))\<rparr>,
      bufs := (bufs s)(a \<mapsto> ext4_bcache_clear_dirty (b\<lparr>on_dirty_list := False\<rparr>))\<rparr>)"
proof (cases "dirty b")
  case True
  with remove_dirty_node_eq [OF cache_okD(7) [OF ok] b] b show ?thesis by (simp add: ext4_bcache_invalidate_buf_def upd_buf_eq)
next
  case False
  then have "\<not> on_dirty_list b" using cache_buf(6) [OF ok b] by blast
  with False b cache_buf(12) [OF ok b] show ?thesis by (simp add: ext4_bcache_invalidate_buf_def upd_buf_eq remove1_idem)
qed

lemma invalidate_buf_view:
  assumes ok: "cache_ok m s" and b: "bufs s a = Some b"
  shows "\<exists>t. ext4_bcache_invalidate_buf s a = Some t \<and> cache_ok m t \<and> dblk m t = dblk m s \<and> lg_bcnt t = lg_bcnt s \<and> lba_root (bc t) = lba_root (bc s) \<and>
      lba_key t = lba_key s \<and> dom (bufs t) = dom (bufs s) \<and> (\<forall>x. cview m t x = (if x = lba b then dblk m s x else cview m s x))"
proof -
  let ?b = "ext4_bcache_clear_dirty (b\<lparr>on_dirty_list := False\<rparr>)"
  let ?t = "s\<lparr>bc := (bc s)\<lparr>dirty_list := remove1 a (dirty_list (bc s))\<rparr>, bufs := (bufs s)(a \<mapsto> ?b)\<rparr>"
  have fl: "\<not> uptodate ?b" "\<not> dirty ?b" "tmp ?b = tmp b" "flush_now ?b = flush_now b"
    by (simp_all add: ext4_bcache_clear_dirty_def cache)
  have fld: "lba ?b = lba b" "lru_id ?b = lru_id b" "refctr ?b = refctr b" "\<not> on_dirty_list ?b" "buf_data ?b = buf_data b"
    by (simp_all add: ext4_bcache_clear_dirty_def cache)
  have "buf_ok m ?t c" if "bufs ?t k = Some c" for k c
  proof (cases "k = a")
    case True
    with that cache_okD(4) [OF ok b] fl fld show ?thesis by (simp add: buf_ok_def)
  next
    case False
    with that have "bufs s k = Some c" by simp
    from cache_okD(4) [OF ok this] show ?thesis by (simp add: buf_ok_def)
  qed
  then have ok': "cache_ok m ?t"
    unfolding cache_ok_def
    using cache_okD(1,2,3) [OF ok] lba_ok_upd [OF cache_okD(5) [OF ok] b fld(1)] lru_ok_upd [OF cache_okD(6) [OF ok] b, of ?b]
      dirt_ok_remove [OF cache_okD(7) [OF ok] b, of ?b] fld by simp
  have bt: "bufs ?t a = Some ?b" by simp
  have "cview m ?t x = (if x = lba b then dblk m s x else cview m s x)" for x
    using cview_in [OF ok' bt] cview_upd_other [OF ok ok' b _ fld(1), of x] fl fld by simp
  moreover have "dom (bufs ?t) = dom (bufs s)" using b by auto
  moreover have "lba_key ?t = lba_key s" using b fld(1) by (simp add: lba_key_eq)
  ultimately show ?thesis using invalidate_buf_eq [OF ok b] ok' by (intro exI [of _ ?t]) (simp add: fun_eq_iff)
qed

lemma invalidate_from_view:
  assumes "cache_ok m s" and "set as \<subseteq> dom (bufs s)" and "sorted_wrt (<) (map (lba_key s) as)"
  shows "\<exists>t. invalidate_from s e as = Some t \<and> cache_ok m t \<and> dblk m t = dblk m s \<and> lg_bcnt t = lg_bcnt s \<and>
      (\<forall>x. cview m t x = (if x \<le> e \<and> x \<in> lba_key s ` set as then dblk m s x else cview m s x))"
  using assms
proof (induction as arbitrary: s)
  case Nil
  then show ?case by simp
next
  case (Cons a as)
  show ?case
  proof (cases "lba_key s a > e")
    case True
    have "\<not> x \<le> e" if "x \<in> lba_key s ` set (a # as)" for x
      using that Cons.prems(3) True by auto
    then have "\<forall>x. \<not> (x \<le> e \<and> x \<in> lba_key s ` set (a # as))" by blast
    with True Cons.prems(1) show ?thesis by (intro exI [of _ s]) auto
  next
    case False
    from Cons.prems(2) obtain b where b: "bufs s a = Some b" by auto
    then have key: "lba_key s a = lba b" by (simp add: lba_key_def)
    obtain t where t: "ext4_bcache_invalidate_buf s a = Some t" "cache_ok m t" "dblk m t = dblk m s" "lg_bcnt t = lg_bcnt s"
      "lba_key t = lba_key s" "dom (bufs t) = dom (bufs s)" "\<forall>x. cview m t x = (if x = lba b then dblk m s x else cview m s x)"
      using invalidate_buf_view [OF Cons.prems(1) b] by blast
    obtain u where u: "invalidate_from t e as = Some u" "cache_ok m u" "dblk m u = dblk m t" "lg_bcnt u = lg_bcnt t"
      "\<forall>x. cview m u x = (if x \<le> e \<and> x \<in> lba_key t ` set as then dblk m t x else cview m t x)"
      using Cons.IH [OF t(2)] Cons.prems(2,3) t(5,6) by auto
    have "cview m u x = (if x \<le> e \<and> x \<in> lba_key s ` set (a # as) then dblk m s x else cview m s x)" for x
      using u(5) t(3,5,7) False key by auto
    with False t(1,3,4) u(1-4) show ?thesis by simp
  qed
qed

lemma invalidate_lba_view:
  assumes ok: "cache_ok m s" and fits: "cnt \<noteq> 0" "unat from + unat cnt \<le> 2 ^ 64"
  shows "\<exists>t. ext4_bcache_invalidate_lba s from cnt = Some t \<and> cache_ok m t \<and> dblk m t = dblk m s \<and>
      (\<forall>x. cview m t x = (if ext4_buf_lookup s from \<noteq> None \<and> from \<le> x \<and> unat x < unat from + unat cnt then dblk m s x else cview m s x))"
proof (cases "ext4_buf_lookup s from")
  case None
  with ok show ?thesis by (simp add: ext4_bcache_invalidate_lba_def)
next
  case (Some a)
  let ?xs = "lba_root (bc s)" and ?e = "from + ucast cnt - 1"
  obtain b where b: "bufs s a = Some b" "lba b = from" using Some lookup_cache [OF ok] by auto
  have dom: "dom (bufs s) = set ?xs" and srt: "sorted_wrt (<) (map (lba_key s) ?xs)"
    using cache_okD(5) [OF ok] by (auto simp: lba_ok_def lba_key_eq)
  have "a \<in> set ?xs" by (rule cache_buf(9) [OF ok b(1)])
  then obtain us vs where split: "?xs = us @ a # vs" "a \<notin> set us" by (meson split_list_first)
  have drop: "dropWhile (\<lambda>x. x \<noteq> a) ?xs = a # vs"
    unfolding split(1) by (subst dropWhile_append2) (use split(2) in auto)
  have key: "lba_key s a = from" using b by (simp add: lba_key_def)
  have e: "x \<le> ?e \<longleftrightarrow> unat x < unat from + unat cnt" for x
  proof -
    have c: "unat (ucast cnt :: u64) = unat cnt" "0 < unat cnt" using fits(1) by (simp_all add: unat_ucast_up unat_gt_0)
    define w :: u64 where "w = ucast cnt - 1"
    have "(1 :: u64) \<le> ucast cnt" using c by (simp add: word_le_nat_alt)
    then have w: "unat w = unat cnt - 1" using c(1) unat_minus_le [of 1 "ucast cnt :: u64"] by (simp add: w_def)
    have e: "?e = from + w" by (simp add: w_def)
    have "unat ?e = unat from + (unat cnt - 1)" unfolding e using fits(2) c(2) w by (simp add: unat_word_ariths(1))
    with c(2) show ?thesis by (auto simp: word_le_nat_alt)
  qed
  have "set (a # vs) \<subseteq> dom (bufs s)" "sorted_wrt (<) (map (lba_key s) (a # vs))"
    using dom srt split by (auto simp: sorted_wrt_append)
  from invalidate_from_view [OF ok this, of ?e] obtain t where t: "invalidate_from s ?e (a # vs) = Some t" "cache_ok m t" "dblk m t = dblk m s"
    "\<forall>x. cview m t x = (if x \<le> ?e \<and> x \<in> lba_key s ` set (a # vs) then dblk m s x else cview m s x)" by blast
  have "cview m t x = (if from \<le> x \<and> unat x < unat from + unat cnt then dblk m s x else cview m s x)" for x
  proof (cases "x \<in> lba_key s ` set ?xs")
    case True
    have "x \<in> lba_key s ` set (a # vs) \<longleftrightarrow> from \<le> x"
      using True srt split key by (fastforce simp: sorted_wrt_append)
    with t(4) e show ?thesis by auto
  next
    case False
    have "lba c \<noteq> x" if "bufs s k = Some c" for k c
      using False that dom by (auto simp: lba_key_def image_def) (metis domI option.simps(5))
    from cview_out [OF ok this] t(4) show ?thesis by auto
  qed
  with Some drop t(1-3) show ?thesis by (simp add: ext4_bcache_invalidate_lba_def Let_def)
qed

section \<open>Opening the device\<close>

text \<open>
  \<open>Ext4BlockDevice::new\<close>, and the part of \<open>Ext4Filesystem::new\<close> that sets the block size and makes
  the cache; the block size \<open>lbs\<close> is that of the superblock.
\<close>

definition ENOTSUP :: int where "ENOTSUP = 95"

definition ext4_block_bind_bcache :: "'d ext4_blockdev \<Rightarrow> ext4_bcache \<Rightarrow> int \<times> 'd ext4_blockdev" where
  "ext4_block_bind_bcache s c = (EOK, s\<lparr>bc := c\<rparr>)"

definition Ext4BlockDevice_new :: "(nat \<Rightarrow> (nat \<Rightarrow> u8) option) \<Rightarrow> 'd block_driver \<Rightarrow> (int \<times> 'd ext4_blockdev) option" where
  "Ext4BlockDevice_new mem dev =
    (let iface = \<lparr>ph_bsize = EXT4_DEV_BSIZE, ph_bcnt = 0, ph_bbuf = replicate (unat EXT4_DEV_BSIZE) 0, ph_refctr = 0,
           bread_ctr = 0, bwrite_ctr = 0, p_user = dev\<rparr>;
         s = \<lparr>bdif = iface, part_offset = 0, part_size = 0, bc = ext4_bcache_fini_dynamic, lg_bsize = 0, lg_bcnt = 0,
           cache_write_back = 0, bufs = (\<lambda>_. None), buf_next = 0, buf_mem = mem\<rparr>;
         (r, s) = ext4_block_init s
     in if r \<noteq> EOK then Some (r, s) else do {
       (r, s) \<leftarrow> ext4_block_cache_write_back s 1;
       Some (r, if r \<noteq> EOK then snd (ext4_block_fini s) else s) })"

definition attach_cache :: "'d ext4_blockdev \<Rightarrow> u32 \<Rightarrow> u32 \<Rightarrow> (int \<times> 'd ext4_blockdev) option" where
  "attach_cache s lbs bcache_size = do {
     s \<leftarrow> ext4_block_set_lb_size s lbs;
     c \<leftarrow> ext4_bcache_init_dynamic bcache_size lbs;
     Some (if lbs \<noteq> itemsize c then (ENOTSUP, s) else ext4_block_bind_bcache s c) }"

lemma new_device:
  assumes "driver_laws m D"
  shows "\<exists>s. Ext4BlockDevice_new mem D = Some (EOK, s) \<and> dev_ok m s \<and> ph_refctr (bdif s) = 1 \<and> cache_write_back s = 1 \<and>
      bufs s = Map.empty \<and> buf_next s = 0 \<and> buf_mem s = mem \<and> p_user (bdif s) = D \<and> part_offset s = 0 \<and>
      part_size s = get_block_count D * 512"
proof -
  have bs: "get_block_size D = 512" by (rule driver_size [OF assms])
  have cnt: "unat (get_block_count D) * 512 < 2 ^ 63" using assms by (simp add: driver_laws_def)
  have mul: "unat (512 * get_block_count D) = 512 * unat (get_block_count D)" using cnt by (simp add: unat_word_ariths)
  have "unat (512 * get_block_count D div 512) = unat (get_block_count D)" by (simp add: unat_div mul)
  then have n: "num_blocks D = get_block_count D"
    by (simp add: num_blocks_def bs EXT4_DEV_BSIZE_def flip: word_unat_eq_iff)
  have len: "length (m (obj D)) = unat (get_block_count D) * 512" by (rule driver_length [OF assms])
  show ?thesis
    using assms n mul len
    by (simp add: Ext4BlockDevice_new_def ext4_block_init_def dev_open_def ext4_block_cache_write_back_def dev_ok_def
        EXT4_DEV_BSIZE_def Let_def mult.commute)
qed

lemma attach_establishes:
  assumes dev: "dev_ok m s" "ph_refctr (bdif s) \<noteq> 0" "cache_write_back s \<noteq> 0" "bufs s = Map.empty"
    and lbs: "lbs \<noteq> 0" "512 dvd unat lbs" and "cnt \<noteq> 0" and n: "n < 2 ^ 32"
  shows "\<exists>t. attach_cache s lbs cnt = Some (EOK, t) \<and> store_ok m n t \<and> bdif t = bdif s \<and> buf_mem t = buf_mem s \<and>
      lg_bsize t = lbs \<and> lg_bcnt t = part_size s div ucast lbs \<and> (\<forall>x. cview m t x = dblk m t x) \<and> (\<forall>a. refs t a = 0)"
proof -
  let ?c = "\<lparr>bc_cnt = cnt, itemsize = lbs, lru_ctr = 0, ref_blocks = 0, max_ref_blocks = 0,
       dont_shake = False, lba_root = [], lru_root = [], dirty_list = []\<rparr>"
  let ?t = "s\<lparr>lg_bsize := lbs, lg_bcnt := part_size s div ucast lbs, bc := ?c\<rparr>"
  have ph: "ph_bsize (bdif s) = 512" by (rule dev_ok_bounds(2) [OF dev(1)])
  have "unat (lbs mod 512) = 0" using lbs(2) by (simp add: unat_mod mod_eq_0_iff_dvd)
  then have md: "lbs mod 512 = 0" by (simp add: unat_eq_zero)
  have run: "attach_cache s lbs cnt = Some (EOK, ?t)"
    using lbs(1) assms(7) ph md by (simp add: attach_cache_def ext4_block_set_lb_size_def ext4_bcache_init_dynamic_def ext4_block_bind_bcache_def)
  have u: "unat (ucast lbs :: u64) = unat lbs" by (simp add: unat_ucast_up)
  have "geom_ok ?t" using lbs by (simp add: geom_ok_def unat_div u)
  moreover have "dev_ok m ?t" using dev(1) by (simp add: dev_ok_def)
  ultimately have ok: "cache_ok m ?t" using dev(4) by (simp add: cache_ok_def lba_ok_def lru_ok_def dirt_ok_def)
  have v: "cview m ?t x = dblk m ?t x" for x by (rule cview_out [OF ok]) (simp add: dev(4))
  have rf: "refs ?t a = 0" for a by (simp add: refs_def dev(4))
  have "store_ok m n ?t" using ok dev n rf by (simp add: store_ok_def listed_def)
  with run v rf show ?thesis by (intro exI [of _ ?t]) simp
qed

section \<open>What the store promises\<close>

lemma ram_store_ok: "store_ok (ram_medium 8) n (ram_dev 8 (f, xs))" if "n < 2 ^ 32"
  using that ram_dev_ok [of 8 "(f, xs)"] ram_dev_geom [of 8 "(f, xs)"]
  by (simp add: store_ok_def cache_ok_def lba_ok_def lru_ok_def dirt_ok_def listed_def refs_def) (simp add: ram_dev_def)

lemma ram_never_fails: "never_fails (ram_driver n (f, []))"
  unfolding never_fails_def
  by (rule exI [of _ "UNIV \<times> {[]}"]) (auto simp: ram_driver_def ram_read_def ram_write_def)

lemma ram_live: "live (ram_dev n (f, []))"
  by (simp add: live_def ram_dev_def ram_never_fails)

text \<open>
  C9: The cached device of lwext4 implements an array of blocks. Any sequence of reads and changes of
  blocks, each through \<open>ext4_trans_block_get\<close>, \<open>ext4_trans_set_block_dirty\<close> and \<open>ext4_block_set\<close>,
  runs to its end. The array is what the cache shows of the device: every read that reports success
  returns the block of the array at that time, every change that reports success updates it, and an
  operation that reports an error, be it from the device or for lack of memory, changes nothing, no
  matter which buffers had to be written back and dropped to make room. The references held by others
  are as before, and when no call of the driver and no allocation fails every operation succeeds.
\<close>

theorem cached_store_refines:
  assumes "store_ok m (length cs) s"
    and "\<forall>c \<in> set cs. has_block s (block_of c) \<and> same_size (bsz s) c"
  shows "\<exists>outs t. run_cmds read_through change_through s cs = Some (outs, t) \<and> store_ok m 0 t \<and> refs t = refs s \<and>
      array_agrees (cview m s) cs outs \<and> (\<forall>x. has_block s x \<longrightarrow> cview m t x = array_run (cview m s) cs outs x) \<and>
      (live s \<longrightarrow> (\<forall>out \<in> set outs. fst out = EOK))"
  using cached.run_atomic [of m "refs s" cs s] assms by (auto simp: shared_ok_def)

theorem cached_store_refines_witness:
  "\<exists>outs t. run_cmds read_through change_through (ram_dev 8 (\<lambda>_. 0, [])) [Change 2 (\<lambda>d. d[5 := 7]), Read 2] = Some (outs, t) \<and>
     array_agrees (cview (ram_medium 8) (ram_dev 8 (\<lambda>_. 0, []))) [Change 2 (\<lambda>d. d[5 := 7]), Read 2] outs \<and>
     (\<forall>out \<in> set outs. fst out = EOK)"
proof -
  let ?s = "ram_dev 8 (\<lambda>_. 0, [])" and ?cs = "[Change 2 (\<lambda>d. d[5 := 7]), Read 2]"
  have ok: "store_ok (ram_medium 8) (length ?cs) ?s" by (rule ram_store_ok) simp
  have cs: "\<forall>c \<in> set ?cs. has_block ?s (block_of c) \<and> same_size (bsz ?s) c" by (simp add: ram_dev_def same_size_def)
  from cached_store_refines [OF ok cs] obtain outs t where
    t: "run_cmds read_through change_through ?s ?cs = Some (outs, t)" "array_agrees (cview (ram_medium 8) ?s) ?cs outs"
    "live ?s \<longrightarrow> (\<forall>out \<in> set outs. fst out = EOK)" by (elim exE conjE)
  have "\<forall>out \<in> set outs. fst out = EOK" by (rule mp [OF t(3) ram_live])
  with t(1,2) show ?thesis by (intro exI conjI)
qed

text \<open>
  C8: From opening a device to its medium. On every driver that keeps its laws,
  \<open>Ext4BlockDevice::new\<close> and the set-up of the cache succeed; any sequence of reads and changes of
  blocks then behaves as on an array that starts as the medium, and when \<open>ext4_block_cache_flush\<close>
  reports success the medium holds that array, although blocks were written in the order in which the
  cache dropped and flushed them. Without failures of the driver or of the allocator all of it
  succeeds.
\<close>

theorem mounted_store_persists:
  assumes "driver_laws m D" and "lbs \<noteq> 0" "512 dvd unat lbs" and "cnt \<noteq> 0" and "length cs < 2 ^ 32"
    and "\<forall>c \<in> set cs. block_of c \<noteq> 0 \<and> block_of c < get_block_count D * 512 div ucast lbs \<and> same_size (unat lbs) c"
  shows "\<exists>s0 s outs t r u. Ext4BlockDevice_new mem D = Some (EOK, s0) \<and> attach_cache s0 lbs cnt = Some (EOK, s) \<and>
      run_cmds read_through change_through s cs = Some (outs, t) \<and> ext4_block_cache_flush t = Some (r, u) \<and>
      array_agrees (dblk m s) cs outs \<and> (r = EOK \<longrightarrow> (\<forall>x. has_block s x \<longrightarrow> dblk m u x = array_run (dblk m s) cs outs x)) \<and>
      (never_fails D \<and> (\<forall>a. mem a \<noteq> None) \<longrightarrow> r = EOK \<and> (\<forall>out \<in> set outs. fst out = EOK))"
proof -
  obtain s0 where s0: "Ext4BlockDevice_new mem D = Some (EOK, s0)" "dev_ok m s0" "ph_refctr (bdif s0) = 1" "cache_write_back s0 = 1"
    "bufs s0 = Map.empty" "buf_mem s0 = mem" "p_user (bdif s0) = D" "part_size s0 = get_block_count D * 512"
    using new_device [OF assms(1)] by blast
  from attach_establishes [OF s0(2) _ _ s0(5) assms(2-5)] s0(3,4) obtain s where
    s: "attach_cache s0 lbs cnt = Some (EOK, s)" "store_ok m (length cs) s" "bdif s = bdif s0" "buf_mem s = mem" "lg_bsize s = lbs"
    "lg_bcnt s = part_size s0 div ucast lbs" "cview m s = dblk m s" "\<forall>a. refs s a = 0"
    using s0(6) by (auto simp: fun_eq_iff)
  have "\<forall>c \<in> set cs. has_block s (block_of c) \<and> same_size (bsz s) c" using assms(6) s(5,6) s0(8) by simp
  with cached.run_atomic [of m "refs s" cs s] s(2) obtain outs t where
    t: "run_cmds read_through change_through s cs = Some (outs, t)" "store_ok m 0 t" "refs t = refs s" "has_block t = has_block s"
    "array_agrees (cview m s) cs outs" "\<forall>x. has_block s x \<longrightarrow> cview m t x = array_run (cview m s) cs outs x"
    "live s \<longrightarrow> live t \<and> (\<forall>out \<in> set outs. fst out = EOK)" by (auto simp: shared_ok_def)
  obtain r u where u: "ext4_block_cache_flush t = Some (r, u)" "keeps m {} t u" "r = EOK \<longrightarrow> dirty_list (bc u) = []" "live t \<longrightarrow> r = EOK"
    using cache_flush_keeps [OF store_okD(1) [OF t(2)]] by blast
  have "dblk m u x = array_run (dblk m s) cs outs x" if "r = EOK" "has_block s x" for x
  proof -
    have "listed u" by (rule listed_keeps [OF u(2) store_okD(4) [OF t(2)]]) simp
    moreover have "refctr b = 0" if "bufs u a = Some b" for a b
      using fun_cong [OF keeps_refs_all [OF u(2)], of a] t(3) s(8) that by (simp add: refs_def)
    ultimately have "dblk m u x = cview m u x" using flushed_medium [OF keepsD(1) [OF u(2)]] u(3) \<open>r = EOK\<close> by blast
    also have "\<dots> = cview m t x" using keepsD(6) [OF u(2)] that(2) fun_cong [OF t(4), of x] by simp
    finally show ?thesis using t(6) that(2) s(7) by simp
  qed
  moreover have "live s" if "never_fails D" "\<forall>a. mem a \<noteq> None" using that s(3,4) s0(7) by (simp add: live_def)
  ultimately show ?thesis using s0(1) s(1,7) t(1,5,7) u(1,4) by auto
qed

theorem mounted_store_persists_witness:
  "\<exists>s0 s outs t r u. Ext4BlockDevice_new (\<lambda>_. Some (\<lambda>_. 0)) (ram_driver 8 (\<lambda>_. 0, [])) = Some (EOK, s0) \<and>
     attach_cache s0 1024 16 = Some (EOK, s) \<and>
     run_cmds read_through change_through s [Change 2 (\<lambda>d. d[5 := 7]), Read 2] = Some (outs, t) \<and>
     ext4_block_cache_flush t = Some (r, u) \<and> r = EOK \<and> (\<forall>out \<in> set outs. fst out = EOK)"
proof -
  let ?D = "ram_driver 8 (\<lambda>_. 0, [])" and ?cs = "[Change 2 (\<lambda>d. d[5 := 7]), Read 2]"
  let ?mem = "(\<lambda>_. Some (\<lambda>_. 0)) :: nat \<Rightarrow> (nat \<Rightarrow> u8) option"
  have laws: "driver_laws (ram_medium 8) ?D" by (rule ram_driver_laws) simp
  have sizes: "(1024 :: u32) \<noteq> 0" "512 dvd unat (1024 :: u32)" "(16 :: u32) \<noteq> 0" "length ?cs < 2 ^ 32" by simp_all
  have cs: "\<forall>c \<in> set ?cs. block_of c \<noteq> 0 \<and> block_of c < get_block_count ?D * 512 div ucast (1024 :: u32) \<and> same_size (unat (1024 :: u32)) c"
    by (simp add: ram_driver_def same_size_def)
  from mounted_store_persists [where mem = ?mem, OF laws sizes cs] obtain s0 s outs t r u where
    o: "Ext4BlockDevice_new ?mem ?D = Some (EOK, s0)" "attach_cache s0 1024 16 = Some (EOK, s)"
    "run_cmds read_through change_through s ?cs = Some (outs, t)" "ext4_block_cache_flush t = Some (r, u)"
    "never_fails ?D \<and> (\<forall>a. ?mem a \<noteq> None) \<longrightarrow> r = EOK \<and> (\<forall>out \<in> set outs. fst out = EOK)"
    by (elim exE conjE)
  have "never_fails ?D \<and> (\<forall>a. ?mem a \<noteq> None)" using ram_never_fails by simp
  with o(5) have "r = EOK" "\<forall>out \<in> set outs. fst out = EOK" by blast+
  with o(1-4) show ?thesis by (intro exI conjI)
qed

text \<open>
  C10: The buffer cache stays well formed. Its invariant is the shape its structures must have: the tree
  by block number and the tree by last use are strictly ordered, every buffer is in the first and
  exactly the unreferenced ones are in the second, the dirty list holds dirty unreferenced buffers
  once each, the count of buffers is right, and a buffer that is up to date and not dirty holds what
  the medium holds. Getting a block with or without reading it, releasing one, making room and
  flushing return and keep the invariant, whatever the device and the allocator do, and none of them
  changes what the cache shows of the device.
\<close>

theorem cache_stays_well_formed:
  assumes "store_ok m (Suc n) s" and "lb \<noteq> 0"
  shows "(\<exists>r blk' t. ext4_block_get_noread s blk lb = Some (r, blk', t) \<and> cache_ok m t \<and> (\<forall>x < lg_bcnt s. cview m t x = cview m s x)) \<and>
    (\<exists>r blk' t. ext4_block_get s blk lb = Some (r, blk', t) \<and> cache_ok m t \<and> (\<forall>x < lg_bcnt s. cview m t x = cview m s x)) \<and>
    (\<exists>r t. ext4_block_cache_shake s = Some (r, t) \<and> cache_ok m t \<and> (\<forall>x < lg_bcnt s. cview m t x = cview m s x)) \<and>
    (\<exists>r t. ext4_block_cache_flush s = Some (r, t) \<and> cache_ok m t \<and> (\<forall>x < lg_bcnt s. cview m t x = cview m s x)) \<and>
    (\<forall>a b. bufs s a = Some b \<longrightarrow> refctr b \<noteq> 0 \<longrightarrow> (\<exists>r blk' t. ext4_block_set s \<lparr>lb_id = lb, b_buf = Some a\<rparr> = Some (r, blk', t) \<and>
       cache_ok m t \<and> (\<forall>x < lg_bcnt s. cview m t x = cview m s x)))"
proof (intro conjI allI impI)
  note s = store_okD [OF assms(1)]
  have room: "room s" using s(6) by simp
  have kept: "cache_ok m t \<and> (\<forall>x < lg_bcnt s. cview m t x = cview m s x)" if "keeps m A s t" for A t
    using keepsD(1,6) [OF that] by blast
  have far: "\<not> lb < lg_bcnt s \<Longrightarrow> ext4_block_get_noread s blk lb = Some (ENXIO, blk, s)"
    using s(2) by (simp add: ext4_block_get_noread_def)
  show "\<exists>r blk' t. ext4_block_get_noread s blk lb = Some (r, blk', t) \<and> cache_ok m t \<and> (\<forall>x < lg_bcnt s. cview m t x = cview m s x)"
    using get_noread_keeps [OF s(1,2) _ room, of lb blk] far s(1) kept by (cases "lb < lg_bcnt s") (metis, simp)
  show "\<exists>r blk' t. ext4_block_get s blk lb = Some (r, blk', t) \<and> cache_ok m t \<and> (\<forall>x < lg_bcnt s. cview m t x = cview m s x)"
    using get_keeps [OF s(1,2) _ assms(2) room, of blk] far s(1) kept
    by (cases "lb < lg_bcnt s") (metis, simp add: ext4_block_get_def ENXIO_def EOK_def)
  show "\<exists>r t. ext4_block_cache_shake s = Some (r, t) \<and> cache_ok m t \<and> (\<forall>x < lg_bcnt s. cview m t x = cview m s x)"
    using cache_shake_keeps [OF s(1)] kept by blast
  show "\<exists>r t. ext4_block_cache_flush s = Some (r, t) \<and> cache_ok m t \<and> (\<forall>x < lg_bcnt s. cview m t x = cview m s x)"
    using cache_flush_keeps [OF s(1)] kept by blast
  show "\<exists>r blk' t. ext4_block_set s \<lparr>lb_id = lb, b_buf = Some a\<rparr> = Some (r, blk', t) \<and> cache_ok m t \<and> (\<forall>x < lg_bcnt s. cview m t x = cview m s x)"
    if "bufs s a = Some b" "refctr b \<noteq> 0" for a b
    using release_held [OF s(1) that s(2) assms(2)] kept by blast
qed

theorem cache_stays_well_formed_witness:
  "(\<exists>r blk' t. ext4_block_get (ram_dev 8 (\<lambda>_. 0, [True])) \<lparr>lb_id = 0, b_buf = None\<rparr> 3 = Some (r, blk', t) \<and> cache_ok (ram_medium 8) t)"
proof -
  have ok: "store_ok (ram_medium 8) (Suc 0) (ram_dev 8 (\<lambda>_. 0, [True]))" by (rule ram_store_ok) simp
  have "(3 :: u64) \<noteq> 0" by simp
  from cache_stays_well_formed [where blk = "\<lparr>lb_id = 0, b_buf = None\<rparr>", OF ok this] show ?thesis by (elim conjE) blast
qed

text \<open>
  C16: Invalidating a range of blocks works only when its first block is cached. After
  \<open>ext4_bcache_invalidate_lba\<close> the cache shows the medium at every block of the range if a buffer is
  cached for the first one, and otherwise everything is as before: the loop over the tree starts at
  the buffer of the first block, and when there is none it does not run, so that dirty buffers of
  later blocks of the range stay in the cache and are written over whatever the blocks hold by then.
\<close>

theorem invalidate_lba_needs_first_block:
  assumes "cache_ok m s" and "cnt \<noteq> 0" and "unat from + unat cnt \<le> 2 ^ 64"
  shows "\<exists>t. ext4_bcache_invalidate_lba s from cnt = Some t \<and> cache_ok m t \<and>
      ((\<exists>a b. bufs s a = Some b \<and> lba b = from) \<longrightarrow>
        (\<forall>x. cview m t x = (if unat from \<le> unat x \<and> unat x < unat from + unat cnt then dblk m s x else cview m s x))) \<and>
      ((\<nexists>a b. bufs s a = Some b \<and> lba b = from) \<longrightarrow> t = s)"
proof -
  obtain t where t: "ext4_bcache_invalidate_lba s from cnt = Some t" "cache_ok m t"
    "\<forall>x. cview m t x = (if ext4_buf_lookup s from \<noteq> None \<and> from \<le> x \<and> unat x < unat from + unat cnt then dblk m s x else cview m s x)"
    using invalidate_lba_view [OF assms] by blast
  have cached: "ext4_buf_lookup s from \<noteq> None \<longleftrightarrow> (\<exists>a b. bufs s a = Some b \<and> lba b = from)"
    using lookup_cache [OF assms(1), of "from"] by (metis not_None_eq)
  moreover have "t = s" if "ext4_buf_lookup s from = None" using t(1) that by (simp add: ext4_bcache_invalidate_lba_def)
  ultimately show ?thesis using t by (auto simp: word_le_nat_alt)
qed

text \<open>A device on which block 3 has been changed through the cache: invalidating blocks 2 and 3 keeps the change.\<close>

definition ram_dirty :: "((nat \<Rightarrow> u8) \<times> bool list) ext4_blockdev" where
  "ram_dirty = (ram_dev 8 (\<lambda>_. 0, []))\<lparr>
     bc := (bc (ram_dev 8 (\<lambda>_. 0, [])))\<lparr>lru_ctr := 1, ref_blocks := 1, lba_root := [0], lru_root := [0], dirty_list := [0]\<rparr>,
     bufs := [0 \<mapsto> \<lparr>buf_flags = 3, lba = 3, buf_data = replicate 1024 7, lru_id = 1, refctr = 0, on_dirty_list = True\<rparr>], buf_next := 1\<rparr>"

lemma ram_dirty_ok: "cache_ok (ram_medium 8) ram_dirty"
  using ram_dev_ok [of 8 "(\<lambda>_. 0, [])"] ram_dev_geom [of 8 "(\<lambda>_. 0, [])"]
  by (simp add: cache_ok_def ram_dirty_def lba_ok_def lru_ok_def dirt_ok_def buf_ok_def test_flag_bit bc_bits hlba_def hlru_def)
    (simp add: ram_dev_def bit_numeral_rec)

theorem invalidate_lba_needs_first_block_witness:
  "\<exists>t. ext4_bcache_invalidate_lba ram_dirty 2 2 = Some t \<and> t = ram_dirty \<and> cview (ram_medium 8) t 3 = replicate 1024 7"
proof -
  have none: "\<nexists>a b. bufs ram_dirty a = Some b \<and> lba b = 2" by (simp add: ram_dirty_def)
  have b: "bufs ram_dirty 0 = Some \<lparr>buf_flags = 3, lba = 3, buf_data = replicate 1024 7, lru_id = 1, refctr = 0, on_dirty_list = True\<rparr>"
    by (simp add: ram_dirty_def)
  have "cview (ram_medium 8) ram_dirty 3 = replicate 1024 7"
    using cview_in [OF ram_dirty_ok b] by (simp add: test_flag_bit bc_bits)
  with invalidate_lba_needs_first_block [OF ram_dirty_ok, of 2 2] none show ?thesis by auto
qed

text \<open>
  C11: The byte functions of the block device implement an array of bytes, the contents of the
  partition. On a device that keeps its laws, is open and holds the range, \<open>ext4_block_writebytes\<close>
  returns, and when it reports success the array is the old one with exactly the bytes of the range
  replaced, whatever the alignment and the length; \<open>ext4_block_readbytes\<close> returns without changing
  the array, and when it reports success the buffer holds the bytes of the range. When no call of the
  driver fails both report success.
\<close>

theorem bytes_refine:
  assumes "dev_ok m s" and "ph_refctr (bdif s) \<noteq> 0" and "unat off + unat len \<le> unat (part_size s)" and "length b = unat len"
  shows "(\<exists>r s'. ext4_block_writebytes s off b len = Some (r, s') \<and> dev_ok m s' \<and> (never_fails (p_user (bdif s)) \<longrightarrow> r = EOK) \<and>
            (r = EOK \<longrightarrow> part_bytes m s' = patch (part_bytes m s) (unat off) b)) \<and>
         (\<exists>r xs s'. ext4_block_readbytes s off b len = Some (r, xs, s') \<and> dev_ok m s' \<and> part_bytes m s' = part_bytes m s \<and>
            (never_fails (p_user (bdif s)) \<longrightarrow> r = EOK) \<and> (r = EOK \<longrightarrow> xs = chunk (part_bytes m s) (unat off) (unat len)))"
proof
  note live = bytes_succeed [OF _ assms(2) in_range_check [OF assms(1,3)]]
  obtain r j where w: "ext4_block_writebytes s off b len = Some (r, s\<lparr>bdif := j\<rparr>)" "same_dev (bdif s) j"
    "r = EOK \<longrightarrow> m (obj (p_user j)) = patch (disk m s) (unat (part_offset s) + unat off) b"
    using writebytes_writes [OF assms] by blast
  have "part_bytes m (s\<lparr>bdif := j\<rparr>) = patch (part_bytes m s) (unat off) b" if "r = EOK"
    using part_bytes_patch [OF assms(1)] w(3) that assms(3,4) by simp
  with w(1,2) live(1) [OF _ w(1)] dev_ok_same [OF assms(1)]
  show "\<exists>r s'. ext4_block_writebytes s off b len = Some (r, s') \<and> dev_ok m s' \<and> (never_fails (p_user (bdif s)) \<longrightarrow> r = EOK) \<and>
      (r = EOK \<longrightarrow> part_bytes m s' = patch (part_bytes m s) (unat off) b)" by blast
  obtain r xs j where rd: "ext4_block_readbytes s off b len = Some (r, xs, s\<lparr>bdif := j\<rparr>)" "same_dev (bdif s) j"
    "m (obj (p_user j)) = disk m s" "r = EOK \<longrightarrow> xs = chunk (disk m s) (unat (part_offset s) + unat off) (unat len)"
    using readbytes_reads [OF assms] by blast
  have "part_bytes m (s\<lparr>bdif := j\<rparr>) = part_bytes m s" using rd(3) by (simp add: part_bytes_def)
  moreover have "chunk (disk m s) (unat (part_offset s) + unat off) (unat len) = chunk (part_bytes m s) (unat off) (unat len)"
    using assms(3) by (simp add: part_bytes_def chunk_chunk)
  ultimately show "\<exists>r xs s'. ext4_block_readbytes s off b len = Some (r, xs, s') \<and> dev_ok m s' \<and> part_bytes m s' = part_bytes m s \<and>
      (never_fails (p_user (bdif s)) \<longrightarrow> r = EOK) \<and> (r = EOK \<longrightarrow> xs = chunk (part_bytes m s) (unat off) (unat len))"
    using rd(1,4) live(2) [OF _ rd(1)] dev_ok_same [OF assms(1) rd(2)] by (intro exI [of _ r] exI [of _ xs] exI [of _ "s\<lparr>bdif := j\<rparr>"]) simp
qed

theorem bytes_refine_witness:
  "\<exists>r s'. ext4_block_writebytes (ram_dev 8 (\<lambda>_. 0, [])) 510 [1, 2, 3] 3 = Some (r, s') \<and> dev_ok (ram_medium 8) s' \<and> r = EOK \<and>
      part_bytes (ram_medium 8) s' = patch (part_bytes (ram_medium 8) (ram_dev 8 (\<lambda>_. 0, []))) 510 [1, 2, 3]"
proof -
  have "unat (510 :: u64) + unat (3 :: u32) \<le> unat (part_size (ram_dev 8 (\<lambda>_. 0, [])))"
    and "ph_refctr (bdif (ram_dev 8 (\<lambda>_. 0, []))) \<noteq> 0"
    by (simp_all add: ram_dev_def)
  moreover have "never_fails (p_user (bdif (ram_dev 8 (\<lambda>_. 0, []))))" using ram_live by (auto simp: live_def)
  ultimately show ?thesis using bytes_refine [OF ram_dev_ok, of 8 "(\<lambda>_. 0, [])" 510 3 "[1, 2, 3]"] by auto
qed

end
