(* ===== verification/Spec2Isabelle.thy ===== *)
theory Spec2Isabelle
  imports Klib_String Klib_Qsort Kheap Ext4_Bitmap Ext4_Bgroup Ext4_Inode Ext4_Hash Riscv_Boot Fdt_Sw Ext4_Store
begin

text \<open>
  A verification library for KernelX, a Unix-like kernel for riscv64: its C library and heap, its boot
  code with the device tree library libfdt, and the parts of lwext4, its file system library, up to
  the cached block device, with the Rust layers that connect lwext4 to a disk driver.

  \<^bold>\<open>The program.\<close> At boot \<open>__riscv_init\<close> (\<open>src/clib/src/arch/riscv/entry/init.c\<close>) copies the device tree of
  the firmware, reads the end of memory from it (\<open>fdt.c\<close> over libfdt) and builds the first page table
  (\<open>mapkernel.c\<close>). The kernel then calls \<open>init_heap\<close> (\<open>src/clib/src/klib/malloc.c\<close>) and serves all its
  allocations from the TLSF allocator (\<open>src/clib/lib/tlsf\<close>). The file system is lwext4
  (\<open>src/lib/lwext4_rust/c/lwext4\<close>): it reaches the disk through a buffer cache, a block device with
  callbacks into Rust (\<open>lwext4_rust/src/blockdev.rs\<close>), the adapter \<open>src/src/fs/ext4/superblock.rs\<close> and the
  driver interface \<open>src/src/driver/driver.rs\<close>.

  \<^bold>\<open>Conventions.\<close> C integers are words of their width (\<open>u8\<close> to \<open>u64\<close> of \<^verbatim>\<open>KPrelude\<close>), so that wrap-around is
  that of the code; signed arithmetic whose overflow is undefined is checked. A result \<open>None\<close> is
  undefined behaviour, an assertion or check that does not hold, a Rust panic or a loop that does not
  end; error codes are ordinary results. The assertions of lwext4 are compiled out of the kernel's build;
  that the operations return shows that they hold. The products in the callbacks of \<open>blockdev.rs\<close> wrap, as in
  a release build. Checks that cannot fail are left out: the
  buffer of a block just allocated is not tested for null. State is passed explicitly: the memory of the heap is a
  function from addresses to words, a device tree a buffer of bytes, the block device a record with the
  heap of buffers. Loops are structural recursion, \<open>function\<close> with a termination proof or
  \<open>partial_function\<close>, and the theorems state that they return.

  \<^bold>\<open>Theories.\<close>
  \<^item> \<^verbatim>\<open>KPrelude\<close>, \<^verbatim>\<open>Bytes\<close>: word types, shared facts, parts of byte buffers.
  \<^item> \<^verbatim>\<open>Klib_String\<close>, \<^verbatim>\<open>Klib_Qsort\<close>: \<open>string.c\<close> and \<open>stdlib.c\<close>. Each string function equals its specification on
    terminated strings; \<open>qsort\<close> ends and permutes its array; one array it leaves unsorted is evaluated.
  \<^item> \<^verbatim>\<open>Tlsf_Bits\<close>, \<^verbatim>\<open>Tlsf_Heap\<close>, \<^verbatim>\<open>Tlsf_Api\<close>: all of \<open>tlsf.c\<close> and \<open>malloc.c\<close>. \<^verbatim>\<open>Tlsf_Layout\<close> (blocks in memory),
    \<^verbatim>\<open>Tlsf_Lists\<close> (free lists and bitmaps), \<^verbatim>\<open>Tlsf_Inv\<close> (invariant kept by \<open>malloc\<close> and \<open>free\<close>) and \<^verbatim>\<open>Tlsf_Correct\<close>
    (creation and the integrity checks) carry \<^verbatim>\<open>Kheap\<close>, where the locale \<open>allocator\<close> states what a heap
    promises and the kernel's \<open>malloc\<close> and \<open>free\<close> are an interpretation of it, and where a pool of the
    maximal block size is shown to overrun the control structure.
  \<^item> \<^verbatim>\<open>Fdt_Core\<close>, \<^verbatim>\<open>Fdt_Ro\<close>, \<^verbatim>\<open>Fdt_Rw\<close>, \<^verbatim>\<open>Fdt_Sw\<close>: libfdt. \<^verbatim>\<open>Fdt_Safe\<close> shows that the readers stay inside the buffer
    and end on arbitrary contents in which no property length comes within 16 bytes of the largest \<open>int\<close>, where
    the tag reader overflows; \<^verbatim>\<open>Fdt_Tree\<close> that on the encoding of a tree they return what the tree
    holds. The two theories of writers hold executable models only.
  \<^item> \<^verbatim>\<open>Riscv_Map\<close>, \<^verbatim>\<open>Riscv_Kspace\<close>, \<^verbatim>\<open>Riscv_Boot\<close>: \<open>mapkernel.c\<close>, \<open>fdt.c\<close> and \<open>init.c\<close>. The table is read back by a
    three level walk; the lemmas give the address space after each step and after the whole boot stage.
  \<^item> \<^verbatim>\<open>Ext4_Types\<close>, \<^verbatim>\<open>Ext4_Bitmap\<close>, \<^verbatim>\<open>Ext4_Crc\<close>, \<^verbatim>\<open>Ext4_Super\<close>, \<^verbatim>\<open>Ext4_Bgroup\<close>, \<^verbatim>\<open>Ext4_Inode\<close>, \<^verbatim>\<open>Ext4_Hash\<close>: the on-disk
    structures as byte images with the accessors of lwext4, bitmaps, checksums (one locale \<open>crc_table\<close>,
    interpreted for the three tables), superblock, descriptors, inodes and directory hashes. The setters of
    descriptors and inodes are updates of one field of a record view.
  \<^item> \<^verbatim>\<open>Block_Driver\<close>: the driver interface. The two methods that reach the hardware are parameters, and
    \<open>driver_laws\<close> states what the code relies on: whole blocks of 512 bytes, and when a call reports
    success, that it has read or written its block. A call may fail at any time.
  \<^item> \<^verbatim>\<open>Ext4_Blockdev\<close>: all operations of \<open>ext4_blockdev.c\<close>, \<open>ext4_bcache.c\<close> and \<open>ext4_trans.c\<close> and the callbacks of
    \<open>blockdev.rs\<close>. The red-black trees are the sequences of their nodes in the order of the comparison
    functions; a buffer pointer is an address of the heap of buffers.
  \<^item> \<^verbatim>\<open>Ext4_Device\<close>: what the device does to the medium. \<^verbatim>\<open>Ext4_Cache\<close>: the invariant \<open>cache_ok\<close> of the cache, the
    view \<open>cview\<close> of the device through it, and the relation \<open>keeps\<close> that each operation establishes.
    \<^verbatim>\<open>Ext4_Live\<close>: no operation reports an error unless the driver or the allocator fails. \<^verbatim>\<open>Ext4_Store\<close>: the
    locales \<open>block_store\<close> and \<open>atomic_block_store\<close>, the first interpreted for the bare device and the second
    for the cached one, opening the device, and the invalidation of a range.

  \<^bold>\<open>Bounds.\<close> The search for a path in a device tree follows an alias at most once, since the path an alias
  holds must be absolute; the model takes 2 as fuel for it. The theorems on encoded trees assume that
  the tree fits the 31 bit offsets of libfdt. The heap theorems cover one pool of the sizes that
  \<open>tlsf_add_pool\<close> accepts except the largest, 4 GiB, at which it overruns its table. The page table theorems assume memory below 4 GiB, since the code cuts the end
  of memory to 32 bits. The counter that orders buffers by their last use has 32 bits; the theorems on
  the cache cover up to \<open>2 ^ 32 - 1\<close> operations from a fresh cache, after which the code reuses numbers.
  Block 0 is not taken through the cache, since \<open>ext4_bcache_free\<close> asserts a block number other than 0.

  \<^bold>\<open>Not modelled.\<close> Assembly code, the vDSO and the test programs. In libfdt \<open>fdt_open_into\<close>, \<open>fdt_resize\<close> and
  \<open>fdt_create_empty_tree\<close>, which work on two overlapping buffers, and overlays, which the kernel does not
  use. In lwext4 the journal, which the kernel does not open, and the layers above the cached device:
  allocation, extents, directories, extended attributes, files and \<open>mkfs\<close>; they hold references to
  several blocks at a time inside structures of an open file system. The lock callbacks of the device,
  which the kernel does not set, and the \<open>end_write\<close> callbacks of buffers, which only the journal sets. The
  rest of the Rust kernel: tasks, scheduling, address spaces, the virtual file system and the system
  calls work on reference counted objects shared between harts, and the device drivers are register
  access and third-party crates.
\<close>

end
